(* ===== verification/Bulwark_Prelude.thy ===== *)
theory Bulwark_Prelude
  imports Main "HOL-Library.Word" "HOL-Library.Char_ord" "HOL-Library.List_Lexorder"
begin

text \<open>
  Shared vocabulary of the development: machine-integer types, the string and slice
  operations of the Rust standard library that the sources use, and the lemmas about
  them that the component theories share.

  A Rust \<open>&str\<close> is the list of its UTF-8 bytes (one \<open>char\<close> per byte), so that \<open>len\<close>,
  indexing and slicing count what Rust counts. A read outside a slice, or a slice of a
  string that does not start and end on a character boundary, panics in Rust; here it is
  \<open>None\<close>.
\<close>

named_theorems panic_free
  \<comment> \<open>conditions under which an indexing operation returns \<open>Some\<close>\<close>

type_synonym u8 = "8 word"
type_synonym u16 = "16 word"
type_synonym u32 = "32 word"
type_synonym u64 = "64 word"

subsection \<open>Slices\<close>

definition nth_opt :: "'a list \<Rightarrow> nat \<Rightarrow> 'a option" where
  "nth_opt xs i = (if i < length xs then Some (xs ! i) else None)"

definition slice :: "'a list \<Rightarrow> nat \<Rightarrow> nat \<Rightarrow> 'a list option" where
  "slice xs a b = (if a \<le> b \<and> b \<le> length xs then Some (take (b - a) (drop a xs)) else None)"

fun chunks :: "nat \<Rightarrow> 'a list \<Rightarrow> 'a list list" where
  "chunks n [] = []"
| "chunks n (x # xs) = (if n = 0 then [] else take n (x # xs) # chunks n (drop n (x # xs)))"

primrec mapM_opt :: "('a \<Rightarrow> 'b option) \<Rightarrow> 'a list \<Rightarrow> 'b list option" where
  "mapM_opt f [] = Some []"
| "mapM_opt f (x # xs) =
     (case f x of None \<Rightarrow> None
      | Some y \<Rightarrow> (case mapM_opt f xs of None \<Rightarrow> None | Some ys \<Rightarrow> Some (y # ys)))"

primrec find_map :: "('a \<Rightarrow> 'b option) \<Rightarrow> 'a list \<Rightarrow> 'b option" where
  "find_map f [] = None"
| "find_map f (x # xs) = (case f x of None \<Rightarrow> find_map f xs | Some y \<Rightarrow> Some y)"

subsection \<open>Bytes and ASCII classes\<close>

abbreviation code :: "char \<Rightarrow> int" where
  "code c \<equiv> of_char c"

definition is_ascii_uppercase :: "char \<Rightarrow> bool" where
  "is_ascii_uppercase c = (65 \<le> code c \<and> code c \<le> 90)"

definition is_ascii_lowercase :: "char \<Rightarrow> bool" where
  "is_ascii_lowercase c = (97 \<le> code c \<and> code c \<le> 122)"

definition is_ascii_digit :: "char \<Rightarrow> bool" where
  "is_ascii_digit c = (48 \<le> code c \<and> code c \<le> 57)"

definition is_ascii_alphanumeric :: "char \<Rightarrow> bool" where
  "is_ascii_alphanumeric c = (is_ascii_uppercase c \<or> is_ascii_lowercase c \<or> is_ascii_digit c)"

definition lower :: "char \<Rightarrow> char" where
  "lower c = (if is_ascii_uppercase c then char_of (code c + 32) else c)"

definition upper :: "char \<Rightarrow> char" where
  "upper c = (if is_ascii_lowercase c then char_of (code c - 32) else c)"

definition to_ascii_lowercase :: "string \<Rightarrow> string" where
  "to_ascii_lowercase = map lower"

definition to_ascii_uppercase :: "string \<Rightarrow> string" where
  "to_ascii_uppercase = map upper"

definition eq_ignore_ascii_case :: "string \<Rightarrow> string \<Rightarrow> bool" where
  "eq_ignore_ascii_case a b = (to_ascii_lowercase a = to_ascii_lowercase b)"

subsection \<open>Searching and splitting\<close>

definition starts_with :: "string \<Rightarrow> string \<Rightarrow> bool" where
  "starts_with s p = (take (length p) s = p)"

definition ends_with :: "string \<Rightarrow> string \<Rightarrow> bool" where
  "ends_with s p = (length p \<le> length s \<and> drop (length s - length p) s = p)"

definition strip_prefix :: "string \<Rightarrow> string \<Rightarrow> string option" where
  "strip_prefix s p = (if starts_with s p then Some (drop (length p) s) else None)"

definition strip_suffix :: "string \<Rightarrow> string \<Rightarrow> string option" where
  "strip_suffix s p = (if ends_with s p then Some (take (length s - length p) s) else None)"

primrec str_contains :: "string \<Rightarrow> char \<Rightarrow> bool" where
  "str_contains [] c = False"
| "str_contains (x # xs) c = (x = c \<or> str_contains xs c)"

primrec find_char :: "string \<Rightarrow> char \<Rightarrow> nat option" where
  "find_char [] c = None"
| "find_char (x # xs) c = (if x = c then Some 0 else map_option Suc (find_char xs c))"

fun find_str :: "string \<Rightarrow> string \<Rightarrow> nat option" where
  "find_str s p =
     (if starts_with s p then Some 0
      else case s of [] \<Rightarrow> None | x # xs \<Rightarrow> map_option Suc (find_str xs p))"

definition split_once :: "string \<Rightarrow> char \<Rightarrow> (string \<times> string) option" where
  "split_once s c = map_option (\<lambda>i. (take i s, drop (Suc i) s)) (find_char s c)"

definition split_once_str :: "string \<Rightarrow> string \<Rightarrow> (string \<times> string) option" where
  "split_once_str s p = map_option (\<lambda>i. (take i s, drop (i + length p) s)) (find_str s p)"

definition rsplit_once :: "string \<Rightarrow> char \<Rightarrow> (string \<times> string) option" where
  "rsplit_once s c =
     map_option (\<lambda>i. (take (length s - Suc i) s, drop (length s - i) s)) (find_char (rev s) c)"

fun split_char :: "char \<Rightarrow> string \<Rightarrow> string list" where
  "split_char c s =
     (case s of [] \<Rightarrow> [[]]
      | x # xs \<Rightarrow>
          if x = c then [] # split_char c xs
          else (case split_char c xs of [] \<Rightarrow> [[x]] | p # ps \<Rightarrow> (x # p) # ps))"

fun splitn :: "nat \<Rightarrow> char \<Rightarrow> string \<Rightarrow> string list" where
  "splitn 0 c s = []"
| "splitn (Suc 0) c s = [s]"
| "splitn (Suc (Suc n)) c s =
     (case split_once s c of None \<Rightarrow> [s] | Some (a, b) \<Rightarrow> a # splitn (Suc n) c b)"

fun join :: "string \<Rightarrow> string list \<Rightarrow> string" where
  "join sep [] = []"
| "join sep [x] = x"
| "join sep (x # y # xs) = x @ sep @ join sep (y # xs)"

definition trim_end_matches :: "char \<Rightarrow> string \<Rightarrow> string" where
  "trim_end_matches c s = rev (dropWhile (\<lambda>x. x = c) (rev s))"

definition trim_matches :: "char \<Rightarrow> string \<Rightarrow> string" where
  "trim_matches c s = trim_end_matches c (dropWhile (\<lambda>x. x = c) s)"

subsection \<open>White space\<close>

text \<open>
  \<open>ws_len s\<close> is the number of bytes of the Unicode \<open>White_Space\<close> character that starts
  \<open>s\<close>, and \<open>0\<close> when \<open>s\<close> does not start with one: the five control characters and the
  space, U+0085, U+00A0, U+1680, U+2000 to U+200A, U+2028, U+2029, U+202F, U+205F, U+3000.
\<close>

definition ws_len :: "string \<Rightarrow> nat" where
  "ws_len s =
     (case s of [] \<Rightarrow> 0
      | a # s1 \<Rightarrow>
        if 9 \<le> code a \<and> code a \<le> 13 \<or> code a = 32 then 1
        else case s1 of [] \<Rightarrow> 0
          | b # s2 \<Rightarrow>
            if code a = 194 \<and> (code b = 133 \<or> code b = 160) then 2
            else case s2 of [] \<Rightarrow> 0
              | c # _ \<Rightarrow>
                if code a = 225 \<and> code b = 154 \<and> code c = 128
                   \<or> code a = 226 \<and> code b = 128 \<and>
                       (128 \<le> code c \<and> code c \<le> 138 \<or> code c = 168 \<or> code c = 169 \<or> code c = 175)
                   \<or> code a = 226 \<and> code b = 129 \<and> code c = 159
                   \<or> code a = 227 \<and> code b = 128 \<and> code c = 128
                then 3 else 0)"

definition ws_end_len :: "string \<Rightarrow> nat" where
  "ws_end_len s =
     (let n = length s in
      if 1 \<le> n \<and> ws_len (drop (n - 1) s) = 1 then 1
      else if 2 \<le> n \<and> ws_len (drop (n - 2) s) = 2 then 2
      else if 3 \<le> n \<and> ws_len (drop (n - 3) s) = 3 then 3 else 0)"

lemma ws_len_le: "ws_len s \<le> length s"
  by (auto simp: ws_len_def split: list.splits)

lemma ws_end_len_le: "ws_end_len s \<le> length s"
  by (auto simp: ws_end_len_def Let_def)

function trim_start :: "string \<Rightarrow> string" where
  "trim_start s = (if ws_len s = 0 then s else trim_start (drop (ws_len s) s))"
  by pat_completeness auto
termination
proof (relation "measure length", goal_cases)
  case (2 s)
  then show ?case using ws_len_le [of s] by simp
qed simp

function trim_end :: "string \<Rightarrow> string" where
  "trim_end s =
     (if ws_end_len s = 0 then s else trim_end (take (length s - ws_end_len s) s))"
  by pat_completeness auto
termination
proof (relation "measure length", goal_cases)
  case (2 s)
  then show ?case using ws_end_len_le [of s] by simp
qed simp

declare trim_start.simps [simp del] trim_end.simps [simp del]

definition trim :: "string \<Rightarrow> string" where
  "trim s = trim_end (trim_start s)"

function split_ws_from :: "string \<Rightarrow> string \<Rightarrow> string list" where
  "split_ws_from acc s =
     (case s of [] \<Rightarrow> (if acc = [] then [] else [acc])
      | x # xs \<Rightarrow>
          if ws_len s = 0 then split_ws_from (acc @ [x]) xs
          else (if acc = [] then [] else [acc]) @ split_ws_from [] (drop (ws_len s) s))"
  by pat_completeness auto
termination
  by (relation "measure (\<lambda>(acc, s). length s)") auto

declare split_ws_from.simps [simp del]

definition split_whitespace :: "string \<Rightarrow> string list" where
  "split_whitespace s = split_ws_from [] s"

subsection \<open>String slices\<close>

definition continuation_byte :: "char \<Rightarrow> bool" where
  "continuation_byte c = (128 \<le> code c \<and> code c < 192)"

definition char_boundary :: "string \<Rightarrow> nat \<Rightarrow> bool" where
  "char_boundary s i =
     (i = 0 \<or> i = length s \<or> i < length s \<and> \<not> continuation_byte (s ! i))"

definition str_slice :: "string \<Rightarrow> nat \<Rightarrow> nat \<Rightarrow> string option" where
  "str_slice s a b =
     (if char_boundary s a \<and> char_boundary s b then slice s a b else None)"

subsection \<open>Lines\<close>

definition strip_cr :: "string \<Rightarrow> string" where
  "strip_cr s = (case strip_suffix s [CHR 0x0D] of None \<Rightarrow> s | Some r \<Rightarrow> r)"

text \<open>
  \<open>str::lines\<close> yields the pieces between line feeds. A piece that a line feed ends loses one
  carriage return; a last piece that no line feed ends keeps it, and is not yielded when it
  is empty.
\<close>

definition lines :: "string \<Rightarrow> string list" where
  "lines s =
     (let ps = split_char (CHR 0x0A) s in
      map strip_cr (butlast ps) @ (if last ps = [] then [] else [last ps]))"

subsection \<open>Shared lemmas\<close>

lemma last_take_nth: "0 < i \<Longrightarrow> i \<le> length xs \<Longrightarrow> last (take i xs) = xs ! (i - 1)"
  by (subst last_conv_nth) auto

lemma nth_opt_Some [panic_free]: "i < length xs \<Longrightarrow> nth_opt xs i = Some (xs ! i)"
  by (simp add: nth_opt_def)

lemma slice_Some [panic_free]:
  "a \<le> b \<Longrightarrow> b \<le> length xs \<Longrightarrow> slice xs a b = Some (take (b - a) (drop a xs))"
  by (simp add: slice_def)

lemma set_trim_start: "set (trim_start s) \<subseteq> set s"
proof (induction s rule: trim_start.induct)
  case (1 s)
  then show ?case
    using set_drop_subset [of "ws_len s" s] by (subst trim_start.simps) auto
qed

lemma set_trim_end: "set (trim_end s) \<subseteq> set s"
proof (induction s rule: trim_end.induct)
  case (1 s)
  then show ?case
    using set_take_subset [of "length s - ws_end_len s" s] by (subst trim_end.simps) auto
qed

lemma set_trim: "set (trim s) \<subseteq> set s"
  using set_trim_start set_trim_end unfolding trim_def by blast

lemma set_trim_end_matches: "set (trim_end_matches c s) \<subseteq> set s"
  by (auto simp: trim_end_matches_def dest: set_dropWhileD)

lemma set_strip_prefix: "strip_prefix s p = Some r \<Longrightarrow> set r \<subseteq> set s"
  by (auto simp: strip_prefix_def split: if_splits dest: in_set_dropD)

lemma set_strip_suffix: "strip_suffix s p = Some r \<Longrightarrow> set r \<subseteq> set s"
  by (auto simp: strip_suffix_def split: if_splits dest: in_set_takeD)

lemmas set_subset_lemmas = set_trim set_trim_end_matches set_strip_prefix set_strip_suffix

lemma str_contains_iff: "str_contains s c \<longleftrightarrow> c \<in> set s"
  by (induction s) auto

lemma unat_word_of_nat_less: "n < 2 ^ LENGTH('a::len) \<Longrightarrow> unat (word_of_nat n :: 'a word) = n"
  by (simp add: unat_of_nat take_bit_nat_eq_self)

lemma sorted_dropWhile_neq:
  fixes ps :: "('k::linorder \<times> 'v) list"
  assumes "sorted (map fst ps)" "\<forall>p \<in> set ps. k \<le> fst p"
  shows "\<forall>p \<in> set (dropWhile (\<lambda>p. fst p = k) ps). fst p \<noteq> k"
  using assms
proof (induction ps)
  case (Cons q ps)
  show ?case
  proof (cases "fst q = k")
    case True
    then have "dropWhile (\<lambda>p. fst p = k) (q # ps) = dropWhile (\<lambda>p. fst p = k) ps" by simp
    moreover have "sorted (map fst ps)" "\<forall>p \<in> set ps. k \<le> fst p" using Cons.prems by simp_all
    note Cons.IH [OF this]
    ultimately show ?thesis by (simp only: not_False_eq_True)
  next
    case False
    then have "k < fst q" using Cons.prems(2) by (simp add: order.strict_iff_order)
    moreover have "\<forall>p \<in> set ps. fst q \<le> fst p" using Cons.prems(1) by simp
    ultimately have "k < fst p" if "p \<in> set (q # ps)" for p
      using that by (cases "p = q") (simp_all, blast intro: order_less_le_trans)
    moreover have "dropWhile (\<lambda>p. fst p = k) (q # ps) = q # ps" using False by simp
    ultimately show ?thesis by (simp only:) (blast dest: less_imp_neq)
  qed
qed simp

lemma sorted_runs:
  fixes ps :: "('k::linorder \<times> 'v) list"
  assumes "sorted (map fst ps)" "\<forall>p \<in> set ps. k \<le> fst p"
  defines "tw \<equiv> takeWhile (\<lambda>p. fst p = k) ps" and "dw \<equiv> dropWhile (\<lambda>p. fst p = k) ps"
  shows "k \<notin> fst ` set dw"
    and "filter (\<lambda>p. fst p = k) ps = tw"
    and "h \<noteq> k \<Longrightarrow> filter (\<lambda>p. fst p = h) ps = filter (\<lambda>p. fst p = h) dw"
    and "h \<noteq> k \<Longrightarrow> h \<in> fst ` set ps \<longleftrightarrow> h \<in> fst ` set dw"
proof -
  have split: "ps = tw @ dw" by (simp add: tw_def dw_def)
  have neq: "\<forall>p \<in> set dw. fst p \<noteq> k"
    unfolding dw_def using assms(1,2) by (rule sorted_dropWhile_neq)
  then show "k \<notin> fst ` set dw" by blast
  have tw: "filter (\<lambda>p. fst p = h) tw = (if h = k then tw else [])" for h
    by (auto simp: tw_def filter_id_conv filter_empty_conv dest: set_takeWhileD)
  have dw: "filter (\<lambda>p. fst p = k) dw = []" using neq unfolding filter_empty_conv by blast
  show "filter (\<lambda>p. fst p = k) ps = tw" using tw [of k] dw unfolding split by simp
  show "filter (\<lambda>p. fst p = h) ps = filter (\<lambda>p. fst p = h) dw" if "h \<noteq> k"
    using tw [of h] that unfolding split by simp
  have "fst p = k" if "p \<in> set tw" for p using that by (auto simp: tw_def dest: set_takeWhileD)
  then show "h \<in> fst ` set ps \<longleftrightarrow> h \<in> fst ` set dw" if "h \<noteq> k"
    using that unfolding split by auto
qed

lemma find_char_None: "find_char s c = None \<longleftrightarrow> c \<notin> set s"
  by (induction s) auto

lemma find_char_split: "find_char s c = Some i \<Longrightarrow> s = take i s @ c # drop (Suc i) s \<and> c \<notin> set (take i s)"
  by (induction s arbitrary: i) (auto split: if_splits)

lemma concat_chunks: "0 < n \<Longrightarrow> concat (chunks n xs) = xs"
  by (induction n xs rule: chunks.induct) auto

lemma mapM_opt_nth: "\<forall>i \<in> set is. i < length xs \<Longrightarrow> mapM_opt (nth_opt xs) is = Some (map ((!) xs) is)"
  by (induction "is") (auto simp: nth_opt_def)

lemma mapM_opt_nth_filter:
  "mapM_opt (nth_opt xs) (filter (\<lambda>i. P (xs ! i)) [0..<length xs]) = Some (filter P xs)"
proof -
  have "filter P (map ((!) xs) [0..<length xs]) = map ((!) xs) (filter (\<lambda>i. P (xs ! i)) [0..<length xs])"
    by (simp add: filter_map comp_def del: map_nth)
  then show ?thesis by (subst mapM_opt_nth) (auto simp: map_nth)
qed

subsection \<open>Filters, enumerations and arenas\<close>

definition starts_char :: "string \<Rightarrow> bool" where
  "starts_char s \<longleftrightarrow> s = [] \<or> \<not> continuation_byte (hd s)"

lemma map_filter_append: "List.map_filter f (xs @ ys) = List.map_filter f xs @ List.map_filter f ys"
  by (simp add: map_filter_def)

lemma map_filter_Cons:
  "List.map_filter f (x # xs) = (case f x of None \<Rightarrow> [] | Some y \<Rightarrow> [y]) @ List.map_filter f xs"
  by (auto simp: map_filter_def)

lemma map_filter_Nil: "List.map_filter f [] = []"
  by (simp add: map_filter_def)

lemma length_map_filter: "length (List.map_filter f xs) \<le> length xs"
  by (simp add: map_filter_def)

lemma enumerate_snoc: "enumerate n (xs @ [x]) = enumerate n xs @ [(n + length xs, x)]"
  by (simp add: enumerate_append_eq)

lemma records_snoc:
  "map (\<lambda>i. f (take i (xs @ [x])) ((xs @ [x]) ! i)) [0..<length (xs @ [x])] =
   map (\<lambda>i. f (take i xs) (xs ! i)) [0..<length xs] @ [f xs x]"
  by (auto simp: nth_append)

lemma starts_char_append: "starts_char a \<Longrightarrow> starts_char b \<Longrightarrow> starts_char (a @ b)"
  by (cases a) (auto simp: starts_char_def)

lemma starts_char_concat: "\<forall>s \<in> set ss. starts_char s \<Longrightarrow> starts_char (concat ss)"
  by (induction ss) (simp_all add: starts_char_append, simp add: starts_char_def)

lemma char_boundary_append: "starts_char b \<Longrightarrow> char_boundary (a @ b) (length a)"
  by (cases b) (auto simp: char_boundary_def starts_char_def nth_append)

lemma char_boundary_inside:
  "char_boundary s n \<Longrightarrow> starts_char s \<Longrightarrow> starts_char c \<Longrightarrow> n \<le> length s
   \<Longrightarrow> char_boundary (a @ s @ c) (length a + n)"
  using char_boundary_append [of c "a @ s"] char_boundary_append [OF starts_char_append, of s c a]
  by (auto simp: char_boundary_def nth_append)

lemma str_slice_arena:
  assumes "starts_char s" "starts_char c" "char_boundary s n" "n \<le> length s"
  shows "str_slice (a @ s @ c) (length a) (length a + n) = Some (take n s)"
proof -
  have "char_boundary (a @ s @ c) (length a)"
    using assms(1,2) by (intro char_boundary_append starts_char_append)
  moreover have "char_boundary (a @ s @ c) (length a + n)" using assms by (intro char_boundary_inside)
  ultimately show ?thesis using assms(4) by (simp add: str_slice_def slice_def)
qed

lemma split_at: "i < length xs \<Longrightarrow> xs = take i xs @ [xs ! i] @ drop (Suc i) xs"
  by (simp add: Cons_nth_drop_Suc)

lemma concat_split_at:
  "i < length xs \<Longrightarrow> concat (map f xs) = concat (map f (take i xs)) @ f (xs ! i) @ concat (map f (drop (Suc i) xs))"
  by (subst split_at [of i xs]) (simp_all only: map_append concat_append list.map concat.simps append_Nil2)

lemma map_filter_nth:
  assumes "i < length xs" "f (xs ! i) = Some y"
  shows "nth_opt (List.map_filter f xs) (length (List.map_filter f (take i xs))) = Some y"
proof -
  have "List.map_filter f xs = List.map_filter f (take i xs) @ y # List.map_filter f (drop (Suc i) xs)"
    using assms by (subst split_at [of i xs]) (simp_all only: map_filter_append map_filter_Cons option.case append_Cons append_Nil)
  then show ?thesis by (simp add: nth_opt_def nth_append)
qed

lemma arena_start_le: "length (concat (map f (take i rs))) \<le> length (concat (map f rs))"
  by (metis append_take_drop_id concat_append length_append le_add1 map_append)

lemma take_min_length: "take (min (length s) n) s = take n s"
  by (simp add: min_def)

lemma map_filter_set: "y \<in> set (List.map_filter f xs) \<longleftrightarrow> (\<exists>x \<in> set xs. f x = Some y)"
  by (force simp: map_filter_def)

lemma map_filter_enumerate:
  "y \<in> set (List.map_filter f (enumerate 0 xs)) \<longleftrightarrow> (\<exists>i < length xs. f (i, xs ! i) = Some y)"
proof -
  have "set (enumerate 0 xs) = (\<lambda>i. (i, xs ! i)) ` {..<length xs}"
    by (force simp: set_conv_nth nth_enumerate_eq)
  then show ?thesis by (auto simp: map_filter_set)
qed

subsection \<open>Trimming and splitting do not add text\<close>

lemma length_trim_start: "length (trim_start s) \<le> length s"
proof (induction s rule: trim_start.induct)
  case (1 s)
  then show ?case by (subst trim_start.simps) force
qed

lemma length_trim_end: "length (trim_end s) \<le> length s"
proof (induction s rule: trim_end.induct)
  case (1 s)
  then show ?case by (subst trim_end.simps) force
qed

lemma length_trim: "length (trim s) \<le> length s"
  unfolding trim_def using length_trim_start [of s] length_trim_end [of "trim_start s"] by simp

lemma length_trim_end_matches: "length (trim_end_matches c s) \<le> length s"
  using length_dropWhile_le [of "\<lambda>x. x = c" "rev s"] by (simp add: trim_end_matches_def)

lemma length_strip_prefix: "strip_prefix s p = Some r \<Longrightarrow> length r \<le> length s"
  by (auto simp: strip_prefix_def split: if_splits)

lemma length_strip_suffix: "strip_suffix s p = Some r \<Longrightarrow> length r \<le> length s"
  by (auto simp: strip_suffix_def split: if_splits)

declare split_char.simps [simp del]

lemma split_char_Nil: "split_char c [] = [[]]"
  by (simp add: split_char.simps)

lemma split_char_nonempty: "split_char c s \<noteq> []"
  by (cases s) (auto simp: split_char.simps split: list.splits)

lemma split_char_Cons:
  "split_char c (x # xs) =
     (if x = c then [] # split_char c xs
      else (x # hd (split_char c xs)) # tl (split_char c xs))"
  using split_char_nonempty [of c xs] by (subst split_char.simps) (auto split: list.splits)

lemma split_char_size: "sum_list (map (\<lambda>p. length p + 1) (split_char c s)) = length s + 1"
proof (induction s)
  case (Cons x xs)
  then show ?case using split_char_nonempty [of c xs]
    by (cases "split_char c xs") (auto simp: split_char_Cons)
qed (simp add: split_char_Nil)

lemma split_char_set: "p \<in> set (split_char c s) \<Longrightarrow> set p \<subseteq> set s"
proof (induction s arbitrary: p)
  case (Cons x xs)
  then show ?case using split_char_nonempty [of c xs]
    by (cases "split_char c xs") (fastforce simp: split_char_Cons split: if_splits)+
qed (simp add: split_char_Nil)

lemma strip_cr_le: "length (strip_cr s) \<le> length s" "set (strip_cr s) \<subseteq> set s"
  by (auto simp: strip_cr_def split: option.splits dest: length_strip_suffix set_strip_suffix)

lemma lines_size: "sum_list (map (\<lambda>l. length l + 1) (lines s)) \<le> length s + 1"
proof -
  let ?ps = "split_char (CHR 0x0A) s"
  have "?ps \<noteq> []" by (rule split_char_nonempty)
  then have ps: "?ps = butlast ?ps @ [last ?ps]" by simp
  have "sum_list (map (\<lambda>l. length (strip_cr l) + 1) (butlast ?ps)) \<le> sum_list (map (\<lambda>l. length l + 1) (butlast ?ps))"
    by (rule sum_list_mono) (simp add: strip_cr_le)
  moreover have "sum_list (map (\<lambda>l. length l + 1) (butlast ?ps)) + (length (last ?ps) + 1) = length s + 1"
    using split_char_size [of "CHR 0x0A" s] by (subst (asm) ps) simp
  ultimately show ?thesis by (auto simp: lines_def Let_def comp_def)
qed

lemma lines_set: "l \<in> set (lines s) \<Longrightarrow> set l \<subseteq> set s"
proof -
  let ?ps = "split_char (CHR 0x0A) s"
  assume "l \<in> set (lines s)"
  then obtain p where "p \<in> set ?ps" "l = strip_cr p \<or> l = p"
    using split_char_nonempty [of "CHR 0x0A" s]
    by (auto simp: lines_def Let_def split: if_splits dest: in_set_butlastD intro: last_in_set)
  then show "set l \<subseteq> set s" using split_char_set strip_cr_le(2) by blast
qed

lemma split_ws_from_size:
  "sum_list (map length (split_ws_from acc s)) \<le> length acc + length s
   \<and> [] \<notin> set (split_ws_from acc s)
   \<and> (\<forall>t \<in> set (split_ws_from acc s). set t \<subseteq> set acc \<union> set s)"
proof (induction acc s rule: split_ws_from.induct)
  case (1 acc s)
  show ?case
  proof (cases s)
    case Nil
    then show ?thesis by (simp add: split_ws_from.simps)
  next
    case (Cons x xs)
    show ?thesis
    proof (cases "ws_len s = 0")
      case True
      then have "split_ws_from acc s = split_ws_from (acc @ [x]) xs"
        using Cons by (subst split_ws_from.simps) simp
      with 1(1) [OF Cons True] Cons show ?thesis by simp
    next
      case False
      let ?d = "drop (ws_len s) s"
      have IH: "sum_list (map length (split_ws_from [] ?d)) \<le> length ?d" "[] \<notin> set (split_ws_from [] ?d)"
        "\<forall>t \<in> set (split_ws_from [] ?d). set t \<subseteq> set ?d"
        using 1(2) [OF Cons False] by auto
      have eq: "split_ws_from acc s = (if acc = [] then [] else [acc]) @ split_ws_from [] ?d"
        using False Cons by (subst split_ws_from.simps) simp
      show ?thesis unfolding eq using IH set_drop_subset [of "ws_len s" s] by auto
    qed
  qed
qed

lemma split_whitespace_token:
  assumes "t \<in> set (split_whitespace s)"
  shows "set t \<subseteq> set s" "length t \<le> length s"
  using assms split_ws_from_size [of "[]" s] member_le_sum_list [of "length t" "map length (split_whitespace s)"]
  by (auto simp: split_whitespace_def)

lemma length_split_whitespace: "length (split_whitespace s) \<le> length s"
proof -
  have "[] \<notin> set (split_whitespace s)" using split_ws_from_size [of "[]" s] by (simp add: split_whitespace_def)
  then have "sum_list (map (\<lambda>_. 1) (split_whitespace s)) \<le> sum_list (map length (split_whitespace s))"
    by (intro sum_list_mono) (auto simp: Suc_le_eq)
  then show ?thesis using split_ws_from_size [of "[]" s] by (simp add: split_whitespace_def sum_list_triv)
qed

lemma int_div_less:
  assumes "0 < r" "n < m * r"
  shows "n div r < (m :: int)"
proof -
  have "n div r * r \<le> n" using div_mult_mod_eq [of n r] pos_mod_sign [OF assms(1), of n] by linarith
  with assms(2) have "n div r * r < m * r" by linarith
  with assms(1) show ?thesis by (simp add: mult_less_cancel_right)
qed

end
