(* ===== verification/Net_Addr.thy ===== *)
theory Net_Addr
  imports Bulwark_Prelude
begin

unbundle bit_operations_syntax

text \<open>
  The part of \<open>std::net\<close> that the sources rely on: IP addresses, their \<open>FromStr\<close> parser
  (IPv4 in dotted decimal without leading zeros, IPv6 with one \<open>::\<close> and an embedded IPv4
  tail) and their \<open>Display\<close> form, and \<open>u16::from_str\<close>. A parser takes the input that is
  left and returns a value with what is left after it; \<open>None\<close> leaves the input untouched,
  as \<open>Parser::read_atomically\<close> does.

  The lemmas show that printing an IPv4 address and parsing it back is the identity, which
  the filter relies on when an address literal in a rule is compared with an address in an
  answer.
\<close>

datatype ip_addr = V4 u32 | V6 "128 word"

subsection \<open>Parsing\<close>

definition to_digit :: "int \<Rightarrow> char \<Rightarrow> int option" where
  "to_digit radix c =
     (let d = (if is_ascii_digit c then Some (code c - 48)
               else if is_ascii_lowercase c then Some (code c - 87)
               else if is_ascii_uppercase c then Some (code c - 55) else None)
      in case d of None \<Rightarrow> None | Some v \<Rightarrow> if v < radix then Some v else None)"

fun read_digits :: "int \<Rightarrow> nat \<Rightarrow> nat \<Rightarrow> int \<Rightarrow> string \<Rightarrow> (int \<times> nat \<times> string) option" where
  "read_digits radix m k a [] = Some (a, k, [])"
| "read_digits radix m k a (c # s) =
     (case to_digit radix c of None \<Rightarrow> Some (a, k, c # s)
      | Some d \<Rightarrow> if m < Suc k then None else read_digits radix m (Suc k) (a * radix + d) s)"

definition read_number :: "int \<Rightarrow> nat \<Rightarrow> bool \<Rightarrow> int \<Rightarrow> string \<Rightarrow> (int \<times> string) option" where
  "read_number radix max_digits allow_zero_prefix bound s =
     (case read_digits radix max_digits 0 0 s of None \<Rightarrow> None
      | Some (v, k, rest) \<Rightarrow>
          if k = 0 then None
          else if \<not> allow_zero_prefix \<and> starts_with s ''0'' \<and> 1 < k then None
          else if v < bound then Some (v, rest) else None)"

definition read_separator ::
  "char \<Rightarrow> nat \<Rightarrow> (string \<Rightarrow> ('a \<times> string) option) \<Rightarrow> string \<Rightarrow> ('a \<times> string) option" where
  "read_separator sep i inner s =
     (if i = 0 then inner s
      else case s of [] \<Rightarrow> None | x # xs \<Rightarrow> if x = sep then inner xs else None)"

definition read_octet :: "string \<Rightarrow> (int \<times> string) option" where
  "read_octet = read_number 10 3 False 256"

fun read_octets :: "nat \<Rightarrow> nat \<Rightarrow> string \<Rightarrow> (int list \<times> string) option" where
  "read_octets 0 i s = Some ([], s)"
| "read_octets (Suc n) i s =
     (case read_separator CHR ''.'' i read_octet s of None \<Rightarrow> None
      | Some (v, s') \<Rightarrow>
          (case read_octets n (Suc i) s' of None \<Rightarrow> None
           | Some (vs, s'') \<Rightarrow> Some (v # vs, s'')))"

definition octets_value :: "int list \<Rightarrow> int" where
  "octets_value vs = foldl (\<lambda>a v. a * 256 + v) 0 vs"

definition read_ipv4_addr :: "string \<Rightarrow> (u32 \<times> string) option" where
  "read_ipv4_addr s =
     map_option (\<lambda>(vs, s'). (word_of_int (octets_value vs), s')) (read_octets 4 0 s)"

function read_groups ::
  "nat \<Rightarrow> nat \<Rightarrow> int list \<Rightarrow> string \<Rightarrow> int list \<times> bool \<times> string" where
  "read_groups limit i acc s =
     (if limit \<le> i then (acc, False, s)
      else case (if Suc i < limit then read_separator CHR '':'' i read_ipv4_addr s else None) of
        Some (w, s') \<Rightarrow> (acc @ [uint w div 65536, uint w mod 65536], True, s')
      | None \<Rightarrow>
          (case read_separator CHR '':'' i (read_number 16 4 True 65536) s of
             None \<Rightarrow> (acc, False, s)
           | Some (g, s') \<Rightarrow> read_groups limit (Suc i) (acc @ [g]) s'))"
  by pat_completeness auto
termination
  by (relation "measure (\<lambda>(limit, i, acc, s). limit - i)") auto

declare read_groups.simps [simp del]

definition groups_value :: "int list \<Rightarrow> int" where
  "groups_value gs = foldl (\<lambda>a g. a * 65536 + g) 0 gs"

definition read_ipv6_addr :: "string \<Rightarrow> (128 word \<times> string) option" where
  "read_ipv6_addr s =
     (let (hd_gs, hd_v4, s1) = read_groups 8 0 [] s in
      if length hd_gs = 8 then Some (word_of_int (groups_value hd_gs), s1)
      else if hd_v4 then None
      else case strip_prefix s1 ''::'' of None \<Rightarrow> None
        | Some s2 \<Rightarrow>
            let limit = 8 - (length hd_gs + 1);
                (tl_gs, _, s3) = read_groups limit 0 [] s2;
                zeros = replicate (8 - length hd_gs - length tl_gs) 0
            in Some (word_of_int (groups_value (hd_gs @ zeros @ tl_gs)), s3))"

definition parse_ipv4 :: "string \<Rightarrow> u32 option" where
  "parse_ipv4 s =
     (if 15 < length s then None
      else case read_ipv4_addr s of Some (w, []) \<Rightarrow> Some w | _ \<Rightarrow> None)"

definition parse_ipv6 :: "string \<Rightarrow> 128 word option" where
  "parse_ipv6 s = (case read_ipv6_addr s of Some (w, []) \<Rightarrow> Some w | _ \<Rightarrow> None)"

definition parse_ip :: "string \<Rightarrow> ip_addr option" where
  "parse_ip s =
     (case read_ipv4_addr s of
        Some (w, rest) \<Rightarrow> (if rest = [] then Some (V4 w) else None)
      | None \<Rightarrow> map_option V6 (parse_ipv6 s))"

fun parse_digits :: "int \<Rightarrow> string \<Rightarrow> int option" where
  "parse_digits a [] = Some a"
| "parse_digits a (c # s) =
     (if is_ascii_digit c then parse_digits (a * 10 + (code c - 48)) s else None)"

definition parse_u16 :: "string \<Rightarrow> u16 option" where
  "parse_u16 s =
     (let ds = (case s of x # xs \<Rightarrow> if x = CHR ''+'' then xs else s | [] \<Rightarrow> s) in
      if ds = [] then None
      else case parse_digits 0 ds of None \<Rightarrow> None
        | Some v \<Rightarrow> if v < 65536 then Some (word_of_int v) else None)"

subsection \<open>Printing\<close>

definition digit_char :: "int \<Rightarrow> char" where
  "digit_char d = char_of (if d < 10 then 48 + d else 87 + d)"

function show_radix :: "int \<Rightarrow> int \<Rightarrow> string" where
  "show_radix r n =
     (if n < r \<or> r < 2 then [digit_char n] else show_radix r (n div r) @ [digit_char (n mod r)])"
  by pat_completeness auto
termination
  by (relation "measure (nat \<circ> snd)") (auto intro: int_div_less_self)

declare show_radix.simps [simp del]

abbreviation show_nat :: "int \<Rightarrow> string" where
  "show_nat \<equiv> show_radix 10"

definition octets :: "u32 \<Rightarrow> int list" where
  "octets w = map (\<lambda>i. uint w div 256 ^ i mod 256) [3, 2, 1, 0]"

definition show_ipv4 :: "u32 \<Rightarrow> string" where
  "show_ipv4 w = join ''.'' (map show_nat (octets w))"

definition segments :: "128 word \<Rightarrow> int list" where
  "segments w = map (\<lambda>i. uint w div 65536 ^ i mod 65536) [7, 6, 5, 4, 3, 2, 1, 0]"

fun longest_zeros :: "int list \<Rightarrow> nat \<Rightarrow> nat \<times> nat \<Rightarrow> nat \<times> nat \<Rightarrow> nat \<times> nat" where
  "longest_zeros [] i best cur = best"
| "longest_zeros (g # gs) i best cur =
     (if g = 0 then
        let cur' = (if snd cur = 0 then i else fst cur, Suc (snd cur))
        in longest_zeros gs (Suc i) (if snd best < snd cur' then cur' else best) cur'
      else longest_zeros gs (Suc i) best (0, 0))"

definition show_groups :: "int list \<Rightarrow> string" where
  "show_groups gs = join '':'' (map (show_radix 16) gs)"

definition show_ipv6 :: "128 word \<Rightarrow> string" where
  "show_ipv6 w =
     (let gs = segments w in
      if take 6 gs = [0, 0, 0, 0, 0, 65535]
      then ''::ffff:'' @ show_ipv4 (word_of_int (gs ! 6 * 65536 + gs ! 7))
      else let (st, n) = longest_zeros gs 0 (0, 0) (0, 0) in
        if 1 < n then show_groups (take st gs) @ ''::'' @ show_groups (drop (st + n) gs)
        else show_groups gs)"

fun show_ip :: "ip_addr \<Rightarrow> string" where
  "show_ip (V4 w) = show_ipv4 w"
| "show_ip (V6 w) = show_ipv6 w"

subsection \<open>Classification\<close>

fun is_unspecified :: "ip_addr \<Rightarrow> bool" where
  "is_unspecified (V4 w) = (w = 0)"
| "is_unspecified (V6 w) = (w = 0)"

fun is_loopback :: "ip_addr \<Rightarrow> bool" where
  "is_loopback (V4 w) = (octets w ! 0 = 127)"
| "is_loopback (V6 w) = (w = 1)"

subsection \<open>The IPv4 round trip\<close>

lemma to_digit_digit_char:
  assumes "0 \<le> d" "d < 10"
  shows "to_digit 10 (digit_char d) = Some d"
  using assms
  by (simp add: to_digit_def digit_char_def is_ascii_digit_def)

lemma read_digits_show:
  assumes "0 \<le> n" "k + length (show_nat n) \<le> m"
  shows "read_digits 10 m k a (show_nat n @ s) =
    read_digits 10 m (k + length (show_nat n)) (a * 10 ^ length (show_nat n) + n) s"
  using assms
proof (induction "nat n" arbitrary: n s rule: less_induct)
  case less
  show ?case
  proof (cases "n < 10")
    case True
    with less.prems show ?thesis
      by (simp add: show_radix.simps [of 10 n] to_digit_digit_char)
  next
    case False
    then have eq: "show_nat n = show_nat (n div 10) @ [digit_char (n mod 10)]"
      by (simp add: show_radix.simps [of 10 n])
    have "read_digits 10 m k a (show_nat (n div 10) @ (digit_char (n mod 10) # s)) =
      read_digits 10 m (k + length (show_nat (n div 10)))
        (a * 10 ^ length (show_nat (n div 10)) + n div 10) (digit_char (n mod 10) # s)"
      by (rule less.hyps) (use False less.prems eq in \<open>auto intro: int_div_less_self\<close>)
    with eq less.prems show ?thesis
      by (simp add: to_digit_digit_char algebra_simps)
  qed
qed

lemma show_nat_nonempty: "show_radix r n \<noteq> []"
  by (simp add: show_radix.simps [of r n])

lemma show_nat_leading_zero:
  "0 \<le> n \<Longrightarrow> starts_with (show_nat n @ s) ''0'' \<Longrightarrow> n = 0"
proof (induction "nat n" arbitrary: n s rule: less_induct)
  case less
  show ?case
  proof (cases "n < 10")
    case True
    with less.prems have "char_of (48 + n) = CHR ''0''"
      by (simp add: show_radix.simps [of 10 n] starts_with_def digit_char_def)
    then have "of_char (char_of (48 + n) :: char) = (48 :: int)"
      by simp
    then have "(48 + n) mod 256 = 48" by simp
    with True less.prems show ?thesis by presburger
  next
    case False
    then have eq: "show_nat n = show_nat (n div 10) @ [digit_char (n mod 10)]"
      by (simp add: show_radix.simps [of 10 n])
    with less.prems have "starts_with (show_nat (n div 10) @ (digit_char (n mod 10) # s)) ''0''"
      by simp
    with less.hyps [of "n div 10"] False have "n div 10 = 0" by (simp add: int_div_less_self)
    with False show ?thesis by simp
  qed
qed

lemma length_show_nat_octet: "0 \<le> n \<Longrightarrow> n < 256 \<Longrightarrow> length (show_nat n) \<le> 3"
  by (simp add: show_radix.simps [of 10 n] show_radix.simps [of 10 "n div 10"]
      show_radix.simps [of 10 "n div 100"] zdiv_zmult2_eq [symmetric])

lemma read_octet_show:
  assumes n: "0 \<le> n" "n < 256" and s: "s = [] \<or> (\<exists>c t. s = c # t \<and> to_digit 10 c = None)"
  shows "read_octet (show_nat n @ s) = Some (n, s)"
proof -
  have "read_digits 10 3 0 0 (show_nat n @ s) = Some (n, length (show_nat n), s)"
    using read_digits_show [of n 0 3 0 s] length_show_nat_octet [OF n] n s by auto
  moreover have "\<not> (starts_with (show_nat n @ s) ''0'' \<and> 1 < length (show_nat n))"
    using show_nat_leading_zero [of n s] n by (auto simp: show_radix.simps [of 10 0])
  ultimately show ?thesis
    using n show_nat_nonempty [of 10 n] by (auto simp: read_octet_def read_number_def)
qed

lemma to_digit_dot: "to_digit 10 CHR ''.'' = None"
  by (simp add: to_digit_def is_ascii_digit_def is_ascii_lowercase_def is_ascii_uppercase_def)

lemma octets_bound: "o' \<in> set (octets w) \<Longrightarrow> 0 \<le> o' \<and> o' < 256"
  by (auto simp: octets_def)

lemma octets_value_octets: "word_of_int (octets_value (octets w)) = w"
proof -
  let ?n = "uint w"
  have "0 \<le> ?n" "?n < 256 ^ 4" using unsigned_less [of w, where ?'a = int] by simp_all
  then have top: "?n div 16777216 mod 256 = ?n div 16777216" by (simp add: div_int_pos_iff)
  have parts: "?n div 16777216 = ?n div 65536 div 256" "?n div 65536 = ?n div 256 div 256"
    by (simp_all flip: zdiv_zmult2_eq)
  have "octets_value (octets w) =
    ((?n div 16777216 * 256 + ?n div 65536 mod 256) * 256 + ?n div 256 mod 256) * 256 + ?n mod 256"
    using top by (simp add: octets_value_def octets_def)
  also have "\<dots> = ?n" unfolding parts by simp
  finally show ?thesis by simp
qed

lemma four_Suc: "4 = Suc (Suc (Suc (Suc 0)))"
  by simp

lemma read_ipv4_show: "read_ipv4_addr (show_ipv4 w) = Some (w, [])"
proof -
  obtain a b c d where o: "octets w = [a, b, c, d]"
    by (simp add: octets_def)
  then have bd: "0 \<le> a" "0 \<le> b" "0 \<le> c" "0 \<le> d" "a < 256" "b < 256" "c < 256" "d < 256"
    using octets_bound [of _ w] by auto
  have "read_octets 4 0 (show_ipv4 w) = Some ([a, b, c, d], [])"
    using bd by (simp add: show_ipv4_def o four_Suc read_separator_def read_octet_show
        read_octet_show [where s = "[]", simplified] to_digit_dot)
  then show ?thesis
    using octets_value_octets [of w] by (simp add: read_ipv4_addr_def o)
qed

lemma parse_show_ipv4: "parse_ip (show_ip (V4 w)) = Some (V4 w)"
  by (simp add: parse_ip_def read_ipv4_show)

end
