(* ===== verification/Filter_Rule.thy ===== *)
theory Filter_Rule
  imports Net_Addr
begin

text \<open>
  The rule model of \<open>crates/bulwark-filter/src/rule.rs\<close>: actions, patterns, the
  \<open>$dnstype\<close>, \<open>$client\<close> and \<open>$ctag\<close> filters, rewrite data, the modifier cluster and the
  priority of a rule.

  Third-party code is a field of the record \<open>filter_ext\<close>, passed to every definition that
  calls it: the \<open>regex\<close> crate (a compiled regex is identified by its source text, the
  builder options being the same everywhere), the \<open>ipnet\<close> crate, the keyed \<open>ahash\<close> hash of
  a domain, the order \<open>sort_unstable_by_key\<close> leaves among equal keys, and the hash of the
  rule contents.
\<close>

datatype action = Block | Allow | Rewrite

type_synonym regex = string

datatype pattern = Subdomain string | Exact string | Wildcard regex | Regex regex

definition index_key :: "pattern \<Rightarrow> (string \<times> bool) option" where
  "index_key p = (case p of Subdomain d \<Rightarrow> Some (d, True) | Exact d \<Rightarrow> Some (d, False) | _ \<Rightarrow> None)"

datatype ip_net = IpNet ip_addr nat

record filter_ext =
  regex_error :: "string \<Rightarrow> string option"
  regex_is_match :: "regex \<Rightarrow> string \<Rightarrow> bool"
  set_error :: "regex list \<Rightarrow> string option"
  set_matches :: "regex list \<Rightarrow> string \<Rightarrow> nat list"
  net_parse :: "string \<Rightarrow> ip_net option"
  net_contains :: "ip_net \<Rightarrow> ip_addr \<Rightarrow> bool"
  domain_hash :: "string \<Rightarrow> u64"
  sort_pairs :: "(u64 \<times> u32) list \<Rightarrow> (u64 \<times> u32) list"
  hash_contents :: "(string \<times> u32 \<times> action) list \<Rightarrow> u64"

subsection \<open>Modifier filters\<close>

record dns_type_filter =
  dt_include :: "string list"
  dt_exclude :: "string list"

definition dns_type_matches :: "dns_type_filter \<Rightarrow> string \<Rightarrow> bool" where
  "dns_type_matches f rtype =
     (if dt_exclude f \<noteq> [] \<and> list_ex (\<lambda>t. t = rtype) (dt_exclude f) then False
      else if dt_include f \<noteq> [] then list_ex (\<lambda>t. t = rtype) (dt_include f)
      else True)"

datatype client_match = MIp ip_addr | MNet ip_net | MName string

record client_filter =
  cf_include :: "client_match list"
  cf_exclude :: "client_match list"

record client_info =
  ci_ip :: "ip_addr option"
  ci_name :: "string option"
  ci_tags :: "string list"

definition entry_matches :: "filter_ext \<Rightarrow> client_match \<Rightarrow> client_info \<Rightarrow> bool" where
  "entry_matches fx m client =
     (case m of
        MIp ip \<Rightarrow> ci_ip client = Some ip
      | MNet net \<Rightarrow> (case ci_ip client of None \<Rightarrow> False | Some ip \<Rightarrow> net_contains fx net ip)
      | MName n \<Rightarrow> ci_name client = Some n)"

definition client_matches :: "filter_ext \<Rightarrow> client_filter \<Rightarrow> client_info \<Rightarrow> bool" where
  "client_matches fx f client =
     (if list_ex (\<lambda>m. entry_matches fx m client) (cf_exclude f) then False
      else if cf_include f \<noteq> [] then list_ex (\<lambda>m. entry_matches fx m client) (cf_include f)
      else True)"

record ctag_filter =
  ct_include :: "string list"
  ct_exclude :: "string list"

definition ctag_matches :: "ctag_filter \<Rightarrow> string list \<Rightarrow> bool" where
  "ctag_matches f tags =
     (let has = (\<lambda>t. list_ex (\<lambda>x. x = t) tags) in
      if list_ex has (ct_exclude f) then False
      else if ct_include f \<noteq> [] then list_ex has (ct_include f)
      else True)"

subsection \<open>Rewrites, modifiers and rules\<close>

datatype rewrite_rcode = NoError | NxDomain | Refused | ServFail

datatype rewrite_data =
    RwA u32
  | RwAaaa "128 word"
  | RwCname string
  | RwTxt string
  | RwMx u16 string
  | RwPtr string
  | RwRcode rewrite_rcode

record rule_mods =
  important :: bool
  dnstype :: "dns_type_filter option"
  client :: "client_filter option"
  ctag :: "ctag_filter option"
  denyallow :: "string list"
  rewrite :: "rewrite_data option"

definition default_mods :: rule_mods where
  "default_mods =
     \<lparr>important = False, dnstype = None, client = None, ctag = None, denyallow = [],
      rewrite = None\<rparr>"

definition mods_is_empty :: "rule_mods \<Rightarrow> bool" where
  "mods_is_empty m =
     (\<not> important m \<and> dnstype m = None \<and> client m = None \<and> ctag m = None
      \<and> denyallow m = [] \<and> rewrite m = None)"

record rule =
  rid :: u32
  raw :: string
  act :: action
  pat :: pattern
  mods :: "rule_mods option"
  list_id :: u32

record build_rule =
  br_rule :: rule
  badfilter :: bool
  signature :: string
  index_tokens :: "u32 list"

definition mods_important :: "rule_mods option \<Rightarrow> bool" where
  "mods_important m = (case m of None \<Rightarrow> False | Some m \<Rightarrow> important m)"

definition priority :: "rule \<Rightarrow> nat" where
  "priority r =
     (let score = (case act r of Allow \<Rightarrow> 2 | Block \<Rightarrow> 1 | Rewrite \<Rightarrow> 1)
      in if mods_important (mods r) then score + 100 else score)"

definition rule_rewrite :: "rule \<Rightarrow> rewrite_data option" where
  "rule_rewrite r = Option.bind (mods r) rewrite"

subsection \<open>Properties\<close>

text \<open>
  The three include/exclude filters share one meaning: nothing excluded matches, and
  something included matches unless nothing is included.
\<close>

lemma dns_type_matches_iff:
  "dns_type_matches f t \<longleftrightarrow>
     t \<notin> set (dt_exclude f) \<and> (dt_include f = [] \<or> t \<in> set (dt_include f))"
  by (auto simp: dns_type_matches_def list_ex_iff)

lemma client_matches_iff:
  "client_matches fx f c \<longleftrightarrow>
     (\<forall>m \<in> set (cf_exclude f). \<not> entry_matches fx m c)
     \<and> (cf_include f = [] \<or> (\<exists>m \<in> set (cf_include f). entry_matches fx m c))"
  by (auto simp: client_matches_def list_ex_iff)

lemma ctag_matches_iff:
  "ctag_matches f tags \<longleftrightarrow>
     set (ct_exclude f) \<inter> set tags = {}
     \<and> (ct_include f = [] \<or> set (ct_include f) \<inter> set tags \<noteq> {})"
  by (auto simp: ctag_matches_def list_ex_iff)

lemma priority_pos: "0 < priority r"
  by (auto simp: priority_def Let_def split: action.splits)

lemma priority_plain:
  "act r \<noteq> Allow \<Longrightarrow> \<not> mods_important (mods r) \<Longrightarrow> priority r = 1"
  by (auto simp: priority_def split: action.splits)

lemma priority_important: "100 < priority r \<longleftrightarrow> mods_important (mods r)"
  by (auto simp: priority_def Let_def split: action.splits)

end
