(* ===== verification/Filter_Token.thy ===== *)
theory Filter_Token
  imports Bulwark_Prelude
begin

unbundle bit_operations_syntax

text \<open>
  The tokenizer of \<open>crates/bulwark-filter/src/token.rs\<close>: the FNV-1a hash, the tokens of a
  query name and the safe interior tokens of a wildcard pattern.

  The loops are modelled as written, over byte positions. The lemmas give their meaning in
  terms of \<open>runs\<close>, the maximal alphanumeric runs of a string: the query tokens are the
  hashes of the runs of three bytes or more, and a pattern token is the hash of a run with
  a literal neighbour on both sides.
\<close>

definition MIN_TOKEN_LEN :: nat where
  "MIN_TOKEN_LEN = 3"

definition is_token_char :: "char \<Rightarrow> bool" where
  "is_token_char b = is_ascii_alphanumeric b"

definition fast_hash :: "string \<Rightarrow> u32" where
  "fast_hash s =
     foldl (\<lambda>h b. (h XOR word_of_int (code (lower b))) * 0x01000193) 0x811c9dc5 s"

definition push_run :: "u32 list \<Rightarrow> string \<Rightarrow> u32 list" where
  "push_run tokens run = (if MIN_TOKEN_LEN \<le> length run then tokens @ [fast_hash run] else tokens)"

text \<open>The loop of \<open>tokenize_query_into\<close>: \<open>i\<close> is the position, \<open>start\<close> where the open run began.\<close>

fun tokenize_loop :: "string \<Rightarrow> nat \<Rightarrow> nat option \<Rightarrow> u32 list \<Rightarrow> string \<Rightarrow> u32 list" where
  "tokenize_loop bytes i start tokens [] =
     (case start of None \<Rightarrow> tokens | Some s \<Rightarrow> push_run tokens (drop s bytes))"
| "tokenize_loop bytes i start tokens (b # bs) =
     (if is_token_char b
      then tokenize_loop bytes (Suc i) (case start of None \<Rightarrow> Some i | Some s \<Rightarrow> Some s) tokens bs
      else case start of
        None \<Rightarrow> tokenize_loop bytes (Suc i) None tokens bs
      | Some s \<Rightarrow>
          tokenize_loop bytes (Suc i) None (push_run tokens (take (i - s) (drop s bytes))) bs)"

definition tokenize_query :: "string \<Rightarrow> u32 list" where
  "tokenize_query name = remdups_adj (sort (tokenize_loop name 0 None [] name))"

text \<open>\<open>for_each_query_token\<close>, with the callback appending to a list.\<close>

fun query_token_loop :: "string \<Rightarrow> nat \<Rightarrow> nat option \<Rightarrow> u32 list \<Rightarrow> string \<Rightarrow> u32 list" where
  "query_token_loop bytes i start out [] =
     (case start of None \<Rightarrow> out
      | Some s \<Rightarrow>
          if MIN_TOKEN_LEN \<le> length bytes - s then out @ [fast_hash (drop s bytes)] else out)"
| "query_token_loop bytes i start out (b # bs) =
     (if is_token_char b
      then query_token_loop bytes (Suc i) (case start of None \<Rightarrow> Some i | Some s \<Rightarrow> Some s) out bs
      else case start of
        None \<Rightarrow> query_token_loop bytes (Suc i) None out bs
      | Some s \<Rightarrow>
          query_token_loop bytes (Suc i) None
            (if MIN_TOKEN_LEN \<le> i - s then out @ [fast_hash (take (i - s) (drop s bytes))]
             else out) bs)"

definition for_each_query_token :: "string \<Rightarrow> u32 list" where
  "for_each_query_token name = query_token_loop name 0 None [] name"

text \<open>The inner loop of \<open>tokenize_pattern_safe\<close>, and the outer loop over it.\<close>

definition run_end :: "string \<Rightarrow> nat \<Rightarrow> nat" where
  "run_end bytes i = i + length (takeWhile is_token_char (drop i bytes))"

function pattern_loop :: "string \<Rightarrow> nat \<Rightarrow> u32 list \<Rightarrow> u32 list" where
  "pattern_loop bytes i tokens =
     (if length bytes \<le> i then tokens
      else if \<not> is_token_char (bytes ! i) then pattern_loop bytes (Suc i) tokens
      else
        let start = i; i' = run_end bytes i;
            left_ok = (0 < start \<and> bytes ! (start - 1) \<noteq> CHR ''*'');
            right_ok = (i' < length bytes \<and> bytes ! i' \<noteq> CHR ''*'')
        in pattern_loop bytes i'
             (if left_ok \<and> right_ok \<and> MIN_TOKEN_LEN \<le> i' - start
              then tokens @ [fast_hash (take (i' - start) (drop start bytes))] else tokens))"
  by pat_completeness simp

lemma run_end_gt: "i < length bytes \<Longrightarrow> is_token_char (bytes ! i) \<Longrightarrow> i < run_end bytes i"
  by (simp add: run_end_def Cons_nth_drop_Suc [symmetric])

termination pattern_loop
proof (relation "measure (\<lambda>(bytes, i, tokens). length bytes - i)", goal_cases)
  case (3 bytes i tokens start i' left_ok right_ok)
  then have "i < i'" using run_end_gt [of i bytes] by simp
  with 3(1) show ?case by simp
qed simp_all

declare pattern_loop.simps [simp del]

definition tokenize_pattern_safe :: "string \<Rightarrow> u32 list" where
  "tokenize_pattern_safe body = remdups_adj (sort (pattern_loop body 0 []))"

subsection \<open>Runs\<close>

definition run_in :: "string \<Rightarrow> string \<Rightarrow> string \<Rightarrow> string \<Rightarrow> bool" where
  "run_in s u r v \<longleftrightarrow>
     s = u @ r @ v \<and> r \<noteq> [] \<and> list_all is_token_char r
     \<and> (u = [] \<or> \<not> is_token_char (last u)) \<and> (v = [] \<or> \<not> is_token_char (hd v))"

subsection \<open>The tokens of a query name\<close>

lemma query_loop_run:
  "list_all is_token_char r \<Longrightarrow>
   query_token_loop bytes i (Some s) out (r @ v) = query_token_loop bytes (i + length r) (Some s) out v"
  by (induction r arbitrary: i) auto

lemma query_loop_enter:
  "list_all is_token_char r \<Longrightarrow> r \<noteq> [] \<Longrightarrow>
   query_token_loop bytes i None out (r @ v) = query_token_loop bytes (i + length r) (Some i) out v"
  by (cases r) (auto simp: query_loop_run)

lemma query_loop_mono: "set out \<subseteq> set (query_token_loop bytes i st out xs)"
proof (induction bytes i st out xs rule: query_token_loop.induct)
  case (1 bytes i start out)
  then show ?case by (cases start) auto
next
  case (2 bytes i start out b bs)
  show ?case
  proof (cases "is_token_char b")
    case True
    with "2.IH"(1) show ?thesis by simp
  next
    case False
    with "2.IH"(2,3) show ?thesis by (cases start) auto
  qed
qed

lemma query_loop_skip:
  "u \<noteq> [] \<Longrightarrow> \<not> is_token_char (last u) \<Longrightarrow>
   \<exists>out'. query_token_loop bytes i st out (u @ xs) = query_token_loop bytes (i + length u) None out' xs"
proof (induction u arbitrary: i st out)
  case (Cons b u)
  show ?case
  proof (cases "u = []")
    case True
    with Cons.prems show ?thesis by (cases st) auto
  next
    case False
    with Cons.prems Cons.IH [where i = "Suc i"] show ?thesis
      by (cases "is_token_char b"; cases st) auto
  qed
qed simp

text \<open>Every run of three bytes or more is a query token.\<close>

lemma query_token_complete:
  assumes run: "run_in name u r v" and len: "MIN_TOKEN_LEN \<le> length r"
  shows "fast_hash r \<in> set (for_each_query_token name)"
proof -
  from run have name: "name = u @ r @ v" and r: "r \<noteq> []" "list_all is_token_char r"
    by (auto simp: run_in_def)
  obtain out' where
    "for_each_query_token name = query_token_loop name (length u) None out' (r @ v)"
  proof (cases "u = []")
    case True
    with name that show ?thesis by (simp add: for_each_query_token_def)
  next
    case False
    with run name query_loop_skip [of u name 0 None "[]" "r @ v"] that show ?thesis
      by (auto simp: for_each_query_token_def run_in_def)
  qed
  also have "\<dots> = query_token_loop name (length u + length r) (Some (length u)) out' v"
    using r by (simp add: query_loop_enter)
  finally have eq: "for_each_query_token name = \<dots>" .
  show ?thesis
  proof (cases v)
    case Nil
    with eq name len show ?thesis by simp
  next
    case (Cons c v')
    with run have "\<not> is_token_char c" by (simp add: run_in_def)
    with eq Cons name len show ?thesis
      using query_loop_mono [of "out' @ [fast_hash r]"] by auto
  qed
qed

lemma tokenize_loop_query_loop:
  "i + length xs = length bytes \<Longrightarrow> (case st of None \<Rightarrow> True | Some s \<Rightarrow> s \<le> i) \<Longrightarrow>
   tokenize_loop bytes i st out xs = query_token_loop bytes i st out xs"
proof (induction bytes i st out xs rule: tokenize_loop.induct)
  case (1 bytes i start tokens)
  then show ?case by (auto simp: push_run_def split: option.splits)
next
  case (2 bytes i start tokens b bs)
  show ?case
  proof (cases "is_token_char b")
    case True
    with 2 show ?thesis by (cases start) auto
  next
    case False
    with 2 show ?thesis by (cases start) (auto simp: push_run_def)
  qed
qed

subsection \<open>The safe tokens of a pattern\<close>

lemma run_end_is_run:
  assumes i: "i < length bytes" "is_token_char (bytes ! i)"
    and left: "i = 0 \<or> \<not> is_token_char (bytes ! (i - 1))"
  shows "run_in bytes (take i bytes) (take (run_end bytes i - i) (drop i bytes))
           (drop (run_end bytes i) bytes)"
proof -
  let ?r = "takeWhile is_token_char (drop i bytes)"
  have r: "take (run_end bytes i - i) (drop i bytes) = ?r"
    by (simp add: run_end_def takeWhile_eq_take [symmetric])
  have v: "drop (run_end bytes i) bytes = dropWhile is_token_char (drop i bytes)"
    by (simp add: run_end_def dropWhile_eq_drop add.commute)
  have "last (take i bytes) = bytes ! (i - 1)" if "i \<noteq> 0"
    using i(1) that by (simp add: last_take_nth)
  then have "take i bytes = [] \<or> \<not> is_token_char (last (take i bytes))"
    using left by auto
  moreover have "?r \<noteq> []"
    using i by (simp add: Cons_nth_drop_Suc [symmetric])
  moreover have "list_all is_token_char ?r"
    by (auto simp: list_all_iff dest: set_takeWhileD)
  moreover have "dropWhile is_token_char (drop i bytes) = []
      \<or> \<not> is_token_char (hd (dropWhile is_token_char (drop i bytes)))"
    using hd_dropWhile by blast
  ultimately show ?thesis
    unfolding r v run_in_def by (simp add: append_take_drop_id)
qed

definition safe_run :: "string \<Rightarrow> string \<Rightarrow> string \<Rightarrow> string \<Rightarrow> bool" where
  "safe_run s u r v \<longleftrightarrow>
     run_in s u r v \<and> u \<noteq> [] \<and> v \<noteq> [] \<and> last u \<noteq> CHR ''*'' \<and> hd v \<noteq> CHR ''*''
     \<and> MIN_TOKEN_LEN \<le> length r"

lemma run_end_safe:
  assumes i: "i < length bytes" "is_token_char (bytes ! i)"
    and left: "i = 0 \<or> \<not> is_token_char (bytes ! (i - 1))"
    and ok: "0 < i" "bytes ! (i - 1) \<noteq> CHR ''*''"
      "run_end bytes i < length bytes" "bytes ! run_end bytes i \<noteq> CHR ''*''"
      "MIN_TOKEN_LEN \<le> run_end bytes i - i"
  shows "safe_run bytes (take i bytes) (take (run_end bytes i - i) (drop i bytes))
           (drop (run_end bytes i) bytes)"
proof -
  have "last (take i bytes) = bytes ! (i - 1)" using i ok by (simp add: last_take_nth)
  moreover have "hd (drop (run_end bytes i) bytes) = bytes ! run_end bytes i"
    using ok by (simp add: hd_drop_conv_nth)
  ultimately show ?thesis
    using run_end_is_run [OF i left] i ok by (auto simp: safe_run_def)
qed

lemma run_end_stop:
  "run_end bytes i < length bytes \<Longrightarrow> \<not> is_token_char (bytes ! run_end bytes i)"
proof -
  assume "run_end bytes i < length bytes"
  then have "length (takeWhile is_token_char (drop i bytes)) < length (drop i bytes)"
    by (simp add: run_end_def)
  then have "\<not> is_token_char (drop i bytes ! length (takeWhile is_token_char (drop i bytes)))"
    by (rule nth_length_takeWhile)
  then show ?thesis using \<open>run_end bytes i < length bytes\<close> by (simp add: run_end_def)
qed

text \<open>At the head of the outer loop, a token character at \<open>i\<close> starts its run.\<close>

definition loop_head :: "string \<Rightarrow> nat \<Rightarrow> bool" where
  "loop_head bytes i \<longleftrightarrow>
     length bytes \<le> i \<or> \<not> is_token_char (bytes ! i) \<or> i = 0 \<or> \<not> is_token_char (bytes ! (i - 1))"

lemma loop_head_run_end: "loop_head bytes (run_end bytes i)"
  using run_end_stop [of bytes i] by (auto simp: loop_head_def)

lemma pattern_loop_safe:
  "loop_head bytes i \<Longrightarrow> \<forall>h \<in> set tokens. \<exists>u r v. safe_run bytes u r v \<and> h = fast_hash r \<Longrightarrow>
   \<forall>h \<in> set (pattern_loop bytes i tokens). \<exists>u r v. safe_run bytes u r v \<and> h = fast_hash r"
proof (induction bytes i tokens rule: pattern_loop.induct)
  case (1 bytes i tokens)
  consider (stop) "length bytes \<le> i" | (skip) "i < length bytes" "\<not> is_token_char (bytes ! i)"
    | (run) "i < length bytes" "is_token_char (bytes ! i)" by linarith
  then show ?case
  proof cases
    case stop
    with "1.prems" show ?thesis by (simp add: pattern_loop.simps [of bytes i])
  next
    case skip
    then have "loop_head bytes (Suc i)" by (simp add: loop_head_def)
    with "1.IH"(1) "1.prems" skip show ?thesis by (simp add: pattern_loop.simps [of bytes i])
  next
    case run
    with "1.prems"(1) have left: "i = 0 \<or> \<not> is_token_char (bytes ! (i - 1))"
      by (auto simp: loop_head_def)
    let ?i = "run_end bytes i"
    let ?ok = "(0 < i \<and> bytes ! (i - 1) \<noteq> CHR ''*'') \<and>
      (?i < length bytes \<and> bytes ! ?i \<noteq> CHR ''*'') \<and> MIN_TOKEN_LEN \<le> ?i - i"
    let ?t = "if ?ok then tokens @ [fast_hash (take (?i - i) (drop i bytes))] else tokens"
    have "\<forall>h \<in> set ?t. \<exists>u r v. safe_run bytes u r v \<and> h = fast_hash r"
      using "1.prems"(2) run_end_safe [OF run left] by auto
    then have "\<forall>h \<in> set (pattern_loop bytes ?i ?t). \<exists>u r v. safe_run bytes u r v \<and> h = fast_hash r"
      by (intro "1.IH"(2) [OF _ _ refl refl refl refl] loop_head_run_end) (use run in simp_all)
    moreover have "pattern_loop bytes i tokens = pattern_loop bytes ?i ?t"
      using run by (subst pattern_loop.simps) (simp add: Let_def)
    ultimately show ?thesis by simp
  qed
qed

lemma pattern_token_safe:
  assumes "h \<in> set (tokenize_pattern_safe body)"
  obtains u r v where "safe_run body u r v" "h = fast_hash r"
  using assms pattern_loop_safe [of body 0 "[]"]
  by (auto simp: tokenize_pattern_safe_def loop_head_def)

subsection \<open>Case\<close>

lemma lower_lower: "lower (lower c) = lower c"
  by (auto simp: lower_def is_ascii_uppercase_def)

lemma is_token_char_lower: "is_token_char (lower c) = is_token_char c"
  by (auto simp: is_token_char_def is_ascii_alphanumeric_def lower_def is_ascii_uppercase_def
      is_ascii_lowercase_def is_ascii_digit_def)

lemma fast_hash_lower: "fast_hash (map lower s) = fast_hash s"
  by (simp add: fast_hash_def foldl_map lower_lower)

end
