(* ===== verification/Regex_Fragment.thy ===== *)
theory Regex_Fragment
  imports Filter_Rule Filter_Token
begin

text \<open>
  What the filter relies on from the \<open>regex\<close> crate. The wildcard compiler of the parser
  emits only a small fragment of the regex syntax: literal characters, \<open>.*\<close>, the
  separator group, the anchors and the subdomain group, under \<open>(?i)\<close>. The fragment has an
  abstract syntax (\<open>re_atom\<close>), its concrete syntax (\<open>re_source\<close>) and its documented meaning
  on ASCII text (\<open>re_search\<close>, an unanchored search). The hypothesis \<open>regex_laws\<close> states that
  the crate gives a source of this fragment that meaning, and that a \<open>RegexSet\<close> reports,
  in ascending order, the indices of its members that match.

  The lemma \<open>re_search_run\<close> is what the reverse index needs: a literal run with a
  non-\<open>*\<close> neighbour on each side occurs as a complete run in every text that matches.
\<close>

datatype re_atom = ReLit char | ReAnyStar | ReSep | ReDotOrStart | ReStart | ReEnd

definition re_special :: "char \<Rightarrow> bool" where
  "re_special c = str_contains (CHR 0x5C # ''.+?()[]{}|$'') c"

fun print_atom :: "re_atom \<Rightarrow> string" where
  "print_atom (ReLit c) = (if re_special c then [CHR 0x5C, c] else [c])"
| "print_atom ReAnyStar = ''.*''"
| "print_atom ReSep = ''(?:[^a-z0-9._-]|$)''"
| "print_atom ReDotOrStart = ''(?:^|'' @ [CHR 0x5C] @ ''.)''"
| "print_atom ReStart = ''^''"
| "print_atom ReEnd = ''$''"

definition re_source :: "re_atom list \<Rightarrow> string" where
  "re_source as = ''(?i)'' @ concat (map print_atom as)"

definition sep_char :: "char \<Rightarrow> bool" where
  "sep_char x = (\<not> is_ascii_alphanumeric x \<and> x \<noteq> CHR ''.'' \<and> x \<noteq> CHR ''_'' \<and> x \<noteq> CHR ''-'')"

text \<open>\<open>re_at as b s\<close>: the atoms match at the front of \<open>s\<close>; \<open>b\<close> says that \<open>s\<close> is the whole text.\<close>

fun re_at :: "re_atom list \<Rightarrow> bool \<Rightarrow> string \<Rightarrow> bool" where
  "re_at [] b s = True"
| "re_at (ReLit c # r) b s =
     (case s of [] \<Rightarrow> False | x # xs \<Rightarrow> lower x = lower c \<and> re_at r False xs)"
| "re_at (ReAnyStar # r) b s =
     (re_at r b s
      \<or> (case s of [] \<Rightarrow> False | x # xs \<Rightarrow> code x \<noteq> 10 \<and> re_at (ReAnyStar # r) False xs))"
| "re_at (ReSep # r) b s =
     (case s of [] \<Rightarrow> re_at r b [] | x # xs \<Rightarrow> sep_char x \<and> re_at r False xs)"
| "re_at (ReDotOrStart # r) b s =
     (b \<and> re_at r b s
      \<or> (case s of [] \<Rightarrow> False | x # xs \<Rightarrow> x = CHR ''.'' \<and> re_at r False xs))"
| "re_at (ReStart # r) b s = (b \<and> re_at r b s)"
| "re_at (ReEnd # r) b s = (s = [] \<and> re_at r b s)"

definition re_search :: "re_atom list \<Rightarrow> string \<Rightarrow> bool" where
  "re_search as s = list_ex (\<lambda>i. re_at as (i = 0) (drop i s)) [0..<Suc (length s)]"

definition ascii :: "string \<Rightarrow> bool" where
  "ascii s = list_all (\<lambda>c. code c < 128) s"

fun re_ok :: "re_atom \<Rightarrow> bool" where
  "re_ok (ReLit c) = (code c < 128 \<and> c \<noteq> CHR ''*'' \<and> c \<noteq> CHR ''^'')"
| "re_ok _ = True"

definition regex_laws :: "filter_ext \<Rightarrow> bool" where
  "regex_laws fx \<longleftrightarrow>
     (\<forall>as s. list_all re_ok as \<and> ascii s \<longrightarrow> regex_is_match fx (re_source as) s = re_search as s)
     \<and> (\<forall>pats s. set_matches fx pats s =
          filter (\<lambda>i. regex_is_match fx (pats ! i) s) [0..<length pats])"

subsection \<open>A literal run of the pattern is a run of the text\<close>

lemma re_at_append: "re_at (as @ bs) b s \<Longrightarrow> \<exists>s1 s2 b'. s = s1 @ s2 \<and> re_at bs b' s2"
proof (induction as b s rule: re_at.induct)
  case (1 b s)
  then have "s = [] @ s \<and> re_at bs b s" by simp
  then show ?case by blast
next
  case (2 c r b s)
  then obtain x xs where s: "s = x # xs" and "re_at (r @ bs) False xs"
    by (cases s) auto
  with 2(1) obtain s1 s2 b' where "xs = s1 @ s2" "re_at bs b' s2" by blast
  with s have "s = (x # s1) @ s2 \<and> re_at bs b' s2" by simp
  then show ?case by blast
next
  case (3 r b s)
  show ?case
  proof (cases "re_at (r @ bs) b s")
    case True
    with 3(1) show ?thesis by blast
  next
    case False
    with 3(3) obtain x xs where s: "s = x # xs" and "re_at ((ReAnyStar # r) @ bs) False xs"
      by (cases s) auto
    with 3(2) obtain s1 s2 b' where "xs = s1 @ s2" "re_at bs b' s2" by blast
    with s have "s = (x # s1) @ s2 \<and> re_at bs b' s2" by simp
    then show ?thesis by blast
  qed
next
  case (4 r b s)
  show ?case
  proof (cases s)
    case Nil
    with 4 show ?thesis by auto
  next
    case (Cons x xs)
    with 4(2,3) obtain s1 s2 b' where "xs = s1 @ s2" "re_at bs b' s2" by auto
    with Cons have "s = (x # s1) @ s2 \<and> re_at bs b' s2" by simp
    then show ?thesis by blast
  qed
next
  case (5 r b s)
  show ?case
  proof (cases "b \<and> re_at (r @ bs) b s")
    case True
    with 5(1) show ?thesis by blast
  next
    case False
    with 5(3) obtain x xs where s: "s = x # xs" and "re_at (r @ bs) False xs"
      by (cases s) auto
    with 5(2) obtain s1 s2 b' where "xs = s1 @ s2" "re_at bs b' s2" by blast
    with s have "s = (x # s1) @ s2 \<and> re_at bs b' s2" by simp
    then show ?thesis by blast
  qed
next
  case (6 r b s)
  then show ?case by auto
next
  case (7 r b s)
  then show ?case by auto
qed

lemma re_at_lits:
  "re_at (map ReLit r @ bs) b s \<Longrightarrow>
   \<exists>y s' b'. s = y @ s' \<and> map lower y = map lower r \<and> re_at bs b' s'"
proof (induction r arbitrary: b s)
  case Nil
  then show ?case by auto
next
  case (Cons c r)
  then obtain x xs where s: "s = x # xs" and x: "lower x = lower c"
    and "re_at (map ReLit r @ bs) False xs"
    by (cases s) auto
  with Cons.IH obtain y s' b' where "xs = y @ s'" "map lower y = map lower r" "re_at bs b' s'"
    by blast
  with s x have "s = (x # y) @ s' \<and> map lower (x # y) = map lower (c # r) \<and> re_at bs b' s'"
    by simp
  then show ?case by blast
qed

text \<open>An atom that can stand beside a token: a literal that is no token character, or the separator.\<close>

definition edge_atom :: "re_atom \<Rightarrow> bool" where
  "edge_atom a \<longleftrightarrow> a = ReSep \<or> (\<exists>c. a = ReLit c \<and> \<not> is_token_char c)"

lemma token_lower_cong: "lower x = lower c \<Longrightarrow> is_token_char x = is_token_char c"
  by (metis is_token_char_lower)

lemma re_at_edge:
  assumes "edge_atom a" "re_at (a # bs) b s"
  shows "s = [] \<and> re_at bs b [] \<or> (\<exists>x xs. s = x # xs \<and> \<not> is_token_char x \<and> re_at bs False xs)"
proof (cases s)
  case Nil
  with assms show ?thesis by (auto simp: edge_atom_def)
next
  case (Cons x xs)
  have "\<not> is_token_char x" if "sep_char x"
    using that by (simp add: sep_char_def is_token_char_def)
  with assms Cons show ?thesis by (auto simp: edge_atom_def dest: token_lower_cong)
qed

lemma re_search_run:
  assumes m: "re_search (pre @ [a] @ map ReLit r @ [a'] @ post) s"
    and edges: "edge_atom a" "edge_atom a'"
    and r: "r \<noteq> []" "list_all is_token_char r"
  obtains x y z where "run_in s x y z" "map lower y = map lower r"
proof -
  let ?v = "[a'] @ post"
  from m obtain i b where "re_at (pre @ ([a] @ map ReLit r @ ?v)) b (drop i s)"
    unfolding re_search_def list_ex_iff by blast
  from re_at_append [OF this] obtain s1 s2 b2 where s12: "drop i s = s1 @ s2"
    and "re_at ([a] @ map ReLit r @ ?v) b2 s2" by blast
  then have "re_at (a # map ReLit r @ ?v) b2 s2" by simp
  from re_at_edge [OF edges(1) this] have
    "s2 = [] \<and> re_at (map ReLit r @ ?v) b2 [] \<or>
     (\<exists>x xs. s2 = x # xs \<and> \<not> is_token_char x \<and> re_at (map ReLit r @ ?v) False xs)" .
  moreover have "\<not> re_at (map ReLit r @ ?v) b2 []" using r(1) by (cases r) auto
  ultimately obtain x xs where x: "s2 = x # xs" "\<not> is_token_char x"
    and rest: "re_at (map ReLit r @ ?v) False xs" by blast
  from re_at_lits [OF rest] obtain y z b3 where y: "xs = y @ z" "map lower y = map lower r"
    and "re_at ?v b3 z" by blast
  then have "re_at (a' # post) b3 z" by simp
  from re_at_edge [OF edges(2) this] have z: "z = [] \<or> \<not> is_token_char (hd z)" by auto
  have tok: "list_all is_token_char y"
    using y(2) r(2) is_token_char_lower
    by (metis (no_types, lifting) list.pred_map list.pred_mono_strong comp_apply)
  have "s = (take i s @ s1 @ [x]) @ y @ z"
    using s12 x(1) y(1) by (metis append.assoc append_Cons append_Nil append_take_drop_id)
  moreover have "y \<noteq> []" using y(2) r(1) by auto
  ultimately have "run_in s (take i s @ s1 @ [x]) y z"
    using tok z x(2) unfolding run_in_def by simp
  with y(2) that show ?thesis by blast
qed

subsection \<open>The concrete syntax reads back\<close>

text \<open>Reading a source of the fragment back.\<close>

function parse_atoms :: "string \<Rightarrow> re_atom list" where
  "parse_atoms s =
     (case s of [] \<Rightarrow> []
      | c # r \<Rightarrow>
        if c = CHR 0x5C then (case r of [] \<Rightarrow> [] | x # r' \<Rightarrow> ReLit x # parse_atoms r')
        else if c = CHR ''^'' then ReStart # parse_atoms r
        else if c = CHR ''$'' then ReEnd # parse_atoms r
        else if c = CHR ''.'' then ReAnyStar # parse_atoms (drop 1 r)
        else if c = CHR ''('' then
          (if starts_with r ''?:['' then ReSep # parse_atoms (drop 17 r)
           else ReDotOrStart # parse_atoms (drop 7 r))
        else ReLit c # parse_atoms r)"
  by pat_completeness auto
termination by (relation "measure length") auto

declare parse_atoms.simps [simp del]

lemma parse_atoms_print: "re_ok a \<Longrightarrow> parse_atoms (print_atom a @ s) = a # parse_atoms s"
  by (cases a; subst parse_atoms.simps)
    (auto simp: re_special_def str_contains_iff starts_with_def)

lemma parse_atoms_source: "list_all re_ok as \<Longrightarrow> parse_atoms (drop 4 (re_source as)) = as"
proof -
  have "parse_atoms (concat (map print_atom as)) = as" if "list_all re_ok as" for as
    using that
  proof (induction as)
    case Nil
    show ?case by (simp add: parse_atoms.simps)
  next
    case (Cons a as)
    then show ?case by (simp add: parse_atoms_print)
  qed
  then show "list_all re_ok as \<Longrightarrow> parse_atoms (drop 4 (re_source as)) = as"
    by (simp add: re_source_def)
qed

end
