(* ===== verification/Filter_Parser.thy ===== *)
theory Filter_Parser
  imports Regex_Fragment
begin

text \<open>
  The line parser of \<open>crates/bulwark-filter/src/parser.rs\<close>: hosts-file lines and AdGuard
  rules, function by function. A \<open>Result\<close> is a sum with the error on the left.

  The lemmas show what the rest of the filter relies on: a rewrite rule always carries its
  rewrite data, the domain of an AdGuard rule is at most 253 bytes long and lower case, and
  the index tokens of a wildcard rule occur in every name the rule matches.
\<close>

definition MAX_REGEX_LEN :: nat where
  "MAX_REGEX_LEN = 1000"

datatype parsed = Rules "build_rule list" | Ignored | Unsupported string

datatype parse_error = EInvalid string | ERegex string

definition compile_regex :: "filter_ext \<Rightarrow> string \<Rightarrow> parse_error + regex" where
  "compile_regex fx src =
     (case regex_error fx src of Some e \<Rightarrow> Inl (ERegex e) | None \<Rightarrow> Inr src)"

definition HOSTS_NOISE :: "string list" where
  "HOSTS_NOISE =
     [''localhost'', ''localhost.localdomain'', ''local'', ''broadcasthost'', ''ip6-localhost'',
      ''ip6-loopback'', ''ip6-localnet'', ''ip6-mcastprefix'', ''ip6-allnodes'',
      ''ip6-allrouters'', ''ip6-allhosts'', ''0.0.0.0'']"

definition is_blocking_ip :: "ip_addr \<Rightarrow> bool" where
  "is_blocking_ip ip = (is_unspecified ip \<or> is_loopback ip)"

definition norm_domain :: "string \<Rightarrow> string" where
  "norm_domain d = to_ascii_lowercase (trim_end_matches CHR ''.'' (trim d))"

definition ip_literal :: "string \<Rightarrow> string option" where
  "ip_literal s =
     (let bare = (case Option.bind (strip_prefix s ''['') (\<lambda>r. strip_suffix r '']'') of
                    None \<Rightarrow> s | Some b \<Rightarrow> b)
      in map_option show_ip (parse_ip bare))"

fun is_cosmetic :: "string \<Rightarrow> bool" where
  "is_cosmetic [] = False"
| "is_cosmetic (b # rest) =
     (if b = CHR ''#'' then
        (case dropWhile (\<lambda>c. str_contains ''@?$%'' c) rest of
           [] \<Rightarrow> is_cosmetic rest
         | c # _ \<Rightarrow> if c = CHR ''#'' then True else is_cosmetic rest)
      else if b = CHR ''$'' \<and> (starts_with (b # rest) ''$$'' \<or> starts_with (b # rest) ''$@$'')
      then True
      else is_cosmetic rest)"

definition label_ok :: "string \<Rightarrow> bool" where
  "label_ok label =
     (label \<noteq> [] \<and> length label \<le> 63
      \<and> list_all (\<lambda>c. is_ascii_alphanumeric c \<or> c = CHR ''-'' \<or> c = CHR ''_'') label)"

definition is_dns_hostname :: "string \<Rightarrow> bool" where
  "is_dns_hostname d =
     (d \<noteq> [] \<and> length d \<le> 253 \<and> list_all label_ok (split_char CHR ''.'' d))"

definition ip_rewrite :: "ip_addr \<Rightarrow> rewrite_data" where
  "ip_rewrite ip = (case ip of V4 v4 \<Rightarrow> RwA v4 | V6 v6 \<Rightarrow> RwAaaa v6)"

subsection \<open>Hosts-file lines\<close>

definition hosts_rule :: "string \<Rightarrow> ip_addr \<Rightarrow> string \<Rightarrow> build_rule option" where
  "hosts_rule first ip host =
     (let block = is_blocking_ip ip; domain = norm_domain host in
      if domain = [] \<or> domain \<in> set HOSTS_NOISE then None
      else
        let (action, ms) =
          (if block then (Block, None)
           else (Rewrite, Some (default_mods\<lparr>rewrite := Some (ip_rewrite ip)\<rparr>)))
        in Some
          \<lparr>br_rule =
             \<lparr>rid = 0, raw = first @ '' '' @ host, act = action, pat = Exact domain, mods = ms,
              list_id = 0\<rparr>,
           badfilter = False,
           signature = ''hosts|'' @ domain @ ''|'' @ (if block then ''block'' else ''rewrite''),
           index_tokens = []\<rparr>)"

definition try_parse_hosts :: "string \<Rightarrow> build_rule list option" where
  "try_parse_hosts line =
     (case split_whitespace line of [] \<Rightarrow> None
      | first # parts \<Rightarrow>
          (case parse_ip first of None \<Rightarrow> None
           | Some ip \<Rightarrow>
               let hosts = takeWhile (\<lambda>tok. \<not> starts_with tok ''#'') parts in
               if hosts = [] then None
               else Some (List.map_filter (hosts_rule first ip) hosts)))"

subsection \<open>Patterns\<close>

definition split_modifiers :: "string \<Rightarrow> string \<times> string option" where
  "split_modifiers s =
     (if starts_with s ''/'' then
        (case find_str s ''/$'' of
           Some idx \<Rightarrow> (take (Suc idx) s, Some (drop (idx + 2) s))
         | None \<Rightarrow> (s, None))
      else
        (case find_char s CHR ''$'' of
           Some idx \<Rightarrow> (take idx s, Some (drop (Suc idx) s))
         | None \<Rightarrow> (s, None)))"

definition make_signature :: "action \<Rightarrow> string \<Rightarrow> string option \<Rightarrow> string" where
  "make_signature action pattern ms =
     (let prefix = (if action = Allow then ''@@'' else []);
          parts = (case ms of None \<Rightarrow> []
                   | Some m \<Rightarrow> filter (\<lambda>s. s \<noteq> [] \<and> s \<noteq> ''badfilter'') (map trim (split_char CHR '','' m)))
      in prefix @ to_ascii_lowercase pattern @ ''|$'' @ join '','' (sort parts))"

definition wildcard_char :: "char \<Rightarrow> string" where
  "wildcard_char ch =
     (if ch = CHR ''*'' then ''.*''
      else if ch = CHR ''^'' then ''(?:[^a-z0-9._-]|$)''
      else if str_contains (CHR 0x5C # ''.+?()[]{}|$'') ch then [CHR 0x5C, ch]
      else [ch])"

definition wildcard_source :: "string \<Rightarrow> bool \<Rightarrow> bool \<Rightarrow> bool \<Rightarrow> string" where
  "wildcard_source body subdomain_anchor start_anchor end_anchor =
     ''(?i)''
     @ (if subdomain_anchor then ''(?:^|'' @ [CHR 0x5C] @ ''.)''
        else if start_anchor then ''^'' else [])
     @ concat (map wildcard_char body)
     @ (if end_anchor then ''$'' else [])"

definition build_wildcard_regex ::
  "filter_ext \<Rightarrow> string \<Rightarrow> bool \<Rightarrow> bool \<Rightarrow> bool \<Rightarrow> parse_error + regex" where
  "build_wildcard_regex fx body subdomain_anchor start_anchor end_anchor =
     compile_regex fx (wildcard_source body subdomain_anchor start_anchor end_anchor)"

definition parse_pattern :: "filter_ext \<Rightarrow> string \<Rightarrow> parse_error + (pattern \<times> u32 list)" where
  "parse_pattern fx p =
     (if starts_with p ''/'' \<and> ends_with p ''/'' \<and> 2 \<le> length p then
        let inner = take (length p - 2) (drop 1 p) in
        if MAX_REGEX_LEN < length inner then
          Inl (ERegex (''regex too long ('' @ show_nat (int (length inner)) @ '' > 1000 chars)''))
        else case compile_regex fx (''(?i)'' @ inner) of
          Inl e \<Rightarrow> Inl e | Inr re \<Rightarrow> Inr (Regex re, [])
      else
        let (subdomain_anchor, start_anchor, s) =
              (case strip_prefix p ''||'' of Some rest \<Rightarrow> (True, False, rest)
               | None \<Rightarrow> (case strip_prefix p ''|'' of Some rest \<Rightarrow> (False, True, rest)
                          | None \<Rightarrow> (False, False, p)));
            (end_anchor, s) =
              (case strip_suffix s ''^'' of Some rest \<Rightarrow> (True, rest)
               | None \<Rightarrow> (case strip_suffix s ''|'' of Some rest \<Rightarrow> (True, rest)
                          | None \<Rightarrow> (False, s)));
            s = trim_end_matches CHR ''^'' s
        in
          if str_contains s CHR ''*'' \<or> str_contains s CHR ''^'' then
            (case build_wildcard_regex fx s subdomain_anchor start_anchor end_anchor of
               Inl e \<Rightarrow> Inl e
             | Inr re \<Rightarrow> Inr (Wildcard re, tokenize_pattern_safe (to_ascii_lowercase s)))
          else case ip_literal s of Some ip \<Rightarrow> Inr (Exact ip, [])
            | None \<Rightarrow>
                let domain = norm_domain s in
                if domain = [] then Inl (EInvalid ''empty domain'')
                else if \<not> is_dns_hostname domain
                then Inl (EInvalid (''not a DNS hostname: '' @ domain))
                else if start_anchor then Inr (Exact domain, [])
                else Inr (Subdomain domain, []))"

subsection \<open>Modifiers\<close>

definition nonempty_parts :: "string \<Rightarrow> string list" where
  "nonempty_parts value = filter (\<lambda>s. s \<noteq> []) (split_char CHR ''|'' value)"

definition push_dnstype :: "dns_type_filter \<Rightarrow> string \<Rightarrow> dns_type_filter" where
  "push_dnstype f t =
     (case strip_prefix t ''~'' of
        Some neg \<Rightarrow> f\<lparr>dt_exclude := dt_exclude f @ [to_ascii_uppercase neg]\<rparr>
      | None \<Rightarrow> f\<lparr>dt_include := dt_include f @ [to_ascii_uppercase t]\<rparr>)"

definition parse_dnstype :: "string \<Rightarrow> parse_error + dns_type_filter" where
  "parse_dnstype value =
     (let f = foldl push_dnstype \<lparr>dt_include = [], dt_exclude = []\<rparr> (nonempty_parts value) in
      if dt_include f = [] \<and> dt_exclude f = []
      then Inl (EInvalid ''$dnstype requires at least one record type'') else Inr f)"

definition push_client :: "filter_ext \<Rightarrow> client_filter \<Rightarrow> string \<Rightarrow> client_filter" where
  "push_client fx f item =
     (let (neg, spec) = (case strip_prefix item ''~'' of Some rest \<Rightarrow> (True, rest) | None \<Rightarrow> (False, item));
          spec = trim_matches (CHR 0x27) (trim_matches (CHR 0x22) spec);
          m = (case net_parse fx spec of Some net \<Rightarrow> MNet net
               | None \<Rightarrow> (case parse_ip spec of Some ip \<Rightarrow> MIp ip | None \<Rightarrow> MName spec))
      in if neg then f\<lparr>cf_exclude := cf_exclude f @ [m]\<rparr> else f\<lparr>cf_include := cf_include f @ [m]\<rparr>)"

definition parse_client :: "filter_ext \<Rightarrow> string \<Rightarrow> parse_error + client_filter" where
  "parse_client fx value =
     (let f = foldl (push_client fx) \<lparr>cf_include = [], cf_exclude = []\<rparr> (nonempty_parts value) in
      if cf_include f = [] \<and> cf_exclude f = []
      then Inl (EInvalid ''$client requires at least one client'') else Inr f)"

definition push_ctag :: "ctag_filter \<Rightarrow> string \<Rightarrow> ctag_filter" where
  "push_ctag f t =
     (case strip_prefix t ''~'' of
        Some neg \<Rightarrow> f\<lparr>ct_exclude := ct_exclude f @ [neg]\<rparr>
      | None \<Rightarrow> f\<lparr>ct_include := ct_include f @ [t]\<rparr>)"

definition parse_ctag :: "string \<Rightarrow> parse_error + ctag_filter" where
  "parse_ctag value =
     (let f = foldl push_ctag \<lparr>ct_include = [], ct_exclude = []\<rparr> (nonempty_parts value) in
      if ct_include f = [] \<and> ct_exclude f = []
      then Inl (EInvalid ''$ctag requires at least one tag'') else Inr f)"

definition rcode_keyword :: "string \<Rightarrow> rewrite_rcode option" where
  "rcode_keyword v =
     (if v = ''NOERROR'' then Some NoError
      else if v = ''NXDOMAIN'' then Some NxDomain
      else if v = ''REFUSED'' then Some Refused
      else if v = ''SERVFAIL'' then Some ServFail else None)"

definition parse_mx :: "string \<Rightarrow> parse_error + rewrite_data" where
  "parse_mx data =
     (let bad = Inl (EInvalid (''bad MX in dnsrewrite: '' @ data)) in
      case split_whitespace data of [] \<Rightarrow> bad
      | p # rest \<Rightarrow>
          (case parse_u16 p of None \<Rightarrow> bad
           | Some preference \<Rightarrow>
               (case rest of [] \<Rightarrow> bad
                | exchange # _ \<Rightarrow> Inr (RwMx preference (norm_domain exchange)))))"

text \<open>The full form \<open>RCODE;TYPE;VALUE\<close>; \<open>None\<close> when the type is none of the six.\<close>

definition full_rewrite :: "string \<Rightarrow> string \<Rightarrow> (parse_error + rewrite_data) option" where
  "full_rewrite rtype data =
     (if rtype = ''A'' then
        Some (case parse_ipv4 data of Some ip \<Rightarrow> Inr (RwA ip)
              | None \<Rightarrow> Inl (EInvalid (''bad A in dnsrewrite: '' @ data)))
      else if rtype = ''AAAA'' then
        Some (case parse_ipv6 data of Some ip \<Rightarrow> Inr (RwAaaa ip)
              | None \<Rightarrow> Inl (EInvalid (''bad AAAA in dnsrewrite: '' @ data)))
      else if rtype = ''CNAME'' then Some (Inr (RwCname (norm_domain data)))
      else if rtype = ''TXT'' then Some (Inr (RwTxt (trim_matches (CHR 0x22) data)))
      else if rtype = ''PTR'' then Some (Inr (RwPtr (norm_domain data)))
      else if rtype = ''MX'' then Some (parse_mx data)
      else None)"

definition parse_dnsrewrite :: "string \<Rightarrow> parse_error + rewrite_data" where
  "parse_dnsrewrite value =
     (let v = trim value in
      case rcode_keyword (to_ascii_uppercase v) of Some rc \<Rightarrow> Inr (RwRcode rc)
      | None \<Rightarrow>
        (case parse_ip v of Some ip \<Rightarrow> Inr (ip_rewrite ip)
         | None \<Rightarrow>
           (case (case splitn 3 CHR '';'' v of
                    [_, t, data] \<Rightarrow> full_rewrite (to_ascii_uppercase t) data
                  | _ \<Rightarrow> None) of
              Some res \<Rightarrow> res
            | None \<Rightarrow>
                if str_contains v CHR ''.'' \<and> \<not> str_contains v CHR '';''
                then Inr (RwCname (norm_domain v))
                else Inl (EInvalid (''unsupported dnsrewrite: '' @ value)))))"

text \<open>The state of the modifier loop: the modifiers so far, \<open>badfilter\<close>, and the action.\<close>

record mod_state =
  ms_mods :: rule_mods
  ms_badfilter :: bool
  ms_action :: action

text \<open>One modifier: an error, \<open>Inr None\<close> for an unsupported one, or the new state.\<close>

definition apply_modifier ::
  "filter_ext \<Rightarrow> string \<Rightarrow> mod_state \<Rightarrow> parse_error + mod_state option" where
  "apply_modifier fx tok st =
     (let (key, value) = (case split_once tok CHR ''='' of Some (k, v) \<Rightarrow> (k, v) | None \<Rightarrow> (tok, []));
          m = ms_mods st
      in
        if key = ''important'' then Inr (Some (st\<lparr>ms_mods := m\<lparr>important := True\<rparr>\<rparr>))
        else if key = ''badfilter'' then Inr (Some (st\<lparr>ms_badfilter := True\<rparr>))
        else if key = ''dnstype'' then
          map_sum id (\<lambda>f. Some (st\<lparr>ms_mods := m\<lparr>dnstype := Some f\<rparr>\<rparr>)) (parse_dnstype value)
        else if key = ''client'' then
          map_sum id (\<lambda>f. Some (st\<lparr>ms_mods := m\<lparr>client := Some f\<rparr>\<rparr>)) (parse_client fx value)
        else if key = ''ctag'' then
          map_sum id (\<lambda>f. Some (st\<lparr>ms_mods := m\<lparr>ctag := Some f\<rparr>\<rparr>)) (parse_ctag value)
        else if key = ''denyallow'' then
          (let domains = map norm_domain (nonempty_parts value) in
           if domains = [] then Inl (EInvalid ''$denyallow requires at least one domain'')
           else Inr (Some (st\<lparr>ms_mods := m\<lparr>denyallow := domains\<rparr>\<rparr>)))
        else if key = ''dnsrewrite'' then
          map_sum id
            (\<lambda>d. Some (st\<lparr>ms_mods := m\<lparr>rewrite := Some d\<rparr>,
                         ms_action := (if ms_action st = Block then Rewrite else ms_action st)\<rparr>))
            (parse_dnsrewrite value)
        else Inr None)"

fun modifier_loop ::
  "filter_ext \<Rightarrow> string list \<Rightarrow> mod_state \<Rightarrow> parse_error + mod_state option" where
  "modifier_loop fx [] st = Inr (Some st)"
| "modifier_loop fx (tok # toks) st =
     (let tok = trim tok in
      if tok = [] then modifier_loop fx toks st
      else case apply_modifier fx tok st of
        Inl e \<Rightarrow> Inl e
      | Inr None \<Rightarrow> Inr None
      | Inr (Some st') \<Rightarrow> modifier_loop fx toks st')"

definition parse_adblock :: "filter_ext \<Rightarrow> string \<Rightarrow> parse_error + parsed" where
  "parse_adblock fx line =
     (let (action, body) = (case strip_prefix line ''@@'' of Some rest \<Rightarrow> (Allow, rest)
                            | None \<Rightarrow> (Block, line));
          (pattern_str, mods_str) = split_modifiers body;
          pattern_str = trim pattern_str
      in
        if pattern_str = [] then Inl (EInvalid ''empty pattern'')
        else
          let sig = make_signature action pattern_str mods_str in
          case parse_pattern fx pattern_str of Inl e \<Rightarrow> Inl e
          | Inr (pattern, tokens) \<Rightarrow>
            (case modifier_loop fx
                    (case mods_str of None \<Rightarrow> [] | Some ms \<Rightarrow> split_char CHR '','' ms)
                    \<lparr>ms_mods = default_mods, ms_badfilter = False, ms_action = action\<rparr> of
               Inl e \<Rightarrow> Inl e
             | Inr None \<Rightarrow> Inr (Unsupported line)
             | Inr (Some st) \<Rightarrow>
                 Inr (Rules
                   [\<lparr>br_rule =
                       \<lparr>rid = 0, raw = line, act = ms_action st, pat = pattern,
                        mods = (if mods_is_empty (ms_mods st) then None else Some (ms_mods st)),
                        list_id = 0\<rparr>,
                     badfilter = ms_badfilter st, signature = sig, index_tokens = tokens\<rparr>])))"

definition parse_line :: "filter_ext \<Rightarrow> string \<Rightarrow> parse_error + parsed" where
  "parse_line fx line =
     (let line = trim line in
      if line = [] then Inr Ignored
      else if starts_with line ''!'' \<or> starts_with line ''#'' \<or> starts_with line ''['' then Inr Ignored
      else case try_parse_hosts line of
        Some rules \<Rightarrow> Inr (if rules = [] then Ignored else Rules rules)
      | None \<Rightarrow> if is_cosmetic line then Inr (Unsupported line) else parse_adblock fx line)"

subsection \<open>The tokens of a wildcard rule occur in every name it matches\<close>

definition atom_of :: "char \<Rightarrow> re_atom" where
  "atom_of c = (if c = CHR ''*'' then ReAnyStar else if c = CHR ''^'' then ReSep else ReLit c)"

definition wildcard_atoms :: "string \<Rightarrow> bool \<Rightarrow> bool \<Rightarrow> bool \<Rightarrow> re_atom list" where
  "wildcard_atoms body sub st en =
     (if sub then [ReDotOrStart] else if st then [ReStart] else [])
     @ map atom_of body @ (if en then [ReEnd] else [])"

lemma print_atom_of: "print_atom (atom_of c) = wildcard_char c"
  by (simp add: atom_of_def wildcard_char_def re_special_def)

lemma wildcard_source_atoms: "wildcard_source body sub st en = re_source (wildcard_atoms body sub st en)"
  by (simp add: wildcard_source_def re_source_def wildcard_atoms_def comp_def print_atom_of)

lemma wildcard_atoms_ok: "ascii body \<Longrightarrow> list_all re_ok (wildcard_atoms body sub st en)"
  by (auto simp: wildcard_atoms_def ascii_def list_all_iff atom_of_def)

lemma lower_star [simp]: "lower c = CHR ''*'' \<longleftrightarrow> c = CHR ''*''"
  by (auto simp: lower_def is_ascii_uppercase_def dest: arg_cong [of _ _ "of_char :: char \<Rightarrow> int"])

lemma token_not_meta: "is_token_char c \<Longrightarrow> atom_of c = ReLit c"
  by (auto simp: atom_of_def is_token_char_def is_ascii_alphanumeric_def is_ascii_uppercase_def
      is_ascii_lowercase_def is_ascii_digit_def)

lemma edge_atom_of: "\<not> is_token_char c \<Longrightarrow> c \<noteq> CHR ''*'' \<Longrightarrow> edge_atom (atom_of c)"
  by (auto simp: edge_atom_def atom_of_def)

lemma safe_run_lower:
  assumes "safe_run (map lower body) u r v"
  obtains u' a r' b v' where "body = u' @ [a] @ r' @ [b] @ v'" "map lower r' = r" "r' \<noteq> []"
    "list_all is_token_char r'" "edge_atom (atom_of a)" "edge_atom (atom_of b)"
proof -
  from assms have run: "run_in (map lower body) u r v" and ne: "u \<noteq> []" "v \<noteq> []"
    and star: "last u \<noteq> CHR ''*''" "hd v \<noteq> CHR ''*''"
    by (auto simp: safe_run_def)
  from run have "map lower body = u @ (r @ v)" by (simp add: run_in_def)
  then obtain u1 w1 where b1: "body = u1 @ w1" "map lower u1 = u" "map lower w1 = r @ v"
    using map_eq_append_conv [of lower body u "r @ v"] by auto
  from b1(3) obtain r1 v1 where "w1 = r1 @ v1" "map lower r1 = r" "map lower v1 = v"
    using map_eq_append_conv [of lower w1 r v] by auto
  with b1 have body: "body = u1 @ r1 @ v1"
    and eqs: "map lower u1 = u" "map lower r1 = r" "map lower v1 = v" by simp_all
  with ne have ne1: "u1 \<noteq> []" "v1 \<noteq> []" by auto
  then have ends: "last u = lower (last u1)" "hd v = lower (hd v1)"
    using eqs by (auto simp: last_map hd_map)
  have "edge_atom (atom_of (last u1))" "edge_atom (atom_of (hd v1))"
    using run ne star ends by (auto simp: run_in_def is_token_char_lower intro!: edge_atom_of)
  moreover have "list_all is_token_char r1" "r1 \<noteq> []"
    using run eqs by (auto simp: run_in_def list_all_iff is_token_char_lower)
  moreover have "body = butlast u1 @ [last u1] @ r1 @ [hd v1] @ tl v1"
    using body ne1 by (simp add: append_butlast_last_id [symmetric] flip: append_assoc)
  ultimately show ?thesis using that eqs by blast
qed

lemma map_atom_of_token: "list_all is_token_char r \<Longrightarrow> map atom_of r = map ReLit r"
  by (simp add: list_all_iff token_not_meta)

lemma wildcard_tokens_sound:
  assumes laws: "regex_laws fx" and asc: "ascii body" "ascii d"
    and m: "regex_is_match fx (wildcard_source body sub st en) d"
  shows "set (tokenize_pattern_safe (to_ascii_lowercase body)) \<subseteq> set (for_each_query_token d)"
proof
  fix h assume "h \<in> set (tokenize_pattern_safe (to_ascii_lowercase body))"
  then obtain u r v where safe: "safe_run (map lower body) u r v" and h: "h = fast_hash r"
    by (auto simp: to_ascii_lowercase_def elim: pattern_token_safe)
  from safe obtain u' a r' b v' where body: "body = u' @ [a] @ r' @ [b] @ v'"
    and r': "map lower r' = r" "r' \<noteq> []" "list_all is_token_char r'"
    and edges: "edge_atom (atom_of a)" "edge_atom (atom_of b)"
    by (rule safe_run_lower)
  let ?pre = "(if sub then [ReDotOrStart] else if st then [ReStart] else []) @ map atom_of u'"
  let ?post = "map atom_of v' @ (if en then [ReEnd] else [])"
  have "re_search (wildcard_atoms body sub st en) d"
    using laws asc m wildcard_atoms_ok unfolding regex_laws_def wildcard_source_atoms by blast
  moreover have "wildcard_atoms body sub st en =
      ?pre @ [atom_of a] @ map ReLit r' @ [atom_of b] @ ?post"
    using r'(3) by (simp add: wildcard_atoms_def body map_atom_of_token)
  ultimately have "re_search (?pre @ [atom_of a] @ map ReLit r' @ [atom_of b] @ ?post) d" by simp
  then obtain x y z where run: "run_in d x y z" and y: "map lower y = map lower r'"
    using edges r'(2,3) by (rule re_search_run)
  have "length y = length r" using y r'(1) by (metis length_map)
  moreover have "fast_hash y = h"
    using y r'(1) h fast_hash_lower by metis
  moreover have "MIN_TOKEN_LEN \<le> length r" using safe by (simp add: safe_run_def)
  ultimately show "h \<in> set (for_each_query_token d)"
    using query_token_complete [OF run] by simp
qed

definition tokens_sound :: "filter_ext \<Rightarrow> pattern \<Rightarrow> u32 list \<Rightarrow> string \<Rightarrow> bool" where
  "tokens_sound fx p toks d \<longleftrightarrow>
     (case p of
        Wildcard re \<Rightarrow> regex_is_match fx re d \<longrightarrow> set toks \<subseteq> set (for_each_query_token d)
      | _ \<Rightarrow> toks = [])"

lemma ascii_mono: "ascii s \<Longrightarrow> set t \<subseteq> set s \<Longrightarrow> ascii t"
  by (auto simp: ascii_def list_all_iff)

text \<open>The four ways in which a pattern parses.\<close>

lemma parse_pattern_cases:
  assumes ok: "parse_pattern fx p = Inr (pt, toks)"
  obtains (regex) re where "pt = Regex re" "toks = []"
    | (wildcard) body sub st en where "set body \<subseteq> set p" "length body \<le> length p"
        "pt = Wildcard (wildcard_source body sub st en)"
        "toks = tokenize_pattern_safe (to_ascii_lowercase body)"
    | (literal) ip where "pt = Exact (show_ip ip)" "toks = []"
    | (domain) body where "set body \<subseteq> set p" "length body \<le> length p" "toks = []"
        "is_dns_hostname (norm_domain body)"
        "pt = Exact (norm_domain body) \<or> pt = Subdomain (norm_domain body)"
proof (cases "starts_with p ''/'' \<and> ends_with p ''/'' \<and> 2 \<le> length p")
  case True
  with ok regex show ?thesis
    by (auto simp: parse_pattern_def Let_def split: if_splits sum.splits)
next
  case False
  obtain sub st s1 where 1: "(case strip_prefix p ''||'' of Some rest \<Rightarrow> (True, False, rest)
      | None \<Rightarrow> (case strip_prefix p ''|'' of Some rest \<Rightarrow> (False, True, rest)
                 | None \<Rightarrow> (False, False, p))) = (sub, st, s1)"
    by (metis prod_cases3)
  obtain en s2 where 2: "(case strip_suffix s1 ''^'' of Some rest \<Rightarrow> (True, rest)
      | None \<Rightarrow> (case strip_suffix s1 ''|'' of Some rest \<Rightarrow> (True, rest)
                 | None \<Rightarrow> (False, s1))) = (en, s2)"
    by fastforce
  let ?s = "trim_end_matches CHR ''^'' s2"
  have "set s1 \<subseteq> set p \<and> length s1 \<le> length p"
    using 1 by (auto split: option.splits dest: set_strip_prefix length_strip_prefix)
  moreover have "set s2 \<subseteq> set s1 \<and> length s2 \<le> length s1"
    using 2 by (auto split: option.splits dest: set_strip_suffix length_strip_suffix)
  moreover have "set ?s \<subseteq> set s2" "length ?s \<le> length s2"
    by (rule set_trim_end_matches, rule length_trim_end_matches)
  ultimately have s: "set ?s \<subseteq> set p" "length ?s \<le> length p" by (blast, linarith)
  show ?thesis
  proof (cases "str_contains ?s CHR ''*'' \<or> str_contains ?s CHR ''^''")
    case True
    with ok False 1 2 have "pt = Wildcard (wildcard_source ?s sub st en)"
      "toks = tokenize_pattern_safe (to_ascii_lowercase ?s)"
      by (simp_all add: parse_pattern_def Let_def build_wildcard_regex_def compile_regex_def
          split: option.splits)
    with s show ?thesis by (rule wildcard)
  next
    case nowild: False
    show ?thesis
    proof (cases "ip_literal ?s")
      case (Some ip)
      then obtain a where "ip = show_ip a" by (auto simp: ip_literal_def Let_def)
      with ok False 1 2 nowild Some have "pt = Exact (show_ip a)" "toks = []"
        by (auto simp: parse_pattern_def Let_def)
      then show ?thesis by (rule literal)
    next
      case None
      with ok False 1 2 nowild have "toks = []" "is_dns_hostname (norm_domain ?s)"
        "pt = Exact (norm_domain ?s) \<or> pt = Subdomain (norm_domain ?s)"
        by (auto simp add: parse_pattern_def Let_def split: if_splits)
      with s show ?thesis by (rule domain)
    qed
  qed
qed

lemma parse_pattern_tokens_sound:
  assumes laws: "regex_laws fx" and asc: "ascii p" "ascii d"
    and ok: "parse_pattern fx p = Inr (pt, toks)"
  shows "tokens_sound fx pt toks d"
  using ok
proof (cases rule: parse_pattern_cases)
  case (wildcard body sub st en)
  then have "ascii body" using ascii_mono [OF asc(1)] by blast
  from wildcard_tokens_sound [OF laws this asc(2)] wildcard show ?thesis by (simp add: tokens_sound_def)
qed (auto simp: tokens_sound_def)

subsection \<open>A rewrite rule carries its data\<close>

definition carries_rewrite :: "build_rule \<Rightarrow> bool" where
  "carries_rewrite br \<longleftrightarrow> (act (br_rule br) = Rewrite \<longrightarrow> rule_rewrite (br_rule br) \<noteq> None)"

lemma apply_modifier_rewrite:
  "apply_modifier fx tok st = Inr (Some st') \<Longrightarrow>
   (ms_action st = Rewrite \<longrightarrow> rewrite (ms_mods st) \<noteq> None) \<Longrightarrow>
   ms_action st' = Rewrite \<longrightarrow> rewrite (ms_mods st') \<noteq> None"
  by (cases "split_once tok CHR ''=''")
    (auto simp: apply_modifier_def Let_def map_sum_def split: if_splits sum.splits)

lemma modifier_loop_rewrite:
  "modifier_loop fx toks st = Inr (Some st') \<Longrightarrow>
   (ms_action st = Rewrite \<longrightarrow> rewrite (ms_mods st) \<noteq> None) \<Longrightarrow>
   ms_action st' = Rewrite \<longrightarrow> rewrite (ms_mods st') \<noteq> None"
proof (induction toks arbitrary: st)
  case (Cons tok toks)
  then show ?case
    using apply_modifier_rewrite by (fastforce simp: Let_def split: if_splits sum.splits option.splits)
qed simp

lemma hosts_rule_carries: "hosts_rule first ip host = Some br \<Longrightarrow> carries_rewrite br"
  by (auto simp: hosts_rule_def Let_def carries_rewrite_def rule_rewrite_def default_mods_def
      split: if_splits)

lemma parse_adblock_Rules:
  assumes "parse_adblock fx line = Inr (Rules rs)"
  obtains br action body where "rs = [br]" "carries_rewrite br"
    "strip_prefix line ''@@'' = Some body \<or> body = line"
    "parse_pattern fx (trim (fst (split_modifiers body))) = Inr (pat (br_rule br), index_tokens br)"
    "raw (br_rule br) = line"
proof -
  obtain action body where ab:
    "(case strip_prefix line ''@@'' of Some rest \<Rightarrow> (Allow, rest) | None \<Rightarrow> (Block, line)) = (action, body)"
    by fastforce
  obtain ps ms where pm: "split_modifiers body = (ps, ms)" by fastforce
  let ?toks = "case ms of None \<Rightarrow> [] | Some ms \<Rightarrow> split_char CHR '','' ms"
  let ?st = "\<lparr>ms_mods = default_mods, ms_badfilter = False, ms_action = action\<rparr>"
  from assms ab pm obtain pt toks st where p: "parse_pattern fx (trim ps) = Inr (pt, toks)"
    and m: "modifier_loop fx ?toks ?st = Inr (Some st)"
    and rs: "rs = [\<lparr>br_rule = \<lparr>rid = 0, raw = line, act = ms_action st, pat = pt,
        mods = (if mods_is_empty (ms_mods st) then None else Some (ms_mods st)), list_id = 0\<rparr>,
      badfilter = ms_badfilter st, signature = make_signature action (trim ps) ms,
      index_tokens = toks\<rparr>]"
    by (auto simp: parse_adblock_def Let_def split: if_splits sum.splits option.splits prod.splits)
  have "action \<noteq> Rewrite" using ab by (auto split: option.splits)
  then have "ms_action st = Rewrite \<longrightarrow> rewrite (ms_mods st) \<noteq> None"
    using modifier_loop_rewrite [OF m] by simp
  then have "carries_rewrite (hd rs)"
    by (auto simp: rs carries_rewrite_def rule_rewrite_def mods_is_empty_def)
  moreover have "strip_prefix line ''@@'' = Some body \<or> body = line"
    using ab by (auto split: option.splits)
  ultimately show ?thesis using that rs p pm by auto
qed

lemma parse_line_Rules:
  assumes "parse_line fx line = Inr (Rules rs)"
  obtains (hosts) "try_parse_hosts (trim line) = Some rs"
    | (adblock) "parse_adblock fx (trim line) = Inr (Rules rs)"
  using assms by (auto simp: parse_line_def Let_def split: if_splits option.splits)

lemma try_parse_hosts_rule:
  assumes "try_parse_hosts line = Some rs" "br \<in> set rs"
  obtains first ip host where "hosts_rule first ip host = Some br"
proof -
  from assms(1) obtain first ip hosts where "rs = List.map_filter (hosts_rule first ip) hosts"
    by (auto simp: try_parse_hosts_def Let_def split: if_splits list.splits option.splits)
  with assms(2) that show ?thesis by (auto simp: map_filter_def)
qed

lemma parse_line_carries_rewrite:
  assumes "parse_line fx line = Inr (Rules rs)" "br \<in> set rs"
  shows "carries_rewrite br"
  using assms(1)
proof (cases rule: parse_line_Rules)
  case hosts
  with assms(2) show ?thesis by (metis try_parse_hosts_rule hosts_rule_carries)
next
  case adblock
  with assms(2) show ?thesis by (auto elim: parse_adblock_Rules)
qed

lemma set_split_modifiers: "set (fst (split_modifiers s)) \<subseteq> set s"
  by (auto simp: split_modifiers_def split: option.splits dest: in_set_takeD)

lemma parse_line_tokens_sound:
  assumes laws: "regex_laws fx" and asc: "ascii line" "ascii d"
    and ok: "parse_line fx line = Inr (Rules rs)" "br \<in> set rs"
  shows "tokens_sound fx (pat (br_rule br)) (index_tokens br) d"
  using ok(1)
proof (cases rule: parse_line_Rules)
  case hosts
  from hosts ok(2) obtain first ip host where "hosts_rule first ip host = Some br"
    by (rule try_parse_hosts_rule)
  then show ?thesis
    by (auto simp: hosts_rule_def Let_def tokens_sound_def split: if_splits)
next
  case adblock
  then obtain br' body where "rs = [br']"
    and body: "strip_prefix (trim line) ''@@'' = Some body \<or> body = trim line"
    and p: "parse_pattern fx (trim (fst (split_modifiers body))) = Inr (pat (br_rule br'), index_tokens br')"
    by (rule parse_adblock_Rules)
  with ok(2) have br: "br' = br" by simp
  have "set (trim (fst (split_modifiers body))) \<subseteq> set body"
    using set_trim set_split_modifiers by blast
  also have "\<dots> \<subseteq> set line" using body set_trim set_strip_prefix by blast
  finally have "ascii (trim (fst (split_modifiers body)))" using ascii_mono asc(1) by blast
  with laws show ?thesis using asc(2) p [unfolded br] by (rule parse_pattern_tokens_sound)
qed

end
