(* ===== verification/Filter_Engine.thy ===== *)
theory Filter_Engine
  imports Filter_Parser "HOL-Library.Multiset"
begin

text \<open>
  The compiled engine of \<open>crates/bulwark-filter/src/engine.rs\<close>: rule records that index
  shared arenas, the hash index of domains, the two scan groups of wildcard and regex
  rules, and the lookup \<open>check\<close>. Every index and every slice that Rust checks at run time
  is checked here; \<open>None\<close> is the panic. Offsets, identifiers and lengths are the machine
  words of the source, so that a conversion that truncates in Rust truncates here.

  The reference meaning is \<open>eligible\<close> (the pattern and the modifiers of one rule) and
  \<open>verdict_ok\<close> (the verdict names an eligible rule of the highest priority). The theorems
  of the theory show that an engine built from rules within the bounds of the encoding
  never panics and always returns such a verdict.
\<close>

definition NO_MODS :: u32 where
  "NO_MODS = 0xFFFFFFFF"

datatype kind_tag = EXACT | SUBDOMAIN | WILDCARD | REGEX

record rule_record =
  raw_start :: u32
  dom_or_re :: u32
  mods_idx :: u32
  raw_len :: u16
  rec_list_id :: u16
  dom_len :: u8
  rec_action :: action
  kind :: kind_tag

record match_info =
  mi_rule :: string
  mi_list_id :: u32
  mi_rule_id :: u32

datatype verdict =
    VAllow "match_info option"
  | VBlock match_info
  | VRewrite match_info rewrite_data

definition is_blocked :: "verdict \<Rightarrow> bool" where
  "is_blocked v = (case v of VBlock _ \<Rightarrow> True | _ \<Rightarrow> False)"

subsection \<open>The domain index\<close>

record domain_index =
  di_map :: "u64 \<rightharpoonup> u32 \<times> u32"
  di_hits :: "u32 list"

function group_pairs :: "(u64 \<times> u32) list \<Rightarrow> domain_index \<Rightarrow> domain_index" where
  "group_pairs [] di = di"
| "group_pairs ((h, ident) # ps) di =
     (let start = word_of_nat (length (di_hits di)) :: u32;
          grp = takeWhile (\<lambda>p. fst p = h) ((h, ident) # ps);
          hits = di_hits di @ map snd grp
      in group_pairs (dropWhile (\<lambda>p. fst p = h) ((h, ident) # ps))
           \<lparr>di_map = (di_map di)(h \<mapsto> (start, word_of_nat (length hits) - start)), di_hits = hits\<rparr>)"
  by pat_completeness auto
termination
proof (relation "measure (length \<circ> fst)", goal_cases)
  case (2 h ident ps di)
  then show ?case using length_dropWhile_le [of "\<lambda>p. fst p = h" ps] by (simp add: le_imp_less_Suc)
qed simp

declare group_pairs.simps(2) [simp del]

definition di_build :: "filter_ext \<Rightarrow> (u64 \<times> u32) list \<Rightarrow> domain_index" where
  "di_build fx pairs = group_pairs (sort_pairs fx pairs) \<lparr>di_map = Map.empty, di_hits = []\<rparr>"

definition di_get :: "domain_index \<Rightarrow> u64 \<Rightarrow> u32 list option" where
  "di_get di hash =
     (case di_map di hash of
        Some (start, len) \<Rightarrow> slice (di_hits di) (unat start) (unat (start + len))
      | None \<Rightarrow> Some [])"

definition di_is_empty :: "domain_index \<Rightarrow> bool" where
  "di_is_empty di = (di_hits di = [])"

subsection \<open>Scan groups\<close>

record scan_group =
  scan_index :: "(u32 \<times> u32 list) list"
  fallback_sets :: "(regex list \<times> u32 list) list"
  fallback_individual :: "u32 list"

definition sg_is_empty :: "scan_group \<Rightarrow> bool" where
  "sg_is_empty g = (scan_index g = [] \<and> fallback_sets g = [] \<and> fallback_individual g = [])"

definition rule_count :: "scan_group \<Rightarrow> nat" where
  "rule_count g =
     sum_list (map (length \<circ> snd) (scan_index g))
     + sum_list (map (length \<circ> snd) (fallback_sets g))
     + length (fallback_individual g)"

definition FALLBACK_CHUNK :: nat where
  "FALLBACK_CHUNK = 256"

text \<open>\<open>scan_index.entry(tok).or_default().push(ident)\<close>\<close>

fun index_push :: "u32 \<Rightarrow> u32 \<Rightarrow> (u32 \<times> u32 list) list \<Rightarrow> (u32 \<times> u32 list) list" where
  "index_push tok ident [] = [(tok, [ident])]"
| "index_push tok ident ((t, ids) # rest) =
     (if t = tok then (t, ids @ [ident]) # rest else (t, ids) # index_push tok ident rest)"

definition token_freq :: "(u32 \<times> u32 list) list \<Rightarrow> u32 \<Rightarrow> u32" where
  "token_freq meta = foldl (\<lambda>f t. f(t := f t + 1)) (\<lambda>_. 0) (concat (map snd meta))"

fun min_by_key :: "('a \<Rightarrow> 'k::linorder) \<Rightarrow> 'a list \<Rightarrow> 'a option" where
  "min_by_key f [] = None"
| "min_by_key f (x # xs) = Some (foldl (\<lambda>b y. if f y < f b then y else b) x xs)"

fun index_meta ::
  "(u32 \<Rightarrow> u32) \<Rightarrow> (u32 \<times> u32 list) list \<Rightarrow> (u32 \<times> u32 list) list \<times> u32 list
   \<Rightarrow> (u32 \<times> u32 list) list \<times> u32 list" where
  "index_meta freq [] acc = acc"
| "index_meta freq ((ident, toks) # meta) (idx, fallback) =
     (case min_by_key freq toks of
        Some tok \<Rightarrow> index_meta freq meta (index_push tok ident idx, fallback)
      | None \<Rightarrow> index_meta freq meta (idx, fallback @ [ident]))"

text \<open>The patterns and identifiers of one fallback chunk.\<close>

fun chunk_pats ::
  "rule_record list \<Rightarrow> regex list \<Rightarrow> u32 list \<Rightarrow> (regex list \<times> u32 list) option" where
  "chunk_pats records regexes [] = Some ([], [])"
| "chunk_pats records regexes (ident # ids) =
     (case nth_opt records (unat ident) of None \<Rightarrow> None
      | Some r \<Rightarrow>
          if kind r = WILDCARD \<or> kind r = REGEX then
            (case (nth_opt regexes (unat (dom_or_re r)), chunk_pats records regexes ids) of
               (Some re, Some (ps, is)) \<Rightarrow> Some (re # ps, ident # is)
             | _ \<Rightarrow> None)
          else chunk_pats records regexes ids)"

fun build_chunks ::
  "filter_ext \<Rightarrow> rule_record list \<Rightarrow> regex list \<Rightarrow> u32 list list
   \<Rightarrow> ((regex list \<times> u32 list) list \<times> u32 list) option" where
  "build_chunks fx records regexes [] = Some ([], [])"
| "build_chunks fx records regexes (chunk # rest) =
     (case (chunk_pats records regexes chunk, build_chunks fx records regexes rest) of
        (Some (pats, ids), Some (sets, individual)) \<Rightarrow>
          if pats = [] then Some (sets, individual)
          else (case set_error fx pats of
                  None \<Rightarrow> Some ((pats, ids) # sets, individual)
                | Some _ \<Rightarrow> Some (sets, ids @ individual))
      | _ \<Rightarrow> None)"

definition build_scan_group ::
  "filter_ext \<Rightarrow> (u32 \<times> u32 list) list \<Rightarrow> rule_record list \<Rightarrow> regex list \<Rightarrow> bool
   \<Rightarrow> scan_group option" where
  "build_scan_group fx meta records regexes token_index =
     (let (idx, fallback) =
            (if token_index then index_meta (token_freq meta) meta ([], [])
             else ([], map fst meta))
      in case build_chunks fx records regexes (chunks FALLBACK_CHUNK fallback) of
           None \<Rightarrow> None
         | Some (sets, individual) \<Rightarrow>
             Some \<lparr>scan_index = idx, fallback_sets = sets, fallback_individual = individual\<rparr>)"

subsection \<open>Building the engine\<close>

record filter_engine =
  rules :: "rule_record list"
  raw_arena :: string
  domain_arena :: string
  e_mods :: "rule_mods list"
  regexes :: "regex list"
  exact :: domain_index
  subdomain :: domain_index
  override_scan :: scan_group
  block_scan :: scan_group
  has_client_dependent_rules :: bool
  content_hash :: u64

definition is_subdomain_of :: "string \<Rightarrow> string \<Rightarrow> bool" where
  "is_subdomain_of domain base =
     (domain = base
      \<or> length base < length domain \<and> ends_with domain base
         \<and> domain ! (length domain - length base - 1) = CHR ''.'')"

text \<open>The local variables of \<open>from_rules\<close>.\<close>

record builder =
  b_records :: "rule_record list"
  b_raw :: string
  b_dom :: string
  b_mods :: "rule_mods list"
  b_regexes :: "regex list"
  b_exact :: "(u64 \<times> u32) list"
  b_sub :: "(u64 \<times> u32) list"
  b_override :: "(u32 \<times> u32 list) list"
  b_block :: "(u32 \<times> u32 list) list"
  b_client :: bool
  b_contents :: "(string \<times> u32 \<times> action) list"

definition empty_builder :: builder where
  "empty_builder =
     \<lparr>b_records = [], b_raw = [], b_dom = [], b_mods = [], b_regexes = [], b_exact = [],
      b_sub = [], b_override = [], b_block = [], b_client = False, b_contents = []\<rparr>"

definition push_scan :: "bool \<Rightarrow> u32 \<times> u32 list \<Rightarrow> builder \<Rightarrow> builder" where
  "push_scan override_capable m b =
     (if override_capable then b\<lparr>b_override := b_override b @ [m]\<rparr>
      else b\<lparr>b_block := b_block b @ [m]\<rparr>)"

text \<open>
  One iteration of the loop of \<open>from_rules\<close> (in a release build: the \<open>debug_assert\<close> on the
  length of a domain is absent, and \<open>as u8\<close> truncates).
\<close>

definition build_step :: "filter_ext \<Rightarrow> nat \<Rightarrow> build_rule \<Rightarrow> builder \<Rightarrow> builder" where
  "build_step fx i br b =
     (let r = br_rule br; ident = word_of_nat i :: u32;
          b1 = b\<lparr>b_contents := b_contents b @ [(raw r, list_id r, act r)]\<rparr>;
          start = word_of_nat (length (b_raw b1)) :: u32;
          len = word_of_nat (min (length (raw r)) 65535) :: u16;
          b2 = b1\<lparr>b_raw := b_raw b1 @ raw r\<rparr>;
          (midx, b3) =
            (case mods r of
               Some m \<Rightarrow>
                 (word_of_nat (length (b_mods b2)),
                  b2\<lparr>b_client := (b_client b2 \<or> client m \<noteq> None \<or> ctag m \<noteq> None),
                     b_mods := b_mods b2 @ [m]\<rparr>)
             | None \<Rightarrow> (NO_MODS, b2));
          override_capable =
            (act r = Allow \<or> midx \<noteq> NO_MODS \<and> mods_important (nth_opt (b_mods b3) (unat midx)));
          (k, pos, dlen, b4) =
            (case pat r of
               Exact d \<Rightarrow>
                 (EXACT, word_of_nat (length (b_dom b3)), word_of_nat (length d),
                  b3\<lparr>b_exact := b_exact b3 @ [(domain_hash fx d, ident)], b_dom := b_dom b3 @ d\<rparr>)
             | Subdomain d \<Rightarrow>
                 (SUBDOMAIN, word_of_nat (length (b_dom b3)), word_of_nat (length d),
                  b3\<lparr>b_sub := b_sub b3 @ [(domain_hash fx d, ident)], b_dom := b_dom b3 @ d\<rparr>)
             | Wildcard re \<Rightarrow>
                 (WILDCARD, word_of_nat (length (b_regexes b3)), 0,
                  push_scan override_capable (ident, index_tokens br)
                    (b3\<lparr>b_regexes := b_regexes b3 @ [re]\<rparr>))
             | Regex re \<Rightarrow>
                 (REGEX, word_of_nat (length (b_regexes b3)), 0,
                  push_scan override_capable (ident, index_tokens br)
                    (b3\<lparr>b_regexes := b_regexes b3 @ [re]\<rparr>)))
      in b4\<lparr>b_records := b_records b4 @
            [\<lparr>raw_start = start, dom_or_re = pos, mods_idx = midx, raw_len = len,
              rec_list_id = ucast (list_id r), dom_len = dlen, rec_action = act r, kind = k\<rparr>]\<rparr>)"

definition build_all :: "filter_ext \<Rightarrow> build_rule list \<Rightarrow> builder" where
  "build_all fx rs = foldl (\<lambda>b (i, br). build_step fx i br b) empty_builder (enumerate 0 rs)"

definition from_rules :: "filter_ext \<Rightarrow> build_rule list \<Rightarrow> filter_engine option" where
  "from_rules fx rs =
     (let b = build_all fx rs in
      case (build_scan_group fx (b_override b) (b_records b) (b_regexes b) False,
            build_scan_group fx (b_block b) (b_records b) (b_regexes b) True) of
        (Some over, Some blk) \<Rightarrow>
          Some \<lparr>rules = b_records b, raw_arena = b_raw b, domain_arena = b_dom b,
                e_mods = b_mods b, regexes = b_regexes b,
                exact = di_build fx (b_exact b), subdomain = di_build fx (b_sub b),
                override_scan = over, block_scan = blk,
                has_client_dependent_rules = b_client b,
                content_hash = hash_contents fx (b_contents b)\<rparr>
      | _ \<Rightarrow> None)"

subsection \<open>Reading records\<close>

definition record_raw :: "filter_engine \<Rightarrow> rule_record \<Rightarrow> string option" where
  "record_raw e r =
     str_slice (raw_arena e) (unat (raw_start r)) (unat (raw_start r) + unat (raw_len r))"

definition record_domain :: "filter_engine \<Rightarrow> rule_record \<Rightarrow> string option" where
  "record_domain e r =
     str_slice (domain_arena e) (unat (dom_or_re r)) (unat (dom_or_re r) + unat (dom_len r))"

definition mods_of :: "filter_engine \<Rightarrow> rule_record \<Rightarrow> rule_mods option option" where
  "mods_of e r =
     (if mods_idx r \<noteq> NO_MODS then map_option Some (nth_opt (e_mods e) (unat (mods_idx r)))
      else Some None)"

definition domain_matches :: "filter_engine \<Rightarrow> rule_record \<Rightarrow> string \<Rightarrow> bool option" where
  "domain_matches e r domain =
     (case kind r of
        EXACT \<Rightarrow> map_option (\<lambda>d. d = domain) (record_domain e r)
      | SUBDOMAIN \<Rightarrow> map_option (is_subdomain_of domain) (record_domain e r)
      | _ \<Rightarrow> Some True)"

definition record_priority :: "filter_engine \<Rightarrow> rule_record \<Rightarrow> nat option" where
  "record_priority e r =
     (let score = (case rec_action r of Allow \<Rightarrow> 2 | Block \<Rightarrow> 1 | Rewrite \<Rightarrow> 1)
      in map_option (\<lambda>m. if mods_important m then score + 100 else score) (mods_of e r))"

subsection \<open>Lookup\<close>

definition domain_suffix :: "string \<Rightarrow> string option" where
  "domain_suffix hay = map_option (\<lambda>i. drop (Suc i) hay) (find_char hay CHR ''.'')"

function suffix_walk :: "filter_ext \<Rightarrow> domain_index \<Rightarrow> string \<Rightarrow> u32 list \<Rightarrow> u32 list option" where
  "suffix_walk fx di hay out =
     (case di_get di (domain_hash fx hay) of None \<Rightarrow> None
      | Some ids \<Rightarrow>
          (case domain_suffix hay of
             Some hay' \<Rightarrow> suffix_walk fx di hay' (out @ ids)
           | None \<Rightarrow> Some (out @ ids)))"
  by pat_completeness auto

lemma find_char_less: "find_char s c = Some i \<Longrightarrow> i < length s"
  by (induction s arbitrary: i) (auto split: if_splits)

lemma domain_suffix_shorter: "domain_suffix hay = Some hay' \<Longrightarrow> length hay' < length hay"
  by (auto simp: domain_suffix_def dest!: find_char_less)

termination suffix_walk
  by (relation "measure (\<lambda>(fx, di, hay, out). length hay)") (auto dest: domain_suffix_shorter)

declare suffix_walk.simps [simp del]

definition collect_domain :: "filter_ext \<Rightarrow> filter_engine \<Rightarrow> string \<Rightarrow> u32 list \<Rightarrow> u32 list option" where
  "collect_domain fx e domain out =
     (case (if \<not> di_is_empty (exact e)
            then map_option (\<lambda>ids. out @ ids) (di_get (exact e) (domain_hash fx domain))
            else Some out) of
        None \<Rightarrow> None
      | Some out \<Rightarrow>
          if \<not> di_is_empty (subdomain e) then suffix_walk fx (subdomain e) domain out
          else Some out)"

text \<open>The closure \<open>check\<close> of \<open>scan_group\<close>: does the regex of rule \<open>ident\<close> match.\<close>

definition regex_check :: "filter_ext \<Rightarrow> filter_engine \<Rightarrow> string \<Rightarrow> u32 \<Rightarrow> bool option" where
  "regex_check fx e domain ident =
     (case nth_opt (rules e) (unat ident) of None \<Rightarrow> None
      | Some r \<Rightarrow>
          if kind r = WILDCARD \<or> kind r = REGEX
          then map_option (\<lambda>re. regex_is_match fx re domain)
                 (nth_opt (regexes e) (unat (dom_or_re r)))
          else Some False)"

fun check_ids ::
  "filter_ext \<Rightarrow> filter_engine \<Rightarrow> string \<Rightarrow> u32 list \<Rightarrow> u32 list \<Rightarrow> u32 list option" where
  "check_ids fx e domain [] out = Some out"
| "check_ids fx e domain (ident # ids) out =
     (case regex_check fx e domain ident of None \<Rightarrow> None
      | Some hit \<Rightarrow> check_ids fx e domain ids (if hit then out @ [ident] else out))"

fun scan_sets ::
  "filter_ext \<Rightarrow> string \<Rightarrow> (regex list \<times> u32 list) list \<Rightarrow> u32 list \<Rightarrow> u32 list option" where
  "scan_sets fx domain [] out = Some out"
| "scan_sets fx domain ((pats, ids) # sets) out =
     (case mapM_opt (nth_opt ids) (set_matches fx pats domain) of None \<Rightarrow> None
      | Some hits \<Rightarrow> scan_sets fx domain sets (out @ hits))"

definition index_ids :: "(u32 \<times> u32 list) list \<Rightarrow> u32 list \<Rightarrow> u32 list" where
  "index_ids idx tokens =
     concat (map (\<lambda>tok. case map_of idx tok of Some ids \<Rightarrow> ids | None \<Rightarrow> []) tokens)"

definition scan_group_ids ::
  "filter_ext \<Rightarrow> filter_engine \<Rightarrow> scan_group \<Rightarrow> string \<Rightarrow> u32 list \<Rightarrow> u32 list
   \<Rightarrow> u32 list option" where
  "scan_group_ids fx e g domain tokens out =
     (case scan_sets fx domain (fallback_sets g) out of None \<Rightarrow> None
      | Some out1 \<Rightarrow>
        (case check_ids fx e domain (fallback_individual g) out1 of None \<Rightarrow> None
         | Some out2 \<Rightarrow>
             if scan_index g \<noteq> []
             then check_ids fx e domain (index_ids (scan_index g) tokens) out2
             else Some out2))"

definition applicable ::
  "filter_ext \<Rightarrow> filter_engine \<Rightarrow> rule_record \<Rightarrow> string \<Rightarrow> string \<Rightarrow> client_info \<Rightarrow> bool option" where
  "applicable fx e r domain rtype ci =
     map_option
       (\<lambda>ms. case ms of None \<Rightarrow> True
         | Some m \<Rightarrow>
             if (case dnstype m of Some f \<Rightarrow> \<not> dns_type_matches f rtype | None \<Rightarrow> False) then False
             else if (case client m of Some f \<Rightarrow> \<not> client_matches fx f ci | None \<Rightarrow> False) then False
             else if (case ctag m of Some f \<Rightarrow> \<not> ctag_matches f (ci_tags ci) | None \<Rightarrow> False) then False
             else if (rec_action r = Block \<or> rec_action r = Rewrite)
                     \<and> list_ex (is_subdomain_of domain) (denyallow m) then False
             else True)
       (mods_of e r)"

text \<open>The loop of \<open>consider\<close>: the best rule so far and its priority.\<close>

fun consider_ids ::
  "filter_ext \<Rightarrow> filter_engine \<Rightarrow> u32 list \<Rightarrow> string \<Rightarrow> string \<Rightarrow> client_info
   \<Rightarrow> u32 option \<times> nat \<Rightarrow> (u32 option \<times> nat) option" where
  "consider_ids fx e [] domain rtype ci best = Some best"
| "consider_ids fx e (ident # ids) domain rtype ci best =
     (case nth_opt (rules e) (unat ident) of None \<Rightarrow> None
      | Some r \<Rightarrow>
        (case domain_matches e r domain of None \<Rightarrow> None
         | Some False \<Rightarrow> consider_ids fx e ids domain rtype ci best
         | Some True \<Rightarrow>
           (case applicable fx e r domain rtype ci of None \<Rightarrow> None
            | Some False \<Rightarrow> consider_ids fx e ids domain rtype ci best
            | Some True \<Rightarrow>
              (case record_priority e r of None \<Rightarrow> None
               | Some prio \<Rightarrow>
                   consider_ids fx e ids domain rtype ci
                     (if fst best = None \<or> snd best < prio then (Some ident, prio) else best)))))"

definition query_name :: "string \<Rightarrow> string" where
  "query_name domain =
     (if list_ex is_ascii_uppercase domain \<or> ends_with domain ''.''
      then to_ascii_lowercase (trim_end_matches CHR ''.'' domain) else domain)"

definition best_rule ::
  "filter_ext \<Rightarrow> filter_engine \<Rightarrow> string \<Rightarrow> string \<Rightarrow> client_info \<Rightarrow> u32 option option" where
  "best_rule fx e domain rtype ci =
     (case Option.bind (collect_domain fx e domain [])
             (scan_group_ids fx e (override_scan e) domain []) of None \<Rightarrow> None
      | Some candidates \<Rightarrow>
        (case consider_ids fx e candidates domain rtype ci (None, 0) of None \<Rightarrow> None
         | Some best \<Rightarrow>
             if fst best = None \<and> \<not> sg_is_empty (block_scan e) then
               (let tokens = (if scan_index (block_scan e) \<noteq> [] then for_each_query_token domain else [])
                in case scan_group_ids fx e (block_scan e) domain tokens [] of None \<Rightarrow> None
                   | Some candidates \<Rightarrow>
                       map_option fst (consider_ids fx e candidates domain rtype ci best))
             else Some (fst best)))"

definition make_verdict :: "filter_engine \<Rightarrow> u32 \<Rightarrow> verdict option" where
  "make_verdict e ident =
     (case nth_opt (rules e) (unat ident) of None \<Rightarrow> None
      | Some r \<Rightarrow>
        (case record_raw e r of None \<Rightarrow> None
         | Some rtext \<Rightarrow>
             let info = \<lparr>mi_rule = rtext, mi_list_id = ucast (rec_list_id r), mi_rule_id = ident\<rparr> in
             (case rec_action r of
                Allow \<Rightarrow> Some (VAllow (Some info))
              | Block \<Rightarrow> Some (VBlock info)
              | Rewrite \<Rightarrow>
                  (case mods_of e r of None \<Rightarrow> None
                   | Some ms \<Rightarrow> map_option (VRewrite info) (Option.bind ms rewrite)))))"

definition check ::
  "filter_ext \<Rightarrow> filter_engine \<Rightarrow> string \<Rightarrow> string \<Rightarrow> client_info \<Rightarrow> verdict option" where
  "check fx e domain rtype ci =
     (case best_rule fx e (query_name domain) rtype ci of None \<Rightarrow> None
      | Some None \<Rightarrow> Some (VAllow None)
      | Some (Some ident) \<Rightarrow> make_verdict e ident)"

subsection \<open>The index and the scan groups are complete\<close>

definition sort_laws :: "filter_ext \<Rightarrow> bool" where
  "sort_laws fx \<longleftrightarrow>
     (\<forall>ps. mset (sort_pairs fx ps) = mset ps \<and> sorted (map fst (sort_pairs fx ps)))"

locale hash_index =
  fixes build :: "('h \<times> 'i) list \<Rightarrow> 'd"
    and get :: "'d \<Rightarrow> 'h \<Rightarrow> 'i list option"
    and empty :: "'d \<Rightarrow> bool"
    and ok :: "('h \<times> 'i) list \<Rightarrow> bool"
  assumes get_build: "ok ps \<Longrightarrow> \<exists>is. get (build ps) h = Some is \<and> set is = {i. (h, i) \<in> set ps}"
    and empty_build: "ok ps \<Longrightarrow> empty (build ps) = (ps = [])"
begin

lemma gather_build:
  assumes "ok ps"
  shows "\<exists>iss. mapM_opt (get (build ps)) hs = Some iss
           \<and> set (concat iss) = {i. \<exists>h \<in> set hs. (h, i) \<in> set ps}"
proof (induction hs)
  case (Cons h hs)
  obtain "is" where "get (build ps) h = Some is" "set is = {i. (h, i) \<in> set ps}"
    using get_build [OF assms] by blast
  with Cons show ?case by auto
qed simp

end

definition di_wf :: "domain_index \<Rightarrow> bool" where
  "di_wf di \<longleftrightarrow>
     (\<forall>h s l. di_map di h = Some (s, l) \<longrightarrow> unat s + unat l \<le> length (di_hits di))
     \<and> length (di_hits di) < 2 ^ 32"

lemma di_get_hit:
  assumes "di_wf di" "di_map di h = Some (s, l)"
  shows "di_get di h = Some (take (unat l) (drop (unat s) (di_hits di)))"
proof -
  have le: "unat s + unat l \<le> length (di_hits di)" "length (di_hits di) < 2 ^ 32"
    using assms unfolding di_wf_def by blast+
  then have "unat (s + l) = unat s + unat l" by (simp add: unat_word_ariths)
  with le assms(2) show ?thesis by (simp add: di_get_def slice_Some)
qed

lemma di_get_grown:
  assumes wf: "di_wf di" and wf': "di_wf di'"
    and hits: "di_hits di' = di_hits di @ xs" and same: "di_map di' h = di_map di h"
  shows "di_get di' h = di_get di h"
proof (cases "di_map di h")
  case None
  with same show ?thesis by (simp add: di_get_def)
next
  case (Some p)
  obtain s l where p: "p = (s, l)" by fastforce
  have "unat s + unat l \<le> length (di_hits di)" using wf Some p unfolding di_wf_def by blast
  with Some p same hits show ?thesis
    using di_get_hit [OF wf] di_get_hit [OF wf'] by simp
qed

text \<open>One group of equal hashes.\<close>

definition add_group :: "u64 \<Rightarrow> u32 list \<Rightarrow> domain_index \<Rightarrow> domain_index" where
  "add_group h ids di =
     (let start = word_of_nat (length (di_hits di)) :: u32; hits = di_hits di @ ids
      in \<lparr>di_map = (di_map di)(h \<mapsto> (start, word_of_nat (length hits) - start)), di_hits = hits\<rparr>)"

lemma group_pairs_step:
  "group_pairs ((h, i) # ps) di =
     group_pairs (dropWhile (\<lambda>p. fst p = h) ps)
       (add_group h (i # map snd (takeWhile (\<lambda>p. fst p = h) ps)) di)"
  by (simp add: group_pairs.simps(2) add_group_def Let_def)

lemma add_group_wf:
  assumes wf: "di_wf di" and len: "length (di_hits di) + length ids < 2 ^ 32"
    and new: "h \<notin> dom (di_map di)"
  shows "di_wf (add_group h ids di)"
    and "di_get (add_group h ids di) h = Some ids"
    and "h' \<noteq> h \<Longrightarrow> di_get (add_group h ids di) h' = di_get di h'"
proof -
  let ?di = "add_group h ids di" and ?n = "length (di_hits di)"
  have w: "(word_of_nat (?n + length ids) :: u32) - word_of_nat ?n = word_of_nat (length ids)"
    by simp
  have map: "di_map ?di = (di_map di)(h \<mapsto> (word_of_nat ?n, word_of_nat (length ids)))"
    and hits: "di_hits ?di = di_hits di @ ids"
    by (simp_all add: add_group_def Let_def w)
  have un: "unat (word_of_nat ?n :: u32) = ?n" "unat (word_of_nat (length ids) :: u32) = length ids"
    using len by (simp_all add: unat_word_of_nat_less)
  show wf': "di_wf ?di"
    unfolding di_wf_def map hits
  proof (intro conjI allI impI)
    fix k s l assume "((di_map di)(h \<mapsto> (word_of_nat ?n, word_of_nat (length ids)))) k = Some (s, l)"
    then consider "s = word_of_nat ?n \<and> l = word_of_nat (length ids)" | "di_map di k = Some (s, l)"
      by (metis fun_upd_apply option.inject prod.inject)
    then show "unat s + unat l \<le> length (di_hits di @ ids)"
    proof cases
      case 1
      with un show ?thesis by simp
    next
      case 2
      with wf show ?thesis unfolding di_wf_def by fastforce
    qed
  qed (use len in simp)
  show "di_get ?di h = Some ids"
    using di_get_hit [OF wf', of h] map hits un by simp
  show "di_get ?di h' = di_get di h'" if "h' \<noteq> h"
    using di_get_grown [OF wf wf' hits, of h'] map that by simp
qed

lemma group_pairs_get:
  assumes "sorted (map fst ps)" "di_wf di" "length (di_hits di) + length ps < 2 ^ 32"
    and "dom (di_map di) \<inter> fst ` set ps = {}"
  shows "(\<forall>h. di_get (group_pairs ps di) h =
            (if h \<in> fst ` set ps then Some (map snd (filter (\<lambda>p. fst p = h) ps)) else di_get di h))
         \<and> di_hits (group_pairs ps di) = di_hits di @ map snd ps"
  using assms
proof (induction ps arbitrary: di rule: length_induct)
  case (1 qs)
  note prems = "1.prems"
  show ?case
  proof (cases qs)
    case Nil
    then show ?thesis by simp
  next
    case (Cons q ps)
    obtain k i where q: "q = (k, i)" by fastforce
    let ?tw = "takeWhile (\<lambda>p. fst p = k) ps" and ?dw = "dropWhile (\<lambda>p. fst p = k) ps"
    let ?ids = "i # map snd ?tw"
    let ?di = "add_group k ?ids di"
    have split: "ps = ?tw @ ?dw" by simp
    have len: "length ?tw + length ?dw = length ps" by (metis length_append split)
    have new: "k \<notin> dom (di_map di)" using prems(4) Cons q by auto
    have small: "length (di_hits di) + length ?ids < 2 ^ 32" using len prems(3) Cons by simp
    note add = add_group_wf [OF prems(2) small new]
    have sorted: "sorted (map fst ps)" "sorted (map fst ?dw)"
      using prems(1) Cons by (simp_all add: sorted_wrt_map sorted_wrt_dropWhile)
    have "\<forall>p \<in> set ps. k \<le> fst p" using prems(1) Cons q by auto
    note runs = sorted_runs [OF sorted(1) this]
    have hits: "di_hits ?di = di_hits di @ ?ids" and dom: "dom (di_map ?di) = insert k (dom (di_map di))"
      by (simp_all add: add_group_def Let_def)
    have "fst ` set ?dw \<subseteq> fst ` set qs" using Cons by (auto dest: set_dropWhileD)
    with prems(4) have "dom (di_map ?di) \<inter> fst ` set ?dw = {}"
      unfolding dom using runs(1) by blast
    moreover have "length (di_hits ?di) + length ?dw < 2 ^ 32" using hits len prems(3) Cons by simp
    moreover have "length ?dw < length qs" using len Cons by simp
    ultimately have IH: "\<forall>h. di_get (group_pairs ?dw ?di) h =
          (if h \<in> fst ` set ?dw then Some (map snd (filter (\<lambda>p. fst p = h) ?dw)) else di_get ?di h)"
        "di_hits (group_pairs ?dw ?di) = di_hits ?di @ map snd ?dw"
      using "1.IH" sorted(2) add(1) by blast+
    have step: "group_pairs qs di = group_pairs ?dw ?di" by (simp add: Cons q group_pairs_step)
    have "di_get (group_pairs qs di) h =
        (if h \<in> fst ` set qs then Some (map snd (filter (\<lambda>p. fst p = h) qs)) else di_get di h)" for h
      unfolding step IH(1) [rule_format] using runs add(2,3) by (cases "h = k") (simp_all add: Cons q)
    moreover have "di_hits (group_pairs qs di) = di_hits di @ map snd qs"
      unfolding step IH(2) hits by (simp add: Cons q flip: map_append)
    ultimately show ?thesis by blast
  qed
qed

definition di_ok :: "filter_ext \<Rightarrow> (u64 \<times> u32) list \<Rightarrow> bool" where
  "di_ok fx ps \<longleftrightarrow> sort_laws fx \<and> length ps < 2 ^ 32"

interpretation di: hash_index "di_build fx" di_get di_is_empty "di_ok fx"
proof
  fix ps h
  assume "di_ok fx ps"
  then have perm: "mset (sort_pairs fx ps) = mset ps" and "sorted (map fst (sort_pairs fx ps))"
    and "length (sort_pairs fx ps) < 2 ^ 32"
    by (auto simp: di_ok_def sort_laws_def dest: mset_eq_length) (metis mset_eq_length)
  note grp = group_pairs_get [OF this(2), of "\<lparr>di_map = Map.empty, di_hits = []\<rparr>"]
  have set: "set (sort_pairs fx ps) = set ps" using perm by (rule mset_eq_setD)
  have "di_wf \<lparr>di_map = Map.empty, di_hits = []\<rparr>" by (simp add: di_wf_def)
  note grp' = grp [OF this]
  show "\<exists>is. di_get (di_build fx ps) h = Some is \<and> set is = {i. (h, i) \<in> set ps}"
    using grp' \<open>length (sort_pairs fx ps) < 2 ^ 32\<close> set
    by (force simp: di_build_def di_get_def)
  show "di_is_empty (di_build fx ps) = (ps = [])"
    using grp' \<open>length (sort_pairs fx ps) < 2 ^ 32\<close> perm
    by (auto simp: di_build_def di_is_empty_def)
qed

function suffixes_of :: "string \<Rightarrow> string list" where
  "suffixes_of d = d # (case domain_suffix d of None \<Rightarrow> [] | Some d' \<Rightarrow> suffixes_of d')"
  by pat_completeness auto

termination
  by (relation "measure length") (auto dest: domain_suffix_shorter)

declare suffixes_of.simps [simp del]

lemma domain_suffix_eq: "domain_suffix d = Some d' \<Longrightarrow> \<exists>l. d = l @ CHR ''.'' # d' \<and> CHR ''.'' \<notin> set l"
  by (auto simp: domain_suffix_def dest: find_char_split)

lemma domain_suffix_None: "domain_suffix d = None \<longleftrightarrow> CHR ''.'' \<notin> set d"
  by (simp add: domain_suffix_def find_char_None)

text \<open>A name is under a base exactly when the base is one of the suffixes that the walk visits.\<close>

lemma is_subdomain_of_iff:
  "is_subdomain_of d p \<longleftrightarrow> d = p \<or> (\<exists>l. d = l @ CHR ''.'' # p)"
proof
  assume "is_subdomain_of d p"
  then consider "d = p" | "length p < length d" "drop (length d - length p) d = p"
      "d ! (length d - length p - 1) = CHR ''.''"
    by (auto simp: is_subdomain_of_def ends_with_def)
  then show "d = p \<or> (\<exists>l. d = l @ CHR ''.'' # p)"
  proof cases
    case 2
    then have "drop (length d - length p - 1) d = CHR ''.'' # p"
      by (subst Cons_nth_drop_Suc [symmetric]) (auto simp: Suc_diff_Suc)
    then show ?thesis by (metis append_take_drop_id)
  qed simp
next
  assume "d = p \<or> (\<exists>l. d = l @ CHR ''.'' # p)"
  then show "is_subdomain_of d p"
    by (auto simp: is_subdomain_of_def ends_with_def nth_append)
qed

lemma domain_suffix_step:
  assumes "domain_suffix d = Some d'"
  shows "(\<exists>m. d = m @ CHR ''.'' # p) \<longleftrightarrow> d' = p \<or> (\<exists>m. d' = m @ CHR ''.'' # p)"
proof -
  obtain l where d: "d = l @ CHR ''.'' # d'" and l: "CHR ''.'' \<notin> set l"
    using domain_suffix_eq [OF assms] by blast
  show ?thesis
    using l unfolding d by (fastforce simp: append_eq_append_conv2 append_eq_Cons_conv Cons_eq_append_conv)
qed

lemma suffixes_of_iff: "p \<in> set (suffixes_of d) \<longleftrightarrow> is_subdomain_of d p"
proof (induction d rule: suffixes_of.induct)
  case (1 d)
  show ?case
  proof (cases "domain_suffix d")
    case None
    then have "CHR ''.'' \<notin> set d" by (simp add: domain_suffix_None)
    with None show ?thesis by (subst suffixes_of.simps) (auto simp: is_subdomain_of_iff)
  next
    case (Some d')
    note domain_suffix_step [OF Some, of p]
    then show ?thesis using 1 [OF Some] Some
      by (subst suffixes_of.simps) (auto simp: is_subdomain_of_iff)
  qed
qed

lemma suffix_walk_gather:
  "suffix_walk fx di d out =
     map_option (\<lambda>iss. out @ concat iss) (mapM_opt (di_get di) (map (domain_hash fx) (suffixes_of d)))"
proof (induction d arbitrary: out rule: suffixes_of.induct)
  case (1 d)
  show ?case
    by (subst suffix_walk.simps, subst suffixes_of.simps)
      (auto simp: 1 split: option.splits)
qed

lemma collect_domain_spec:
  assumes "di_ok fx ep" "di_ok fx sp"
    and e: "exact e = di_build fx ep" "subdomain e = di_build fx sp"
  shows "\<exists>ids. collect_domain fx e d out = Some (out @ ids)
           \<and> set ids = {i. (domain_hash fx d, i) \<in> set ep}
               \<union> {i. \<exists>p. is_subdomain_of d p \<and> (domain_hash fx p, i) \<in> set sp}"
proof -
  obtain i1 where i1: "di_get (di_build fx ep) (domain_hash fx d) = Some i1"
      "set i1 = {i. (domain_hash fx d, i) \<in> set ep}"
    using di.get_build [OF assms(1)] by blast
  obtain iss where iss: "mapM_opt (di_get (di_build fx sp)) (map (domain_hash fx) (suffixes_of d)) = Some iss"
      "set (concat iss) = {i. \<exists>p. is_subdomain_of d p \<and> (domain_hash fx p, i) \<in> set sp}"
    using di.gather_build [OF assms(2), of "map (domain_hash fx) (suffixes_of d)"]
    by (auto simp: Bex_def suffixes_of_iff)
  define o1 where "o1 = (if ep = [] then [] else i1)"
  define o2 where "o2 = (if sp = [] then [] else concat iss)"
  have "collect_domain fx e d out = Some (out @ (o1 @ o2))"
    by (simp add: collect_domain_def e di.empty_build assms i1 iss suffix_walk_gather o1_def o2_def)
  moreover have "set (o1 @ o2) = {i. (domain_hash fx d, i) \<in> set ep}
      \<union> {i. \<exists>p. is_subdomain_of d p \<and> (domain_hash fx p, i) \<in> set sp}"
    using i1(2) iss(2) by (simp add: o1_def o2_def del: set_concat)
  ultimately show ?thesis by blast
qed

text \<open>
  \<open>scan_ids records regexes re ids\<close>: the records of \<open>ids\<close> are wildcard or regex records and
  \<open>re\<close> gives their regexes.
\<close>

definition scan_ids ::
  "rule_record list \<Rightarrow> regex list \<Rightarrow> (u32 \<Rightarrow> regex) \<Rightarrow> u32 list \<Rightarrow> bool" where
  "scan_ids records res re ids \<longleftrightarrow>
     (\<forall>i \<in> set ids. \<exists>r. nth_opt records (unat i) = Some r \<and> (kind r = WILDCARD \<or> kind r = REGEX)
        \<and> nth_opt res (unat (dom_or_re r)) = Some (re i))"

lemma chunk_pats_scan:
  "scan_ids records res re ids \<Longrightarrow> chunk_pats records res ids = Some (map re ids, ids)"
  by (induction ids) (auto simp: scan_ids_def)

lemma build_chunks_scan:
  assumes "scan_ids records res re (concat cs)"
  shows "\<exists>sets indiv. build_chunks fx records res cs = Some (sets, indiv)
           \<and> (\<forall>(pats, ids) \<in> set sets. pats = map re ids)
           \<and> set (concat cs) = set (concat (map snd sets)) \<union> set indiv"
  using assms
proof (induction cs)
  case (Cons c cs)
  have c: "scan_ids records res re c" and cs: "scan_ids records res re (concat cs)"
    using Cons.prems by (auto simp: scan_ids_def)
  obtain sets indiv where IH: "build_chunks fx records res cs = Some (sets, indiv)"
      "\<forall>(pats, ids) \<in> set sets. pats = map re ids"
      "set (concat cs) = set (concat (map snd sets)) \<union> set indiv"
    using Cons.IH [OF cs] by blast
  show ?case
    using IH chunk_pats_scan [OF c] by (auto split: option.splits)
qed simp

lemma scan_sets_spec:
  assumes "regex_laws fx" "\<forall>(pats, ids) \<in> set sets. pats = map re ids"
  shows "scan_sets fx d sets out =
           Some (out @ filter (\<lambda>i. regex_is_match fx (re i) d) (concat (map snd sets)))"
  using assms(2)
proof (induction sets arbitrary: out)
  case (Cons s sets)
  obtain pats ids where s: "s = (pats, ids)" "pats = map re ids" using Cons.prems by (cases s) auto
  have "set_matches fx pats d = filter (\<lambda>i. regex_is_match fx (re (ids ! i)) d) [0..<length ids]"
    using assms(1) unfolding regex_laws_def s(2) by (auto intro!: filter_cong)
  then have "mapM_opt (nth_opt ids) (set_matches fx pats d) = Some (filter (\<lambda>i. regex_is_match fx (re i) d) ids)"
    using mapM_opt_nth_filter [of ids "\<lambda>i. regex_is_match fx (re i) d"] by simp
  with Cons s show ?case by simp
qed simp

lemma check_ids_spec:
  "scan_ids (rules e) (regexes e) re ids \<Longrightarrow>
   check_ids fx e d ids out = Some (out @ filter (\<lambda>i. regex_is_match fx (re i) d) ids)"
  by (induction ids arbitrary: out) (auto simp: scan_ids_def regex_check_def)

text \<open>The token index.\<close>

definition index_lookup :: "(u32 \<times> u32 list) list \<Rightarrow> u32 \<Rightarrow> u32 list" where
  "index_lookup idx t = (case map_of idx t of Some ids \<Rightarrow> ids | None \<Rightarrow> [])"

lemma index_lookup_push:
  "set (index_lookup (index_push t i idx) t') = set (index_lookup idx t') \<union> (if t' = t then {i} else {})"
proof -
  have "index_lookup (index_push t i idx) t' = index_lookup idx t' @ (if t' = t then [i] else [])"
    by (induction idx) (auto simp: index_lookup_def)
  then show ?thesis by simp
qed

lemma index_meta_spec:
  "index_meta f meta (idx, fb) = (idx', fb') \<Longrightarrow>
   set fb' = set fb \<union> {i. (i, []) \<in> set meta}
   \<and> (\<forall>t. set (index_lookup idx' t) =
        set (index_lookup idx t) \<union> {i. \<exists>toks. (i, toks) \<in> set meta \<and> min_by_key f toks = Some t})"
proof (induction meta arbitrary: idx fb)
  case (Cons m meta)
  obtain i toks where m: "m = (i, toks)" by fastforce
  show ?case
  proof (cases toks)
    case Nil
    with m Cons.prems have "index_meta f meta (idx, fb @ [i]) = (idx', fb')" by simp
    from Cons.IH [OF this] Nil m show ?thesis by auto
  next
    case (Cons a as)
    then obtain t where t: "min_by_key f toks = Some t" by simp
    with m Cons.prems have "index_meta f meta (index_push t i idx, fb) = (idx', fb')" by simp
    from Cons.IH [OF this] Cons m t show ?thesis by (auto simp: index_lookup_push)
  qed
qed simp

lemma min_by_key_in: "min_by_key f xs = Some x \<Longrightarrow> x \<in> set xs"
proof -
  have "foldl (\<lambda>b y. if f y < f b then y else b) z ys \<in> insert z (set ys)" for z ys
  proof (induction ys arbitrary: z)
    case (Cons y ys)
    from Cons [of "if f y < f z then y else z"] show ?case by (auto split: if_splits)
  qed simp
  then show "min_by_key f xs = Some x \<Longrightarrow> x \<in> set xs" by (cases xs) auto
qed

lemma index_ids_set: "set (index_ids idx toks) = (\<Union>t \<in> set toks. set (index_lookup idx t))"
  by (simp add: index_ids_def index_lookup_def)

text \<open>How the rules of a group are distributed over the fallback list and the index.\<close>

definition index_split :: "(u32 \<times> u32 list) list \<Rightarrow> bool \<Rightarrow> (u32 \<times> u32 list) list \<times> u32 list" where
  "index_split meta token_index =
     (if token_index then index_meta (token_freq meta) meta ([], []) else ([], map fst meta))"

lemma index_split_spec:
  assumes "index_split meta token_index = (idx, fb)"
  shows "set fb \<subseteq> fst ` set meta" and "set (index_lookup idx t) \<subseteq> fst ` set meta"
    and "m \<in> set meta \<Longrightarrow> fst m \<notin> set fb \<Longrightarrow>
           token_index \<and> (\<exists>t \<in> set (snd m). fst m \<in> set (index_lookup idx t))"
proof -
  have "set fb = (if token_index then {i. (i, []) \<in> set meta} else fst ` set meta)
    \<and> (\<forall>t. set (index_lookup idx t) = (if token_index
        then {i. \<exists>ts. (i, ts) \<in> set meta \<and> min_by_key (token_freq meta) ts = Some t} else {}))"
  proof (cases token_index)
    case True
    with assms have "index_meta (token_freq meta) meta ([], []) = (idx, fb)"
      by (simp add: index_split_def)
    from index_meta_spec [OF this] True show ?thesis by (simp add: index_lookup_def)
  next
    case False
    with assms have "idx = []" "fb = map fst meta" by (simp_all add: index_split_def)
    with False show ?thesis by (simp add: index_lookup_def)
  qed
  then have f: "set fb = (if token_index then {i. (i, []) \<in> set meta} else fst ` set meta)"
    and ix: "set (index_lookup idx t) = (if token_index
        then {i. \<exists>ts. (i, ts) \<in> set meta \<and> min_by_key (token_freq meta) ts = Some t} else {})" for t
    by blast+
  show "set fb \<subseteq> fst ` set meta" "set (index_lookup idx t) \<subseteq> fst ` set meta"
    by (auto simp: f ix split: if_splits intro: rev_image_eqI)
  assume m: "m \<in> set meta" "fst m \<notin> set fb"
  then have ti: token_index and "snd m \<noteq> []" by (auto simp: f split: if_splits) (metis prod.collapse)
  then obtain t where t: "min_by_key (token_freq meta) (snd m) = Some t" by (cases "snd m") auto
  with m ti have "fst m \<in> set (index_lookup idx t)" by (auto simp: ix) (metis prod.collapse)
  with ti min_by_key_in [OF t]
  show "token_index \<and> (\<exists>t \<in> set (snd m). fst m \<in> set (index_lookup idx t))" by blast
qed

text \<open>
  A scan of a group finds exactly the rules of the group whose regex matches, when the
  tokens offered cover those under which the rules are filed.
\<close>

lemma build_scan_group_parts:
  assumes "scan_ids records res re (map fst meta)"
  obtains idx fb sets indiv where "index_split meta token_index = (idx, fb)"
    and "build_scan_group fx meta records res token_index =
           Some \<lparr>scan_index = idx, fallback_sets = sets, fallback_individual = indiv\<rparr>"
    and "\<forall>(pats, ids) \<in> set sets. pats = map re ids"
    and "set fb = set (concat (map snd sets)) \<union> set indiv"
proof -
  obtain idx fb where split: "index_split meta token_index = (idx, fb)" by fastforce
  have "scan_ids records res re (concat (chunks FALLBACK_CHUNK fb))"
    using assms index_split_spec(1) [OF split]
    by (auto simp: scan_ids_def concat_chunks FALLBACK_CHUNK_def)
  from build_chunks_scan [OF this, of fx] obtain sets indiv
    where "build_chunks fx records res (chunks FALLBACK_CHUNK fb) = Some (sets, indiv)"
      "\<forall>(pats, ids) \<in> set sets. pats = map re ids"
      "set fb = set (concat (map snd sets)) \<union> set indiv"
    by (auto simp: concat_chunks FALLBACK_CHUNK_def)
  with split that show ?thesis by (simp add: build_scan_group_def index_split_def Let_def)
qed

lemma scan_group_complete:
  assumes laws: "regex_laws fx"
    and ids: "scan_ids (rules e) (regexes e) re (map fst meta)"
    and toks: "token_index \<longrightarrow> (\<forall>(i, ts) \<in> set meta. regex_is_match fx (re i) d \<longrightarrow> set ts \<subseteq> set tokens)"
    and grp: "build_scan_group fx meta (rules e) (regexes e) token_index = Some g"
  shows "\<exists>res. (\<forall>out. scan_group_ids fx e g d tokens out = Some (out @ res))
           \<and> set res = {i \<in> fst ` set meta. regex_is_match fx (re i) d}"
    and "sg_is_empty g \<Longrightarrow> meta = []"
proof -
  let ?m = "\<lambda>i. regex_is_match fx (re i) d"
  obtain idx fb sets indiv where split: "index_split meta token_index = (idx, fb)"
    and "build_scan_group fx meta (rules e) (regexes e) token_index =
           Some \<lparr>scan_index = idx, fallback_sets = sets, fallback_individual = indiv\<rparr>"
    and sets: "\<forall>(pats, ids) \<in> set sets. pats = map re ids"
    and fb: "set fb = set (concat (map snd sets)) \<union> set indiv"
    by (rule build_scan_group_parts [OF ids])
  with grp have g: "g = \<lparr>scan_index = idx, fallback_sets = sets, fallback_individual = indiv\<rparr>" by simp
  note dist = index_split_spec [OF split]
  have ix: "set (index_ids idx tokens) \<subseteq> fst ` set meta" using dist(2) by (auto simp: index_ids_set)
  have sc: "scan_ids (rules e) (regexes e) re indiv" "scan_ids (rules e) (regexes e) re (index_ids idx tokens)"
    using ids ix dist(1) fb unfolding scan_ids_def by auto
  define res where "res = filter ?m (concat (map snd sets) @ indiv @ index_ids idx tokens)"
  have "scan_group_ids fx e g d tokens out = Some (out @ res)" for out
    using scan_sets_spec [OF laws sets] check_ids_spec sc
    by (simp add: scan_group_ids_def g res_def index_ids_def)
  moreover have "i \<in> set res" if m: "m \<in> set meta" "i = fst m" "?m i" for i m
  proof (cases "i \<in> set fb")
    case True
    with m fb show ?thesis by (auto simp: res_def)
  next
    case False
    with dist(3) m obtain t where "token_index" "t \<in> set (snd m)" "i \<in> set (index_lookup idx t)" by blast
    moreover from this have "t \<in> set tokens" using toks m by (cases m) auto
    ultimately show ?thesis using m by (auto simp: res_def index_ids_set)
  qed
  moreover have "set res \<subseteq> {i \<in> fst ` set meta. ?m i}" using ix dist(1) fb by (auto simp: res_def)
  ultimately show "\<exists>res. (\<forall>out. scan_group_ids fx e g d tokens out = Some (out @ res))
      \<and> set res = {i \<in> fst ` set meta. ?m i}"
    by (intro exI [of _ res]) blast
  show "meta = []" if "sg_is_empty g"
  proof (rule ccontr)
    assume "meta \<noteq> []"
    then obtain m where m: "m \<in> set meta" by (cases meta) auto
    from that have "idx = []" "sets = []" "indiv = []" by (auto simp: sg_is_empty_def g)
    with fb dist(3) [OF m] show False by (simp add: index_lookup_def)
  qed
qed

end
