(* ===== verification/Filter_Verdict.thy ===== *)
theory Filter_Verdict
  imports Filter_Engine
begin

text \<open>
  Correctness of the compiled engine. The first part gives the closed form of the loop of
  \<open>from_rules\<close> and shows that each record reads back its rule from the arenas. The second
  part states the meaning of a rule (\<open>rule_matches\<close>, \<open>mods_apply\<close>, \<open>eligible\<close>) without indexes,
  and what a right verdict is (\<open>verdict_ok\<close>). The last part shows that the two passes of
  \<open>check\<close> find a winner: \<open>check_verdict\<close>.
\<close>

subsection \<open>The closed form of the builder\<close>

definition raw_of :: "build_rule \<Rightarrow> string" where
  "raw_of br = raw (br_rule br)"

definition dom_text :: "build_rule \<Rightarrow> string" where
  "dom_text br = (case pat (br_rule br) of Exact d \<Rightarrow> d | Subdomain d \<Rightarrow> d | _ \<Rightarrow> [])"

definition re_text :: "build_rule \<Rightarrow> regex option" where
  "re_text br = (case pat (br_rule br) of Wildcard re \<Rightarrow> Some re | Regex re \<Rightarrow> Some re | _ \<Rightarrow> None)"

definition override :: "build_rule \<Rightarrow> bool" where
  "override br \<longleftrightarrow> act (br_rule br) = Allow \<or> mods_important (mods (br_rule br))"

definition raws :: "build_rule list \<Rightarrow> string" where
  "raws rs = concat (map raw_of rs)"

definition doms :: "build_rule list \<Rightarrow> string" where
  "doms rs = concat (map dom_text rs)"

definition all_mods :: "build_rule list \<Rightarrow> rule_mods list" where
  "all_mods rs = List.map_filter (mods \<circ> br_rule) rs"

definition all_res :: "build_rule list \<Rightarrow> regex list" where
  "all_res rs = List.map_filter re_text rs"

definition record_of :: "build_rule list \<Rightarrow> build_rule \<Rightarrow> rule_record" where
  "record_of prev br =
     \<lparr>raw_start = word_of_nat (length (raws prev)),
      dom_or_re = word_of_nat (if re_text br = None then length (doms prev) else length (all_res prev)),
      mods_idx = (if mods (br_rule br) = None then NO_MODS else word_of_nat (length (all_mods prev))),
      raw_len = word_of_nat (min (length (raw_of br)) 65535),
      rec_list_id = ucast (list_id (br_rule br)),
      dom_len = word_of_nat (length (dom_text br)),
      rec_action = act (br_rule br),
      kind = (case pat (br_rule br) of Exact _ \<Rightarrow> EXACT | Subdomain _ \<Rightarrow> SUBDOMAIN
              | Wildcard _ \<Rightarrow> WILDCARD | Regex _ \<Rightarrow> REGEX)\<rparr>"

definition exact_pairs :: "filter_ext \<Rightarrow> build_rule list \<Rightarrow> (u64 \<times> u32) list" where
  "exact_pairs fx rs = List.map_filter
     (\<lambda>(i, br). case pat (br_rule br) of Exact d \<Rightarrow> Some (domain_hash fx d, word_of_nat i) | _ \<Rightarrow> None)
     (enumerate 0 rs)"

definition sub_pairs :: "filter_ext \<Rightarrow> build_rule list \<Rightarrow> (u64 \<times> u32) list" where
  "sub_pairs fx rs = List.map_filter
     (\<lambda>(i, br). case pat (br_rule br) of Subdomain d \<Rightarrow> Some (domain_hash fx d, word_of_nat i) | _ \<Rightarrow> None)
     (enumerate 0 rs)"

definition scan_meta :: "bool \<Rightarrow> build_rule list \<Rightarrow> (u32 \<times> u32 list) list" where
  "scan_meta ov rs = List.map_filter
     (\<lambda>(i, br). if re_text br \<noteq> None \<and> override br = ov
                then Some (word_of_nat i, index_tokens br) else None)
     (enumerate 0 rs)"

definition client_dependent :: "build_rule \<Rightarrow> bool" where
  "client_dependent br \<longleftrightarrow>
     (case mods (br_rule br) of None \<Rightarrow> False | Some m \<Rightarrow> client m \<noteq> None \<or> ctag m \<noteq> None)"

lemma build_all_snoc: "build_all fx (rs @ [br]) = build_step fx (length rs) br (build_all fx rs)"
  by (simp add: build_all_def enumerate_snoc)

lemma views_Nil:
  "raws [] = []" "doms [] = []" "all_mods [] = []" "all_res [] = []"
  "exact_pairs fx [] = []" "sub_pairs fx [] = []" "scan_meta ov [] = []"
  by (simp_all add: raws_def doms_def all_mods_def all_res_def exact_pairs_def sub_pairs_def
      scan_meta_def map_filter_Nil)

lemma views_snoc:
  "raws (rs @ [br]) = raws rs @ raw_of br"
  "doms (rs @ [br]) = doms rs @ dom_text br"
  "all_mods (rs @ [br]) = all_mods rs @ (case mods (br_rule br) of None \<Rightarrow> [] | Some m \<Rightarrow> [m])"
  "all_res (rs @ [br]) = all_res rs @ (case re_text br of None \<Rightarrow> [] | Some re \<Rightarrow> [re])"
  "exact_pairs fx (rs @ [br]) = exact_pairs fx rs @
     (case pat (br_rule br) of Exact d \<Rightarrow> [(domain_hash fx d, word_of_nat (length rs))] | _ \<Rightarrow> [])"
  "sub_pairs fx (rs @ [br]) = sub_pairs fx rs @
     (case pat (br_rule br) of Subdomain d \<Rightarrow> [(domain_hash fx d, word_of_nat (length rs))] | _ \<Rightarrow> [])"
  "scan_meta ov (rs @ [br]) = scan_meta ov rs @
     (if re_text br \<noteq> None \<and> override br = ov then [(word_of_nat (length rs), index_tokens br)] else [])"
  by (simp_all add: raws_def doms_def all_mods_def all_res_def exact_pairs_def sub_pairs_def
      scan_meta_def enumerate_snoc map_filter_append map_filter_Cons map_filter_Nil
      split: pattern.split option.split)

lemma mods_index_small:
  assumes "n < 2 ^ 32 - 1"
  shows "unat (word_of_nat n :: u32) = n" "(word_of_nat n :: u32) \<noteq> NO_MODS"
proof -
  show un: "unat (word_of_nat n :: u32) = n" using assms by (simp add: unat_word_of_nat_less)
  have "unat NO_MODS = 2 ^ 32 - 1" by (simp add: NO_MODS_def)
  with un assms show "(word_of_nat n :: u32) \<noteq> NO_MODS" by force
qed

lemma build_all_closed:
  assumes "length rs < 2 ^ 32 - 1"
  shows "build_all fx rs =
    \<lparr>b_records = map (\<lambda>i. record_of (take i rs) (rs ! i)) [0..<length rs],
     b_raw = raws rs, b_dom = doms rs, b_mods = all_mods rs, b_regexes = all_res rs,
     b_exact = exact_pairs fx rs, b_sub = sub_pairs fx rs,
     b_override = scan_meta True rs, b_block = scan_meta False rs,
     b_client = list_ex client_dependent rs,
     b_contents = map (\<lambda>br. (raw_of br, list_id (br_rule br), act (br_rule br))) rs\<rparr>"
    (is "_ = ?b rs")
  using assms
proof (induction rs rule: rev_induct)
  case Nil
  show ?case by (simp add: build_all_def empty_builder_def views_Nil)
next
  case (snoc br rs)
  have "length (all_mods rs) \<le> length rs" by (simp add: all_mods_def length_map_filter)
  then have "length (all_mods rs) < 2 ^ 32 - 1" using snoc.prems by simp
  note idx = mods_index_small [OF this]
  have IH: "build_all fx rs = ?b rs" using snoc by simp
  show ?case
    unfolding build_all_snoc IH records_snoc
    by (cases "pat (br_rule br)"; cases "mods (br_rule br)";
        simp add: build_step_def Let_def record_of_def push_scan_def idx nth_opt_def views_snoc
          mods_important_def override_def client_dependent_def [of br] re_text_def dom_text_def raw_of_def)
qed

subsection \<open>Reading a record gives back the rule\<close>

text \<open>
  What the widths of the record fields and the slicing of the arenas need of the rules.
\<close>

definition rule_fits :: "build_rule \<Rightarrow> bool" where
  "rule_fits br \<longleftrightarrow>
     starts_char (raw_of br) \<and> char_boundary (raw_of br) (min (length (raw_of br)) 65535)
     \<and> starts_char (dom_text br) \<and> length (dom_text br) < 256"

definition buildable :: "build_rule list \<Rightarrow> bool" where
  "buildable rs \<longleftrightarrow>
     length rs < 2 ^ 32 - 1 \<and> length (raws rs) < 2 ^ 32 \<and> length (doms rs) < 2 ^ 32
     \<and> list_all rule_fits rs"

lemma arena_read:
  assumes "i < length rs" "list_all (\<lambda>br. starts_char (f br)) rs"
    and "char_boundary (f (rs ! i)) n" "n \<le> length (f (rs ! i))"
  shows "str_slice (concat (map f rs)) (length (concat (map f (take i rs))))
           (length (concat (map f (take i rs))) + n) = Some (take n (f (rs ! i)))"
proof -
  have "\<forall>br \<in> set (drop (Suc i) rs). starts_char (f br)" "starts_char (f (rs ! i))"
    using assms(1,2) by (auto simp: list_all_iff dest: in_set_dropD)
  then show ?thesis
    using assms(3,4) unfolding concat_split_at [OF assms(1)]
    by (intro str_slice_arena starts_char_concat) auto
qed

text \<open>The fields of the engine that the lookup reads.\<close>

definition engine_of :: "filter_ext \<Rightarrow> build_rule list \<Rightarrow> filter_engine \<Rightarrow> bool" where
  "engine_of fx rs e \<longleftrightarrow>
     rules e = map (\<lambda>i. record_of (take i rs) (rs ! i)) [0..<length rs]
     \<and> raw_arena e = raws rs \<and> domain_arena e = doms rs \<and> e_mods e = all_mods rs
     \<and> regexes e = all_res rs
     \<and> exact e = di_build fx (exact_pairs fx rs) \<and> subdomain e = di_build fx (sub_pairs fx rs)"

lemma engine_rule:
  assumes "engine_of fx rs e" "buildable rs" "i < length rs"
  shows "nth_opt (rules e) (unat (word_of_nat i :: u32)) = Some (record_of (take i rs) (rs ! i))"
    and "unat (word_of_nat i :: u32) = i"
  using assms by (simp_all add: engine_of_def buildable_def nth_opt_def unat_word_of_nat_less)

lemma engine_raw:
  assumes "engine_of fx rs e" "buildable rs" "i < length rs"
  shows "record_raw e (record_of (take i rs) (rs ! i)) = Some (take 65535 (raw_of (rs ! i)))"
proof -
  have fits: "rule_fits (rs ! i)" and all: "list_all (\<lambda>br. starts_char (raw_of br)) rs"
    using assms by (auto simp: buildable_def list_all_iff rule_fits_def)
  have "length (raws (take i rs)) < 2 ^ 32"
    using assms(2) arena_start_le [of raw_of i rs] by (simp add: buildable_def raws_def)
  then show ?thesis
    using arena_read [OF assms(3) all, of "min (length (raw_of (rs ! i))) 65535"] fits assms(1)
    by (simp add: record_raw_def record_of_def engine_of_def unat_word_of_nat_less rule_fits_def raws_def
        take_min_length)
qed

lemma engine_domain:
  assumes "engine_of fx rs e" "buildable rs" "i < length rs" "re_text (rs ! i) = None"
  shows "record_domain e (record_of (take i rs) (rs ! i)) = Some (dom_text (rs ! i))"
proof -
  have fits: "rule_fits (rs ! i)" and all: "list_all (\<lambda>br. starts_char (dom_text br)) rs"
    using assms by (auto simp: buildable_def list_all_iff rule_fits_def)
  have "length (doms (take i rs)) < 2 ^ 32"
    using assms(2) arena_start_le [of dom_text i rs] by (simp add: buildable_def doms_def)
  then show ?thesis
    using arena_read [OF assms(3) all, of "length (dom_text (rs ! i))"] fits assms(1,4)
    by (simp add: record_domain_def record_of_def engine_of_def unat_word_of_nat_less rule_fits_def doms_def
        char_boundary_def)
qed

lemma engine_mods:
  assumes "engine_of fx rs e" "buildable rs" "i < length rs"
  shows "mods_of e (record_of (take i rs) (rs ! i)) = Some (mods (br_rule (rs ! i)))"
proof (cases "mods (br_rule (rs ! i))")
  case None
  then show ?thesis by (simp add: mods_of_def record_of_def)
next
  case (Some m)
  have "length (all_mods (take i rs)) \<le> i"
    using length_map_filter [of "mods \<circ> br_rule" "take i rs"] assms(3) by (simp add: all_mods_def)
  then have "length (all_mods (take i rs)) < 2 ^ 32 - 1" using assms by (simp add: buildable_def)
  note mods_index_small [OF this]
  with Some show ?thesis
    using map_filter_nth [of i rs "mods \<circ> br_rule" m] assms
    by (simp add: mods_of_def record_of_def engine_of_def all_mods_def)
qed

lemma engine_regex:
  assumes "engine_of fx rs e" "buildable rs" "i < length rs" "re_text (rs ! i) = Some re"
  shows "nth_opt (regexes e) (unat (dom_or_re (record_of (take i rs) (rs ! i)))) = Some re"
proof -
  have "length (all_res (take i rs)) \<le> i"
    using length_map_filter [of re_text "take i rs"] assms(3) by (simp add: all_res_def)
  then have "length (all_res (take i rs)) < 2 ^ 32" using assms by (simp add: buildable_def)
  then show ?thesis
    using map_filter_nth [of i rs re_text re] assms
    by (simp add: record_of_def engine_of_def all_res_def unat_word_of_nat_less)
qed

subsection \<open>The meaning of a rule\<close>

definition rule_matches :: "filter_ext \<Rightarrow> rule \<Rightarrow> string \<Rightarrow> bool" where
  "rule_matches fx r d \<longleftrightarrow>
     (case pat r of
        Exact p \<Rightarrow> d = p
      | Subdomain p \<Rightarrow> is_subdomain_of d p
      | Wildcard re \<Rightarrow> regex_is_match fx re d
      | Regex re \<Rightarrow> regex_is_match fx re d)"

definition mods_apply :: "filter_ext \<Rightarrow> rule \<Rightarrow> string \<Rightarrow> string \<Rightarrow> client_info \<Rightarrow> bool" where
  "mods_apply fx r d rtype ci \<longleftrightarrow>
     (\<forall>m. mods r = Some m \<longrightarrow>
        (\<forall>f. dnstype m = Some f \<longrightarrow> dns_type_matches f rtype)
        \<and> (\<forall>f. client m = Some f \<longrightarrow> client_matches fx f ci)
        \<and> (\<forall>f. ctag m = Some f \<longrightarrow> ctag_matches f (ci_tags ci))
        \<and> (act r \<noteq> Allow \<longrightarrow> (\<forall>base \<in> set (denyallow m). \<not> is_subdomain_of d base)))"

definition eligible :: "filter_ext \<Rightarrow> rule \<Rightarrow> string \<Rightarrow> string \<Rightarrow> client_info \<Rightarrow> bool" where
  "eligible fx r d rtype ci \<longleftrightarrow> rule_matches fx r d \<and> mods_apply fx r d rtype ci"

lemma engine_domain_matches:
  assumes "engine_of fx rs e" "buildable rs" "i < length rs"
  shows "domain_matches e (record_of (take i rs) (rs ! i)) d =
           Some (re_text (rs ! i) \<noteq> None \<or> rule_matches fx (br_rule (rs ! i)) d)"
  using engine_domain [OF assms]
  by (cases "pat (br_rule (rs ! i))")
    (auto simp: domain_matches_def rule_matches_def re_text_def dom_text_def record_of_def)

lemma engine_applicable:
  assumes "engine_of fx rs e" "buildable rs" "i < length rs"
  shows "applicable fx e (record_of (take i rs) (rs ! i)) d rtype ci =
           Some (mods_apply fx (br_rule (rs ! i)) d rtype ci)"
proof -
  have act: "act r = Block \<or> act r = Rewrite \<longleftrightarrow> act r \<noteq> Allow" for r by (cases "act r") auto
  show ?thesis
    using engine_mods [OF assms]
    by (auto simp: applicable_def mods_apply_def list_ex_iff record_of_def act split: option.splits)
qed

lemma engine_priority:
  assumes "engine_of fx rs e" "buildable rs" "i < length rs"
  shows "record_priority e (record_of (take i rs) (rs ! i)) = Some (priority (br_rule (rs ! i)))"
  using engine_mods [OF assms] by (simp add: record_priority_def priority_def record_of_def Let_def)

lemma case_pattern_Some:
  "(case p of Exact d \<Rightarrow> Some (F d) | _ \<Rightarrow> None) = Some y \<longleftrightarrow> (\<exists>d. p = Exact d \<and> y = F d)"
  "(case p of Subdomain d \<Rightarrow> Some (F d) | _ \<Rightarrow> None) = Some y \<longleftrightarrow> (\<exists>d. p = Subdomain d \<and> y = F d)"
  by (cases p; auto)+

lemma exact_pairs_iff:
  "(h, x) \<in> set (exact_pairs fx rs) \<longleftrightarrow>
     (\<exists>i d. i < length rs \<and> pat (br_rule (rs ! i)) = Exact d \<and> h = domain_hash fx d \<and> x = word_of_nat i)"
  by (auto simp: exact_pairs_def map_filter_enumerate case_pattern_Some)

lemma sub_pairs_iff:
  "(h, x) \<in> set (sub_pairs fx rs) \<longleftrightarrow>
     (\<exists>i d. i < length rs \<and> pat (br_rule (rs ! i)) = Subdomain d \<and> h = domain_hash fx d \<and> x = word_of_nat i)"
  by (auto simp: sub_pairs_def map_filter_enumerate case_pattern_Some)

lemma scan_meta_iff:
  "(x, toks) \<in> set (scan_meta ov rs) \<longleftrightarrow>
     (\<exists>i. i < length rs \<and> re_text (rs ! i) \<noteq> None \<and> override (rs ! i) = ov
        \<and> x = word_of_nat i \<and> toks = index_tokens (rs ! i))"
  by (auto simp: scan_meta_def map_filter_enumerate split: if_splits)

lemma pairs_ok:
  assumes "sort_laws fx" "buildable rs"
  shows "di_ok fx (exact_pairs fx rs)" "di_ok fx (sub_pairs fx rs)"
proof -
  have "length (exact_pairs fx rs) \<le> length rs" "length (sub_pairs fx rs) \<le> length rs"
    unfolding exact_pairs_def sub_pairs_def
    by (metis length_enumerate length_map_filter)+
  with assms show "di_ok fx (exact_pairs fx rs)" "di_ok fx (sub_pairs fx rs)"
    by (simp_all add: di_ok_def buildable_def)
qed

text \<open>The regex of a scanned rule, by its identifier.\<close>

definition re_of :: "build_rule list \<Rightarrow> u32 \<Rightarrow> regex" where
  "re_of rs x = the (re_text (rs ! unat x))"

lemma scan_meta_ids:
  assumes "engine_of fx rs e" "buildable rs"
  shows "scan_ids (rules e) (regexes e) (re_of rs) (map fst (scan_meta ov rs))"
  unfolding scan_ids_def
proof
  fix x assume "x \<in> set (map fst (scan_meta ov rs))"
  then obtain i re where i: "i < length rs" "re_text (rs ! i) = Some re" "x = word_of_nat i"
    by (auto simp: scan_meta_iff)
  let ?r = "record_of (take i rs) (rs ! i)"
  have "kind ?r = WILDCARD \<or> kind ?r = REGEX"
    using i(2) by (auto simp: record_of_def re_text_def split: pattern.splits)
  moreover have "re_of rs x = re" using engine_rule(2) [OF assms i(1)] i by (simp add: re_of_def)
  ultimately show "\<exists>r. nth_opt (rules e) (unat x) = Some r \<and> (kind r = WILDCARD \<or> kind r = REGEX)
      \<and> nth_opt (regexes e) (unat (dom_or_re r)) = Some (re_of rs x)"
    using engine_rule(1) [OF assms i(1)] engine_regex [OF assms i(1,2)] i(3) by simp
qed

lemma scan_meta_image:
  assumes "buildable rs"
  shows "{x \<in> fst ` set (scan_meta ov rs). regex_is_match fx (re_of rs x) d} =
    {x. unat x < length rs \<and> re_text (rs ! unat x) \<noteq> None \<and> override (rs ! unat x) = ov
       \<and> rule_matches fx (br_rule (rs ! unat x)) d}"
proof -
  have m: "regex_is_match fx (re_of rs x) d = rule_matches fx (br_rule (rs ! unat x)) d"
    if "re_text (rs ! unat x) \<noteq> None" for x
    using that by (auto simp: re_of_def re_text_def rule_matches_def split: pattern.splits)
  have "x \<in> fst ` set (scan_meta ov rs) \<longleftrightarrow>
      unat x < length rs \<and> re_text (rs ! unat x) \<noteq> None \<and> override (rs ! unat x) = ov" for x
  proof -
    have "x \<in> fst ` set (scan_meta ov rs) \<longleftrightarrow> (\<exists>toks. (x, toks) \<in> set (scan_meta ov rs))" by force
    also have "\<dots> \<longleftrightarrow> (\<exists>i < length rs. re_text (rs ! i) \<noteq> None \<and> override (rs ! i) = ov \<and> x = word_of_nat i)"
      by (auto simp: scan_meta_iff)
    also have "\<dots> \<longleftrightarrow> unat x < length rs \<and> re_text (rs ! unat x) \<noteq> None \<and> override (rs ! unat x) = ov"
      using assms by (auto simp: buildable_def unat_word_of_nat_less intro: exI [of _ "unat x"])
    finally show ?thesis .
  qed
  with m show ?thesis by blast
qed

definition winner :: "('i \<Rightarrow> bool) \<Rightarrow> ('i \<Rightarrow> nat) \<Rightarrow> 'i set \<Rightarrow> 'i option \<times> nat \<Rightarrow> bool" where
  "winner E P S best \<longleftrightarrow>
     (case fst best of
        None \<Rightarrow> \<forall>i \<in> S. \<not> E i
      | Some i \<Rightarrow> i \<in> S \<and> E i \<and> snd best = P i \<and> (\<forall>j \<in> S. E j \<longrightarrow> P j \<le> P i))"

lemma winner_insert:
  assumes "winner E P S best"
  shows "winner E P (insert i S)
           (if E i \<and> (fst best = None \<or> snd best < P i) then (Some i, P i) else best)"
  using assms by (force simp: winner_def split: option.splits)

text \<open>The loop keeps a winner of the identifiers it has seen.\<close>

lemma consider_winner:
  fixes rtype :: string and ci :: client_info
  assumes e: "engine_of fx rs e" "buildable rs"
    and ids: "\<forall>x \<in> set ids. unat x < length rs
          \<and> (re_text (rs ! unat x) \<noteq> None \<longrightarrow> rule_matches fx (br_rule (rs ! unat x)) d)"
  defines "E \<equiv> \<lambda>x. eligible fx (br_rule (rs ! unat x)) d rtype ci"
    and "P \<equiv> \<lambda>x. priority (br_rule (rs ! unat x))"
  assumes win: "winner E P S best"
  shows "\<exists>best'. consider_ids fx e ids d rtype ci best = Some best' \<and> winner E P (S \<union> set ids) best'"
  using ids win
proof (induction ids arbitrary: best S)
  case (Cons x ids)
  let ?i = "unat x" let ?r = "record_of (take ?i rs) (rs ! ?i)"
  have i: "?i < length rs" using Cons.prems by simp
  have r: "nth_opt (rules e) ?i = Some ?r" using engine_rule(1) [OF e i] by simp
  have E: "E x \<longleftrightarrow> (re_text (rs ! ?i) \<noteq> None \<or> rule_matches fx (br_rule (rs ! ?i)) d)
      \<and> mods_apply fx (br_rule (rs ! ?i)) d rtype ci"
    using Cons.prems(1) by (auto simp: E_def eligible_def)
  let ?b = "if E x \<and> (fst best = None \<or> snd best < P x) then (Some x, P x) else best"
  have "consider_ids fx e (x # ids) d rtype ci best = consider_ids fx e ids d rtype ci ?b"
    using engine_domain_matches [OF e i, of d] engine_applicable [OF e i, of d rtype ci] engine_priority [OF e i]
    by (cases "re_text (rs ! ?i) \<noteq> None \<or> rule_matches fx (br_rule (rs ! ?i)) d";
        cases "mods_apply fx (br_rule (rs ! ?i)) d rtype ci") (simp_all add: r E P_def)
  moreover have "winner E P (insert x S) ?b" using Cons.prems(2) by (rule winner_insert)
  moreover have "\<forall>x \<in> set ids. unat x < length rs
      \<and> (re_text (rs ! unat x) \<noteq> None \<longrightarrow> rule_matches fx (br_rule (rs ! unat x)) d)"
    using Cons.prems(1) by simp
  ultimately show ?case using Cons.IH [of "insert x S" ?b] by simp
qed simp

subsection \<open>The verdict\<close>

definition verdict_of :: "u32 \<Rightarrow> rule \<Rightarrow> verdict" where
  "verdict_of ident r =
     (let info = \<lparr>mi_rule = take 65535 (raw r), mi_list_id = ucast (ucast (list_id r) :: u16),
                  mi_rule_id = ident\<rparr>
      in case act r of
           Allow \<Rightarrow> VAllow (Some info)
         | Block \<Rightarrow> VBlock info
         | Rewrite \<Rightarrow> VRewrite info (the (rule_rewrite r)))"

text \<open>
  \<open>verdict_ok fx cands rs d rtype ci v\<close>: among the candidate rules \<open>cands\<close> no rule is eligible
  and \<open>v\<close> is the default, or \<open>v\<close> names an eligible rule of the engine's rules \<open>rs\<close> that no
  eligible candidate beats.
\<close>

definition verdict_ok ::
  "filter_ext \<Rightarrow> build_rule list \<Rightarrow> build_rule list \<Rightarrow> string \<Rightarrow> string \<Rightarrow> client_info \<Rightarrow> verdict \<Rightarrow> bool" where
  "verdict_ok fx cands rs d rtype ci v \<longleftrightarrow>
     (if \<forall>br \<in> set cands. \<not> eligible fx (br_rule br) d rtype ci then v = VAllow None
      else \<exists>i < length rs. eligible fx (br_rule (rs ! i)) d rtype ci
             \<and> (\<forall>br \<in> set cands. eligible fx (br_rule br) d rtype ci \<longrightarrow>
                  priority (br_rule br) \<le> priority (br_rule (rs ! i)))
             \<and> v = verdict_of (word_of_nat i) (br_rule (rs ! i)))"

lemma engine_verdict:
  assumes e: "engine_of fx rs e" "buildable rs" and i: "unat x < length rs"
    and "carries_rewrite (rs ! unat x)"
  shows "make_verdict e x = Some (verdict_of x (br_rule (rs ! unat x)))"
  using engine_rule(1) [OF e i] engine_raw [OF e i] engine_mods [OF e i] assms(4)
  by (auto simp: make_verdict_def verdict_of_def record_of_def raw_of_def carries_rewrite_def
      rule_rewrite_def Let_def split: action.splits)

lemma all_rules_by_id:
  assumes "buildable rs"
  shows "(\<forall>br \<in> set rs. Q br) \<longleftrightarrow> (\<forall>x::u32. unat x < length rs \<longrightarrow> Q (rs ! unat x))"
  unfolding all_set_conv_all_nth
proof (intro iffI allI impI)
  fix i assume all: "\<forall>x::u32. unat x < length rs \<longrightarrow> Q (rs ! unat x)" and i: "i < length rs"
  have "unat (word_of_nat i :: u32) = i" using assms i by (simp add: buildable_def unat_word_of_nat_less)
  with all [rule_format, of "word_of_nat i"] i show "Q (rs ! i)" by simp
qed simp

lemma verdict_ok_winner:
  assumes "buildable rs" "list_all carries_rewrite rs" and e: "engine_of fx rs e"
    and "winner (\<lambda>x. eligible fx (br_rule (rs ! unat x)) d rtype ci) (\<lambda>x. priority (br_rule (rs ! unat x)))
           {x. unat x < length rs} best"
  shows "\<exists>v. (case fst best of None \<Rightarrow> Some (VAllow None) | Some x \<Rightarrow> make_verdict e x) = Some v
           \<and> verdict_ok fx rs rs d rtype ci v"
proof -
  have all: "(\<forall>br \<in> set rs. Q br) \<longleftrightarrow> (\<forall>x::u32. unat x < length rs \<longrightarrow> Q (rs ! unat x))" for Q
    using assms(1) by (rule all_rules_by_id)
  show ?thesis
  proof (cases "fst best")
    case None
    with assms(4) show ?thesis by (simp add: winner_def verdict_ok_def all)
  next
    case (Some x)
    with assms(4) have x: "unat x < length rs" "eligible fx (br_rule (rs ! unat x)) d rtype ci"
      "\<forall>j::u32. unat j < length rs \<longrightarrow> eligible fx (br_rule (rs ! unat j)) d rtype ci \<longrightarrow>
         priority (br_rule (rs ! unat j)) \<le> priority (br_rule (rs ! unat x))"
      by (auto simp: winner_def)
    have "carries_rewrite (rs ! unat x)" using assms(2) x(1) by (simp add: list_all_iff)
    note v = engine_verdict [OF e assms(1) x(1) this]
    have "verdict_ok fx rs rs d rtype ci (verdict_of x (br_rule (rs ! unat x)))"
      unfolding verdict_ok_def all using x by (auto intro!: exI [of _ "unat x"])
    with v Some show ?thesis by simp
  qed
qed

text \<open>A winner of the first pass wins against the plain blocks that only the second pass scans.\<close>

lemma winner_extend:
  assumes "winner E P S best" "\<forall>j \<in> T - S. E j \<longrightarrow> P j \<le> 1" "\<forall>j. 1 \<le> P j" "fst best \<noteq> None" "S \<subseteq> T"
  shows "winner E P T best"
  using assms by (auto simp: winner_def split: option.splits) (metis Diff_iff order_trans)

lemma winner_mono:
  assumes "winner E P S best" "S \<subseteq> T" "\<forall>j \<in> T - S. \<not> E j"
  shows "winner E P T best"
  using assms by (auto simp: winner_def split: option.splits)

lemma from_rules_engine:
  assumes b: "buildable rs" and laws: "regex_laws fx"
  obtains e where "from_rules fx rs = Some e" "engine_of fx rs e"
    and "build_scan_group fx (scan_meta True rs) (rules e) (regexes e) False = Some (override_scan e)"
    and "build_scan_group fx (scan_meta False rs) (rules e) (regexes e) True = Some (block_scan e)"
proof -
  have "length rs < 2 ^ 32 - 1" using b by (simp add: buildable_def)
  note cl = build_all_closed [OF this, of fx]
  let ?rec = "map (\<lambda>i. record_of (take i rs) (rs ! i)) [0..<length rs]"
  define mk where "mk = (\<lambda>o1 b1. \<lparr>rules = ?rec, raw_arena = raws rs, domain_arena = doms rs,
      e_mods = all_mods rs, regexes = all_res rs, exact = di_build fx (exact_pairs fx rs),
      subdomain = di_build fx (sub_pairs fx rs), override_scan = o1, block_scan = b1,
      has_client_dependent_rules = list_ex client_dependent rs,
      content_hash = hash_contents fx (map (\<lambda>br. (raw_of br, list_id (br_rule br), act (br_rule br))) rs)\<rparr>)"
  have eo: "engine_of fx rs (mk o1 b1)" for o1 b1 by (simp add: engine_of_def mk_def)
  have "\<exists>g. build_scan_group fx (scan_meta ov rs) ?rec (all_res rs) ti = Some g" for ov ti
    using scan_meta_ids [OF eo b] by (auto simp: mk_def intro: build_scan_group_parts)
  then obtain o1 b1 where o1: "build_scan_group fx (scan_meta True rs) ?rec (all_res rs) False = Some o1"
    and b1: "build_scan_group fx (scan_meta False rs) ?rec (all_res rs) True = Some b1" by blast
  show ?thesis
  proof (rule that [OF _ eo [of o1 b1]])
    show "from_rules fx rs = Some (mk o1 b1)" by (simp add: from_rules_def cl o1 b1 mk_def)
  qed (simp_all add: mk_def o1 b1)
qed

lemma candidates_first:
  assumes e: "engine_of fx rs e" "buildable rs" and laws: "regex_laws fx" "sort_laws fx"
    and g: "build_scan_group fx (scan_meta True rs) (rules e) (regexes e) False = Some (override_scan e)"
  obtains ids where "Option.bind (collect_domain fx e d []) (scan_group_ids fx e (override_scan e) d []) = Some ids"
    and "\<forall>x \<in> set ids. unat x < length rs
          \<and> (re_text (rs ! unat x) \<noteq> None \<longrightarrow> rule_matches fx (br_rule (rs ! unat x)) d)"
    and "\<forall>x. unat x < length rs \<longrightarrow> rule_matches fx (br_rule (rs ! unat x)) d \<longrightarrow> x \<notin> set ids \<longrightarrow>
          re_text (rs ! unat x) \<noteq> None \<and> \<not> override (rs ! unat x)"
proof -
  obtain is1 where is1: "collect_domain fx e d [] = Some is1"
    "set is1 = {i. (domain_hash fx d, i) \<in> set (exact_pairs fx rs)}
       \<union> {i. \<exists>p. is_subdomain_of d p \<and> (domain_hash fx p, i) \<in> set (sub_pairs fx rs)}"
    using collect_domain_spec [OF pairs_ok [OF laws(2) e(2)], of e d "[]"] e(1) by (auto simp: engine_of_def)
  obtain is2 where is2: "\<forall>out. scan_group_ids fx e (override_scan e) d [] out = Some (out @ is2)"
    "set is2 = {x \<in> fst ` set (scan_meta True rs). regex_is_match fx (re_of rs x) d}"
    using scan_group_complete(1) [OF laws(1) scan_meta_ids [OF e] _ g, of d "[]"] by blast
  note is2' = is2(2) [unfolded scan_meta_image [OF e(2)]]
  have un: "i < length rs \<Longrightarrow> unat (word_of_nat i :: u32) = i" for i by (rule engine_rule(2) [OF e])
  have in1: "x \<in> set is1 \<Longrightarrow> unat x < length rs \<and> re_text (rs ! unat x) = None" for x
    using un by (auto simp: is1(2) exact_pairs_iff sub_pairs_iff re_text_def)
  show ?thesis
  proof (rule that [of "is1 @ is2"])
    show "Option.bind (collect_domain fx e d []) (scan_group_ids fx e (override_scan e) d []) = Some (is1 @ is2)"
      using is1 is2 by simp
    show "\<forall>x \<in> set (is1 @ is2). unat x < length rs
          \<and> (re_text (rs ! unat x) \<noteq> None \<longrightarrow> rule_matches fx (br_rule (rs ! unat x)) d)"
      using in1 is2' by auto
    show "\<forall>x. unat x < length rs \<longrightarrow> rule_matches fx (br_rule (rs ! unat x)) d \<longrightarrow> x \<notin> set (is1 @ is2) \<longrightarrow>
          re_text (rs ! unat x) \<noteq> None \<and> \<not> override (rs ! unat x)"
    proof (intro allI impI)
      fix x assume x: "unat x < length rs" "rule_matches fx (br_rule (rs ! unat x)) d" "x \<notin> set (is1 @ is2)"
      have "re_text (rs ! unat x) \<noteq> None"
      proof
        assume "re_text (rs ! unat x) = None"
        then consider p where "pat (br_rule (rs ! unat x)) = Exact p" | p where "pat (br_rule (rs ! unat x)) = Subdomain p"
          by (auto simp: re_text_def split: pattern.splits)
        then have "x \<in> set is1"
          unfolding is1(2) exact_pairs_iff sub_pairs_iff using x(1,2)
          by cases (force simp: rule_matches_def)+
        with x(3) show False by simp
      qed
      with x is2' show "re_text (rs ! unat x) \<noteq> None \<and> \<not> override (rs ! unat x)" by auto
    qed
  qed
qed

lemma candidates_second:
  assumes e: "engine_of fx rs e" "buildable rs" and laws: "regex_laws fx"
    and g: "build_scan_group fx (scan_meta False rs) (rules e) (regexes e) True = Some (block_scan e)"
    and toks: "\<forall>br \<in> set rs. tokens_sound fx (pat (br_rule br)) (index_tokens br) d"
  obtains ids where
    "scan_group_ids fx e (block_scan e) d
       (if scan_index (block_scan e) \<noteq> [] then for_each_query_token d else []) [] = Some ids"
    and "set ids = {x. unat x < length rs \<and> re_text (rs ! unat x) \<noteq> None \<and> \<not> override (rs ! unat x)
           \<and> rule_matches fx (br_rule (rs ! unat x)) d}"
    and "sg_is_empty (block_scan e) \<Longrightarrow> ids = []"
proof -
  have toks': "\<forall>(x, ts) \<in> set (scan_meta False rs).
      regex_is_match fx (re_of rs x) d \<longrightarrow> set ts \<subseteq> set (for_each_query_token d)"
  proof (intro ballI, clarify)
    fix x ts t assume m: "(x, ts) \<in> set (scan_meta False rs)" "regex_is_match fx (re_of rs x) d" "t \<in> set ts"
    then obtain i where i: "i < length rs" "re_text (rs ! i) \<noteq> None" "x = word_of_nat i" "ts = index_tokens (rs ! i)"
      by (auto simp: scan_meta_iff)
    with m(2) have "regex_is_match fx (the (re_text (rs ! i))) d"
      using engine_rule(2) [OF e i(1)] by (simp add: re_of_def)
    moreover have "tokens_sound fx (pat (br_rule (rs ! i))) ts d" using toks i by simp
    ultimately show "t \<in> set (for_each_query_token d)"
      using i(2) m(3) by (auto simp: tokens_sound_def re_text_def split: pattern.splits)
  qed
  note g' = scan_group_complete [OF laws scan_meta_ids [OF e] _ g, of d "for_each_query_token d"]
  obtain res where res: "\<forall>out. scan_group_ids fx e (block_scan e) d (for_each_query_token d) out = Some (out @ res)"
      "set res = {x \<in> fst ` set (scan_meta False rs). regex_is_match fx (re_of rs x) d}"
    using g'(1) toks' by blast
  note res' = res(2) [unfolded scan_meta_image [OF e(2)]]
  have "scan_group_ids fx e (block_scan e) d [] out = scan_group_ids fx e (block_scan e) d (for_each_query_token d) out"
    if "scan_index (block_scan e) = []" for out
    using that by (simp add: scan_group_ids_def split: option.splits)
  moreover have "res = []" if "sg_is_empty (block_scan e)" using res(2) g'(2) toks' that by simp
  ultimately show ?thesis using res(1) res' by (intro that [of res]) simp_all
qed

lemma best_rule_winner:
  fixes rtype :: string and ci :: client_info
  assumes eo: "engine_of fx rs e" and b: "buildable rs" and laws: "regex_laws fx" "sort_laws fx"
    and g1: "build_scan_group fx (scan_meta True rs) (rules e) (regexes e) False = Some (override_scan e)"
    and g2: "build_scan_group fx (scan_meta False rs) (rules e) (regexes e) True = Some (block_scan e)"
    and toks: "\<forall>br \<in> set rs. tokens_sound fx (pat (br_rule br)) (index_tokens br) d"
  defines "E \<equiv> \<lambda>x::u32. eligible fx (br_rule (rs ! unat x)) d rtype ci"
    and "P \<equiv> \<lambda>x::u32. priority (br_rule (rs ! unat x))"
    and "T \<equiv> {x::u32. unat x < length rs}"
  shows "\<exists>best. best_rule fx e d rtype ci = Some (fst best) \<and> winner E P T best"
proof -
  obtain ids1 where c1: "Option.bind (collect_domain fx e d []) (scan_group_ids fx e (override_scan e) d []) = Some ids1"
    and v1: "\<forall>x \<in> set ids1. unat x < length rs
          \<and> (re_text (rs ! unat x) \<noteq> None \<longrightarrow> rule_matches fx (br_rule (rs ! unat x)) d)"
    and m1: "\<forall>x. unat x < length rs \<longrightarrow> rule_matches fx (br_rule (rs ! unat x)) d \<longrightarrow> x \<notin> set ids1 \<longrightarrow>
          re_text (rs ! unat x) \<noteq> None \<and> \<not> override (rs ! unat x)"
    using candidates_first [OF eo b laws g1] by blast
  obtain ids2 where c2: "scan_group_ids fx e (block_scan e) d
       (if scan_index (block_scan e) \<noteq> [] then for_each_query_token d else []) [] = Some ids2"
    and m2: "set ids2 = {x. unat x < length rs \<and> re_text (rs ! unat x) \<noteq> None \<and> \<not> override (rs ! unat x)
           \<and> rule_matches fx (br_rule (rs ! unat x)) d}"
    and em: "sg_is_empty (block_scan e) \<Longrightarrow> ids2 = []"
    using candidates_second [OF eo b laws(1) g2 toks] by blast
  have "winner E P {} (None, 0)" by (simp add: winner_def)
  from consider_winner [OF eo b v1 this [unfolded E_def P_def]] obtain b1 where
    k1: "consider_ids fx e ids1 d rtype ci (None, 0) = Some b1" and w1: "winner E P (set ids1) b1"
    by (auto simp: E_def P_def)
  have v2: "\<forall>x \<in> set ids2. unat x < length rs
          \<and> (re_text (rs ! unat x) \<noteq> None \<longrightarrow> rule_matches fx (br_rule (rs ! unat x)) d)"
    using m2 by auto
  from consider_winner [OF eo b v2 w1 [unfolded E_def P_def]] obtain b2 where
    k2: "consider_ids fx e ids2 d rtype ci b1 = Some b2" and w2: "winner E P (set ids1 \<union> set ids2) b2"
    by (auto simp: E_def P_def)
  have sub: "set ids1 \<subseteq> T" "set ids1 \<union> set ids2 \<subseteq> T" using v1 v2 by (auto simp: T_def)
  have rest: "\<forall>x \<in> T - (set ids1 \<union> set ids2). \<not> E x" using m1 m2 by (auto simp: E_def T_def eligible_def)
  have low: "\<forall>x \<in> T - set ids1. E x \<longrightarrow> P x \<le> 1"
  proof (intro ballI impI)
    fix x assume "x \<in> T - set ids1" "E x"
    with m1 have "\<not> override (rs ! unat x)" by (auto simp: T_def E_def eligible_def)
    then show "P x \<le> 1" by (simp add: P_def override_def priority_plain)
  qed
  define best where "best = (if fst b1 = None \<and> \<not> sg_is_empty (block_scan e) then b2 else b1)"
  have "best_rule fx e d rtype ci = Some (fst best)"
    using c1 c2 k1 k2 by (simp add: best_rule_def best_def Let_def)
  moreover have "winner E P T best"
  proof (cases "fst b1 = None")
    case True
    then have "best = b2" using em k2 by (auto simp: best_def)
    with winner_mono [OF w2 sub(2) rest] show ?thesis by simp
  next
    case False
    have "\<forall>x. 1 \<le> P x" using priority_pos by (simp add: P_def Suc_le_eq)
    then have "winner E P T b1" by (rule winner_extend [OF w1 low _ False sub(1)])
    moreover have "best = b1" using False by (auto simp: best_def)
    ultimately show ?thesis by simp
  qed
  ultimately show ?thesis by blast
qed

text \<open>The engine never panics and returns the verdict of a rule of the highest priority.\<close>

lemma check_verdict:
  assumes laws: "regex_laws fx" "sort_laws fx" and b: "buildable rs"
    and rw: "list_all carries_rewrite rs"
    and toks: "\<forall>br \<in> set rs. tokens_sound fx (pat (br_rule br)) (index_tokens br) (query_name domain)"
  shows "\<exists>e v. from_rules fx rs = Some e \<and> check fx e domain rtype ci = Some v
           \<and> verdict_ok fx rs rs (query_name domain) rtype ci v"
proof -
  obtain e where fr: "from_rules fx rs = Some e" and eo: "engine_of fx rs e"
    and g: "build_scan_group fx (scan_meta True rs) (rules e) (regexes e) False = Some (override_scan e)"
      "build_scan_group fx (scan_meta False rs) (rules e) (regexes e) True = Some (block_scan e)"
    using from_rules_engine [OF b laws(1)] by blast
  obtain best where best: "best_rule fx e (query_name domain) rtype ci = Some (fst best)"
    and win: "winner (\<lambda>x. eligible fx (br_rule (rs ! unat x)) (query_name domain) rtype ci)
       (\<lambda>x. priority (br_rule (rs ! unat x))) {x. unat x < length rs} best"
    using best_rule_winner [OF eo b laws g toks] by blast
  from best have "check fx e domain rtype ci =
      (case fst best of None \<Rightarrow> Some (VAllow None) | Some x \<Rightarrow> make_verdict e x)"
    by (simp add: check_def split: option.split)
  with verdict_ok_winner [OF b rw eo win] fr show ?thesis by simp
qed

subsection \<open>Verdicts that do not depend on the client\<close>

lemma build_step_client:
  "b_client (build_step fx i br b) = (b_client b \<or> client_dependent br)"
  "b_mods (build_step fx i br b) = b_mods b @ (case mods (br_rule br) of None \<Rightarrow> [] | Some m \<Rightarrow> [m])"
  by (simp_all add: build_step_def Let_def push_scan_def client_dependent_def
      split: option.split pattern.split)

lemma build_all_client:
  "\<not> b_client (build_all fx rs) \<Longrightarrow> m \<in> set (b_mods (build_all fx rs)) \<Longrightarrow> client m = None \<and> ctag m = None"
proof (induction rs rule: rev_induct)
  case Nil
  then show ?case by (simp add: build_all_def empty_builder_def)
next
  case (snoc br rs)
  then show ?case
    by (auto simp: build_all_snoc build_step_client client_dependent_def split: option.splits)
qed

lemma from_rules_client:
  assumes "from_rules fx rs = Some e" "\<not> has_client_dependent_rules e" "m \<in> set (e_mods e)"
  shows "client m = None \<and> ctag m = None"
proof -
  have "e_mods e = b_mods (build_all fx rs)" "has_client_dependent_rules e = b_client (build_all fx rs)"
    using assms(1) by (auto simp: from_rules_def Let_def split: option.splits)
  with assms(2,3) build_all_client show ?thesis by metis
qed

lemma applicable_client:
  assumes "\<forall>m \<in> set (e_mods e). client m = None \<and> ctag m = None"
  shows "applicable fx e r d rtype ci1 = applicable fx e r d rtype ci2"
proof (cases "mods_of e r")
  case (Some ms)
  show ?thesis
  proof (cases ms)
    case (Some m)
    then have "m \<in> set (e_mods e)"
      using \<open>mods_of e r = Some ms\<close> by (auto simp: mods_of_def nth_opt_def split: if_splits)
    with assms Some \<open>mods_of e r = Some ms\<close> show ?thesis by (simp add: applicable_def)
  qed (use Some in \<open>simp add: applicable_def\<close>)
qed (simp add: applicable_def)

lemma consider_ids_client:
  assumes "\<forall>m \<in> set (e_mods e). client m = None \<and> ctag m = None"
  shows "consider_ids fx e ids d rtype ci1 best = consider_ids fx e ids d rtype ci2 best"
  by (induction ids arbitrary: best) (auto simp: applicable_client [OF assms, of fx _ d rtype ci1 ci2] split: option.split bool.split)

lemma check_client_independent:
  assumes "from_rules fx rs = Some e" "\<not> has_client_dependent_rules e"
  shows "check fx e domain rtype ci1 = check fx e domain rtype ci2"
proof -
  have "\<forall>m \<in> set (e_mods e). client m = None \<and> ctag m = None" using from_rules_client [OF assms] by blast
  note c = consider_ids_client [OF this, of fx _ _ rtype ci1 _ ci2]
  show ?thesis unfolding check_def best_rule_def c ..
qed

text \<open>The summary fields: whether a verdict can depend on the client, and the content hash.\<close>

lemma from_rules_fields:
  assumes "from_rules fx rs = Some e" "length rs < 2 ^ 32 - 1"
  shows "has_client_dependent_rules e = list_ex client_dependent rs"
    and "content_hash e = hash_contents fx (map (\<lambda>br. (raw_of br, list_id (br_rule br), act (br_rule br))) rs)"
  using assms(1) build_all_closed [OF assms(2), of fx]
  by (auto simp: from_rules_def Let_def split: option.splits)

end
