(* ===== verification/Filter_List.thy ===== *)
theory Filter_List
  imports Filter_Verdict
begin

text \<open>
  List compilation, \<open>crates/bulwark-filter/src/list.rs\<close>: the compiler collects the rules of
  the lists, \<open>build\<close> drops the rules that a \<open>$badfilter\<close> rule cancels, keeps the first rule of
  each signature and prunes plain blocks that a plain block of an ancestor domain covers.
\<close>

record list_stats =
  ls_list_id :: u32
  ls_name :: string
  ls_rules :: nat
  ls_unsupported :: nat
  ls_errors :: nat

record compiler =
  c_rules :: "build_rule list"
  badfilter_sigs :: "string set"
  c_stats :: "list_stats list"

definition new_compiler :: compiler where
  "new_compiler = \<lparr>c_rules = [], badfilter_sigs = {}, c_stats = []\<rparr>"

definition add_rule :: "u32 \<Rightarrow> compiler \<times> list_stats \<Rightarrow> build_rule \<Rightarrow> compiler \<times> list_stats" where
  "add_rule lid cs br =
     (let (c, stats) = cs; br = br\<lparr>br_rule := (br_rule br)\<lparr>list_id := lid\<rparr>\<rparr> in
      if badfilter br then (c\<lparr>badfilter_sigs := insert (signature br) (badfilter_sigs c)\<rparr>, stats)
      else (c\<lparr>c_rules := c_rules c @ [br]\<rparr>, stats\<lparr>ls_rules := ls_rules stats + 1\<rparr>))"

definition add_line ::
  "filter_ext \<Rightarrow> u32 \<Rightarrow> compiler \<times> list_stats \<Rightarrow> string \<Rightarrow> compiler \<times> list_stats" where
  "add_line fx lid cs line =
     (case parse_line fx line of
        Inr (Rules rs) \<Rightarrow> foldl (add_rule lid) cs rs
      | Inr Ignored \<Rightarrow> cs
      | Inr (Unsupported _) \<Rightarrow> (fst cs, (snd cs)\<lparr>ls_unsupported := ls_unsupported (snd cs) + 1\<rparr>)
      | Inl _ \<Rightarrow> (fst cs, (snd cs)\<lparr>ls_errors := ls_errors (snd cs) + 1\<rparr>))"

definition add_list ::
  "filter_ext \<Rightarrow> u32 \<Rightarrow> string \<Rightarrow> string \<Rightarrow> compiler \<Rightarrow> compiler \<times> list_stats" where
  "add_list fx lid name text c =
     (let stats0 = \<lparr>ls_list_id = lid, ls_name = name, ls_rules = 0, ls_unsupported = 0, ls_errors = 0\<rparr>;
          (c1, stats) = foldl (add_line fx lid) (c, stats0) (lines text)
      in (c1\<lparr>c_stats := c_stats c1 @ [stats]\<rparr>, stats))"

fun dedup_sigs :: "string set \<Rightarrow> build_rule list \<Rightarrow> build_rule list" where
  "dedup_sigs seen [] = []"
| "dedup_sigs seen (br # rs) =
     (if signature br \<in> seen then dedup_sigs seen rs
      else br # dedup_sigs (insert (signature br) seen) rs)"

definition subsumer :: "build_rule \<Rightarrow> string option" where
  "subsumer br =
     (if act (br_rule br) = Block \<and> mods (br_rule br) = None then
        (case pat (br_rule br) of Subdomain d \<Rightarrow> Some d | _ \<Rightarrow> None)
      else None)"

function ancestor_in :: "string list \<Rightarrow> string \<Rightarrow> bool" where
  "ancestor_in subs d =
     (case domain_suffix d of None \<Rightarrow> False
      | Some rest \<Rightarrow> if rest \<in> set subs then True else ancestor_in subs rest)"
  by pat_completeness auto
termination
  by (relation "measure (length \<circ> snd)") (auto dest: domain_suffix_shorter)

declare ancestor_in.simps [simp del]

definition is_redundant :: "string list \<Rightarrow> build_rule \<Rightarrow> bool" where
  "is_redundant subs br =
     (if act (br_rule br) \<noteq> Block \<or> mods (br_rule br) \<noteq> None then False
      else case (case pat (br_rule br) of
                   Subdomain d \<Rightarrow> Some (d, False) | Exact d \<Rightarrow> Some (d, True) | _ \<Rightarrow> None) of
        None \<Rightarrow> False
      | Some (d, include_self) \<Rightarrow>
          if include_self \<and> d \<in> set subs then True else ancestor_in subs d)"

definition prune_redundant :: "build_rule list \<Rightarrow> build_rule list" where
  "prune_redundant active =
     (let subs = List.map_filter subsumer active in
      if subs = [] then active else filter (\<lambda>br. \<not> is_redundant subs br) active)"

definition deduped :: "compiler \<Rightarrow> build_rule list" where
  "deduped c = dedup_sigs {} (filter (\<lambda>r. signature r \<notin> badfilter_sigs c) (c_rules c))"

definition build :: "filter_ext \<Rightarrow> compiler \<Rightarrow> (filter_engine \<times> list_stats list) option" where
  "build fx c =
     map_option (\<lambda>e. (e, c_stats c)) (from_rules fx (prune_redundant (deduped c)))"

definition compile_one :: "filter_ext \<Rightarrow> string \<Rightarrow> filter_engine option" where
  "compile_one fx text =
     map_option fst (build fx (fst (add_list fx 0 ''inline'' text new_compiler)))"

text \<open>Several lists, added in order.\<close>

definition compile_lists :: "filter_ext \<Rightarrow> (u32 \<times> string \<times> string) list \<Rightarrow> compiler" where
  "compile_lists fx ls =
     foldl (\<lambda>c (lid, name, text). fst (add_list fx lid name text c)) new_compiler ls"

subsection \<open>Cancellation and signatures\<close>

lemma dedup_sigs_set: "set (dedup_sigs seen rs) \<subseteq> set rs"
  by (induction seen rs rule: dedup_sigs.induct) auto

lemma dedup_sigs_distinct:
  "distinct (map signature (dedup_sigs seen rs)) \<and> seen \<inter> signature ` set (dedup_sigs seen rs) = {}"
  by (induction seen rs rule: dedup_sigs.induct) auto

lemma dedup_sigs_covers:
  "signature ` set rs - seen = signature ` set (dedup_sigs seen rs)"
  by (induction seen rs rule: dedup_sigs.induct) auto

lemma deduped_signatures:
  "distinct (map signature (deduped c))"
  "signature ` set (deduped c) = signature ` set (c_rules c) - badfilter_sigs c"
proof -
  let ?rs = "filter (\<lambda>r. signature r \<notin> badfilter_sigs c) (c_rules c)"
  show "distinct (map signature (deduped c))" using dedup_sigs_distinct by (simp add: deduped_def)
  have "signature ` set (deduped c) = signature ` set ?rs"
    using dedup_sigs_covers [of ?rs "{}"] by (simp add: deduped_def)
  then show "signature ` set (deduped c) = signature ` set (c_rules c) - badfilter_sigs c" by auto
qed

subsection \<open>Pruning keeps the verdict\<close>

lemma ancestor_in_iff: "ancestor_in subs d \<longleftrightarrow> (\<exists>l p. p \<in> set subs \<and> d = l @ CHR ''.'' # p)"
proof (induction subs d rule: ancestor_in.induct)
  case (1 subs d)
  show ?case
  proof (cases "domain_suffix d")
    case None
    then have "\<nexists>l p. d = l @ CHR ''.'' # p" by (auto simp: domain_suffix_None)
    with None show ?thesis by (subst ancestor_in.simps) auto
  next
    case (Some rest)
    have "(\<exists>l p. p \<in> set subs \<and> d = l @ CHR ''.'' # p) \<longleftrightarrow>
        rest \<in> set subs \<or> (\<exists>l p. p \<in> set subs \<and> rest = l @ CHR ''.'' # p)"
      using domain_suffix_step [OF Some] by metis
    then show ?thesis using 1 [OF Some] Some by (subst ancestor_in.simps) simp
  qed
qed

definition plain_block :: "build_rule \<Rightarrow> bool" where
  "plain_block br \<longleftrightarrow> act (br_rule br) = Block \<and> mods (br_rule br) = None"

lemma subsumer_iff: "subsumer br = Some d \<longleftrightarrow> plain_block br \<and> pat (br_rule br) = Subdomain d"
  by (auto simp: subsumer_def plain_block_def split: pattern.splits)

lemma is_redundant_iff:
  "is_redundant subs br \<longleftrightarrow> plain_block br \<and>
     (\<exists>d. pat (br_rule br) = Exact d \<and> d \<in> set subs
        \<or> (pat (br_rule br) = Exact d \<or> pat (br_rule br) = Subdomain d) \<and> ancestor_in subs d)"
  by (cases "pat (br_rule br)") (auto simp: is_redundant_def plain_block_def)

lemma plain_block_eligible:
  "plain_block br \<Longrightarrow> eligible fx (br_rule br) d rtype ci \<longleftrightarrow> rule_matches fx (br_rule br) d"
  by (simp add: plain_block_def eligible_def mods_apply_def)

lemma plain_block_priority: "plain_block br \<Longrightarrow> priority (br_rule br) = 1"
  by (simp add: plain_block_def priority_def mods_important_def)

text \<open>
  A redundant rule that matches has a kept plain block that matches: the shortest of its
  subsumers.
\<close>

lemma subdomain_trans: "is_subdomain_of d p \<Longrightarrow> is_subdomain_of p q \<Longrightarrow> is_subdomain_of d q"
  unfolding is_subdomain_of_iff by (metis append.assoc append_Cons)

lemma kept_subsumer:
  assumes "p \<in> set (List.map_filter subsumer rs)" "is_subdomain_of d p"
  shows "\<exists>br \<in> set (prune_redundant rs). plain_block br \<and> rule_matches fx (br_rule br) d"
  using assms
proof (induction p rule: measure_induct_rule [of length])
  case (less p)
  let ?subs = "List.map_filter subsumer rs"
  obtain br where br: "br \<in> set rs" "plain_block br" "pat (br_rule br) = Subdomain p"
    using less.prems(1) by (auto simp: map_filter_set subsumer_iff)
  show ?case
  proof (cases "is_redundant ?subs br")
    case False
    with br less.prems show ?thesis
      by (intro bexI [of _ br]) (auto simp: prune_redundant_def Let_def rule_matches_def)
  next
    case True
    with br obtain l q where q: "q \<in> set ?subs" "p = l @ CHR ''.'' # q"
      by (auto simp: is_redundant_iff ancestor_in_iff)
    then have "is_subdomain_of d q"
      using less.prems(2) subdomain_trans is_subdomain_of_iff by blast
    with less.IH [of q] q show ?thesis by simp
  qed
qed

lemma prune_kept:
  assumes "br \<in> set rs" "br \<notin> set (prune_redundant rs)" "rule_matches fx (br_rule br) d"
  shows "plain_block br"
    and "\<exists>br' \<in> set (prune_redundant rs). plain_block br' \<and> rule_matches fx (br_rule br') d"
proof -
  let ?subs = "List.map_filter subsumer rs"
  have red: "is_redundant ?subs br"
    using assms(1,2) by (auto simp: prune_redundant_def Let_def split: if_splits)
  then show "plain_block br" by (simp add: is_redundant_iff)
  from red assms(3) obtain p where "p \<in> set ?subs" "is_subdomain_of d p"
    unfolding is_redundant_iff ancestor_in_iff rule_matches_def
    by (force simp: is_subdomain_of_iff)
  then show "\<exists>br' \<in> set (prune_redundant rs). plain_block br' \<and> rule_matches fx (br_rule br') d"
    by (rule kept_subsumer)
qed

lemma prune_subset: "set (prune_redundant rs) \<subseteq> set rs"
  by (auto simp: prune_redundant_def Let_def)

lemma prune_verdict_ok:
  assumes "verdict_ok fx (prune_redundant rs) (prune_redundant rs) d rtype ci v"
  shows "verdict_ok fx rs (prune_redundant rs) d rtype ci v"
proof -
  let ?ps = "prune_redundant rs" and ?E = "\<lambda>br. eligible fx (br_rule br) d rtype ci"
  have ex: "\<exists>br' \<in> set ?ps. ?E br' \<and> priority (br_rule br) \<le> priority (br_rule br')"
    if br: "br \<in> set rs" "?E br" for br
  proof (cases "br \<in> set ?ps")
    case False
    have "rule_matches fx (br_rule br) d" using br(2) by (simp add: eligible_def)
    note kept = prune_kept [OF br(1) False this]
    then show ?thesis using plain_block_eligible plain_block_priority by (metis order_refl)
  qed (use br in blast)
  show ?thesis
  proof (cases "\<forall>br \<in> set ?ps. \<not> ?E br")
    case True
    with assms ex show ?thesis by (auto simp: verdict_ok_def)
  next
    case False
    with assms obtain i where i: "i < length ?ps" "?E (?ps ! i)"
        "\<forall>br \<in> set ?ps. ?E br \<longrightarrow> priority (br_rule br) \<le> priority (br_rule (?ps ! i))"
        "v = verdict_of (word_of_nat i) (br_rule (?ps ! i))"
      by (auto simp: verdict_ok_def split: if_splits)
    have "\<forall>br \<in> set rs. ?E br \<longrightarrow> priority (br_rule br) \<le> priority (br_rule (?ps ! i))"
      using ex i(3) order_trans by blast
    moreover have "\<not> (\<forall>br \<in> set rs. \<not> ?E br)" using False prune_subset by blast
    ultimately show ?thesis using i unfolding verdict_ok_def by auto
  qed
qed

subsection \<open>Bounds from the text of the lists\<close>

text \<open>\<open>short n s\<close>: ASCII text of at most \<open>n\<close> bytes.\<close>

definition short :: "nat \<Rightarrow> string \<Rightarrow> bool" where
  "short n s \<longleftrightarrow> ascii s \<and> length s \<le> n"

lemma short_Nil: "short n []"
  by (simp add: short_def ascii_def)

lemma short_mono: "short n s \<Longrightarrow> set t \<subseteq> set s \<Longrightarrow> length t \<le> length s \<Longrightarrow> short n t"
  by (auto simp: short_def intro: ascii_mono)

lemma short_append: "short m a \<Longrightarrow> short n b \<Longrightarrow> short (m + n) (a @ b)"
  by (auto simp: short_def ascii_def)

lemma short_le: "short m s \<Longrightarrow> m \<le> n \<Longrightarrow> short n s"
  by (simp add: short_def)

lemma digit_char_ascii: "0 \<le> d \<Longrightarrow> d < 36 \<Longrightarrow> code (digit_char d) < 128"
  by (auto simp: digit_char_def)

lemma show_radix_short:
  "2 \<le> r \<Longrightarrow> r \<le> 36 \<Longrightarrow> 0 \<le> n \<Longrightarrow> n < r ^ Suc k \<Longrightarrow> short (Suc k) (show_radix r n)"
proof (induction k arbitrary: n)
  case 0
  then show ?case by (simp add: show_radix.simps [of r n] short_def ascii_def digit_char_ascii)
next
  case (Suc k)
  have "n div r * r \<le> n"
    using div_mult_mod_eq [of n r] pos_mod_sign [of r n] Suc.prems(1) by linarith
  also have "n < r ^ Suc k * r" using Suc.prems(4) by (simp add: mult.commute)
  finally have lt: "n div r < r ^ Suc k" using Suc.prems(1) by (simp add: mult_less_cancel_right)
  show ?case
  proof (cases "n < r")
    case True
    with Suc.prems show ?thesis by (simp add: show_radix.simps [of r n] short_def ascii_def digit_char_ascii)
  next
    case False
    have "short (Suc k) (show_radix r (n div r))" using Suc.IH [of "n div r"] Suc.prems lt
      by (simp add: pos_imp_zdiv_nonneg_iff)
    moreover have "short 1 [digit_char (n mod r)]"
      using Suc.prems by (simp add: short_def ascii_def digit_char_ascii order_less_le_trans [OF pos_mod_bound])
    ultimately have "short (Suc k + 1) (show_radix r (n div r) @ [digit_char (n mod r)])" by (rule short_append)
    with False Suc.prems show ?thesis by (simp add: show_radix.simps [of r n])
  qed
qed

lemma join_short: "(\<forall>x \<in> set xs. short n x) \<Longrightarrow> short m sep \<Longrightarrow> short (length xs * (n + m)) (join sep xs)"
proof (induction sep xs rule: join.induct)
  case (3 sep x y xs)
  have "short (n + (m + length (y # xs) * (n + m))) (x @ sep @ join sep (y # xs))"
    using 3 by (intro short_append) simp_all
  then show ?case by (simp add: algebra_simps)
qed (auto simp: short_Nil intro: short_le)


lemma show_ipv4_short: "short 16 (show_ipv4 w)"
proof -
  have "short (4 * (3 + 1)) (join ''.'' (map show_nat (octets w)))"
  proof -
    have "\<forall>x \<in> set (map show_nat (octets w)). short 3 x"
    proof
      fix x assume "x \<in> set (map show_nat (octets w))"
      then obtain o' where o': "x = show_nat o'" "0 \<le> o'" "o' < 256" using octets_bound by auto
      then show "short 3 x" using show_radix_short [of 10 o' 2] by (simp add: numeral_eq_Suc)
    qed
    moreover have "length (map show_nat (octets w)) = 4" by (simp add: octets_def)
    ultimately show ?thesis using join_short [of "map show_nat (octets w)" 3 1 "''.''"]
      by (simp add: short_def ascii_def)
  qed
  then show ?thesis by (simp add: show_ipv4_def)
qed

lemma show_groups_short: "\<forall>g \<in> set gs. 0 \<le> g \<and> g < 65536 \<Longrightarrow> short (length gs * 5) (show_groups gs)"
proof -
  assume gs: "\<forall>g \<in> set gs. 0 \<le> g \<and> g < 65536"
  have "\<forall>x \<in> set (map (show_radix 16) gs). short 4 x"
  proof
    fix x assume "x \<in> set (map (show_radix 16) gs)"
    then obtain g where g: "x = show_radix 16 g" "0 \<le> g" "g < 65536" using gs by auto
    then show "short 4 x" using show_radix_short [of 16 g 3] by (simp add: numeral_eq_Suc)
  qed
  from join_short [OF this, of 1 "'':''"] show "short (length gs * 5) (show_groups gs)"
    by (simp add: show_groups_def short_def ascii_def)
qed

lemma show_ip_short: "short 255 (show_ip ip)"
proof (cases ip)
  case (V4 w)
  then show ?thesis using show_ipv4_short [of w] by (auto intro: short_le)
next
  case (V6 w)
  let ?gs = "segments w"
  have gs: "\<forall>g \<in> set ?gs. 0 \<le> g \<and> g < 65536" and len: "length ?gs = 8" by (auto simp: segments_def)
  obtain st n where stn: "longest_zeros ?gs 0 (0, 0) (0, 0) = (st, n)" by fastforce
  have "short (length (take st ?gs) * 5 + (2 + length (drop (st + n) ?gs) * 5))
      (show_groups (take st ?gs) @ ''::'' @ show_groups (drop (st + n) ?gs))"
    using gs by (intro short_append show_groups_short) (auto simp: short_def ascii_def dest: in_set_takeD in_set_dropD)
  then have 1: "short 255 (show_groups (take st ?gs) @ ''::'' @ show_groups (drop (st + n) ?gs))"
    by (rule short_le) (use len in simp)
  have 2: "short 255 (show_groups ?gs)" using show_groups_short [OF gs] len by (auto intro: short_le)
  have "short (7 + 16) (''::ffff:'' @ show_ipv4 v)" for v
    by (intro short_append show_ipv4_short) (simp add: short_def ascii_def)
  then have 3: "short 255 (''::ffff:'' @ show_ipv4 v)" for v by (rule short_le) simp
  show ?thesis using 1 2 3 V6 by (simp add: show_ipv6_def Let_def stn)
qed

lemma norm_domain_short: "short n s \<Longrightarrow> short n (norm_domain s)"
proof -
  assume s: "short n s"
  have low: "code (lower c) < 128" if "code c < 128" for c
    using that by (auto simp: lower_def is_ascii_uppercase_def)
  have "short n (trim_end_matches CHR ''.'' (trim s))"
  proof (rule short_mono [OF s])
    show "set (trim_end_matches CHR ''.'' (trim s)) \<subseteq> set s"
      using set_trim_end_matches set_trim by blast
    show "length (trim_end_matches CHR ''.'' (trim s)) \<le> length s"
      using length_trim_end_matches length_trim by (rule order_trans)
  qed
  then show "short n (norm_domain s)"
    by (auto simp: norm_domain_def short_def ascii_def to_ascii_lowercase_def list_all_iff low)
qed

text \<open>What a line contributes to the engine, whatever the line.\<close>

definition good_rule :: "filter_ext \<Rightarrow> build_rule \<Rightarrow> bool" where
  "good_rule fx br \<longleftrightarrow>
     carries_rewrite br \<and> short 511 (raw_of br) \<and> short 255 (dom_text br)
     \<and> (\<forall>d. ascii d \<longrightarrow> tokens_sound fx (pat (br_rule br)) (index_tokens br) d)"

lemma hosts_rule_short:
  assumes "hosts_rule first ip host = Some br" "short 255 first" "short 255 host"
  shows "short 511 (raw_of br)" "short 255 (dom_text br)"
proof -
  have "short (255 + (1 + 255)) (first @ '' '' @ host)"
    using assms(2,3) by (intro short_append) (simp_all add: short_def ascii_def)
  then show "short 511 (raw_of br)" "short 255 (dom_text br)"
    using assms norm_domain_short [OF assms(3)]
    by (auto simp: hosts_rule_def Let_def raw_of_def dom_text_def split: if_splits)
qed

lemma try_parse_hosts_bound:
  assumes "try_parse_hosts line = Some rs"
  shows "length rs \<le> length line"
    and "br \<in> set rs \<Longrightarrow> short 255 line \<Longrightarrow> short 511 (raw_of br) \<and> short 255 (dom_text br)"
proof -
  from assms obtain first ip parts where ws: "split_whitespace line = first # parts"
    and rs: "rs = List.map_filter (hosts_rule first ip) (takeWhile (\<lambda>tok. \<not> starts_with tok ''#'') parts)"
    by (auto simp: try_parse_hosts_def Let_def split: if_splits list.splits option.splits)
  show "length rs \<le> length line"
    using length_split_whitespace [of line] ws rs
      length_map_filter [of "hosts_rule first ip" "takeWhile (\<lambda>tok. \<not> starts_with tok ''#'') parts"]
      length_takeWhile_le [of "\<lambda>tok. \<not> starts_with tok ''#''" parts] by simp
  assume br: "br \<in> set rs" "short 255 line"
  then obtain host where h: "host \<in> set parts" "hosts_rule first ip host = Some br"
    by (auto simp: rs map_filter_set dest: set_takeWhileD)
  have tok: "short 255 t" if "t \<in> set (split_whitespace line)" for t
    using split_whitespace_token [OF that] by (rule short_mono [OF br(2)])
  show "short 511 (raw_of br) \<and> short 255 (dom_text br)"
    using hosts_rule_short [OF h(2)] tok h(1) by (simp add: ws)
qed

lemma parse_pattern_short:
  assumes "parse_pattern fx p = Inr (pt, toks)" "short 255 p"
  shows "case pt of Exact d \<Rightarrow> short 255 d | Subdomain d \<Rightarrow> short 255 d | _ \<Rightarrow> True"
  using assms(1)
proof (cases rule: parse_pattern_cases)
  case (literal ip)
  then show ?thesis using show_ip_short by simp
next
  case (domain body)
  have "short 255 body" using assms(2) domain(1,2) by (rule short_mono)
  with domain(5) norm_domain_short show ?thesis by auto
qed simp_all

lemma parse_line_good:
  assumes laws: "regex_laws fx" and line: "short 255 line" and ok: "parse_line fx line = Inr (Rules rs)"
  shows "length rs \<le> length line + 1" and "br \<in> set rs \<Longrightarrow> good_rule fx br"
proof -
  have tl: "short 255 (trim line)" using line set_trim length_trim by (rule short_mono)
  have bounds: "length rs \<le> length line + 1
      \<and> (\<forall>br \<in> set rs. short 511 (raw_of br) \<and> short 255 (dom_text br))"
    using ok
  proof (cases rule: parse_line_Rules)
    case hosts
    from try_parse_hosts_bound [OF hosts] tl length_trim [of line] show ?thesis by auto
  next
    case adblock
    from adblock obtain br body where rs: "rs = [br]" and body: "strip_prefix (trim line) ''@@'' = Some body \<or> body = trim line"
      and p: "parse_pattern fx (trim (fst (split_modifiers body))) = Inr (pat (br_rule br), index_tokens br)"
      and raw: "raw (br_rule br) = trim line"
      by (rule parse_adblock_Rules)
    have "short 255 body" using body tl
      by (auto dest: set_strip_prefix length_strip_prefix intro: short_mono)
    moreover have "set (fst (split_modifiers body)) \<subseteq> set body" by (rule set_split_modifiers)
    moreover have "length (fst (split_modifiers body)) \<le> length body"
      by (auto simp: split_modifiers_def split: option.splits)
    ultimately have "short 255 (trim (fst (split_modifiers body)))"
      using set_trim length_trim short_mono by metis
    from parse_pattern_short [OF p this] have "short 255 (dom_text br)"
      by (auto simp: dom_text_def short_Nil split: pattern.splits)
    moreover have "short 511 (raw_of br)" using tl raw by (auto simp: raw_of_def intro: short_le)
    ultimately show ?thesis using rs by simp
  qed
  then show "length rs \<le> length line + 1" by blast
  have "ascii line" using line by (simp add: short_def)
  then show "good_rule fx br" if "br \<in> set rs"
    using bounds that parse_line_carries_rewrite [OF ok that] parse_line_tokens_sound [OF laws _ _ ok that]
    by (simp add: good_rule_def)
qed

lemma good_rule_list_id: "good_rule fx (br\<lparr>br_rule := (br_rule br)\<lparr>list_id := l\<rparr>\<rparr>) = good_rule fx br"
  by (simp add: good_rule_def carries_rewrite_def rule_rewrite_def raw_of_def dom_text_def)

text \<open>The state of the compiler after tx of a given total size.\<close>

definition compiler_ok :: "filter_ext \<Rightarrow> nat \<Rightarrow> compiler \<Rightarrow> bool" where
  "compiler_ok fx n c \<longleftrightarrow> length (c_rules c) \<le> n \<and> list_all (good_rule fx) (c_rules c)"

lemma add_rule_ok:
  "compiler_ok fx n (fst cs) \<Longrightarrow> good_rule fx br \<Longrightarrow> compiler_ok fx (Suc n) (fst (add_rule lid cs br))"
  by (auto simp: add_rule_def Let_def compiler_ok_def good_rule_list_id split: prod.split)

lemma add_rules_ok:
  "compiler_ok fx n (fst cs) \<Longrightarrow> list_all (good_rule fx) rs \<Longrightarrow>
   compiler_ok fx (n + length rs) (fst (foldl (add_rule lid) cs rs))"
proof (induction rs arbitrary: cs n)
  case (Cons br rs)
  then have "compiler_ok fx (Suc n) (fst (add_rule lid cs br))" by (intro add_rule_ok) simp_all
  from Cons.IH [OF this] Cons.prems show ?case by simp
qed simp

lemma compiler_ok_le: "compiler_ok fx m c \<Longrightarrow> m \<le> n \<Longrightarrow> compiler_ok fx n c"
  by (simp add: compiler_ok_def)

lemma add_line_ok:
  assumes "regex_laws fx" "short 255 line" "compiler_ok fx n (fst cs)"
  shows "compiler_ok fx (n + (length line + 1)) (fst (add_line fx lid cs line))"
proof (cases "\<exists>rs. parse_line fx line = Inr (Rules rs)")
  case True
  then obtain rs where rs: "parse_line fx line = Inr (Rules rs)" by blast
  note good = parse_line_good [OF assms(1,2) rs]
  then have "list_all (good_rule fx) rs" by (simp add: list_all_iff)
  with add_rules_ok [OF assms(3), of rs lid] show ?thesis
    using good(1) by (auto simp: add_line_def rs intro: compiler_ok_le)
next
  case False
  then have "fst (add_line fx lid cs line) = fst cs"
    by (auto simp: add_line_def split: sum.splits parsed.splits)
  with assms(3) show ?thesis by (auto intro: compiler_ok_le)
qed

lemma add_lines_ok:
  assumes "regex_laws fx" "\<forall>l \<in> set ls. short 255 l" "compiler_ok fx n (fst cs)"
  shows "compiler_ok fx (n + sum_list (map (\<lambda>l. length l + 1) ls)) (fst (foldl (add_line fx lid) cs ls))"
  using assms(2,3)
proof (induction ls arbitrary: cs n)
  case (Cons l ls)
  then have "compiler_ok fx (n + (length l + 1)) (fst (add_line fx lid cs l))"
    using assms(1) by (intro add_line_ok) simp_all
  from Cons.IH [OF _ this] Cons.prems show ?case by (simp add: algebra_simps)
qed simp

definition text_ok :: "string \<Rightarrow> bool" where
  "text_ok tx \<longleftrightarrow> ascii tx \<and> list_all (\<lambda>l. length l \<le> 255) (lines tx)"

lemma add_list_ok:
  assumes "regex_laws fx" "text_ok tx" "compiler_ok fx n c"
  shows "compiler_ok fx (n + (length tx + 1)) (fst (add_list fx lid name tx c))"
proof -
  have "\<forall>l \<in> set (lines tx). short 255 l"
    using assms(2) lines_set ascii_mono by (fastforce simp: text_ok_def short_def list_all_iff)
  then have "compiler_ok fx (n + sum_list (map (\<lambda>l. length l + 1) (lines tx)))
      (fst (foldl (add_line fx lid) (c, st) (lines tx)))" for st
    using assms(3) by (intro add_lines_ok assms(1)) simp_all
  moreover have "n + sum_list (map (\<lambda>l. length l + 1) (lines tx)) \<le> n + (length tx + 1)"
    using lines_size [of tx] by simp
  ultimately have "compiler_ok fx (n + (length tx + 1)) (fst (foldl (add_line fx lid) (c, st) (lines tx)))" for st
    by (rule compiler_ok_le)
  then show ?thesis by (simp add: add_list_def Let_def compiler_ok_def split_beta)
qed

definition total_size :: "(u32 \<times> string \<times> string) list \<Rightarrow> nat" where
  "total_size ls = sum_list (map (\<lambda>(lid, name, tx). length tx + 1) ls)"

lemma compile_lists_ok:
  assumes "regex_laws fx" "list_all (\<lambda>(lid, name, tx). text_ok tx) ls"
  shows "compiler_ok fx (total_size ls) (compile_lists fx ls)"
  using assms(2)
proof (induction ls rule: rev_induct)
  case Nil
  show ?case by (simp add: compile_lists_def new_compiler_def compiler_ok_def)
next
  case (snoc l ls)
  obtain lid name tx where l: "l = (lid, name, tx)" by (metis prod_cases3)
  from snoc l have "compiler_ok fx (total_size ls + (length tx + 1))
      (fst (add_list fx lid name tx (compile_lists fx ls)))"
    by (intro add_list_ok assms(1)) simp_all
  then show ?case by (simp add: compile_lists_def total_size_def l)
qed

lemma arena_size: "\<forall>x \<in> set xs. length (f x) \<le> k \<Longrightarrow> length (concat (map f xs)) \<le> k * length xs"
  by (induction xs) auto

lemma ascii_boundaries: "ascii s \<Longrightarrow> starts_char s" 
  by (cases s) (auto simp: ascii_def starts_char_def continuation_byte_def)

lemma good_rules_buildable:
  assumes "list_all (good_rule fx) rs" "length rs \<le> 2 ^ 23"
  shows "buildable rs" "list_all carries_rewrite rs"
    and "ascii d \<Longrightarrow> \<forall>br \<in> set rs. tokens_sound fx (pat (br_rule br)) (index_tokens br) d"
proof -
  have g: "good_rule fx br" if "br \<in> set rs" for br using assms(1) that by (simp add: list_all_iff)
  have "length (raws rs) \<le> 511 * length rs" "length (doms rs) \<le> 255 * length rs"
    unfolding raws_def doms_def using g by (auto intro!: arena_size simp: good_rule_def short_def)
  moreover have "rule_fits br" if "br \<in> set rs" for br
  proof -
    have "ascii (raw_of br)" "length (raw_of br) \<le> 511" "ascii (dom_text br)" "length (dom_text br) \<le> 255"
      using g [OF that] by (auto simp: good_rule_def short_def)
    then show ?thesis by (simp add: rule_fits_def ascii_boundaries char_boundary_def)
  qed
  ultimately show "buildable rs" using assms(2) by (simp add: buildable_def list_all_iff)
  show "list_all carries_rewrite rs" using g by (auto simp: list_all_iff good_rule_def)
  show "\<forall>br \<in> set rs. tokens_sound fx (pat (br_rule br)) (index_tokens br) d" if "ascii d"
    using g that by (auto simp: good_rule_def)
qed

lemma length_dedup_sigs: "length (dedup_sigs seen rs) \<le> length rs"
  by (induction seen rs rule: dedup_sigs.induct) auto

lemma length_active: "length (prune_redundant (deduped c)) \<le> length (c_rules c)"
proof -
  have "length (prune_redundant rs) \<le> length rs" for rs by (simp add: prune_redundant_def Let_def)
  also have "length (deduped c) \<le> length (c_rules c)"
    unfolding deduped_def using length_dedup_sigs length_filter_le by (rule order_trans)
  finally show ?thesis .
qed

lemma set_active: "set (prune_redundant (deduped c)) \<subseteq> set (c_rules c)"
  using prune_subset [of "deduped c"] dedup_sigs_set by (fastforce simp: deduped_def)

lemma ascii_query_name: "ascii d \<Longrightarrow> ascii (query_name d)"
proof -
  assume d: "ascii d"
  have "ascii (to_ascii_lowercase s)" if "ascii s" for s
    using that by (auto simp: ascii_def list_all_iff to_ascii_lowercase_def lower_def is_ascii_uppercase_def)
  then show "ascii (query_name d)"
    using d ascii_mono [OF d set_trim_end_matches] by (simp add: query_name_def)
qed

lemma compiled_verdict:
  assumes "regex_laws fx" "sort_laws fx"
    and "list_all (\<lambda>(lid, name, tx). text_ok tx) ls" "total_size ls \<le> 2 ^ 23" "ascii domain"
  defines "c \<equiv> compile_lists fx ls"
  shows "\<exists>e v. build fx c = Some (e, c_stats c) \<and> check fx e domain rtype ci = Some v
           \<and> verdict_ok fx (deduped c) (prune_redundant (deduped c)) (query_name domain) rtype ci v"
proof -
  have ok: "compiler_ok fx (total_size ls) c" unfolding c_def using assms(1,3) by (rule compile_lists_ok)
  let ?rs = "prune_redundant (deduped c)"
  have "list_all (good_rule fx) ?rs" "length ?rs \<le> 2 ^ 23"
    using ok set_active [of c] length_active [of c] assms(4) by (auto simp: compiler_ok_def list_all_iff)
  note b = good_rules_buildable [OF this]
  from check_verdict [OF assms(1,2) b(1,2) b(3) [OF ascii_query_name [OF assms(5)]], of rtype ci]
  show ?thesis using prune_verdict_ok by (fastforce simp: build_def)
qed

subsection \<open>The laws of the third-party operations can hold\<close>

text \<open>An instance of the third-party operations that has the laws.\<close>

definition ref_match :: "regex \<Rightarrow> string \<Rightarrow> bool" where
  "ref_match re s = re_search (parse_atoms (drop 4 re)) s"

definition ref_ext :: filter_ext where
  "ref_ext =
     \<lparr>regex_error = (\<lambda>_. None), regex_is_match = ref_match, set_error = (\<lambda>_. None),
      set_matches = (\<lambda>pats s. filter (\<lambda>i. ref_match (pats ! i) s) [0..<length pats]),
      net_parse = (\<lambda>_. None), net_contains = (\<lambda>_ _. False),
      domain_hash = (\<lambda>d. word_of_int (int (length d))), sort_pairs = sort_key fst,
      hash_contents = (\<lambda>_. 0)\<rparr>"

lemma ref_regex_laws: "regex_laws ref_ext"
  by (simp add: regex_laws_def ref_ext_def ref_match_def parse_atoms_source)

lemma ref_sort_laws: "sort_laws ref_ext"
  by (simp add: sort_laws_def ref_ext_def)

end
