(* ===== verification/Config.thy ===== *)
theory Config
  imports Net_Addr
begin

text \<open>
  Configuration, \<open>crates/bulwark-config/src/lib.rs\<close> and \<open>defaults.rs\<close>: the schema with its
  defaults, the upstream list as text, validation, allocation of list ids, loading and the
  atomic save. The YAML codec (\<open>serde_yaml\<close>) is a parameter of loading and saving. A save is
  the list of its file-system steps, so that a crash after any of them can be stated.
\<close>

subsection \<open>Schema\<close>

record socket_addr =
  sa_ip :: ip_addr
  sa_port :: u16

record server_config =
  dns_bind :: "socket_addr list"
  http_bind :: socket_addr
  ratelimit :: u32

record upstreams_config =
  servers :: string
  bootstrap :: "socket_addr list"
  timeout_secs :: u64

record cache_config =
  cfg_cache_enabled :: bool
  cfg_size :: nat
  min_ttl_secs :: u32
  max_ttl_secs :: u32
  optimistic_max_age_secs :: u32

datatype blocking_mode = NxDomainMode | NullIp | CustomIp | RefusedMode | NoData

record filter_list_config =
  fl_id :: u32
  fl_name :: string
  fl_url :: "string option"
  fl_enabled :: bool
  fl_rule_count :: nat
  fl_last_updated :: "int option"

record filtering_config =
  f_enabled :: bool
  blocking_mode :: blocking_mode
  custom_block_ipv4 :: u32
  custom_block_ipv6 :: "128 word"
  blocked_ttl_secs :: u32
  filter_lists :: "filter_list_config list"
  custom_rules :: string

record client_config =
  cl_id :: string
  cl_name :: string
  cl_ids :: "string list"
  cl_tags :: "string list"
  cl_filtering_enabled :: bool

record query_log_config =
  ql_enabled :: bool
  ql_persist :: bool
  ql_retention_days :: u32

record upstream_log_config =
  ul_enabled :: bool
  ul_persist :: bool
  ul_retention_days :: u32

record stats_config =
  sc_enabled :: bool
  sc_persist :: bool
  sc_retention_days :: u32

record auth_config =
  username :: string
  password_hash :: "string option"
  session_secret :: "string option"

record config =
  cfg_version :: u32
  cfg_server :: server_config
  cfg_upstreams :: upstreams_config
  cfg_cache :: cache_config
  cfg_filtering :: filtering_config
  cfg_clients :: "client_config list"
  cfg_query_log :: query_log_config
  cfg_upstream_log :: upstream_log_config
  cfg_stats :: stats_config
  cfg_anonymize_client_ips :: bool
  cfg_auth :: auth_config

subsection \<open>Defaults\<close>

definition SCHEMA_VERSION :: u32 where
  "SCHEMA_VERSION = 1"

definition default_dns_bind :: "socket_addr list" where
  "default_dns_bind = [\<lparr>sa_ip = V4 0, sa_port = 53\<rparr>]"

definition default_http_bind :: socket_addr where
  "default_http_bind = \<lparr>sa_ip = V4 0, sa_port = 3000\<rparr>"

definition default_upstreams :: string where
  "default_upstreams =
     ''# Quad9 (DoH)'' @ [CHR 0x0A] @ ''https://dns.quad9.net/dns-query'' @ [CHR 0x0A]
     @ ''# Cloudflare (DoH)'' @ [CHR 0x0A] @ ''https://cloudflare-dns.com/dns-query'' @ [CHR 0x0A]"

definition default_bootstrap :: "socket_addr list" where
  "default_bootstrap =
     [\<lparr>sa_ip = V4 0x01010101, sa_port = 53\<rparr>, \<lparr>sa_ip = V4 0x09090909, sa_port = 53\<rparr>]"

definition default_server :: server_config where
  "default_server = \<lparr>dns_bind = default_dns_bind, http_bind = default_http_bind, ratelimit = 0\<rparr>"

definition default_upstreams_config :: upstreams_config where
  "default_upstreams_config =
     \<lparr>servers = default_upstreams, bootstrap = default_bootstrap, timeout_secs = 5\<rparr>"

definition default_cache :: cache_config where
  "default_cache =
     \<lparr>cfg_cache_enabled = True, cfg_size = 10000, min_ttl_secs = 0, max_ttl_secs = 86400,
      optimistic_max_age_secs = 0\<rparr>"

definition default_filtering :: filtering_config where
  "default_filtering =
     \<lparr>f_enabled = True, blocking_mode = NxDomainMode, custom_block_ipv4 = 0, custom_block_ipv6 = 0,
      blocked_ttl_secs = 10, filter_lists = [], custom_rules = []\<rparr>"

definition default_query_log :: query_log_config where
  "default_query_log = \<lparr>ql_enabled = True, ql_persist = True, ql_retention_days = 7\<rparr>"

definition default_upstream_log :: upstream_log_config where
  "default_upstream_log = \<lparr>ul_enabled = False, ul_persist = True, ul_retention_days = 30\<rparr>"

definition default_stats :: stats_config where
  "default_stats = \<lparr>sc_enabled = True, sc_persist = True, sc_retention_days = 30\<rparr>"

definition default_auth :: auth_config where
  "default_auth = \<lparr>username = [], password_hash = None, session_secret = None\<rparr>"

definition default_config :: config where
  "default_config =
     \<lparr>cfg_version = SCHEMA_VERSION, cfg_server = default_server,
      cfg_upstreams = default_upstreams_config, cfg_cache = default_cache,
      cfg_filtering = default_filtering, cfg_clients = [], cfg_query_log = default_query_log,
      cfg_upstream_log = default_upstream_log, cfg_stats = default_stats,
      cfg_anonymize_client_ips = False, cfg_auth = default_auth\<rparr>"

subsection \<open>Upstream text\<close>

definition active_specs :: "upstreams_config \<Rightarrow> string list" where
  "active_specs u = filter (\<lambda>l. l \<noteq> [] \<and> \<not> starts_with l ''#'') (map trim (lines (servers u)))"

fun normalize_loop :: "nat \<Rightarrow> string list \<Rightarrow> string" where
  "normalize_loop blanks [] = []"
| "normalize_loop blanks (line # ls) =
     (let line = trim line in
      if line = [] then
        if 1 < blanks + 1 then normalize_loop (blanks + 1) ls
        else line @ [CHR 0x0A] @ normalize_loop (blanks + 1) ls
      else line @ [CHR 0x0A] @ normalize_loop 0 ls)"

definition normalize :: "upstreams_config \<Rightarrow> upstreams_config" where
  "normalize u =
     (let trimmed = trim_matches (CHR 0x0A) (normalize_loop 0 (lines (servers u)))
      in u\<lparr>servers := (if trimmed = [] then [] else trimmed @ [CHR 0x0A])\<rparr>)"

definition de_upstreams :: "string option \<Rightarrow> string" where
  "de_upstreams v = (case v of Some s \<Rightarrow> s | None \<Rightarrow> default_upstreams)"

definition needs_setup :: "auth_config \<Rightarrow> bool" where
  "needs_setup a = (username a = [] \<or> password_hash a = None)"

subsection \<open>Validation, loading and saving\<close>

datatype config_error = CIo string | CYaml string | CInvalid string

definition show_u32 :: "u32 \<Rightarrow> string" where
  "show_u32 w = show_nat (uint w)"

definition validate :: "config \<Rightarrow> config_error + unit" where
  "validate cfg =
     (if dns_bind (cfg_server cfg) = [] then Inl (CInvalid ''server.dns_bind must not be empty'')
      else if max_ttl_secs (cfg_cache cfg) \<noteq> 0
              \<and> max_ttl_secs (cfg_cache cfg) < min_ttl_secs (cfg_cache cfg) then
        Inl (CInvalid (''cache.min_ttl_secs ('' @ show_u32 (min_ttl_secs (cfg_cache cfg))
          @ '') exceeds max_ttl_secs ('' @ show_u32 (max_ttl_secs (cfg_cache cfg)) @ '')''))
      else if active_specs (cfg_upstreams cfg) = [] then
        Inl (CInvalid ''at least one upstream must be configured'')
      else Inr ())"

definition next_list_id :: "config \<Rightarrow> u32" where
  "next_list_id cfg =
     (case map fl_id (filter_lists (cfg_filtering cfg)) of
        [] \<Rightarrow> 1 | i # is \<Rightarrow> foldl max i is + 1)"

text \<open>
  \<open>load_or_default\<close>: the file is absent, unreadable, or holds text; \<open>yaml\<close> is the YAML parser.
\<close>

datatype file_read = Absent | Unreadable string | Content string

definition load_or_default ::
  "(string \<Rightarrow> string + config) \<Rightarrow> file_read \<Rightarrow> config_error + config" where
  "load_or_default yaml f =
     (case f of
        Absent \<Rightarrow> Inr default_config
      | Unreadable e \<Rightarrow> Inl (CIo e)
      | Content txt \<Rightarrow>
          (case yaml txt of
             Inl e \<Rightarrow> Inl (CYaml e)
           | Inr cfg \<Rightarrow>
               (case validate cfg of
                  Inl e \<Rightarrow> Inl e
                | Inr _ \<Rightarrow> Inr (cfg\<lparr>cfg_clients := filter (\<lambda>c. cl_id c \<noteq> []) (cfg_clients cfg)\<rparr>))))"

text \<open>A path is its directory and its file name.\<close>

type_synonym path = "string \<times> string"

definition with_extension :: "path \<Rightarrow> string \<Rightarrow> path" where
  "with_extension p ext =
     (let stem = (case rsplit_once (snd p) CHR ''.'' of
                    Some (a, b) \<Rightarrow> if a = [] then snd p else a | None \<Rightarrow> snd p)
      in (fst p, stem @ ''.'' @ ext))"

datatype fs_step =
    CreateDirAll string
  | WriteFile path string
  | SetMode path nat
  | Rename path path

text \<open>The steps of a save, in order, and the error of the YAML printer if it fails.\<close>

definition save_steps ::
  "(config \<Rightarrow> string + string) \<Rightarrow> path \<Rightarrow> config \<Rightarrow> fs_step list \<times> config_error option" where
  "save_steps yaml p cfg =
     (let mkdir = (if fst p \<noteq> [] then [CreateDirAll (fst p)] else []) in
      case yaml cfg of
        Inl e \<Rightarrow> (mkdir, Some (CYaml e))
      | Inr txt \<Rightarrow>
          let tmp = with_extension p ''yaml.tmp'' in
          (mkdir @ [WriteFile tmp txt, SetMode tmp 384, Rename tmp p], None))"

text \<open>The file system: contents and mode of each file.\<close>

type_synonym fs = "path \<rightharpoonup> string \<times> nat"

fun fs_run :: "fs_step list \<Rightarrow> fs \<Rightarrow> fs" where
  "fs_run [] fs = fs"
| "fs_run (CreateDirAll d # ss) fs = fs_run ss fs"
| "fs_run (WriteFile p t # ss) fs =
     fs_run ss (fs(p \<mapsto> (t, case fs p of Some (_, m) \<Rightarrow> m | None \<Rightarrow> 420)))"
| "fs_run (SetMode p m # ss) fs =
     fs_run ss (case fs p of Some (t, _) \<Rightarrow> fs(p \<mapsto> (t, m)) | None \<Rightarrow> fs)"
| "fs_run (Rename a b # ss) fs = fs_run ss (case fs a of Some f \<Rightarrow> fs(b \<mapsto> f, a := None) | None \<Rightarrow> fs)"

subsection \<open>Saving is atomic\<close>

lemma rsplit_once_split: "rsplit_once s c = Some (a, b) \<Longrightarrow> s = a @ c # b \<and> c \<notin> set b"
proof -
  assume "rsplit_once s c = Some (a, b)"
  then obtain i where i: "find_char (rev s) c = Some i"
    and ab: "a = take (length s - Suc i) s" "b = drop (length s - i) s"
    by (auto simp: rsplit_once_def)
  have r: "rev s = take i (rev s) @ c # drop (Suc i) (rev s)" "c \<notin> set (take i (rev s))"
    using find_char_split [OF i] by blast+
  have "s = rev (drop (Suc i) (rev s)) @ c # rev (take i (rev s))"
    using arg_cong [OF r(1), of rev] by simp
  then have "s = a @ c # b" by (simp add: ab rev_drop rev_take)
  moreover have "c \<notin> set b" using r(2) by (simp add: ab take_rev)
  ultimately show ?thesis by blast
qed

lemma ext_differs:
  assumes "CHR ''.'' \<in> set ext"
  shows "with_extension p ext \<noteq> p"
proof
  assume eq: "with_extension p ext = p"
  obtain d s where p: "p = (d, s)" by fastforce
  have loop: "s @ ''.'' @ ext \<noteq> s" by simp
  show False
  proof (cases "rsplit_once s CHR ''.''")
    case None
    with eq p loop show False by (simp add: with_extension_def)
  next
    case (Some ab)
    obtain a b where ab: "ab = (a, b)" by fastforce
    with Some have s: "s = a @ CHR ''.'' # b" "CHR ''.'' \<notin> set b" using rsplit_once_split by blast+
    show False
    proof (cases "a = []")
      case True
      with eq p loop Some ab show False by (simp add: with_extension_def)
    next
      case False
      with eq p Some ab have "a @ CHR ''.'' # ext = s" by (simp add: with_extension_def)
      with s assms show False by auto
    qed
  qed
qed

lemma tmp_differs: "with_extension p ''yaml.tmp'' \<noteq> p"
  by (rule ext_differs) simp

lemma save_atomic:
  assumes "yaml cfg = Inr txt"
  shows "fs_run (take n (fst (save_steps yaml p cfg))) fs p \<in> {fs p, Some (txt, 384)}"
    and "fs_run (fst (save_steps yaml p cfg)) fs p = Some (txt, 384)"
proof -
  let ?tmp = "with_extension p ''yaml.tmp''"
  have neq: "?tmp \<noteq> p" "p \<noteq> ?tmp" using tmp_differs by metis+
  have core: "fs_run (take k [WriteFile ?tmp txt, SetMode ?tmp 384, Rename ?tmp p]) fs p \<in> {fs p, Some (txt, 384)}"
    "fs_run [WriteFile ?tmp txt, SetMode ?tmp 384, Rename ?tmp p] fs p = Some (txt, 384)" for k fs
    using neq by (cases k rule: nat.exhaust; cases "k - 1" rule: nat.exhaust; cases "k - 2"; auto split: option.split)+
  show "fs_run (take n (fst (save_steps yaml p cfg))) fs p \<in> {fs p, Some (txt, 384)}"
    "fs_run (fst (save_steps yaml p cfg)) fs p = Some (txt, 384)"
    using core assms by (auto simp: save_steps_def Let_def take_Cons split: nat.split)
qed

lemma save_failed_keeps:
  assumes "yaml cfg = Inl e"
  shows "fs_run (fst (save_steps yaml p cfg)) fs = fs"
  using assms by (simp add: save_steps_def Let_def)

subsection \<open>Validated configurations\<close>

lemma validate_ok_iff:
  "validate cfg = Inr () \<longleftrightarrow>
     dns_bind (cfg_server cfg) \<noteq> []
     \<and> (max_ttl_secs (cfg_cache cfg) = 0 \<or> min_ttl_secs (cfg_cache cfg) \<le> max_ttl_secs (cfg_cache cfg))
     \<and> active_specs (cfg_upstreams cfg) \<noteq> []"
  by (auto simp: validate_def not_less)

lemma default_config_valid: "validate default_config = Inr ()"
  by code_simp

lemma load_or_default_valid:
  assumes "load_or_default yaml f = Inr cfg"
  shows "validate cfg = Inr ()" and "\<forall>c \<in> set (cfg_clients cfg). cl_id c \<noteq> []"
  using assms default_config_valid
  by (auto simp: load_or_default_def validate_def default_config_def split: file_read.splits sum.splits if_splits)

lemma foldl_max:
  fixes i :: u32
  shows "foldl max i is \<in> set (i # is)" and "j \<in> set (i # is) \<Longrightarrow> j \<le> foldl max i is"
proof -
  have "foldl max i is \<in> set (i # is) \<and> (\<forall>j \<in> set (i # is). j \<le> foldl max i is)" for "is"
  proof (induction "is" rule: rev_induct)
    case (snoc a "is")
    then show ?case by (auto simp: max_def intro: order_trans)
  qed simp
  then show "foldl max i is \<in> set (i # is)" and "j \<in> set (i # is) \<Longrightarrow> j \<le> foldl max i is" by blast+
qed

lemma word_less_succ: "m \<noteq> - 1 \<Longrightarrow> m < m + (1 :: u32)"
proof -
  assume "m \<noteq> - 1"
  then have "m + 1 \<noteq> 0" by (metis add_eq_0_iff2)
  then have "unat (m + 1) = Suc (unat m)" by (metis add.commute unatSuc)
  then show ?thesis by (simp add: word_less_nat_alt)
qed

text \<open>The allocated id is above every id in use, unless the highest is the largest 32-bit value.\<close>

lemma next_list_id_above:
  assumes "l \<in> set (filter_lists (cfg_filtering cfg))"
    and "\<forall>l \<in> set (filter_lists (cfg_filtering cfg)). fl_id l \<noteq> - 1"
  shows "fl_id l < next_list_id cfg"
proof (cases "map fl_id (filter_lists (cfg_filtering cfg))")
  case Nil
  with assms(1) show ?thesis by simp
next
  case (Cons i "is")
  let ?m = "foldl max i is"
  have ids: "set (i # is) = fl_id ` set (filter_lists (cfg_filtering cfg))" using Cons by (metis set_map)
  have "fl_id l \<le> ?m" using foldl_max(2) [of "fl_id l" i "is"] ids assms(1) by blast
  moreover have "?m \<in> fl_id ` set (filter_lists (cfg_filtering cfg))"
    using foldl_max(1) [of i "is"] unfolding ids .
  then have "?m \<noteq> - 1" using assms(2) by fastforce
  ultimately show ?thesis using word_less_succ [of ?m] Cons by (simp add: next_list_id_def)
qed

lemma next_list_id_wraps:
  assumes "filter_lists (cfg_filtering cfg) = [l]" "fl_id l = - 1"
  shows "next_list_id cfg = 0"
  using assms by (simp add: next_list_id_def)


subsection \<open>Normalizing the upstream text\<close>

abbreviation NL :: char where "NL \<equiv> CHR 0x0A"

text \<open>Text made of complete lines reads back as those lines.\<close>

definition unlines :: "string list \<Rightarrow> string" where
  "unlines ls = concat (map (\<lambda>l. l @ [NL]) ls)"

lemma split_char_append:
  "c \<notin> set l \<Longrightarrow> split_char c (l @ c # s) = l # split_char c s"
  by (induction l) (auto simp: split_char_Cons)

lemma split_unlines: "\<forall>l \<in> set ls. NL \<notin> set l \<Longrightarrow> split_char NL (unlines ls) = ls @ [[]]"
  by (induction ls) (simp_all add: unlines_def split_char_Nil split_char_append)

definition clean_line :: "string \<Rightarrow> bool" where
  "clean_line l \<longleftrightarrow> NL \<notin> set l \<and> trim l = l"

lemma trim_end_fixed: "ws_end_len (trim_end s) = 0"
proof (induction s rule: trim_end.induct)
  case (1 s)
  have "trim_end s = (if ws_end_len s = 0 then s else trim_end (take (length s - ws_end_len s) s))"
    by (rule trim_end.simps)
  with 1 show ?case by (cases "ws_end_len s = 0") simp_all
qed

lemma ws_end_len_trim: "trim l = l \<Longrightarrow> ws_end_len l = 0"
  using trim_end_fixed [of "trim_start l"] by (simp add: trim_def)

lemma strip_cr_clean: "trim l = l \<Longrightarrow> strip_cr l = l"
proof -
  assume "trim l = l"
  then have ws: "ws_end_len l = 0" by (rule ws_end_len_trim)
  have "\<not> ends_with l [CHR 0x0D]"
  proof
    assume "ends_with l [CHR 0x0D]"
    then have "1 \<le> length l" "drop (length l - 1) l = [CHR 0x0D]" by (auto simp: ends_with_def)
    then have "ws_end_len l = 1" by (simp add: ws_end_len_def ws_len_def Let_def)
    with ws show False by simp
  qed
  then show ?thesis by (simp add: strip_cr_def strip_suffix_def)
qed

lemma lines_unlines: "\<forall>l \<in> set ls. clean_line l \<Longrightarrow> lines (unlines ls) = ls"
  by (simp add: lines_def Let_def split_unlines clean_line_def strip_cr_clean map_idI)

lemma lines_no_NL: "l \<in> set (lines s) \<Longrightarrow> NL \<notin> set l"
proof -
  have split: "NL \<notin> set p" if "p \<in> set (split_char NL s)" for p s
    using that
  proof (induction s arbitrary: p)
    case (Cons x xs)
    then show ?case using split_char_nonempty [of NL xs]
      by (cases "split_char NL xs") (auto simp: split_char_Cons split: if_splits)
  qed (simp add: split_char_Nil)
  assume "l \<in> set (lines s)"
  then obtain p where "p \<in> set (split_char NL s)" "l = strip_cr p \<or> l = p"
    using split_char_nonempty [of NL s]
    by (auto simp: lines_def Let_def split: if_splits dest: in_set_butlastD intro: last_in_set)
  then show "NL \<notin> set l" using split strip_cr_le(2) by blast
qed

lemma ws_len_take: "ws_len s = 0 \<Longrightarrow> ws_len (take n s) = 0"
  by (cases s; cases n; cases "tl s"; cases "n - 1"; cases "tl (tl s)"; cases "n - 2")
    (auto simp: ws_len_def split: if_splits list.splits)

lemma trim_end_prefix: "\<exists>n. trim_end s = take n s"
proof (induction s rule: trim_end.induct)
  case (1 s)
  show ?case
  proof (cases "ws_end_len s = 0")
    case True
    then show ?thesis by (subst trim_end.simps) (auto intro: exI [of _ "length s"])
  next
    case False
    with 1 obtain n where "trim_end (take (length s - ws_end_len s) s) = take n (take (length s - ws_end_len s) s)" by blast
    with False show ?thesis by (subst trim_end.simps) (auto intro: exI [of _ "min n (length s - ws_end_len s)"])
  qed
qed

lemma trim_start_fixed: "ws_len (trim_start s) = 0"
proof (induction s rule: trim_start.induct)
  case (1 s)
  have "trim_start s = (if ws_len s = 0 then s else trim_start (drop (ws_len s) s))"
    by (rule trim_start.simps)
  with 1 show ?case by (cases "ws_len s = 0") simp_all
qed

lemma trim_idem: "trim (trim s) = trim s"
proof -
  let ?t = "trim_end (trim_start s)"
  have "ws_len ?t = 0" using trim_end_prefix [of "trim_start s"] ws_len_take [OF trim_start_fixed] by metis
  then have "trim_start ?t = ?t" by (subst trim_start.simps) simp
  moreover have "trim_end ?t = ?t" using trim_end_fixed by (subst trim_end.simps) simp
  ultimately show ?thesis by (simp add: trim_def)
qed


text \<open>The lines \<open>normalize\<close> keeps: runs of blank lines collapse to one.\<close>

fun kept :: "nat \<Rightarrow> string list \<Rightarrow> string list" where
  "kept b [] = []"
| "kept b (l # ls) =
     (if l = [] then (if 0 < b then kept (Suc b) ls else [] # kept (Suc b) ls) else l # kept 0 ls)"

fun collapsed :: "nat \<Rightarrow> string list \<Rightarrow> bool" where
  "collapsed b [] = True"
| "collapsed b (l # ls) = (if l = [] then b = 0 \<and> collapsed 1 ls else collapsed 0 ls)"

definition strip_blank :: "string list \<Rightarrow> string list" where
  "strip_blank ls = rev (dropWhile (\<lambda>l. l = []) (rev (dropWhile (\<lambda>l. l = []) ls)))"

lemma normalize_loop_kept: "normalize_loop b ls = unlines (kept b (map trim ls))"
  by (induction b ls rule: normalize_loop.induct) (simp_all add: unlines_def Let_def)

lemma kept_subset: "set (kept b ls) \<subseteq> set ls"
  by (induction b ls rule: kept.induct) auto

lemma kept_filter: "\<not> P [] \<Longrightarrow> filter P (kept b ls) = filter P ls"
  by (induction b ls rule: kept.induct) auto

lemma collapsed_mono: "collapsed b ls \<Longrightarrow> collapsed 0 ls"
  by (cases ls) auto

lemma collapsed_kept: "collapsed (min b 1) (kept b ls)"
proof (induction b ls rule: kept.induct)
  case (2 b l ls)
  then show ?case by (cases b; cases "l = []") (auto intro: collapsed_mono)
qed simp

lemma kept_collapsed: "collapsed b ls \<Longrightarrow> kept b ls = ls"
  by (induction b ls rule: collapsed.induct) auto

lemma collapsed_dropWhile: "collapsed b ls \<Longrightarrow> collapsed 0 (dropWhile P ls)"
  by (induction b ls rule: collapsed.induct) (auto split: if_splits intro: collapsed_mono)

lemma collapsed_append: "collapsed b (xs @ ys) \<Longrightarrow> collapsed b xs"
  by (induction b xs rule: collapsed.induct) auto

lemma rev_dropWhile_rev_prefix: "\<exists>zs. xs = rev (dropWhile P (rev xs)) @ zs \<and> (\<forall>z \<in> set zs. P z)"
proof -
  have "xs = rev (dropWhile P (rev xs)) @ rev (takeWhile P (rev xs))"
    by (metis rev_append rev_rev_ident takeWhile_dropWhile_id)
  moreover have "\<forall>z \<in> set (rev (takeWhile P (rev xs))). P z" by (auto dest: set_takeWhileD)
  ultimately show ?thesis by blast
qed

lemma collapsed_strip: "collapsed b ls \<Longrightarrow> collapsed 0 (strip_blank ls)"
  unfolding strip_blank_def
  using collapsed_dropWhile rev_dropWhile_rev_prefix collapsed_append by metis

lemma strip_blank_subset: "set (strip_blank ls) \<subseteq> set ls"
  by (auto simp: strip_blank_def dest!: set_dropWhileD)

lemma filter_dropWhile_blank: "\<not> P [] \<Longrightarrow> filter P (dropWhile (\<lambda>l. l = []) ls) = filter P ls"
  by (induction ls) auto

lemma strip_blank_filter: "\<not> P [] \<Longrightarrow> filter P (strip_blank ls) = filter P ls"
  by (simp add: strip_blank_def rev_filter [symmetric] filter_dropWhile_blank)

lemma strip_blank_idem: "strip_blank (strip_blank ls) = strip_blank ls"
proof (cases "strip_blank ls = []")
  case True
  have "strip_blank [] = []" by (simp add: strip_blank_def)
  with True show ?thesis by simp
next
  case False
  let ?m = "dropWhile (\<lambda>l. l = []) ls"
  obtain zs where m: "?m = strip_blank ls @ zs"
    using rev_dropWhile_rev_prefix [of ?m "\<lambda>l. l = []"] by (auto simp: strip_blank_def)
  from False m have "hd (strip_blank ls) = hd ?m" "?m \<noteq> []" by auto
  then have "hd (strip_blank ls) \<noteq> []" using hd_dropWhile [of "\<lambda>l. l = []" ls] by auto
  with False have "dropWhile (\<lambda>l. l = []) (strip_blank ls) = strip_blank ls"
    by (cases "strip_blank ls") auto
  then show ?thesis unfolding strip_blank_def [of "strip_blank ls"]
    by (simp add: strip_blank_def)
qed

lemma dropWhile_unlines:
  assumes "\<forall>l \<in> set ls. NL \<notin> set l"
  shows "dropWhile (\<lambda>x. x = NL) (unlines ls) = unlines (dropWhile (\<lambda>l. l = []) ls)"
  using assms
proof (induction ls)
  case (Cons l ls)
  then show ?case by (cases l) (auto simp: unlines_def)
qed (simp add: unlines_def)

lemma trim_end_unlines:
  assumes "\<forall>l \<in> set ls. NL \<notin> set l" "r = rev (dropWhile (\<lambda>l. l = []) (rev ls))"
  shows "(let t = trim_end_matches NL (unlines ls) in if t = [] then [] else t @ [NL]) = unlines r"
  using assms
proof (induction ls arbitrary: r rule: rev_induct)
  case (snoc l ls)
  show ?case
  proof (cases "l = []")
    case True
    with snoc show ?thesis by (simp add: unlines_def trim_end_matches_def)
  next
    case False
    then obtain x y where l: "l = y @ [x]" by (metis rev_exhaust)
    with snoc.prems(1) have "x \<noteq> NL" by auto
    with l have "trim_end_matches NL (s @ l @ [NL]) = s @ l" for s
      by (simp add: trim_end_matches_def)
    with False snoc.prems show ?thesis by (simp add: unlines_def Let_def)
  qed
qed (simp add: unlines_def trim_end_matches_def)

lemma servers_normalize:
  "servers (normalize u) = unlines (strip_blank (kept 0 (map trim (lines (servers u)))))"
proof -
  let ?K = "kept 0 (map trim (lines (servers u)))"
  have nl: "\<forall>l \<in> set ?K. NL \<notin> set l"
    using kept_subset [of 0 "map trim (lines (servers u))"] lines_no_NL set_trim by fastforce
  then have nl': "\<forall>l \<in> set (dropWhile (\<lambda>l. l = []) ?K). NL \<notin> set l" by (auto dest: set_dropWhileD)
  show ?thesis
    using trim_end_unlines [OF nl' refl] dropWhile_unlines [OF nl]
    by (simp add: normalize_def normalize_loop_kept trim_matches_def strip_blank_def Let_def)
qed

lemma lines_normalize:
  "lines (servers (normalize u)) = strip_blank (kept 0 (map trim (lines (servers u))))"
  "map trim (strip_blank (kept 0 (map trim (lines (servers u))))) =
     strip_blank (kept 0 (map trim (lines (servers u))))"
proof -
  let ?S = "strip_blank (kept 0 (map trim (lines (servers u))))"
  have "\<forall>l \<in> set ?S. clean_line l"
  proof
    fix l assume "l \<in> set ?S"
    then have "l \<in> set (map trim (lines (servers u)))" using strip_blank_subset kept_subset by blast
    then obtain k where "k \<in> set (lines (servers u))" "l = trim k" by auto
    then show "clean_line l" using lines_no_NL [of k] set_trim [of k] trim_idem by (auto simp: clean_line_def)
  qed
  then show "lines (servers (normalize u)) = ?S" "map trim ?S = ?S"
    by (simp_all add: servers_normalize lines_unlines clean_line_def map_idI)
qed

lemma active_specs_normalize: "active_specs (normalize u) = active_specs u"
  by (simp add: active_specs_def lines_normalize strip_blank_filter kept_filter)

lemma normalize_idem: "normalize (normalize u) = normalize u"
proof -
  let ?S = "strip_blank (kept 0 (map trim (lines (servers u))))"
  have "collapsed 0 (kept 0 ls)" for ls using collapsed_kept [of 0] by simp
  then have "kept 0 ?S = ?S" by (intro kept_collapsed collapsed_strip)
  then have "servers (normalize (normalize u)) = servers (normalize u)"
    using lines_normalize [of u] by (simp add: servers_normalize strip_blank_idem)
  moreover have "normalize v = v\<lparr>servers := servers (normalize v)\<rparr>" for v
    by (simp add: normalize_def Let_def)
  ultimately show ?thesis by (metis upstreams_config.surjective upstreams_config.update_convs(1))
qed

text \<open>Normalizing keeps a configuration valid or invalid.\<close>

lemma validate_normalize:
  "validate (cfg\<lparr>cfg_upstreams := normalize (cfg_upstreams cfg)\<rparr>) = validate cfg"
  by (simp add: validate_def active_specs_normalize)

end
