(* ===== verification/Dns_Wire.thy ===== *)
theory Dns_Wire
  imports Bulwark_Prelude
begin

unbundle bit_operations_syntax

text \<open>
  DNS wire scanning and patching, \<open>crates/bulwark-engine/src/wire.rs\<close>: the walk over names
  and resource records, the TTL offsets of a response, the patch of a cached response and
  the allocation-free parser of queries. A buffer is a list of bytes; an out-of-bounds
  \<open>get\<close> is \<open>None\<close>, as in the source; positions are \<open>usize\<close> with checked addition.
\<close>

definition TYPE_OPT :: u16 where
  "TYPE_OPT = 41"

definition checked_add :: "nat \<Rightarrow> nat \<Rightarrow> nat option" where
  "checked_add a b = (if int a + int b < 18446744073709551616 then Some (a + b) else None)"

definition be16 :: "u8 \<Rightarrow> u8 \<Rightarrow> u16" where
  "be16 a b = word_of_int (uint a * 256 + uint b)"

definition to_be16 :: "u16 \<Rightarrow> u8 list" where
  "to_be16 w = [word_of_int (uint w div 256), word_of_int (uint w)]"

definition to_be32 :: "u32 \<Rightarrow> u8 list" where
  "to_be32 w =
     [word_of_int (uint w div 16777216), word_of_int (uint w div 65536),
      word_of_int (uint w div 256), word_of_int (uint w)]"

text \<open>The 16-bit field at a position; the callers have checked that it is inside the buffer.\<close>

definition field16 :: "u8 list \<Rightarrow> nat \<Rightarrow> u16" where
  "field16 buf pos = be16 (buf ! pos) (buf ! Suc pos)"

function skip_name :: "u8 list \<Rightarrow> nat \<Rightarrow> nat option" where
  "skip_name buf pos =
     (case nth_opt buf pos of None \<Rightarrow> None
      | Some b \<Rightarrow>
          if b AND 0xC0 = 0x00 \<and> b = 0 then Some (pos + 1)
          else if b AND 0xC0 = 0x00 then
            (case checked_add pos (1 + unat b) of None \<Rightarrow> None | Some pos' \<Rightarrow> skip_name buf pos')
          else if b AND 0xC0 = 0xC0 then checked_add pos 2
          else None)"
  by pat_completeness auto
termination
  by (relation "measure (\<lambda>(buf, pos). length buf - pos)")
    (auto simp: nth_opt_def checked_add_def split: if_splits)

declare skip_name.simps [simp del]

text \<open>The loop over the questions.\<close>

fun skip_questions :: "u8 list \<Rightarrow> nat \<Rightarrow> nat \<Rightarrow> nat option" where
  "skip_questions buf 0 pos = Some pos"
| "skip_questions buf (Suc n) pos =
     (case Option.bind (skip_name buf pos) (\<lambda>p. checked_add p 4) of None \<Rightarrow> None
      | Some p \<Rightarrow> if length buf < p then None else skip_questions buf n p)"

text \<open>The loop over the resource records, collecting TTL offsets.\<close>

fun ttl_loop :: "u8 list \<Rightarrow> nat \<Rightarrow> nat \<Rightarrow> u32 list \<Rightarrow> u32 list option" where
  "ttl_loop buf 0 pos offs = Some offs"
| "ttl_loop buf (Suc n) pos offs =
     (case skip_name buf pos of None \<Rightarrow> None
      | Some p \<Rightarrow>
        (case checked_add p 10 of None \<Rightarrow> None
         | Some q \<Rightarrow>
           if length buf < q then None
           else
             let rtype = field16 buf p;
                 offs = (if rtype \<noteq> TYPE_OPT then offs @ [word_of_nat (p + 4)] else offs)
             in case checked_add p (10 + unat (field16 buf (p + 8))) of None \<Rightarrow> None
                | Some p' \<Rightarrow> if length buf < p' then None else ttl_loop buf n p' offs))"

definition scan_ttl_offsets :: "u8 list \<Rightarrow> u32 list option" where
  "scan_ttl_offsets buf =
     (if length buf < 12 then None
      else
        let qd = unat (field16 buf 4); an = unat (field16 buf 6);
            ns = unat (field16 buf 8); ar = unat (field16 buf 10)
        in case skip_questions buf qd 12 of None \<Rightarrow> None
           | Some pos \<Rightarrow>
             (case Option.bind (checked_add an ns) (\<lambda>s. checked_add s ar) of None \<Rightarrow> None
              | Some rr_count \<Rightarrow> ttl_loop buf rr_count pos []))"

definition write_at :: "u8 list \<Rightarrow> nat \<Rightarrow> u8 list \<Rightarrow> u8 list" where
  "write_at buf o' bs =
     (if o' + length bs \<le> length buf
      then take o' buf @ bs @ drop (o' + length bs) buf else buf)"

definition patch :: "u8 list \<Rightarrow> u16 \<Rightarrow> u32 \<Rightarrow> u32 list \<Rightarrow> u8 list" where
  "patch buf ident ttl offs =
     (let buf1 = (if 2 \<le> length buf then to_be16 ident @ drop 2 buf else buf) in
      foldl (\<lambda>b off. write_at b (unat off) (to_be32 ttl)) buf1 offs)"

subsection \<open>Queries\<close>

record parsed_query =
  pq_id :: u16
  pq_recursion_desired :: bool
  pq_checking_disabled :: bool
  pq_opcode :: u8
  pq_qname :: string
  pq_qtype :: u16
  pq_qclass :: u16
  pq_edns_payload :: "u16 option"
  pq_dnssec_ok :: bool

definition byte_char :: "u8 \<Rightarrow> char" where
  "byte_char b = char_of (uint b)"

definition safe_byte :: "bool \<Rightarrow> u8 \<Rightarrow> bool" where
  "safe_byte is_first b =
     (let c = byte_char b in
      is_ascii_alphanumeric c \<or> c = CHR ''_'' \<or> (c = CHR ''-'' \<and> \<not> is_first)
      \<or> (c = CHR ''*'' \<and> is_first))"

definition safe_label :: "u8 list \<Rightarrow> bool" where
  "safe_label l = (case l of [] \<Rightarrow> True | b # bs \<Rightarrow> safe_byte True b \<and> list_all (safe_byte False) bs)"

function read_name_loop :: "u8 list \<Rightarrow> nat \<Rightarrow> nat \<Rightarrow> string \<Rightarrow> (string \<times> nat) option" where
  "read_name_loop buf start pos name =
     (case nth_opt buf pos of None \<Rightarrow> None
      | Some b \<Rightarrow>
          if b AND 0xC0 = 0x00 \<and> b = 0 then
            (if 255 < int (pos + 1) - int start then None
             else Some (if name = [] then ''.'' else name, pos + 1))
          else if b AND 0xC0 = 0x00 then
            (case checked_add (pos + 1) (unat b) of None \<Rightarrow> None
             | Some lend \<Rightarrow>
                 (case slice buf (pos + 1) lend of None \<Rightarrow> None
                  | Some l \<Rightarrow>
                      if safe_label l
                      then read_name_loop buf start lend (name @ map byte_char l @ ''.'')
                      else None))
          else None)"
  by pat_completeness auto
termination
  by (relation "measure (\<lambda>(buf, start, pos, name). length buf - pos)")
    (auto simp: nth_opt_def checked_add_def split: if_splits)

declare read_name_loop.simps [simp del]

definition read_question_name :: "u8 list \<Rightarrow> nat \<Rightarrow> (string \<times> nat) option" where
  "read_question_name buf start = read_name_loop buf start start []"

text \<open>The loop over the records of a query: \<open>left\<close> records remain, \<open>idx\<close> is the next index.\<close>

fun opt_loop ::
  "u8 list \<Rightarrow> nat \<Rightarrow> nat \<Rightarrow> nat \<Rightarrow> nat \<Rightarrow> u16 option \<times> bool \<Rightarrow> (u16 option \<times> bool) option" where
  "opt_loop buf additional_start 0 idx pos acc = Some acc"
| "opt_loop buf additional_start (Suc left) idx pos (payload, dok) =
     (case skip_name buf pos of None \<Rightarrow> None
      | Some p \<Rightarrow>
        (case checked_add p 10 of None \<Rightarrow> None
         | Some q \<Rightarrow>
           if length buf < q then None
           else
             let is_opt = (field16 buf p = TYPE_OPT) in
             if is_opt \<and> (idx < additional_start \<or> payload \<noteq> None) then None
             else
               let acc = (if is_opt then (Some (field16 buf (p + 2)), buf ! (p + 6) AND 0x80 \<noteq> 0)
                          else (payload, dok))
               in case checked_add p (10 + unat (field16 buf (p + 8))) of None \<Rightarrow> None
                  | Some p' \<Rightarrow>
                      if length buf < p' then None
                      else opt_loop buf additional_start left (Suc idx) p' acc))"

definition parse_query :: "u8 list \<Rightarrow> parsed_query option" where
  "parse_query buf =
     (if length buf < 12 then None
      else
        let b2 = buf ! 2;
            qd = unat (field16 buf 4); an = unat (field16 buf 6);
            ns = unat (field16 buf 8); ar = unat (field16 buf 10)
        in if qd \<noteq> 1 then None
           else (case read_question_name buf 12 of None \<Rightarrow> None
           | Some (qname, pos) \<Rightarrow>
             (case checked_add pos 4 of None \<Rightarrow> None
              | Some q \<Rightarrow>
                if length buf < q then None
                else (case checked_add an ns of None \<Rightarrow> None
                | Some additional_start \<Rightarrow>
                  (case checked_add additional_start ar of None \<Rightarrow> None
                   | Some rr_count \<Rightarrow>
                     (case opt_loop buf additional_start rr_count 0 (pos + 4) (None, False) of None \<Rightarrow> None
                      | Some (payload, dok) \<Rightarrow>
                          Some \<lparr>pq_id = be16 (buf ! 0) (buf ! 1),
                            pq_recursion_desired = (b2 AND 0x01 \<noteq> 0),
                            pq_checking_disabled = (buf ! 3 AND 0x10 \<noteq> 0),
                            pq_opcode = (drop_bit 3 b2 AND 0x0F),
                            pq_qname = qname,
                            pq_qtype = field16 buf pos, pq_qclass = field16 buf (pos + 2),
                            pq_edns_payload = payload, pq_dnssec_ok = dok\<rparr>))))))"

subsection \<open>The layout of a message\<close>

text \<open>A name on the wire: labels, then the root or a compression pointer.\<close>

record wire_name =
  wn_labels :: "u8 list list"
  wn_pointer :: "(u8 \<times> u8) option"

record wire_question =
  wq_name :: wire_name
  wq_type :: u16
  wq_class :: u16

record wire_rr =
  wr_name :: wire_name
  wr_type :: u16
  wr_class :: u16
  wr_ttl :: u32
  wr_rdata :: "u8 list"

record wire_msg =
  wm_id :: u16
  wm_flags :: "u8 \<times> u8"
  wm_questions :: "wire_question list"
  wm_answers :: "wire_rr list"
  wm_authorities :: "wire_rr list"
  wm_additionals :: "wire_rr list"

definition enc_label :: "u8 list \<Rightarrow> u8 list" where
  "enc_label l = word_of_nat (length l) # l"

definition enc_name :: "wire_name \<Rightarrow> u8 list" where
  "enc_name n =
     concat (map enc_label (wn_labels n))
     @ (case wn_pointer n of None \<Rightarrow> [0] | Some (a, b) \<Rightarrow> [a, b])"

definition enc_question :: "wire_question \<Rightarrow> u8 list" where
  "enc_question q = enc_name (wq_name q) @ to_be16 (wq_type q) @ to_be16 (wq_class q)"

definition enc_rr :: "wire_rr \<Rightarrow> u8 list" where
  "enc_rr r =
     enc_name (wr_name r) @ to_be16 (wr_type r) @ to_be16 (wr_class r) @ to_be32 (wr_ttl r)
     @ to_be16 (word_of_nat (length (wr_rdata r))) @ wr_rdata r"

definition all_rrs :: "wire_msg \<Rightarrow> wire_rr list" where
  "all_rrs m = wm_answers m @ wm_authorities m @ wm_additionals m"

definition enc_header :: "wire_msg \<Rightarrow> u8 list" where
  "enc_header m =
     to_be16 (wm_id m) @ [fst (wm_flags m), snd (wm_flags m)]
     @ to_be16 (word_of_nat (length (wm_questions m))) @ to_be16 (word_of_nat (length (wm_answers m)))
     @ to_be16 (word_of_nat (length (wm_authorities m))) @ to_be16 (word_of_nat (length (wm_additionals m)))"

definition enc_msg :: "wire_msg \<Rightarrow> u8 list" where
  "enc_msg m =
     enc_header m @ concat (map enc_question (wm_questions m)) @ concat (map enc_rr (all_rrs m))"

definition wire_name_ok :: "wire_name \<Rightarrow> bool" where
  "wire_name_ok n =
     (list_all (\<lambda>l. 0 < length l \<and> length l < 64) (wn_labels n)
      \<and> (case wn_pointer n of None \<Rightarrow> True | Some (a, b) \<Rightarrow> a AND 0xC0 = 0xC0))"

definition wire_rr_ok :: "wire_rr \<Rightarrow> bool" where
  "wire_rr_ok r = (wire_name_ok (wr_name r) \<and> int (length (wr_rdata r)) < 65536)"

definition wire_msg_ok :: "wire_msg \<Rightarrow> bool" where
  "wire_msg_ok m =
     (list_all (\<lambda>q. wire_name_ok (wq_name q)) (wm_questions m) \<and> list_all wire_rr_ok (all_rrs m)
      \<and> int (length (wm_questions m)) < 65536 \<and> int (length (wm_answers m)) < 65536
      \<and> int (length (wm_authorities m)) < 65536 \<and> int (length (wm_additionals m)) < 65536
      \<and> int (length (enc_msg m)) < 4294967296)"

definition set_ttl :: "u32 \<Rightarrow> wire_rr \<Rightarrow> wire_rr" where
  "set_ttl t r = (if wr_type r = TYPE_OPT then r else r\<lparr>wr_ttl := t\<rparr>)"

definition with_id_ttl :: "u16 \<Rightarrow> u32 \<Rightarrow> wire_msg \<Rightarrow> wire_msg" where
  "with_id_ttl ident t m =
     m\<lparr>wm_id := ident, wm_answers := map (set_ttl t) (wm_answers m),
       wm_authorities := map (set_ttl t) (wm_authorities m),
       wm_additionals := map (set_ttl t) (wm_additionals m)\<rparr>"

subsection \<open>Scanning and patching are exact on encoded messages\<close>

lemma length_to_be [simp]: "length (to_be16 w) = 2" "length (to_be32 t) = 4"
  by (simp_all add: to_be16_def to_be32_def)

lemma be16_to_be16: "be16 (to_be16 w ! 0) (to_be16 w ! Suc 0) = w"
proof -
  have w: "0 \<le> uint w" "uint w < 65536" using uint_lt2p [of w] by simp_all
  then have "uint w div 256 mod 256 = uint w div 256" by (intro mod_pos_pos_trivial) (auto simp: pos_imp_zdiv_nonneg_iff)
  then have "uint (word_of_int (uint w div 256) :: u8) = uint w div 256"
    "uint (word_of_int (uint w) :: u8) = uint w mod 256"
    by (simp_all add: uint_word_of_int take_bit_eq_mod unsigned_ucast_eq)
  then show ?thesis by (simp add: be16_def to_be16_def)
qed

lemma unat_be16_length: "int n < 65536 \<Longrightarrow> unat (word_of_nat n :: u16) = n"
  by (simp add: unat_word_of_nat_less)

lemma field16_at:
  assumes "length pre = p"
  shows "field16 (pre @ to_be16 w @ post) p = w"
proof -
  have "(pre @ to_be16 w @ post) ! p = to_be16 w ! 0" "(pre @ to_be16 w @ post) ! Suc p = to_be16 w ! Suc 0"
    using assms by (simp_all add: nth_append)
  then show ?thesis by (simp add: field16_def be16_to_be16)
qed

lemma label_byte:
  assumes "0 < n" "n < 64"
  shows "(word_of_nat n :: u8) AND 0xC0 = 0" "(word_of_nat n :: u8) \<noteq> 0" "unat (word_of_nat n :: u8) = n"
proof -
  show un: "unat (word_of_nat n :: u8) = n" using assms by (simp add: unat_word_of_nat_less)
  then show "(word_of_nat n :: u8) \<noteq> 0" using assms by (metis unat_0 less_irrefl)
  have "take_bit 6 (word_of_nat n :: u8) = word_of_nat n"
    using un assms by (simp add: take_bit_eq_mod word_unat_eq_iff unat_mod)
  then have "(word_of_nat n :: u8) AND 0xC0 = (word_of_nat n AND mask 6) AND 0xC0"
    by (simp add: take_bit_eq_mask)
  also have "\<dots> = word_of_nat n AND (mask 6 AND 0xC0)" by (rule and.assoc)
  also have "(mask 6 :: u8) AND 0xC0 = 0" by (simp add: mask_eq_exp_minus_1)
  finally show "(word_of_nat n :: u8) AND 0xC0 = 0" by simp
qed

lemma checked_add_small: "int a + int b < 4294967296 \<Longrightarrow> checked_add a b = Some (a + b)"
  by (simp add: checked_add_def)

lemma skip_name_labels:
  assumes "list_all (\<lambda>l. 0 < length l \<and> length l < 64) ls"
    and "int (length (pre @ concat (map enc_label ls) @ post)) < 4294967296"
  shows "skip_name (pre @ concat (map enc_label ls) @ post) (length pre) =
         skip_name (pre @ concat (map enc_label ls) @ post) (length pre + length (concat (map enc_label ls)))"
  using assms
proof (induction ls arbitrary: pre)
  case (Cons l ls)
  let ?buf = "pre @ concat (map enc_label (l # ls)) @ post"
  have l: "0 < length l" "length l < 64" using Cons.prems(1) by simp_all
  have "skip_name ?buf (length pre) = skip_name ?buf (length pre + (1 + length l))"
    using label_byte [OF l] Cons.prems(2)
    by (subst skip_name.simps) (simp add: nth_opt_def enc_label_def checked_add_small)
  also have "?buf = (pre @ enc_label l) @ concat (map enc_label ls) @ post" by simp
  also have "length pre + (1 + length l) = length (pre @ enc_label l)" by (simp add: enc_label_def)
  finally show ?case using Cons.IH [of "pre @ enc_label l"] Cons.prems by (simp add: enc_label_def algebra_simps)
qed simp

lemma skip_name_enc:
  assumes "wire_name_ok n" "int (length (pre @ enc_name n @ post)) < 4294967296"
  shows "skip_name (pre @ enc_name n @ post) (length pre) = Some (length pre + length (enc_name n))"
proof -
  let ?ls = "concat (map enc_label (wn_labels n))"
  let ?tl = "case wn_pointer n of None \<Rightarrow> [0] | Some (a, b) \<Rightarrow> [a, b]"
  have buf: "pre @ enc_name n @ post = pre @ ?ls @ (?tl @ post)" by (simp add: enc_name_def)
  have "skip_name (pre @ enc_name n @ post) (length pre) = skip_name (pre @ enc_name n @ post) (length pre + length ?ls)"
    unfolding buf using assms by (intro skip_name_labels) (simp_all add: wire_name_ok_def enc_name_def)
  also have "nth_opt (pre @ enc_name n @ post) (length pre + length ?ls) = Some (hd ?tl)"
    unfolding buf by (auto simp: nth_opt_def nth_append split: option.split)
  then have "skip_name (pre @ enc_name n @ post) (length pre + length ?ls) = Some (length pre + length (enc_name n))"
    using assms by (subst skip_name.simps)
      (auto simp: wire_name_ok_def enc_name_def checked_add_small split: option.splits)
  finally show ?thesis .
qed

lemma skip_questions_enc:
  assumes "list_all (\<lambda>q. wire_name_ok (wq_name q)) qs"
    and "int (length (pre @ concat (map enc_question qs) @ post)) < 4294967296"
  shows "skip_questions (pre @ concat (map enc_question qs) @ post) (length qs) (length pre) =
         Some (length pre + length (concat (map enc_question qs)))"
  using assms
proof (induction qs arbitrary: pre)
  case (Cons q qs)
  let ?buf = "pre @ concat (map enc_question (q # qs)) @ post"
  let ?tl = "to_be16 (wq_type q) @ to_be16 (wq_class q) @ concat (map enc_question qs) @ post"
  have buf: "?buf = pre @ enc_name (wq_name q) @ ?tl" by (simp add: enc_question_def)
  have "skip_name ?buf (length pre) = Some (length pre + length (enc_name (wq_name q)))"
    unfolding buf using Cons.prems by (intro skip_name_enc) (simp_all add: enc_question_def [of q])
  then have "skip_questions ?buf (length (q # qs)) (length pre) =
      skip_questions ((pre @ enc_question q) @ concat (map enc_question qs) @ post) (length qs) (length (pre @ enc_question q))"
    using Cons.prems(2) by (simp add: checked_add_small enc_question_def [of q] algebra_simps)
  with Cons.IH [of "pre @ enc_question q"] Cons.prems show ?case by (simp add: algebra_simps)
qed simp

text \<open>Where the TTL fields of consecutive records are.\<close>

fun ttl_positions :: "nat \<Rightarrow> wire_rr list \<Rightarrow> nat list" where
  "ttl_positions pos [] = []"
| "ttl_positions pos (r # rs) =
     (if wr_type r = TYPE_OPT then [] else [pos + length (enc_name (wr_name r)) + 4])
     @ ttl_positions (pos + length (enc_rr r)) rs"

text \<open>What the walk reads at one record.\<close>

lemma rr_at:
  assumes "wire_rr_ok r" and small: "int (length (pre @ enc_rr r @ post)) < 4294967296"
  defines "buf \<equiv> pre @ enc_rr r @ post" and "p \<equiv> length pre + length (enc_name (wr_name r))"
  shows "skip_name buf (length pre) = Some p" "checked_add p 10 = Some (p + 10)" "\<not> length buf < p + 10"
    "field16 buf p = wr_type r" "field16 buf (p + 2) = wr_class r"
    "buf ! (p + 6) = to_be32 (wr_ttl r) ! 2"
    "checked_add p (10 + unat (field16 buf (p + 8))) = Some (length (pre @ enc_rr r))"
    "\<not> length buf < length (pre @ enc_rr r)"
proof -
  let ?n = "enc_name (wr_name r)" and ?rdlen = "to_be16 (word_of_nat (length (wr_rdata r)))"
  let ?ty = "to_be16 (wr_type r)" and ?cl = "to_be16 (wr_class r)" and ?tt = "to_be32 (wr_ttl r)"
  let ?tl = "wr_rdata r @ post"
  have b: "buf = pre @ ?n @ ?ty @ ?cl @ ?tt @ ?rdlen @ ?tl" by (simp add: buf_def enc_rr_def)
  have len: "length (enc_rr r) = length ?n + (10 + length (wr_rdata r))" by (simp add: enc_rr_def)
  have r: "wire_name_ok (wr_name r)" "int (length (wr_rdata r)) < 65536"
    using assms(1) by (simp_all add: wire_rr_ok_def)
  have small': "int (length buf) < 4294967296" using small by (simp add: buf_def)
  show "skip_name buf (length pre) = Some p"
    using small' unfolding b p_def by (intro skip_name_enc [OF r(1)])
  show "checked_add p 10 = Some (p + 10)" "\<not> length buf < p + 10" "\<not> length buf < length (pre @ enc_rr r)"
    using small' by (simp_all add: buf_def p_def len checked_add_small)
  show "field16 buf p = wr_type r"
    unfolding b p_def using field16_at [of "pre @ ?n" _ "wr_type r"] by simp
  show "field16 buf (p + 2) = wr_class r"
    unfolding b p_def using field16_at [of "pre @ ?n @ ?ty" _ "wr_class r"] by simp
  show "buf ! (p + 6) = ?tt ! 2"
    unfolding b p_def by (simp add: nth_append to_be16_def to_be32_def numeral_eq_Suc)
  have "field16 ((pre @ ?n @ ?ty @ ?cl @ ?tt) @ ?rdlen @ ?tl) (p + 8) = word_of_nat (length (wr_rdata r))"
    by (rule field16_at) (simp add: p_def)
  then have "unat (field16 buf (p + 8)) = length (wr_rdata r)"
    unfolding b using unat_be16_length [OF r(2)] by simp
  then show "checked_add p (10 + unat (field16 buf (p + 8))) = Some (length (pre @ enc_rr r))"
    using small' by (simp add: checked_add_small buf_def p_def len)
qed

lemma ttl_loop_enc:
  assumes "list_all wire_rr_ok rs" "int (length (pre @ concat (map enc_rr rs) @ post)) < 4294967296"
  shows "ttl_loop (pre @ concat (map enc_rr rs) @ post) (length rs) (length pre) acc =
         Some (acc @ map word_of_nat (ttl_positions (length pre) rs))"
  using assms
proof (induction rs arbitrary: pre acc)
  case (Cons r rs)
  let ?rest = "concat (map enc_rr rs) @ post"
  have "wire_rr_ok r" "int (length (pre @ enc_rr r @ ?rest)) < 4294967296" using Cons.prems by simp_all
  note at = rr_at [OF this]
  let ?acc = "if wr_type r \<noteq> TYPE_OPT
    then acc @ [word_of_nat (length pre + length (enc_name (wr_name r)) + 4)] else acc"
  have "ttl_loop (pre @ enc_rr r @ ?rest) (Suc (length rs)) (length pre) acc =
      ttl_loop (pre @ enc_rr r @ ?rest) (length rs) (length (pre @ enc_rr r)) ?acc"
    using at by (simp add: Let_def)
  moreover have "ttl_loop ((pre @ enc_rr r) @ ?rest) (length rs) (length (pre @ enc_rr r)) ?acc
      = Some (?acc @ map word_of_nat (ttl_positions (length (pre @ enc_rr r)) rs))"
    using Cons.prems by (intro Cons.IH) simp_all
  ultimately show ?case by simp
qed simp

lemma write_at_middle: "length old = length new \<Longrightarrow> write_at (a @ old @ c) (length a) new = a @ new @ c"
  by (simp add: write_at_def)

lemma patch_rrs:
  assumes "int (length (pre @ concat (map enc_rr rs) @ post)) < 4294967296"
  shows "foldl (\<lambda>b off. write_at b (unat off) (to_be32 t)) (pre @ concat (map enc_rr rs) @ post)
           (map (word_of_nat :: nat \<Rightarrow> u32) (ttl_positions (length pre) rs))
         = pre @ concat (map (enc_rr \<circ> set_ttl t) rs) @ post"
  using assms
proof (induction rs arbitrary: pre)
  case (Cons r rs)
  let ?n = "enc_name (wr_name r)" and ?q = "enc_rr (set_ttl t r)"
  let ?f = "foldl (\<lambda>b (off::u32). write_at b (unat off) (to_be32 t))"
  have lenq: "length ?q = length (enc_rr r)" by (simp add: set_ttl_def enc_rr_def)
  have step: "?f (pre @ concat (map enc_rr (r # rs)) @ post)
      (map word_of_nat (if wr_type r = TYPE_OPT then [] else [length pre + length ?n + 4]))
      = (pre @ ?q) @ concat (map enc_rr rs) @ post"
  proof (cases "wr_type r = TYPE_OPT")
    case True
    then show ?thesis by (simp add: set_ttl_def)
  next
    case False
    let ?a = "pre @ ?n @ to_be16 (wr_type r) @ to_be16 (wr_class r)"
    let ?c = "to_be16 (word_of_nat (length (wr_rdata r))) @ wr_rdata r @ concat (map enc_rr rs) @ post"
    have "length pre + length ?n + 4 < 2 ^ 32" using Cons.prems by (simp add: enc_rr_def)
    then have "unat (word_of_nat (length pre + length ?n + 4) :: u32) = length ?a"
      by (subst unat_word_of_nat_less) simp_all
    then show ?thesis
      using False write_at_middle [of "to_be32 (wr_ttl r)" "to_be32 t" ?a ?c]
      by (simp add: enc_rr_def set_ttl_def)
  qed
  have "?f ((pre @ ?q) @ concat (map enc_rr rs) @ post) (map word_of_nat (ttl_positions (length (pre @ ?q)) rs))
      = (pre @ ?q) @ concat (map (enc_rr \<circ> set_ttl t) rs) @ post"
    using Cons.prems lenq by (intro Cons.IH) simp
  then show ?case
    by (simp only: ttl_positions.simps map_append foldl_append step) (simp add: lenq comp_def)
qed simp


lemma header_counts:
  assumes "wire_msg_ok m"
  shows "unat (field16 (enc_msg m) 4) = length (wm_questions m)"
    "unat (field16 (enc_msg m) 6) = length (wm_answers m)"
    "unat (field16 (enc_msg m) 8) = length (wm_authorities m)"
    "unat (field16 (enc_msg m) 10) = length (wm_additionals m)"
proof -
  let ?h = "to_be16 (wm_id m) @ [fst (wm_flags m), snd (wm_flags m)]"
  let ?c = "\<lambda>xs. to_be16 (word_of_nat (length xs))"
  have h: "\<exists>post. enc_msg m = ?h @ ?c (wm_questions m) @ post"
    "\<exists>post. enc_msg m = (?h @ ?c (wm_questions m)) @ ?c (wm_answers m) @ post"
    "\<exists>post. enc_msg m = (?h @ ?c (wm_questions m) @ ?c (wm_answers m)) @ ?c (wm_authorities m) @ post"
    "\<exists>post. enc_msg m = (?h @ ?c (wm_questions m) @ ?c (wm_answers m) @ ?c (wm_authorities m)) @ ?c (wm_additionals m) @ post"
    by (simp_all add: enc_msg_def enc_header_def)
  have at: "unat (field16 buf p) = n"
    if "\<exists>post. buf = pre @ to_be16 (word_of_nat n) @ post" "length pre = p" "int n < 65536" for buf pre n p
    using that field16_at unat_be16_length by fastforce
  note ok = assms [unfolded wire_msg_ok_def]
  show "unat (field16 (enc_msg m) 4) = length (wm_questions m)" using ok by (intro at [OF h(1)]) simp_all
  show "unat (field16 (enc_msg m) 6) = length (wm_answers m)" using ok by (intro at [OF h(2)]) simp_all
  show "unat (field16 (enc_msg m) 8) = length (wm_authorities m)" using ok by (intro at [OF h(3)]) simp_all
  show "unat (field16 (enc_msg m) 10) = length (wm_additionals m)" using ok by (intro at [OF h(4)]) simp_all
qed

lemma scan_ttl_offsets_enc:
  assumes "wire_msg_ok m"
  shows "scan_ttl_offsets (enc_msg m) = Some (map word_of_nat
     (ttl_positions (length (enc_header m @ concat (map enc_question (wm_questions m)))) (all_rrs m)))"
proof -
  let ?qs = "concat (map enc_question (wm_questions m))"
  have small: "int (length (enc_msg m)) < 4294967296"
    and ok: "list_all (\<lambda>q. wire_name_ok (wq_name q)) (wm_questions m)" "list_all wire_rr_ok (all_rrs m)"
    and counts: "int (length (wm_answers m)) < 65536" "int (length (wm_authorities m)) < 65536"
      "int (length (wm_additionals m)) < 65536"
    using assms by (auto simp: wire_msg_ok_def)
  have hdr: "length (enc_header m) = 12" by (simp add: enc_header_def)
  have "skip_questions (enc_msg m) (length (wm_questions m)) 12 = Some (length (enc_header m @ ?qs))"
    using skip_questions_enc [OF ok(1), of "enc_header m" "concat (map enc_rr (all_rrs m))"] small
    by (simp add: enc_msg_def hdr)
  moreover have "ttl_loop (enc_msg m) (length (all_rrs m)) (length (enc_header m @ ?qs)) [] =
      Some (map word_of_nat (ttl_positions (length (enc_header m @ ?qs)) (all_rrs m)))"
    using ttl_loop_enc [OF ok(2), of "enc_header m @ ?qs" "[]" "[]"] small by (simp add: enc_msg_def)
  moreover have "\<not> length (enc_msg m) < 12" by (simp add: enc_msg_def hdr)
  moreover have "length (wm_answers m) + length (wm_authorities m) + length (wm_additionals m) = length (all_rrs m)"
    by (simp add: all_rrs_def)
  ultimately show ?thesis
    using counts by (simp add: scan_ttl_offsets_def Let_def header_counts [OF assms] checked_add_small)
qed

lemma patch_enc:
  assumes "wire_msg_ok m" "scan_ttl_offsets (enc_msg m) = Some offs"
  shows "patch (enc_msg m) ident t offs = enc_msg (with_id_ttl ident t m)"
proof -
  let ?m = "m\<lparr>wm_id := ident\<rparr>" and ?qs = "concat (map enc_question (wm_questions m))"
  have len: "length (enc_header ?m) = 12" "length (enc_header m) = 12" by (simp_all add: enc_header_def)
  have "to_be16 ident @ drop 2 (enc_msg m) = enc_msg ?m" "2 \<le> length (enc_msg m)"
    by (simp_all add: enc_msg_def enc_header_def all_rrs_def)
  then have "patch (enc_msg m) ident t offs = foldl (\<lambda>b off. write_at b (unat off) (to_be32 t)) (enc_msg ?m) offs"
    by (simp add: patch_def)
  also have "\<dots> = (enc_header ?m @ ?qs) @ concat (map (enc_rr \<circ> set_ttl t) (all_rrs m))"
    using patch_rrs [of "enc_header ?m @ ?qs" "all_rrs m" "[]" t] assms scan_ttl_offsets_enc [OF assms(1)]
    by (simp add: enc_msg_def wire_msg_ok_def len all_rrs_def)
  also have "\<dots> = enc_msg (with_id_ttl ident t m)"
    by (simp add: enc_msg_def enc_header_def with_id_ttl_def all_rrs_def)
  finally show ?thesis .
qed


subsection \<open>Patching any buffer\<close>

lemma length_write_at: "length (write_at buf o' bs) = length buf"
  by (auto simp: write_at_def)

lemma write_at_other:
  "i < o' \<or> o' + length bs \<le> i \<Longrightarrow> i < length buf \<Longrightarrow> write_at buf o' bs ! i = buf ! i"
  by (auto simp: write_at_def nth_append)

lemma foldl_write_at:
  fixes offs :: "u32 list"
  shows "length (foldl (\<lambda>b off. write_at b (unat off) bs) buf offs) = length buf"
    and "i < length buf \<Longrightarrow> \<forall>off \<in> set offs. i < unat off \<or> unat off + length bs \<le> i \<Longrightarrow>
           foldl (\<lambda>b off. write_at b (unat off) bs) buf offs ! i = buf ! i"
  by (induction offs arbitrary: buf) (simp_all add: length_write_at write_at_other)

lemma length_patch: "length (patch buf ident t offs) = length buf"
  by (simp add: patch_def foldl_write_at) arith

lemma patch_other:
  assumes "2 \<le> i" "i < length buf" "\<forall>off \<in> set offs. i < unat off \<or> unat off + 4 \<le> i"
  shows "patch buf ident t offs ! i = buf ! i"
proof -
  have "Suc (Suc (i - 2)) = i" using assms(1) by arith
  with assms show ?thesis by (simp add: patch_def foldl_write_at nth_append)
qed

text \<open>The offsets of any scanned buffer are inside it.\<close>

lemma ttl_loop_bounds:
  assumes "ttl_loop buf n pos acc = Some offs" "length buf < 2 ^ 32"
    and "\<forall>off \<in> set acc. unat off + 4 \<le> length buf"
  shows "\<forall>off \<in> set offs. unat off + 4 \<le> length buf"
  using assms(1,3)
proof (induction n arbitrary: pos acc)
  case (Suc n)
  let ?acc = "\<lambda>p. if field16 buf p \<noteq> TYPE_OPT then acc @ [word_of_nat (p + 4)] else acc"
  from Suc.prems(1) obtain p where sk: "skip_name buf pos = Some p" by (auto split: option.splits)
  have p: "p + 10 \<le> length buf"
    using Suc.prems(1) sk by (auto simp: Let_def checked_add_def not_less split: if_splits)
  from Suc.prems(1) sk obtain p' where rec: "ttl_loop buf n p' (?acc p) = Some offs"
    by (simp only: ttl_loop.simps option.case Let_def split: option.splits if_splits) blast+
  have "unat (word_of_nat (p + 4) :: u32) = p + 4"
    using p assms(2) by (intro unat_word_of_nat_less) simp
  with Suc.prems(2) p show ?case by (intro Suc.IH [OF rec]) auto
qed simp

lemma scan_ttl_offsets_bounds:
  assumes "scan_ttl_offsets buf = Some offs" "length buf < 2 ^ 32" "off \<in> set offs"
  shows "unat off + 4 \<le> length buf"
proof -
  from assms(1) obtain n pos where "ttl_loop buf n pos [] = Some offs"
    by (auto simp: scan_ttl_offsets_def Let_def split: option.splits if_splits)
  from ttl_loop_bounds [OF this assms(2)] assms(3) show ?thesis by simp
qed

subsection \<open>Parsing encoded queries\<close>

lemma read_name_labels:
  assumes "list_all (\<lambda>l. 0 < length l \<and> length l < 64) ls" "list_all safe_label ls"
    and "int (length (pre @ concat (map enc_label ls) @ post)) < 4294967296"
  shows "read_name_loop (pre @ concat (map enc_label ls) @ post) start (length pre) name =
         read_name_loop (pre @ concat (map enc_label ls) @ post) start
           (length pre + length (concat (map enc_label ls)))
           (name @ concat (map (\<lambda>l. map byte_char l @ ''.'') ls))"
  using assms
proof (induction ls arbitrary: pre name)
  case (Cons l ls)
  let ?buf = "pre @ concat (map enc_label (l # ls)) @ post"
  have l: "0 < length l" "length l < 64" using Cons.prems(1) by simp_all
  have "read_name_loop ?buf start (length pre) name =
      read_name_loop ?buf start (length pre + (1 + length l)) (name @ map byte_char l @ ''.'')"
    using label_byte [OF l] Cons.prems(2,3)
    by (subst read_name_loop.simps) (simp add: nth_opt_def enc_label_def checked_add_small slice_def)
  also have "?buf = (pre @ enc_label l) @ concat (map enc_label ls) @ post" by simp
  also have "length pre + (1 + length l) = length (pre @ enc_label l)" by (simp add: enc_label_def)
  finally show ?case
    using Cons.IH [of "pre @ enc_label l" "name @ map byte_char l @ ''.''"] Cons.prems
    by (simp add: enc_label_def algebra_simps)
qed simp

definition dotted :: "u8 list list \<Rightarrow> string" where
  "dotted ls = (if ls = [] then ''.'' else concat (map (\<lambda>l. map byte_char l @ ''.'') ls))"

lemma read_question_name_enc:
  assumes "wire_name_ok n" "wn_pointer n = None" "list_all safe_label (wn_labels n)"
    and "length (enc_name n) \<le> 255" "int (length (pre @ enc_name n @ post)) < 4294967296"
  shows "read_question_name (pre @ enc_name n @ post) (length pre) =
           Some (dotted (wn_labels n), length pre + length (enc_name n))"
proof -
  let ?ls = "concat (map enc_label (wn_labels n))"
  have buf: "pre @ enc_name n @ post = pre @ ?ls @ (0 # post)" using assms(2) by (simp add: enc_name_def)
  have len: "length (enc_name n) = length ?ls + 1" using assms(2) by (simp add: enc_name_def)
  have "read_question_name (pre @ enc_name n @ post) (length pre) =
      read_name_loop (pre @ ?ls @ (0 # post)) (length pre) (length pre + length ?ls)
        (concat (map (\<lambda>l. map byte_char l @ ''.'') (wn_labels n)))"
    unfolding read_question_name_def buf
    using assms len by (subst read_name_labels) (simp_all add: wire_name_ok_def)
  also have "\<dots> = Some (dotted (wn_labels n), length pre + length (enc_name n))"
    using assms(4) len
    by (subst read_name_loop.simps) (auto simp: nth_opt_def nth_append dotted_def split: list.split)
  finally show ?thesis .
qed

definition is_opt_rr :: "wire_rr \<Rightarrow> bool" where
  "is_opt_rr r = (wr_type r = TYPE_OPT)"

definition opt_fields :: "wire_rr \<Rightarrow> u16 option \<times> bool" where
  "opt_fields r = (Some (wr_class r), to_be32 (wr_ttl r) ! 2 AND 0x80 \<noteq> 0)"

text \<open>The EDNS fields of a message: a single OPT record, among the additional records.\<close>

definition edns_of :: "wire_msg \<Rightarrow> (u16 option \<times> bool) option" where
  "edns_of m =
     (if list_ex is_opt_rr (wm_answers m @ wm_authorities m) then None
      else case filter is_opt_rr (wm_additionals m) of
        [] \<Rightarrow> Some (None, False) | [r] \<Rightarrow> Some (opt_fields r) | _ \<Rightarrow> None)"

fun opt_walk :: "nat \<Rightarrow> nat \<Rightarrow> wire_rr list \<Rightarrow> u16 option \<times> bool \<Rightarrow> (u16 option \<times> bool) option" where
  "opt_walk a idx [] acc = Some acc"
| "opt_walk a idx (r # rs) acc =
     (if is_opt_rr r then
        if idx < a \<or> fst acc \<noteq> None then None else opt_walk a (Suc idx) rs (opt_fields r)
      else opt_walk a (Suc idx) rs acc)"

lemma opt_loop_enc:
  assumes "list_all wire_rr_ok rs" "int (length (pre @ concat (map enc_rr rs) @ post)) < 4294967296"
  shows "opt_loop (pre @ concat (map enc_rr rs) @ post) a (length rs) idx (length pre) acc = opt_walk a idx rs acc"
  using assms
proof (induction rs arbitrary: pre idx acc)
  case (Cons r rs)
  let ?rest = "concat (map enc_rr rs) @ post"
  obtain pl dok where acc: "acc = (pl, dok)" by fastforce
  have "wire_rr_ok r" "int (length (pre @ enc_rr r @ ?rest)) < 4294967296" using Cons.prems by simp_all
  note at = rr_at [OF this]
  have "opt_loop ((pre @ enc_rr r) @ ?rest) a (length rs) (Suc idx) (length (pre @ enc_rr r)) acc' = opt_walk a (Suc idx) rs acc'" for acc'
    using Cons.prems by (intro Cons.IH) simp_all
  with at show ?case by (simp add: acc Let_def is_opt_rr_def opt_fields_def)
qed simp

lemma opt_walk_before:
  "idx + length rs \<le> a \<Longrightarrow>
   opt_walk a idx (rs @ rs') acc =
     (if list_ex is_opt_rr rs then None else opt_walk a (idx + length rs) rs' acc)"
  by (induction rs arbitrary: idx) auto

lemma opt_walk_seen:
  "fst acc \<noteq> None \<Longrightarrow> opt_walk a idx rs acc = (if filter is_opt_rr rs = [] then Some acc else None)"
  by (induction rs arbitrary: idx) auto

lemma opt_walk_after:
  "a \<le> idx \<Longrightarrow> opt_walk a idx rs (None, False) =
     (case filter is_opt_rr rs of [] \<Rightarrow> Some (None, False) | [r] \<Rightarrow> Some (opt_fields r) | _ \<Rightarrow> None)"
proof (induction rs arbitrary: idx)
  case (Cons r rs)
  then show ?case
    by (cases "filter is_opt_rr rs") (auto simp: opt_walk_seen opt_fields_def)
qed simp

lemma parse_query_enc:
  assumes ok: "wire_msg_ok m" and q: "wm_questions m = [q]" "wn_pointer (wq_name q) = None"
    and safe: "list_all safe_label (wn_labels (wq_name q))" "length (enc_name (wq_name q)) \<le> 255"
  shows "parse_query (enc_msg m) =
    map_option (\<lambda>(payload, dok).
      \<lparr>pq_id = wm_id m,
       pq_recursion_desired = (fst (wm_flags m) AND 0x01 \<noteq> 0),
       pq_checking_disabled = (snd (wm_flags m) AND 0x10 \<noteq> 0),
       pq_opcode = (drop_bit 3 (fst (wm_flags m)) AND 0x0F),
       pq_qname = dotted (wn_labels (wq_name q)),
       pq_qtype = wq_type q, pq_qclass = wq_class q,
       pq_edns_payload = payload, pq_dnssec_ok = dok\<rparr>) (edns_of m)"
proof -
  let ?h = "enc_header m" and ?n = "enc_name (wq_name q)" and ?rr = "concat (map enc_rr (all_rrs m))"
  let ?p = "12 + length ?n" and ?a = "length (wm_answers m) + length (wm_authorities m)"
  have buf: "enc_msg m = ?h @ ?n @ to_be16 (wq_type q) @ to_be16 (wq_class q) @ ?rr"
    by (simp add: enc_msg_def q enc_question_def)
  have hdr: "length ?h = 12" by (simp add: enc_header_def)
  have small: "int (length (enc_msg m)) < 4294967296" using ok by (simp add: wire_msg_ok_def)
  have nok: "wire_name_ok (wq_name q)" using ok q by (simp add: wire_msg_ok_def)
  have name: "read_question_name (enc_msg m) 12 = Some (dotted (wn_labels (wq_name q)), ?p)"
    using read_question_name_enc [OF nok q(2) safe, of ?h] small unfolding buf by (simp add: hdr)
  have ty: "field16 (enc_msg m) ?p = wq_type q"
    unfolding buf using field16_at [of "?h @ ?n" _ "wq_type q"] by (simp add: hdr)
  have cl: "field16 (enc_msg m) (?p + 2) = wq_class q"
    unfolding buf using field16_at [of "?h @ ?n @ to_be16 (wq_type q)" _ "wq_class q"] by (simp add: hdr)
  let ?pre = "?h @ ?n @ to_be16 (wq_type q) @ to_be16 (wq_class q)"
  have "opt_loop (?pre @ ?rr @ []) ?a (length (all_rrs m)) 0 (length ?pre) (None, False) = opt_walk ?a 0 (all_rrs m) (None, False)"
    using ok small unfolding buf by (intro opt_loop_enc) (simp_all add: wire_msg_ok_def)
  also have "\<dots> = edns_of m"
    using opt_walk_before [of 0 "wm_answers m @ wm_authorities m" ?a "wm_additionals m" "(None, False)"]
    by (simp add: all_rrs_def edns_of_def opt_walk_after)
  finally have opt: "opt_loop (enc_msg m) ?a (?a + length (wm_additionals m)) 0 (?p + 4) (None, False) = edns_of m"
    by (simp add: buf hdr all_rrs_def algebra_simps)
  have head: "enc_msg m ! 0 = to_be16 (wm_id m) ! 0" "enc_msg m ! Suc 0 = to_be16 (wm_id m) ! Suc 0"
    "enc_msg m ! 2 = fst (wm_flags m)" "enc_msg m ! 3 = snd (wm_flags m)"
    by (simp_all add: enc_msg_def enc_header_def to_be16_def numeral_eq_Suc)
  have room: "\<not> length (enc_msg m) < 12" "\<not> length (enc_msg m) < ?p + 4" by (simp_all add: buf hdr)
  have adds: "checked_add ?p 4 = Some (?p + 4)" "checked_add (length (wm_answers m)) (length (wm_authorities m)) = Some ?a"
    "checked_add ?a (length (wm_additionals m)) = Some (?a + length (wm_additionals m))"
    using small ok room by (simp_all add: checked_add_def wire_msg_ok_def)
  show ?thesis
    unfolding parse_query_def Let_def header_counts [OF ok]
    using name ty cl opt head room adds be16_to_be16 [of "wm_id m"] q(1)
    by (simp add: split_beta split: option.split)
qed

end
