(* ===== verification/Dns_Message.thy ===== *)
theory Dns_Message
  imports Net_Addr Dns_Wire
begin

text \<open>
  DNS messages as the sources use them, and the helpers of
  \<open>crates/bulwark-upstream/src/transport.rs\<close> on them.

  The message type belongs to the \<open>hickory-proto\<close> crate: the record \<open>message\<close> has the fields
  that the sources read or write. A \<open>Name\<close> is its presentation form (\<open>to_ascii\<close>), a record
  type, class or response code its 16-bit number. The crate's operations, the codec first,
  are the fields of the record \<open>dns_ext\<close>, a parameter of the definitions that call them.
\<close>

subsection \<open>Data\<close>

abbreviation T_A :: u16 where "T_A \<equiv> 1"
abbreviation T_NS :: u16 where "T_NS \<equiv> 2"
abbreviation T_CNAME :: u16 where "T_CNAME \<equiv> 5"
abbreviation T_SOA :: u16 where "T_SOA \<equiv> 6"
abbreviation T_PTR :: u16 where "T_PTR \<equiv> 12"
abbreviation T_MX :: u16 where "T_MX \<equiv> 15"
abbreviation T_TXT :: u16 where "T_TXT \<equiv> 16"
abbreviation T_AAAA :: u16 where "T_AAAA \<equiv> 28"
abbreviation T_SRV :: u16 where "T_SRV \<equiv> 33"
abbreviation T_NAPTR :: u16 where "T_NAPTR \<equiv> 35"
abbreviation T_DS :: u16 where "T_DS \<equiv> 43"
abbreviation T_DNSKEY :: u16 where "T_DNSKEY \<equiv> 48"
abbreviation T_TLSA :: u16 where "T_TLSA \<equiv> 52"
abbreviation T_SVCB :: u16 where "T_SVCB \<equiv> 64"
abbreviation T_HTTPS :: u16 where "T_HTTPS \<equiv> 65"
abbreviation T_CAA :: u16 where "T_CAA \<equiv> 257"

abbreviation C_IN :: u16 where "C_IN \<equiv> 1"

abbreviation RC_NoError :: u16 where "RC_NoError \<equiv> 0"
abbreviation RC_FormErr :: u16 where "RC_FormErr \<equiv> 1"
abbreviation RC_ServFail :: u16 where "RC_ServFail \<equiv> 2"
abbreviation RC_NXDomain :: u16 where "RC_NXDomain \<equiv> 3"
abbreviation RC_NotImp :: u16 where "RC_NotImp \<equiv> 4"
abbreviation RC_Refused :: u16 where "RC_Refused \<equiv> 5"

type_synonym dname = string

abbreviation root_name :: dname where "root_name \<equiv> ''.''"

datatype svc_param = Ipv4Hint "u32 list" | Ipv6Hint "128 word list" | OtherParam "u8 list"

record soa_data =
  soa_mname :: dname
  soa_rname :: dname
  soa_serial :: u32
  soa_refresh :: "32 word"
  soa_retry :: "32 word"
  soa_expire :: "32 word"
  soa_minimum :: u32

datatype rdata =
    RD_A u32
  | RD_AAAA "128 word"
  | RD_CNAME dname
  | RD_MX u16 dname
  | RD_PTR dname
  | RD_TXT "string list"
  | RD_SOA soa_data
  | RD_HTTPS "svc_param list"
  | RD_SVCB "svc_param list"
  | RD_Other u16 "u8 list"

fun rdata_type :: "rdata \<Rightarrow> u16" where
  "rdata_type (RD_A _) = T_A"
| "rdata_type (RD_AAAA _) = T_AAAA"
| "rdata_type (RD_CNAME _) = T_CNAME"
| "rdata_type (RD_MX _ _) = T_MX"
| "rdata_type (RD_PTR _) = T_PTR"
| "rdata_type (RD_TXT _) = T_TXT"
| "rdata_type (RD_SOA _) = T_SOA"
| "rdata_type (RD_HTTPS _) = T_HTTPS"
| "rdata_type (RD_SVCB _) = T_SVCB"
| "rdata_type (RD_Other t _) = t"

record dns_record =
  r_name :: dname
  r_class :: u16
  r_ttl :: u32
  r_data :: rdata

text \<open>\<open>Record::from_rdata\<close>: class IN.\<close>

definition from_rdata :: "dname \<Rightarrow> u32 \<Rightarrow> rdata \<Rightarrow> dns_record" where
  "from_rdata n t d = \<lparr>r_name = n, r_class = C_IN, r_ttl = t, r_data = d\<rparr>"

record dns_query =
  qry_name :: dname
  qry_type :: u16
  qry_class :: u16

record edns =
  ed_version :: u8
  ed_max_payload :: u16
  ed_dnssec_ok :: bool
  ed_options :: "(u16 \<times> u8 list) list"

datatype message_type = MtQuery | MtResponse

record message =
  m_id :: u16
  m_type :: message_type
  m_op_code :: u8
  m_truncation :: bool
  m_recursion_desired :: bool
  m_recursion_available :: bool
  m_checking_disabled :: bool
  m_response_code :: u16
  m_queries :: "dns_query list"
  m_answers :: "dns_record list"
  m_authorities :: "dns_record list"
  m_additionals :: "dns_record list"
  m_edns :: "edns option"

definition new_message :: "u16 \<Rightarrow> message_type \<Rightarrow> u8 \<Rightarrow> message" where
  "new_message ident t op =
     \<lparr>m_id = ident, m_type = t, m_op_code = op, m_truncation = False,
      m_recursion_desired = False, m_recursion_available = False, m_checking_disabled = False,
      m_response_code = RC_NoError, m_queries = [], m_answers = [], m_authorities = [],
      m_additionals = [], m_edns = None\<rparr>"

record dns_ext =
  to_vec :: "message \<Rightarrow> u8 list option"
  from_vec :: "u8 list \<Rightarrow> message option"
  name_from_str :: "string \<Rightarrow> dname option"
  name_eq_ignore_root :: "dname \<Rightarrow> dname \<Rightarrow> bool"
  edns_default :: edns
  edns_payload_set :: "u16 \<Rightarrow> u16"
  rdata_display :: "rdata \<Rightarrow> string"
  rtype_display :: "u16 \<Rightarrow> string"
  rcode_debug_upper :: "u16 \<Rightarrow> string"

subsection \<open>Question identity and upstream queries\<close>

definition dnssec_ok :: "message \<Rightarrow> bool" where
  "dnssec_ok m = (case m_edns m of None \<Rightarrow> False | Some e \<Rightarrow> ed_dnssec_ok e)"

record query_key =
  k_name :: string
  k_rtype :: u16
  k_class :: u16
  k_dnssec_ok :: bool
  k_checking_disabled :: bool

definition key_from_message :: "message \<Rightarrow> query_key option" where
  "key_from_message m =
     (case m_queries m of [] \<Rightarrow> None
      | q # _ \<Rightarrow>
          Some \<lparr>k_name = to_ascii_lowercase (qry_name q), k_rtype = qry_type q,
                k_class = qry_class q, k_dnssec_ok = dnssec_ok m,
                k_checking_disabled = m_checking_disabled m\<rparr>)"

definition MAX_UDP_PAYLOAD :: u16 where
  "MAX_UDP_PAYLOAD = 4096"

definition normalize_upstream_edns :: "dns_ext \<Rightarrow> message \<Rightarrow> message" where
  "normalize_upstream_edns dx m =
     (case m_edns m of None \<Rightarrow> m
      | Some e \<Rightarrow>
          let has_options = (ed_options e \<noteq> []);
              over_max = (MAX_UDP_PAYLOAD < ed_max_payload e)
          in if \<not> has_options \<and> \<not> over_max then m
             else m\<lparr>m_edns := Some ((edns_default dx)
                      \<lparr>ed_version := ed_version e,
                       ed_max_payload := edns_payload_set dx (min (ed_max_payload e) MAX_UDP_PAYLOAD),
                       ed_dnssec_ok := ed_dnssec_ok e\<rparr>)\<rparr>)"

definition matches_query :: "dns_ext \<Rightarrow> message \<Rightarrow> message \<Rightarrow> bool" where
  "matches_query dx query response =
     (if m_id query \<noteq> m_id response then False
      else case (m_queries query, m_queries response) of
        (q # _, r # _) \<Rightarrow>
          qry_type q = qry_type r \<and> qry_class q = qry_class r
          \<and> name_eq_ignore_root dx (qry_name q) (qry_name r)
      | (_ # _, []) \<Rightarrow> True
      | ([], _) \<Rightarrow> False)"

subsection \<open>Properties\<close>

text \<open>
  \<open>edns_laws\<close>: a fresh \<open>Edns\<close> has no options, and setting a payload size below 4096 keeps it
  so.
\<close>

definition edns_laws :: "dns_ext \<Rightarrow> bool" where
  "edns_laws dx \<longleftrightarrow>
     ed_options (edns_default dx) = []
     \<and> (\<forall>n. n \<le> MAX_UDP_PAYLOAD \<longrightarrow> edns_payload_set dx n \<le> MAX_UDP_PAYLOAD)"

lemma normalize_key: "key_from_message (normalize_upstream_edns dx m) = key_from_message m"
  by (simp add: normalize_upstream_edns_def key_from_message_def dnssec_ok_def Let_def
      split: option.split list.split)

lemma normalize_clean:
  assumes "edns_laws dx"
  shows "case m_edns (normalize_upstream_edns dx m) of None \<Rightarrow> m_edns m = None
     | Some e \<Rightarrow> ed_options e = [] \<and> ed_max_payload e \<le> MAX_UDP_PAYLOAD
         \<and> ed_dnssec_ok e = dnssec_ok m"
  using assms
  by (auto simp: normalize_upstream_edns_def edns_laws_def dnssec_ok_def Let_def not_less
      split: option.split)

lemma normalize_idempotent:
  assumes "edns_laws dx"
  shows "normalize_upstream_edns dx (normalize_upstream_edns dx m) = normalize_upstream_edns dx m"
proof -
  let ?m = "normalize_upstream_edns dx m"
  have "normalize_upstream_edns dx ?m = ?m"
    using normalize_clean [OF assms, of m]
    by (subst normalize_upstream_edns_def) (auto simp: Let_def not_less split: option.split)
  then show ?thesis .
qed

end
