(* ===== verification/Block_Response.thy ===== *)
theory Block_Response
  imports Config Dns_Message Filter_Rule
begin

text \<open>
  Synthesized responses, \<open>crates/bulwark-engine/src/block.rs\<close>: blocked, rewritten and error
  answers built from the query alone.
\<close>

subsection \<open>Model\<close>

definition base :: "message \<Rightarrow> message" where
  "base query =
     (let m = new_message (m_id query) MtResponse (m_op_code query);
          m = m\<lparr>m_recursion_desired := m_recursion_desired query\<rparr>;
          m = m\<lparr>m_recursion_available := True\<rparr>;
          m = m\<lparr>m_queries := m_queries m @ m_queries query\<rparr>
      in case m_edns query of None \<Rightarrow> m | Some e \<Rightarrow> m\<lparr>m_edns := Some e\<rparr>)"

definition qtype :: "message \<Rightarrow> u16" where
  "qtype query = (case m_queries query of [] \<Rightarrow> T_A | q # _ \<Rightarrow> qry_type q)"

definition qname :: "message \<Rightarrow> dname" where
  "qname query = (case m_queries query of [] \<Rightarrow> root_name | q # _ \<Rightarrow> qry_name q)"

definition push_answer :: "message \<Rightarrow> dns_record \<Rightarrow> message" where
  "push_answer m r = m\<lparr>m_answers := m_answers m @ [r]\<rparr>"

definition push_authority :: "message \<Rightarrow> dns_record \<Rightarrow> message" where
  "push_authority m r = m\<lparr>m_authorities := m_authorities m @ [r]\<rparr>"

definition push_ip :: "message \<Rightarrow> dname \<Rightarrow> u32 \<Rightarrow> u32 \<Rightarrow> 128 word \<Rightarrow> message" where
  "push_ip m name ttl v4 v6 =
     (if qtype m = T_A then push_answer m (from_rdata name ttl (RD_A v4))
      else if qtype m = T_AAAA then push_answer m (from_rdata name ttl (RD_AAAA v6))
      else m)"

definition I32_MAX :: u32 where
  "I32_MAX = 0x7FFFFFFF"

text \<open>\<open>i32::saturating_mul\<close>.\<close>

definition saturating_mul32 :: "32 word \<Rightarrow> int \<Rightarrow> 32 word" where
  "saturating_mul32 a k = word_of_int (max (- (2 ^ 31)) (min (2 ^ 31 - 1) (sint a * k)))"

definition negative_soa :: "dns_ext \<Rightarrow> dname \<Rightarrow> u32 \<Rightarrow> dns_record" where
  "negative_soa dx name ttl =
     (let mname = (case name_from_str dx ''fake-for-negative-caching.bulwark.invalid.'' of
                     Some n \<Rightarrow> n | None \<Rightarrow> root_name);
          rname = (case name_from_str dx ''hostmaster.bulwark.invalid.'' of
                     Some n \<Rightarrow> n | None \<Rightarrow> root_name);
          secs = min ttl I32_MAX
      in from_rdata name ttl (RD_SOA
           \<lparr>soa_mname = mname, soa_rname = rname, soa_serial = 1, soa_refresh = secs,
            soa_retry = secs, soa_expire = saturating_mul32 secs 10, soa_minimum = ttl\<rparr>))"

definition block_response ::
  "dns_ext \<Rightarrow> message \<Rightarrow> blocking_mode \<Rightarrow> u32 \<Rightarrow> 128 word \<Rightarrow> u32 \<Rightarrow> message" where
  "block_response dx query mode custom_v4 custom_v6 ttl =
     (let m = base query; name = qname query in
      case mode of
        NxDomainMode \<Rightarrow> push_authority (m\<lparr>m_response_code := RC_NXDomain\<rparr>) (negative_soa dx name ttl)
      | RefusedMode \<Rightarrow> m\<lparr>m_response_code := RC_Refused\<rparr>
      | NoData \<Rightarrow> push_authority m (negative_soa dx name ttl)
      | NullIp \<Rightarrow> push_ip m name ttl 0 0
      | CustomIp \<Rightarrow> push_ip m name ttl custom_v4 custom_v6)"

datatype rewritten = RwDone message | ResolveCname message dname

definition name_or_root :: "dns_ext \<Rightarrow> string \<Rightarrow> dname" where
  "name_or_root dx s = (case name_from_str dx s of Some n \<Rightarrow> n | None \<Rightarrow> root_name)"

fun rewrite_rcode_code :: "rewrite_rcode \<Rightarrow> u16" where
  "rewrite_rcode_code NoError = RC_NoError"
| "rewrite_rcode_code NxDomain = RC_NXDomain"
| "rewrite_rcode_code Refused = RC_Refused"
| "rewrite_rcode_code ServFail = RC_ServFail"

definition rewrite_response :: "dns_ext \<Rightarrow> message \<Rightarrow> rewrite_data \<Rightarrow> u32 \<Rightarrow> rewritten" where
  "rewrite_response dx query data ttl =
     (let m = base query; name = qname query; qt = qtype query in
      case data of
        RwA ip \<Rightarrow>
          RwDone (if qt = T_A then push_answer m (from_rdata name ttl (RD_A ip)) else m)
      | RwAaaa ip \<Rightarrow>
          RwDone (if qt = T_AAAA then push_answer m (from_rdata name ttl (RD_AAAA ip)) else m)
      | RwTxt t \<Rightarrow>
          RwDone (if qt = T_TXT then push_answer m (from_rdata name ttl (RD_TXT [t])) else m)
      | RwMx preference exchange \<Rightarrow>
          RwDone (if qt = T_MX
                  then push_answer m (from_rdata name ttl (RD_MX preference (name_or_root dx exchange)))
                  else m)
      | RwPtr target \<Rightarrow>
          RwDone (if qt = T_PTR
                  then push_answer m (from_rdata name ttl (RD_PTR (name_or_root dx target)))
                  else m)
      | RwRcode rc \<Rightarrow> RwDone (m\<lparr>m_response_code := rewrite_rcode_code rc\<rparr>)
      | RwCname target \<Rightarrow>
          let target_name = name_or_root dx target;
              m = push_answer m (from_rdata name ttl (RD_CNAME target_name))
          in if qt = T_A \<or> qt = T_AAAA then ResolveCname m target_name else RwDone m)"

definition error_response :: "message \<Rightarrow> u16 \<Rightarrow> message" where
  "error_response query rcode = (base query)\<lparr>m_response_code := rcode\<rparr>"

subsection \<open>Every synthesized message answers its query\<close>

text \<open>
  \<open>answers_query query m\<close>: a response to the query, with its id, opcode, question section,
  recursion bit and EDNS record, not truncated, and nothing in the additional section.
\<close>

definition answers_query :: "message \<Rightarrow> message \<Rightarrow> bool" where
  "answers_query query m \<longleftrightarrow>
     m_id m = m_id query \<and> m_type m = MtResponse \<and> m_op_code m = m_op_code query
     \<and> m_queries m = m_queries query \<and> m_recursion_desired m = m_recursion_desired query
     \<and> m_recursion_available m \<and> \<not> m_truncation m \<and> m_edns m = m_edns query
     \<and> m_additionals m = []"

lemma base_parts [simp]:
  "answers_query query (base query)" "m_answers (base query) = []" "m_authorities (base query) = []"
  "m_response_code (base query) = RC_NoError" "qtype (base query) = qtype query"
  by (simp_all add: base_def new_message_def answers_query_def qtype_def Let_def split: option.split)

lemma push_parts [simp]:
  "answers_query q (push_answer m r) = answers_query q m"
  "answers_query q (push_authority m r) = answers_query q m"
  "answers_query q (m\<lparr>m_response_code := c\<rparr>) = answers_query q m"
  "m_answers (push_answer m r) = m_answers m @ [r]" "m_authorities (push_answer m r) = m_authorities m"
  "m_answers (push_authority m r) = m_answers m"
  "m_authorities (push_authority m r) = m_authorities m @ [r]"
  "m_response_code (push_answer m r) = m_response_code m"
  "m_response_code (push_authority m r) = m_response_code m"
  by (simp_all add: push_answer_def push_authority_def answers_query_def)

text \<open>The address a blocking mode answers with, for a query of the given type.\<close>

definition block_rdata :: "blocking_mode \<Rightarrow> u32 \<Rightarrow> 128 word \<Rightarrow> u16 \<Rightarrow> rdata option" where
  "block_rdata mode v4 v6 t =
     (if mode \<noteq> NullIp \<and> mode \<noteq> CustomIp then None
      else if t = T_A then Some (RD_A (if mode = NullIp then 0 else v4))
      else if t = T_AAAA then Some (RD_AAAA (if mode = NullIp then 0 else v6))
      else None)"

lemma block_response_shape:
  "answers_query query (block_response dx query mode v4 v6 ttl)"
  "m_response_code (block_response dx query mode v4 v6 ttl) =
     (case mode of NxDomainMode \<Rightarrow> RC_NXDomain | RefusedMode \<Rightarrow> RC_Refused | _ \<Rightarrow> RC_NoError)"
  "m_answers (block_response dx query mode v4 v6 ttl) =
     (case block_rdata mode v4 v6 (qtype query) of None \<Rightarrow> []
      | Some d \<Rightarrow> [from_rdata (qname query) ttl d])"
  "m_authorities (block_response dx query mode v4 v6 ttl) =
     (if mode = NxDomainMode \<or> mode = NoData then [negative_soa dx (qname query) ttl] else [])"
  by (auto simp: block_response_def push_ip_def block_rdata_def Let_def split: blocking_mode.split)

lemma sint_min_I32: "0 \<le> sint (min ttl I32_MAX)" "sint (min ttl I32_MAX) = uint (min ttl I32_MAX)"
proof -
  have "uint (min ttl I32_MAX) < 2 ^ 31"
    by (auto simp: min_def I32_MAX_def word_le_def)
  moreover have "- (2 ^ 31) \<le> uint (min ttl I32_MAX)" by (rule order_trans [of _ 0]) simp_all
  ultimately have "signed_take_bit 31 (uint (min ttl I32_MAX)) = uint (min ttl I32_MAX)"
    by (intro signed_take_bit_int_eq_self) auto
  then show "sint (min ttl I32_MAX) = uint (min ttl I32_MAX)" by (simp add: sint_uint)
  then show "0 \<le> sint (min ttl I32_MAX)" by simp
qed

lemma sint_saturating_mul32:
  "sint (saturating_mul32 a k) = max (- (2 ^ 31)) (min (2 ^ 31 - 1) (sint a * k))"
proof -
  let ?i = "max (- (2 ^ 31)) (min (2 ^ 31 - 1) (sint a * k)) :: int"
  have "- (2 ^ 31) \<le> ?i" "?i < 2 ^ 31" by auto
  then have "signed_take_bit 31 ?i = ?i" by (intro signed_take_bit_int_eq_self) auto
  then show ?thesis by (simp add: saturating_mul32_def sint_sbintrunc')
qed

text \<open>
  The negative-caching record: its minimum is the block TTL, and its signed timers are never
  negative, whatever the configured TTL.
\<close>

lemma negative_soa_timers:
  obtains s where "r_data (negative_soa dx name ttl) = RD_SOA s" "soa_minimum s = ttl"
    "r_ttl (negative_soa dx name ttl) = ttl" "r_name (negative_soa dx name ttl) = name"
    "sint (soa_refresh s) = min (uint ttl) (2 ^ 31 - 1)" "soa_retry s = soa_refresh s"
    "sint (soa_expire s) = min (2 ^ 31 - 1) (10 * sint (soa_refresh s))"
proof
  let ?s = "\<lparr>soa_mname = name_or_root dx ''fake-for-negative-caching.bulwark.invalid.'',
     soa_rname = name_or_root dx ''hostmaster.bulwark.invalid.'', soa_serial = 1,
     soa_refresh = min ttl I32_MAX, soa_retry = min ttl I32_MAX,
     soa_expire = saturating_mul32 (min ttl I32_MAX) 10, soa_minimum = ttl\<rparr>"
  show "r_data (negative_soa dx name ttl) = RD_SOA ?s" "r_ttl (negative_soa dx name ttl) = ttl"
    "r_name (negative_soa dx name ttl) = name"
    by (simp_all add: negative_soa_def name_or_root_def from_rdata_def Let_def)
  show "sint (soa_refresh ?s) = min (uint ttl) (2 ^ 31 - 1)"
    by (simp add: sint_min_I32) (auto simp: min_def I32_MAX_def word_le_def)
  show "sint (soa_expire ?s) = min (2 ^ 31 - 1) (10 * sint (soa_refresh ?s))"
    using sint_min_I32(1) [of ttl] by (simp add: sint_saturating_mul32 min_def max_def mult.commute)
qed simp_all

subsection \<open>Rewrites\<close>

text \<open>The record a rewrite answers with, for a query of the given type.\<close>

fun rewrite_rdata :: "dns_ext \<Rightarrow> rewrite_data \<Rightarrow> u16 \<Rightarrow> rdata option" where
  "rewrite_rdata dx (RwA ip) t = (if t = T_A then Some (RD_A ip) else None)"
| "rewrite_rdata dx (RwAaaa ip) t = (if t = T_AAAA then Some (RD_AAAA ip) else None)"
| "rewrite_rdata dx (RwTxt s) t = (if t = T_TXT then Some (RD_TXT [s]) else None)"
| "rewrite_rdata dx (RwMx p e) t = (if t = T_MX then Some (RD_MX p (name_or_root dx e)) else None)"
| "rewrite_rdata dx (RwPtr s) t = (if t = T_PTR then Some (RD_PTR (name_or_root dx s)) else None)"
| "rewrite_rdata dx (RwRcode _) t = None"
| "rewrite_rdata dx (RwCname s) t = Some (RD_CNAME (name_or_root dx s))"

fun rewritten_message :: "rewritten \<Rightarrow> message" where
  "rewritten_message (RwDone m) = m"
| "rewritten_message (ResolveCname m _) = m"

lemma rewrite_response_shape:
  fixes dx query data ttl
  defines "m \<equiv> rewritten_message (rewrite_response dx query data ttl)"
  shows "answers_query query m" "m_authorities m = []"
    "m_answers m = (case rewrite_rdata dx data (qtype query) of None \<Rightarrow> []
       | Some d \<Rightarrow> [from_rdata (qname query) ttl d])"
    "m_response_code m = (case data of RwRcode rc \<Rightarrow> rewrite_rcode_code rc | _ \<Rightarrow> RC_NoError)"
  by (auto simp: m_def rewrite_response_def Let_def split: rewrite_data.split)

text \<open>An address rewrite never answers with a record of a type the query did not ask for.\<close>

lemma rewrite_rdata_type:
  "rewrite_rdata dx data t = Some d \<Longrightarrow> rdata_type d = t \<or> (\<exists>s. data = RwCname s)"
  by (cases data) (auto split: if_splits)

lemma resolve_cname_iff:
  "(\<exists>m n. rewrite_response dx query data ttl = ResolveCname m n) \<longleftrightarrow>
     (\<exists>s. data = RwCname s) \<and> (qtype query = T_A \<or> qtype query = T_AAAA)"
  by (auto simp: rewrite_response_def Let_def split: rewrite_data.split)

lemma error_response_shape:
  "answers_query query (error_response query c)" "m_answers (error_response query c) = []"
  "m_authorities (error_response query c) = []" "m_response_code (error_response query c) = c"
  by (simp_all add: error_response_def)

text \<open>A synthesized message passes the match that the upstream pool applies to responses.\<close>

lemma answers_query_matches:
  assumes "answers_query query m" "m_queries query \<noteq> []"
    and "\<forall>n. name_eq_ignore_root dx n n"
  shows "matches_query dx query m"
  using assms by (cases "m_queries query") (auto simp: answers_query_def matches_query_def)

end
