(* ===== verification/Client_Matcher.thy ===== *)
theory Client_Matcher
  imports Config Filter_Rule
begin

text \<open>
  Client identification, \<open>crates/bulwark-engine/src/clients.rs\<close>: source addresses to client
  settings, by exact address first and by the longest matching CIDR block otherwise. The
  \<open>ipnet\<close> crate's parser and containment test are the fields \<open>net_parse\<close> and \<open>net_contains\<close> of
  \<open>filter_ext\<close>.
\<close>

subsection \<open>Model\<close>

record client_entry =
  ce_name :: string
  ce_nets :: "ip_net list"
  ce_tags :: "string list"
  ce_filtering_enabled :: bool

record resolved_client =
  rc_ip :: ip_addr
  rc_name :: "string option"
  rc_tags :: "string list"
  rc_filtering_enabled :: bool

definition label :: "resolved_client \<Rightarrow> string" where
  "label c = (case rc_name c of Some name \<Rightarrow> name | None \<Rightarrow> show_ip (rc_ip c))"

record client_matcher =
  cm_hosts :: "ip_addr \<rightharpoonup> nat"
  cm_entries :: "client_entry list"

fun prefix_len :: "ip_net \<Rightarrow> nat" where
  "prefix_len (IpNet _ n) = n"

text \<open>One id string of the client at position \<open>idx\<close>: an address, a block, or skipped.\<close>

definition add_client_id ::
  "filter_ext \<Rightarrow> nat \<Rightarrow> (ip_addr \<rightharpoonup> nat) \<times> ip_net list \<Rightarrow> string \<Rightarrow> (ip_addr \<rightharpoonup> nat) \<times> ip_net list" where
  "add_client_id fx idx acc i =
     (case acc of (hosts, nets) \<Rightarrow>
        case parse_ip i of
          Some ip \<Rightarrow> (case hosts ip of None \<Rightarrow> (hosts(ip \<mapsto> idx), nets) | Some _ \<Rightarrow> (hosts, nets))
        | None \<Rightarrow> (case net_parse fx i of Some net \<Rightarrow> (hosts, nets @ [net]) | None \<Rightarrow> (hosts, nets)))"

definition add_client :: "filter_ext \<Rightarrow> client_matcher \<Rightarrow> client_config \<Rightarrow> client_matcher" where
  "add_client fx m c =
     (case foldl (add_client_id fx (length (cm_entries m))) (cm_hosts m, []) (cl_ids c) of
        (hosts, nets) \<Rightarrow>
          \<lparr>cm_hosts = hosts,
           cm_entries = cm_entries m @
             [\<lparr>ce_name = cl_name c, ce_nets = nets, ce_tags = cl_tags c,
               ce_filtering_enabled = cl_filtering_enabled c\<rparr>]\<rparr>)"

definition build_clients :: "filter_ext \<Rightarrow> client_config list \<Rightarrow> client_matcher" where
  "build_clients fx clients = foldl (add_client fx) \<lparr>cm_hosts = Map.empty, cm_entries = []\<rparr> clients"

text \<open>The longest prefix of an entry's blocks that contain the address.\<close>

definition entry_prefix :: "filter_ext \<Rightarrow> ip_addr \<Rightarrow> ip_net list \<Rightarrow> nat option" where
  "entry_prefix fx ip nets =
     (case map prefix_len (filter (\<lambda>n. net_contains fx n ip) nets) of
        [] \<Rightarrow> None | p # ps \<Rightarrow> Some (foldl max p ps))"

definition better :: "filter_ext \<Rightarrow> ip_addr \<Rightarrow> (nat \<times> client_entry) option \<Rightarrow> client_entry
    \<Rightarrow> (nat \<times> client_entry) option" where
  "better fx ip best e =
     (case entry_prefix fx ip (ce_nets e) of
        None \<Rightarrow> best
      | Some plen \<Rightarrow> (case best of None \<Rightarrow> Some (plen, e)
                      | Some (b, _) \<Rightarrow> if b < plen then Some (plen, e) else best))"

definition best_match :: "filter_ext \<Rightarrow> client_matcher \<Rightarrow> ip_addr \<Rightarrow> client_entry option" where
  "best_match fx m ip =
     (case cm_hosts m ip of
        Some idx \<Rightarrow> Some (cm_entries m ! idx)
      | None \<Rightarrow> map_option snd (foldl (better fx ip) None (cm_entries m)))"

definition identify :: "filter_ext \<Rightarrow> client_matcher \<Rightarrow> ip_addr \<Rightarrow> resolved_client" where
  "identify fx m ip =
     (case best_match fx m ip of
        Some e \<Rightarrow> \<lparr>rc_ip = ip, rc_name = Some (ce_name e), rc_tags = ce_tags e,
                   rc_filtering_enabled = ce_filtering_enabled e\<rparr>
      | None \<Rightarrow> \<lparr>rc_ip = ip, rc_name = None, rc_tags = [], rc_filtering_enabled = True\<rparr>)"

definition name_for :: "filter_ext \<Rightarrow> client_matcher \<Rightarrow> ip_addr \<Rightarrow> string option" where
  "name_for fx m ip = map_option ce_name (best_match fx m ip)"

definition name_for_str :: "filter_ext \<Rightarrow> client_matcher \<Rightarrow> string \<Rightarrow> string option" where
  "name_for_str fx m ip = Option.bind (parse_ip ip) (name_for fx m)"

subsection \<open>The configured meaning\<close>

definition lists_ip :: "client_config \<Rightarrow> ip_addr \<Rightarrow> bool" where
  "lists_ip c ip \<longleftrightarrow> (\<exists>i \<in> set (cl_ids c). parse_ip i = Some ip)"

definition client_nets :: "filter_ext \<Rightarrow> client_config \<Rightarrow> ip_net list" where
  "client_nets fx c = List.map_filter (net_parse fx) (filter (\<lambda>i. parse_ip i = None) (cl_ids c))"

definition client_prefix :: "filter_ext \<Rightarrow> ip_addr \<Rightarrow> client_config \<Rightarrow> nat option" where
  "client_prefix fx ip c = entry_prefix fx ip (client_nets fx c)"

text \<open>
  Client \<open>i\<close> is the one for \<open>ip\<close>: the first that lists the address, or, when none does, the
  first of those whose longest matching block is longest.
\<close>

definition client_for :: "filter_ext \<Rightarrow> client_config list \<Rightarrow> ip_addr \<Rightarrow> nat \<Rightarrow> bool" where
  "client_for fx cs ip i \<longleftrightarrow>
     i < length cs
     \<and> (if \<exists>c \<in> set cs. lists_ip c ip then lists_ip (cs ! i) ip \<and> (\<forall>j < i. \<not> lists_ip (cs ! j) ip)
        else \<exists>p. client_prefix fx ip (cs ! i) = Some p
          \<and> (\<forall>j < length cs. \<forall>q. client_prefix fx ip (cs ! j) = Some q \<longrightarrow> q \<le> p \<and> (j < i \<longrightarrow> q < p)))"

subsection \<open>The matcher built from a configuration\<close>

definition entry_of :: "filter_ext \<Rightarrow> client_config \<Rightarrow> client_entry" where
  "entry_of fx c =
     \<lparr>ce_name = cl_name c, ce_nets = client_nets fx c, ce_tags = cl_tags c,
      ce_filtering_enabled = cl_filtering_enabled c\<rparr>"

lemma fold_client_ids:
  "foldl (add_client_id fx idx) (hosts, nets) ids =
     (\<lambda>ip. case hosts ip of Some i \<Rightarrow> Some i
           | None \<Rightarrow> if \<exists>i \<in> set ids. parse_ip i = Some ip then Some idx else None,
      nets @ List.map_filter (net_parse fx) (filter (\<lambda>i. parse_ip i = None) ids))"
proof (induction ids arbitrary: hosts nets)
  case (Cons i ids)
  have "add_client_id fx idx (hosts, nets) i =
     (\<lambda>ip. case hosts ip of Some k \<Rightarrow> Some k
           | None \<Rightarrow> if parse_ip i = Some ip then Some idx else None,
      nets @ List.map_filter (net_parse fx) (filter (\<lambda>i. parse_ip i = None) [i]))"
    by (auto simp: add_client_id_def List.map_filter_simps fun_eq_iff split: option.split)
  then show ?case
    by (auto simp: Cons.IH List.map_filter_simps fun_eq_iff split: option.split)
qed (auto simp: List.map_filter_simps fun_eq_iff split: option.split)

text \<open>The first client that lists an address, as the map of exact hosts has it.\<close>

fun first_listing :: "client_config list \<Rightarrow> ip_addr \<Rightarrow> nat option" where
  "first_listing [] ip = None"
| "first_listing (c # cs) ip =
     (if lists_ip c ip then Some 0 else map_option Suc (first_listing cs ip))"

lemma first_listing_snoc:
  "first_listing (cs @ [c]) ip =
     (case first_listing cs ip of Some i \<Rightarrow> Some i
      | None \<Rightarrow> if lists_ip c ip then Some (length cs) else None)"
  by (induction cs) (auto split: option.split)

lemma first_listing_Some:
  "first_listing cs ip = Some i \<longleftrightarrow>
     i < length cs \<and> lists_ip (cs ! i) ip \<and> (\<forall>j < i. \<not> lists_ip (cs ! j) ip)"
proof (induction cs arbitrary: i)
  case (Cons c cs)
  then show ?case by (cases i) (auto simp: less_Suc_eq_0_disj)
qed simp

lemma first_listing_None: "first_listing cs ip = None \<longleftrightarrow> (\<forall>c \<in> set cs. \<not> lists_ip c ip)"
  by (induction cs) auto

lemma build_clients_parts:
  "cm_hosts (build_clients fx cs) = first_listing cs"
  "cm_entries (build_clients fx cs) = map (entry_of fx) cs"
proof (induction cs rule: rev_induct)
  case (snoc c cs)
  case 1
  then show ?case using snoc
    by (simp add: build_clients_def add_client_def fold_client_ids first_listing_snoc lists_ip_def fun_eq_iff
        split: option.split)
  case 2
  then show ?case using snoc
    by (simp add: build_clients_def add_client_def fold_client_ids entry_of_def client_nets_def)
qed (simp_all add: build_clients_def fun_eq_iff)

subsection \<open>The longest prefix\<close>

text \<open>The best of the entries read so far: a first maximum of the prefix lengths.\<close>

definition first_max :: "('a \<Rightarrow> nat option) \<Rightarrow> 'a list \<Rightarrow> nat \<Rightarrow> nat \<Rightarrow> bool" where
  "first_max f xs i p \<longleftrightarrow>
     i < length xs \<and> f (xs ! i) = Some p
     \<and> (\<forall>j < length xs. \<forall>q. f (xs ! j) = Some q \<longrightarrow> q \<le> p \<and> (j < i \<longrightarrow> q < p))"

lemma first_max_snoc_keep:
  assumes "first_max f xs i p" "\<forall>q. f x = Some q \<longrightarrow> q \<le> p"
  shows "first_max f (xs @ [x]) i p"
  using assms by (auto simp: first_max_def nth_append less_Suc_eq)

lemma first_max_snoc_new:
  assumes "f x = Some p" "\<forall>y \<in> set xs. \<forall>q. f y = Some q \<longrightarrow> q < p"
  shows "first_max f (xs @ [x]) (length xs) p"
  using assms by (auto simp: first_max_def nth_append less_Suc_eq dest: nth_mem intro: less_imp_le)

lemma better_simps:
  "entry_prefix fx ip (ce_nets e) = None \<Longrightarrow> better fx ip b e = b"
  "entry_prefix fx ip (ce_nets e) = Some p \<Longrightarrow> better fx ip None e = Some (p, e)"
  "entry_prefix fx ip (ce_nets e) = Some p \<Longrightarrow>
     better fx ip (Some (q, c)) e = (if q < p then Some (p, e) else Some (q, c))"
  by (simp_all add: better_def)

lemma fold_better:
  "case foldl (better fx ip) None es of
     None \<Rightarrow> \<forall>e \<in> set es. entry_prefix fx ip (ce_nets e) = None
   | Some (p, e) \<Rightarrow> \<exists>i. first_max (\<lambda>e. entry_prefix fx ip (ce_nets e)) es i p \<and> e = es ! i"
proof (induction es rule: rev_induct)
  case (snoc e es)
  let ?f = "\<lambda>e. entry_prefix fx ip (ce_nets e)"
  let ?b = "foldl (better fx ip) None es"
  have step: "foldl (better fx ip) None (es @ [e]) = better fx ip ?b e" by simp
  have keep: "\<exists>i. first_max ?f (es @ [e]) i p \<and> b = (es @ [e]) ! i"
    if b: "?b = Some (p, b)" and q: "\<forall>q. ?f e = Some q \<longrightarrow> q \<le> p" for p b
  proof -
    from b snoc obtain i where i: "first_max ?f es i p" "b = es ! i" by auto
    moreover have "i < length es" using i(1) by (simp add: first_max_def)
    ultimately show ?thesis using first_max_snoc_keep [OF i(1) q] by (intro exI [of _ i]) (simp add: nth_append)
  qed
  have new: "first_max ?f (es @ [e]) (length es) p \<and> e = (es @ [e]) ! length es"
    if "?f e = Some p" "\<forall>y \<in> set es. \<forall>q. ?f y = Some q \<longrightarrow> q < p" for p
    using first_max_snoc_new [of ?f e p es] that by simp
  show ?case
  proof (cases "?f e")
    case None
    then show ?thesis using snoc keep unfolding step better_simps(1) [OF None]
      by (cases ?b) auto
  next
    case (Some p)
    show ?thesis
    proof (cases ?b)
      case None
      with snoc new [OF Some] show ?thesis unfolding step None better_simps(2) [OF Some] by auto
    next
      case b: (Some bp)
      obtain q c where bp: "bp = (q, c)" by fastforce
      with snoc b obtain i where "first_max ?f es i q" by auto
      then have "\<forall>y \<in> set es. \<forall>r. ?f y = Some r \<longrightarrow> r \<le> q" by (auto simp: first_max_def in_set_conv_nth)
      then show ?thesis using new [OF Some] keep [of q c] Some
        unfolding step b bp better_simps(3) [OF Some] by (cases "q < p") fastforce+
    qed
  qed
qed simp

lemma best_match_client:
  "case best_match fx (build_clients fx cs) ip of
     Some e \<Rightarrow> \<exists>i. client_for fx cs ip i \<and> e = entry_of fx (cs ! i)
   | None \<Rightarrow> \<forall>c \<in> set cs. \<not> lists_ip c ip \<and> client_prefix fx ip c = None"
proof (cases "first_listing cs ip")
  case (Some i)
  then have "client_for fx cs ip i" by (auto simp: first_listing_Some client_for_def)
  moreover from this have "i < length cs" by (simp add: client_for_def)
  ultimately show ?thesis using Some by (auto simp: best_match_def build_clients_parts)
next
  case None
  then have none: "\<forall>c \<in> set cs. \<not> lists_ip c ip" by (simp add: first_listing_None)
  have pre: "entry_prefix fx ip (ce_nets (entry_of fx c)) = client_prefix fx ip c" for c
    by (simp add: entry_of_def client_prefix_def)
  have "\<exists>i. client_for fx cs ip i \<and> e = entry_of fx (cs ! i)"
    if "first_max (\<lambda>e. entry_prefix fx ip (ce_nets e)) (map (entry_of fx) cs) i p" "e = map (entry_of fx) cs ! i"
    for i p e
    using that none by (intro exI [of _ i]) (auto simp: first_max_def client_for_def pre)
  then show ?thesis using fold_better [where fx = fx and ip = ip and es = "map (entry_of fx) cs"] None none
    by (auto simp: best_match_def build_clients_parts pre split: option.split prod.split)
qed

lemma client_for_not_less:
  assumes "client_for fx cs ip i" "client_for fx cs ip j"
  shows "\<not> i < j"
proof
  assume less: "i < j"
  show False
  proof (cases "\<exists>c \<in> set cs. lists_ip c ip")
    case True
    with assms less show False by (simp add: client_for_def)
  next
    case False
    let ?b = "\<lambda>i p. \<forall>k < length cs. \<forall>r. client_prefix fx ip (cs ! k) = Some r \<longrightarrow> r \<le> p \<and> (k < i \<longrightarrow> r < p)"
    from False assms obtain p q where p: "client_prefix fx ip (cs ! i) = Some p" "?b i p"
      and q: "client_prefix fx ip (cs ! j) = Some q" "?b j q" and len: "i < length cs" "j < length cs"
      unfolding client_for_def by auto
    have "q \<le> p" using p(2) q(1) len(2) by blast
    moreover have "p < q" using q(2) p(1) len(1) less by blast
    ultimately show False by simp
  qed
qed

lemma client_for_unique: "client_for fx cs ip i \<Longrightarrow> client_for fx cs ip j \<Longrightarrow> i = j"
  using client_for_not_less by (meson linorder_neqE_nat)

text \<open>A configured client with its settings, or the unnamed client with filtering on.\<close>

lemma identify_client:
  assumes "client_for fx cs ip i"
  shows "identify fx (build_clients fx cs) ip =
     \<lparr>rc_ip = ip, rc_name = Some (cl_name (cs ! i)), rc_tags = cl_tags (cs ! i),
      rc_filtering_enabled = cl_filtering_enabled (cs ! i)\<rparr>"
proof -
  have "i < length cs" "lists_ip (cs ! i) ip \<or> client_prefix fx ip (cs ! i) \<noteq> None"
    using assms by (auto simp: client_for_def split: if_splits)
  then have "\<not> (\<forall>c \<in> set cs. \<not> lists_ip c ip \<and> client_prefix fx ip c = None)" by (meson nth_mem)
  then obtain e where "best_match fx (build_clients fx cs) ip = Some e"
    using best_match_client [where fx = fx and cs = cs and ip = ip] by (auto split: option.splits)
  then show ?thesis using best_match_client [where fx = fx and cs = cs and ip = ip] client_for_unique [OF assms]
    by (auto simp: identify_def entry_of_def)
qed

lemma identify_unknown:
  assumes "\<forall>i. \<not> client_for fx cs ip i"
  shows "identify fx (build_clients fx cs) ip =
     \<lparr>rc_ip = ip, rc_name = None, rc_tags = [], rc_filtering_enabled = True\<rparr>"
  using best_match_client [where fx = fx and cs = cs and ip = ip] assms by (auto simp: identify_def split: option.splits)

end
