(* ===== verification/Heavy_Hitters.thy ===== *)
theory Heavy_Hitters
  imports Bulwark_Prelude "HOL-Library.AList" "HOL-Library.Multiset"
begin

text \<open>
  The bounded frequency estimator of \<open>crates/bulwark-engine/src/stats.rs\<close>, \<open>HeavyHitters\<close>: the
  Space-Saving algorithm over a hash map of counts. A hash map is an association list with
  distinct keys; the order in which it is iterated is a parameter \<open>ord\<close>, of which only
  \<open>order_laws\<close> is known: every entry comes exactly once.
\<close>

type_synonym counts = "(string \<times> u64) list"

subsection \<open>Model\<close>

text \<open>\<open>entry(k).or_insert(0) += v\<close>.\<close>

definition add_count :: "string \<Rightarrow> u64 \<Rightarrow> counts \<Rightarrow> counts" where
  "add_count k v m = AList.update k ((case map_of m k of Some c \<Rightarrow> c | None \<Rightarrow> 0) + v) m"

text \<open>\<open>min_by_key\<close> on the counts: the first entry with the least count.\<close>

fun min_entry_from :: "string \<times> u64 \<Rightarrow> counts \<Rightarrow> string \<times> u64" where
  "min_entry_from b [] = b"
| "min_entry_from b (x # xs) = min_entry_from (if snd x < snd b then x else b) xs"

fun min_entry :: "counts \<Rightarrow> (string \<times> u64) option" where
  "min_entry [] = None"
| "min_entry (x # xs) = Some (min_entry_from x xs)"

definition hh_bump :: "(counts \<Rightarrow> counts) \<Rightarrow> string \<Rightarrow> u64 \<Rightarrow> nat \<Rightarrow> counts \<Rightarrow> counts" where
  "hh_bump ord key by cap m =
     (case map_of m key of
        Some v \<Rightarrow> AList.update key (v + by) m
      | None \<Rightarrow>
          if length m < cap then AList.update key by m
          else (case min_entry (ord m) of
                  None \<Rightarrow> m
                | Some (min_key, min_val) \<Rightarrow>
                    AList.update key (min_val + by) (AList.delete min_key m)))"

definition hh_merge :: "(counts \<Rightarrow> counts) \<Rightarrow> counts \<Rightarrow> counts \<Rightarrow> counts" where
  "hh_merge ord dst src = foldl (\<lambda>d (k, v). add_count k v d) dst (ord src)"

definition bump :: "counts \<Rightarrow> string \<Rightarrow> u64 \<Rightarrow> nat \<Rightarrow> counts" where
  "bump m key by cap =
     (case map_of m key of
        Some v \<Rightarrow> AList.update key (v + by) m
      | None \<Rightarrow> if length m < cap then AList.update key by m else m)"

subsection \<open>Iteration order and association lists\<close>

definition order_laws :: "('a list \<Rightarrow> 'a list) \<Rightarrow> bool" where
  "order_laws ord \<longleftrightarrow> (\<forall>xs. mset (ord xs) = mset xs)"

lemma order_set: "order_laws ord \<Longrightarrow> set (ord xs) = set xs"
  by (metis order_laws_def mset_eq_setD)

lemma update_new: "map_of m k = None \<Longrightarrow> AList.update k v m = m @ [(k, v)]"
  by (induction m) auto

lemma update_old:
  assumes "map_of m k = Some c" "distinct (map fst m)"
  shows "\<exists>xs ys. m = xs @ (k, c) # ys \<and> AList.update k v m = xs @ (k, v) # ys
     \<and> k \<notin> fst ` set xs \<and> k \<notin> fst ` set ys"
  using assms
proof (induction m)
  case (Cons p m)
  obtain a b where p: "p = (a, b)" by fastforce
  show ?case
  proof (cases "a = k")
    case True
    with Cons.prems p show ?thesis by (intro exI [of _ "[]"] exI [of _ m]) auto
  next
    case False
    with Cons p obtain xs ys where "m = xs @ (k, c) # ys" "AList.update k v m = xs @ (k, v) # ys"
      "k \<notin> fst ` set xs" "k \<notin> fst ` set ys" by auto
    with False p show ?thesis by (intro exI [of _ "(a, b) # xs"] exI [of _ ys]) auto
  qed
qed simp

lemma delete_old:
  assumes "(k, c) \<in> set m" "distinct (map fst m)"
  shows "\<exists>xs ys. m = xs @ (k, c) # ys \<and> AList.delete k m = xs @ ys"
proof -
  obtain xs ys where m: "m = xs @ (k, c) # ys" using split_list [OF assms(1)] by blast
  then have "k \<notin> fst ` set xs" "k \<notin> fst ` set ys" using assms(2) by auto
  then have "AList.delete k xs = xs" "AList.delete k ys = ys" by simp_all
  moreover have "AList.delete k m = AList.delete k xs @ AList.delete k ys"
    using m by (simp add: AList.delete_eq case_prod_unfold)
  ultimately show ?thesis using m by metis
qed

lemma min_entry_from_least:
  "min_entry_from b xs \<in> insert b (set xs) \<and> snd (min_entry_from b xs) \<le> snd b
     \<and> (\<forall>x \<in> set xs. snd (min_entry_from b xs) \<le> snd x)"
proof (induction b xs rule: min_entry_from.induct)
  case (2 b x xs)
  then show ?case by (auto simp: not_less intro: order_trans order_less_imp_le split: if_splits)
qed simp

lemma min_entry_least:
  assumes "min_entry m = Some x"
  shows "x \<in> set m" "\<forall>y \<in> set m. snd x \<le> snd y"
proof -
  obtain b xs where m: "m = b # xs" "x = min_entry_from b xs" using assms by (cases m) auto
  show "x \<in> set m" "\<forall>y \<in> set m. snd x \<le> snd y"
    using min_entry_from_least [of b xs] m by auto
qed

lemma min_entry_None: "min_entry m = None \<longleftrightarrow> m = []"
  by (cases m) auto

subsection \<open>The Space-Saving invariant\<close>

definition mass :: "counts \<Rightarrow> nat" where
  "mass m = (\<Sum>p\<leftarrow>m. unat (snd p))"

lemma mass_append [simp]: "mass (xs @ ys) = mass xs + mass ys" "mass [] = 0"
  "mass (p # xs) = unat (snd p) + mass xs"
  by (simp_all add: mass_def)

text \<open>
  After observations that gave key \<open>k\<close> the true count \<open>f k\<close>, \<open>n\<close> in all: the counts add up to
  \<open>n\<close>; a tracked count is at least the true one, and above it by at most \<open>n / cap\<close>; a key that is
  not tracked was never seen, or the map is full and no tracked count is below its true count.
\<close>

definition ss_inv :: "nat \<Rightarrow> nat \<Rightarrow> (string \<Rightarrow> nat) \<Rightarrow> counts \<Rightarrow> bool" where
  "ss_inv cap n f m \<longleftrightarrow>
     distinct (map fst m) \<and> length m \<le> cap \<and> mass m = n
     \<and> (\<forall>p \<in> set m. f (fst p) \<le> unat (snd p) \<and> unat (snd p) * cap \<le> f (fst p) * cap + n)
     \<and> (\<forall>k. k \<notin> fst ` set m \<longrightarrow> f k = 0 \<or> (length m = cap \<and> (\<forall>p \<in> set m. f k \<le> unat (snd p))))"

lemma key_image: "(k, v) \<in> S \<Longrightarrow> k \<in> fst ` S"
  by force

lemma ss_inv_tracked:
  assumes "ss_inv cap n f m" "(k, v) \<in> set m"
  shows "f k \<le> unat v" "unat v * cap \<le> f k * cap + n" "unat v * cap \<le> f k * cap + (n + d)"
  using assms unfolding ss_inv_def by fastforce+

lemma ss_inv_untracked:
  assumes "ss_inv cap n f m" "k \<notin> fst ` set m"
  shows "f k = 0 \<or> (length m = cap \<and> (\<forall>p \<in> set m. f k \<le> unat (snd p)))"
  using assms unfolding ss_inv_def by fastforce

lemma unat_add_mass:
  assumes "(k, v) \<in> set m" "mass m + unat b < 2 ^ 64"
  shows "unat (v + b) = unat v + unat (b :: u64)"
proof -
  have "unat v \<le> mass m" using assms(1) by (induction m) auto
  then show ?thesis using assms(2) by (subst unat_add_lem [THEN iffD1]) auto
qed

lemma mass_min:
  assumes "\<forall>p \<in> set m. c \<le> unat (snd p)"
  shows "length m * c \<le> mass m"
  using assms by (induction m) auto

lemma ss_inv_update:
  assumes inv: "ss_inv cap n f (xs @ (k, v) # ys)" and b: "n + unat b < 2 ^ 64"
  shows "ss_inv cap (n + unat b) (f(k := f k + unat b)) (xs @ (k, v + b) # ys)"
proof -
  have v: "unat (v + b) = unat v + unat b"
    using unat_add_mass [of k v "xs @ (k, v) # ys" b] inv b by (simp add: ss_inv_def)
  have k: "k \<notin> fst ` set xs" "k \<notin> fst ` set ys" using inv by (auto simp: ss_inv_def)
  have old: "f k' \<le> unat w \<and> unat w * cap \<le> f k' * cap + (n + unat b)" "k' \<noteq> k"
    if "(k', w) \<in> set xs \<union> set ys" for k' w
    using ss_inv_tracked [OF inv, of k' w] that k by (auto dest: key_image)
  have new: "f k + unat b \<le> unat (v + b) \<and> unat (v + b) * cap \<le> (f k + unat b) * cap + (n + unat b)"
    using ss_inv_tracked(1,2) [OF inv, of k v] v by (simp add: algebra_simps)
  have gone: "f k' = 0 \<or> (length (xs @ (k, v + b) # ys) = cap \<and> (\<forall>p \<in> set (xs @ (k, v + b) # ys). f k' \<le> unat (snd p)))"
    if "k' \<notin> fst ` set (xs @ (k, v + b) # ys)" for k'
  proof -
    have "k' \<notin> fst ` set (xs @ (k, v) # ys)" using that by simp
    from ss_inv_untracked [OF inv this] v show ?thesis by auto
  qed
  show ?thesis using inv old v k new gone unfolding ss_inv_def by (auto dest: key_image)
qed

lemma tracked_other:
  assumes "ss_inv cap n f m" "set m' \<subseteq> set m" "k \<notin> fst ` set m'"
  shows "\<forall>p \<in> set m'. (f(k := x)) (fst p) \<le> unat (snd p)
      \<and> unat (snd p) * cap \<le> (f(k := x)) (fst p) * cap + (n + d)"
proof
  fix p assume "p \<in> set m'"
  then have "fst p \<noteq> k" "(fst p, snd p) \<in> set m" using assms(2,3) by auto
  with ss_inv_tracked [OF assms(1), of "fst p" "snd p"] show "(f(k := x)) (fst p) \<le> unat (snd p)
      \<and> unat (snd p) * cap \<le> (f(k := x)) (fst p) * cap + (n + d)" by simp
qed

lemma ss_inv_insert:
  assumes inv: "ss_inv cap n f m" and new: "k \<notin> fst ` set m" and len: "length m < cap"
  shows "ss_inv cap (n + unat b) (f(k := f k + unat b)) (m @ [(k, b)])"
proof -
  have zero: "f k' = 0" if "k' \<notin> fst ` set m" for k' using ss_inv_untracked [OF inv that] len by simp
  have "\<forall>k'. k' \<notin> fst ` set (m @ [(k, b)]) \<longrightarrow> (f(k := f k + unat b)) k' = 0" using zero by simp
  moreover have "\<forall>p \<in> set (m @ [(k, b)]). (f(k := f k + unat b)) (fst p) \<le> unat (snd p)
      \<and> unat (snd p) * cap \<le> (f(k := f k + unat b)) (fst p) * cap + (n + unat b)"
    using tracked_other [OF inv subset_refl new, of "f k + unat b" "unat b"] zero [OF new] by simp
  moreover have "distinct (map fst (m @ [(k, b)]))" "length (m @ [(k, b)]) \<le> cap"
    "mass (m @ [(k, b)]) = n + unat b"
    using inv new len by (simp_all add: ss_inv_def)
  ultimately show ?thesis unfolding ss_inv_def by blast
qed

lemma ss_inv_replace:
  assumes inv: "ss_inv cap n f (xs @ (j, c) # ys)" and new: "k \<notin> fst ` set (xs @ (j, c) # ys)"
    and full: "length (xs @ (j, c) # ys) = cap" and least: "\<forall>p \<in> set (xs @ (j, c) # ys). unat c \<le> unat (snd p)"
    and b: "n + unat b < 2 ^ 64"
  shows "ss_inv cap (n + unat b) (f(k := f k + unat b)) ((xs @ ys) @ [(k, c + b)])"
proof -
  have c: "unat (c + b) = unat c + unat b"
    using unat_add_mass [of j c "xs @ (j, c) # ys" b] inv b by (simp add: ss_inv_def)
  have new': "k \<notin> fst ` set (xs @ ys)" using new by auto
  have fk: "f k \<le> unat c" using ss_inv_untracked [OF inv new] by auto
  have "mass (xs @ (j, c) # ys) = n" using inv by (simp add: ss_inv_def)
  then have "cap * unat c \<le> n" using mass_min [OF least] unfolding full by simp
  then have est: "unat (c + b) * cap \<le> (f k + unat b) * cap + (n + unat b)"
    unfolding c by (simp add: algebra_simps)
  have low: "\<forall>p \<in> set (xs @ ys). unat c \<le> unat (snd p)" using least by auto
  have gone: "f k' \<le> unat c" if "k' \<notin> fst ` set (xs @ ys)" for k'
  proof (cases "k' = j")
    case True
    then show ?thesis using ss_inv_tracked(1) [OF inv, of j c] by simp
  next
    case False
    with that have "k' \<notin> fst ` set (xs @ (j, c) # ys)" by auto
    from ss_inv_untracked [OF inv this] show ?thesis by auto
  qed
  have "distinct (map fst ((xs @ ys) @ [(k, c + b)]))" using inv new by (auto simp: ss_inv_def)
  moreover have "mass ((xs @ ys) @ [(k, c + b)]) = n + unat b" using inv c by (simp add: ss_inv_def)
  moreover have "\<forall>p \<in> set ((xs @ ys) @ [(k, c + b)]). (f(k := f k + unat b)) (fst p) \<le> unat (snd p)
      \<and> unat (snd p) * cap \<le> (f(k := f k + unat b)) (fst p) * cap + (n + unat b)"
  proof -
    have "set (xs @ ys) \<subseteq> set (xs @ (j, c) # ys)" by auto
    from tracked_other [OF inv this new', of "f k + unat b" "unat b"] est fk c show ?thesis by simp
  qed
  moreover have len: "length ((xs @ ys) @ [(k, c + b)]) = cap" using full by simp
  moreover have "\<forall>p \<in> set ((xs @ ys) @ [(k, c + b)]). (f(k := f k + unat b)) k' \<le> unat (snd p)"
    if "k' \<notin> fst ` set ((xs @ ys) @ [(k, c + b)])" for k'
  proof -
    have "k' \<noteq> k" "k' \<notin> fst ` set (xs @ ys)" using that by auto
    with gone [of k'] have "\<forall>p \<in> set (xs @ ys). f k' \<le> unat (snd p)" "f k' \<le> unat (c + b)"
      using low c by (blast intro: order_trans, simp)
    with \<open>k' \<noteq> k\<close> show ?thesis by simp
  qed
  ultimately show ?thesis unfolding ss_inv_def by blast
qed

lemma hh_bump_inv:
  assumes inv: "ss_inv cap n f m" and cap: "0 < cap" and b: "n + unat b < 2 ^ 64" and ord: "order_laws ord"
  shows "ss_inv cap (n + unat b) (f(k := f k + unat b)) (hh_bump ord k b cap m)"
proof (cases "map_of m k")
  case (Some v)
  then obtain xs ys where "m = xs @ (k, v) # ys" "AList.update k (v + b) m = xs @ (k, v + b) # ys"
    using update_old [OF Some, of "v + b"] inv unfolding ss_inv_def by blast
  then show ?thesis using ss_inv_update inv b Some by (simp add: hh_bump_def)
next
  case None
  then have new: "k \<notin> fst ` set m" by (simp add: map_of_eq_None_iff)
  show ?thesis
  proof (cases "length m < cap")
    case True
    then show ?thesis using ss_inv_insert [OF inv new] None by (simp add: hh_bump_def update_new)
  next
    case False
    then have full: "length m = cap" "m \<noteq> []" using inv cap by (auto simp: ss_inv_def)
    then have "ord m \<noteq> []" using order_set [OF ord, of m] by (metis set_empty)
    then obtain j c where jc: "min_entry (ord m) = Some (j, c)"
      using min_entry_None [of "ord m"] by (cases "min_entry (ord m)") auto
    then have "(j, c) \<in> set m" "\<forall>p \<in> set m. unat c \<le> unat (snd p)"
      using min_entry_least [OF jc] order_set [OF ord] by (auto simp: word_le_nat_alt)
    moreover from this(1) obtain xs ys where m: "m = xs @ (j, c) # ys" and del: "AList.delete j m = xs @ ys"
      using delete_old inv by (metis ss_inv_def)
    ultimately have "ss_inv cap (n + unat b) (f(k := f k + unat b)) ((xs @ ys) @ [(k, c + b)])"
      using ss_inv_replace [of cap n f xs j c ys k b] inv new full(1) b by blast
    moreover have "map_of (xs @ ys) k = None" using m new by (auto simp: map_of_eq_None_iff)
    moreover from this have "hh_bump ord k b cap m = (xs @ ys) @ [(k, c + b)]"
      using None False jc del update_new [of "xs @ ys" k "c + b"] by (simp add: hh_bump_def)
    ultimately show ?thesis by simp
  qed
qed

text \<open>The estimator after a stream of single observations.\<close>

definition hh_run :: "(counts \<Rightarrow> counts) \<Rightarrow> nat \<Rightarrow> string list \<Rightarrow> counts" where
  "hh_run ord cap ks = foldl (\<lambda>m k. hh_bump ord k 1 cap m) [] ks"

lemma hh_run_inv:
  assumes "0 < cap" "order_laws ord" "length ks < 2 ^ 64"
  shows "ss_inv cap (length ks) (count_list ks) (hh_run ord cap ks)"
  using assms(3)
proof (induction ks rule: rev_induct)
  case Nil
  then show ?case by (simp add: hh_run_def ss_inv_def)
next
  case (snoc k ks)
  have f: "count_list (ks @ [k]) = (count_list ks)(k := count_list ks k + unat (1 :: u64))"
    by (auto simp: fun_eq_iff)
  have run: "hh_run ord cap (ks @ [k]) = hh_bump ord k 1 cap (hh_run ord cap ks)" by (simp add: hh_run_def)
  have n: "length (ks @ [k]) = length ks + unat (1 :: u64)" by simp
  have "length ks + unat (1 :: u64) < 2 ^ 64" using snoc.prems by simp
  then show ?case unfolding f run n using snoc assms(1,2) by (intro hh_bump_inv) auto
qed

lemma hh_run_bounds:
  assumes "0 < cap" "order_laws ord" "length ks < 2 ^ 64"
  shows "length (hh_run ord cap ks) \<le> cap"
    and "length ks < count_list ks k * cap \<Longrightarrow> k \<in> fst ` set (hh_run ord cap ks)"
    and "(k, v) \<in> set (hh_run ord cap ks) \<Longrightarrow>
      count_list ks k \<le> unat v \<and> unat v * cap \<le> count_list ks k * cap + length ks"
proof -
  note inv = hh_run_inv [OF assms]
  then show "length (hh_run ord cap ks) \<le> cap"
    and "(k, v) \<in> set (hh_run ord cap ks) \<Longrightarrow>
      count_list ks k \<le> unat v \<and> unat v * cap \<le> count_list ks k * cap + length ks"
    by (auto simp: ss_inv_def)
  assume heavy: "length ks < count_list ks k * cap"
  show "k \<in> fst ` set (hh_run ord cap ks)"
  proof (rule ccontr)
    assume "k \<notin> fst ` set (hh_run ord cap ks)"
    moreover have "count_list ks k \<noteq> 0" using heavy by (metis mult_0 not_less_zero)
    ultimately have "length (hh_run ord cap ks) = cap"
      "\<forall>p \<in> set (hh_run ord cap ks). count_list ks k \<le> unat (snd p)"
      using ss_inv_untracked [OF inv, of k] by simp_all
    from mass_min [OF this(2)] this(1) inv have "cap * count_list ks k \<le> length ks" by (simp add: ss_inv_def)
    with heavy show False by (simp add: mult.commute)
  qed
qed

end
