(* ===== verification/Send_Gate.thy ===== *)
theory Send_Gate
  imports "HOL-Library.Sublist" Bulwark_Prelude
begin

text \<open>
  The contract that the gates in front of a writer channel share: the query log
  (\<open>crates/bulwark-engine/src/querylog.rs\<close>) and the probe log
  (\<open>crates/bulwark-upstream/src/probe_log.rs\<close>). Both send through a bounded channel of the
  \<open>tokio\<close> crate, of which \<open>channel_laws\<close> states what they rely on.
\<close>

text \<open>\<open>try_send\<close> returns the channel with the item queued, or \<open>None\<close> when it is full or closed.\<close>

definition channel_laws :: "('ch \<Rightarrow> 'e \<Rightarrow> 'ch option) \<Rightarrow> ('ch \<Rightarrow> 'e list) \<Rightarrow> bool" where
  "channel_laws try_send queued \<longleftrightarrow>
     (\<forall>ch e ch'. try_send ch e = Some ch' \<longrightarrow> queued ch' = queued ch @ [e])"

lemma channel_lawsD: "channel_laws ts queued \<Longrightarrow> ts ch e = Some ch' \<Longrightarrow> queued ch' = queued ch @ [e]"
  by (simp add: channel_laws_def)

locale send_gate =
  fixes push :: "'e \<Rightarrow> 's \<Rightarrow> 's"
    and live :: "'s \<Rightarrow> bool"
    and out :: "'s \<Rightarrow> 'e list"
    and lost :: "'s \<Rightarrow> u64"
    and form :: "'s \<Rightarrow> 'e \<Rightarrow> 'e"
  assumes push_live: "live s \<Longrightarrow> live (push e s)"
    and push_form: "live s \<Longrightarrow> form (push e s) = form s"
    and push_cases: "live s \<Longrightarrow>
      out (push e s) = out s @ [form s e] \<and> lost (push e s) = lost s
      \<or> out (push e s) = out s \<and> lost (push e s) = lost s + 1"
begin

text \<open>What a live gate is given is queued in its order, or counted as lost.\<close>

lemma push_all:
  "live s \<Longrightarrow> \<exists>sent. subseq sent es \<and> out (fold push es s) = out s @ map (form s) sent
     \<and> lost (fold push es s) = lost s + word_of_nat (length es - length sent)"
proof (induction es arbitrary: s)
  case Nil
  show ?case by (auto intro: exI [of _ "[]"])
next
  case (Cons e es)
  obtain sent where *: "subseq sent es"
    "out (fold push es (push e s)) = out (push e s) @ map (form s) sent"
    "lost (fold push es (push e s)) = lost (push e s) + word_of_nat (length es - length sent)"
    using Cons.IH [OF push_live [OF Cons.prems, of e]] push_form [OF Cons.prems, of e] by auto
  have len: "length (e # es) - length sent = Suc (length es - length sent)"
    using list_emb_length [OF *(1)] by simp
  from push_cases [OF Cons.prems, of e] show ?case
  proof
    assume "out (push e s) = out s @ [form s e] \<and> lost (push e s) = lost s"
    then show ?thesis using * by (intro exI [of _ "e # sent"]) simp
  next
    assume "out (push e s) = out s \<and> lost (push e s) = lost s + 1"
    then show ?thesis using * len by (intro exI [of _ sent]) (simp add: list_emb_Cons algebra_simps)
  qed
qed

end

end
