(* ===== verification/Query_Log.thy ===== *)
theory Query_Log
  imports Complex_Main Send_Gate
begin

text \<open>
  The query log, \<open>crates/bulwark-engine/src/querylog.rs\<close>: the logged entry, its outcome, and the
  gate that sends entries to the writer without blocking. The bounded channel belongs to the
  \<open>tokio\<close> crate: \<open>try_send\<close> is a parameter that returns the channel with the entry queued, or
  \<open>None\<close> when it is full or closed. A \<open>f64\<close> is a real number.
\<close>

subsection \<open>Entries\<close>

datatype query_action =
    Forwarded string
  | Cached
  | Blocked string u32
  | Rewritten string u32
  | ErrorAction

record query_log_entry =
  e_id :: u64
  e_time_ms :: int
  e_client_ip :: string
  e_question :: string
  e_qtype :: string
  e_action :: query_action
  e_allowlisted :: bool
  e_rcode :: string
  e_answers :: "string list"
  e_elapsed_ms :: real

definition empty_entry :: query_log_entry where
  "empty_entry =
     \<lparr>e_id = 0, e_time_ms = 0, e_client_ip = [], e_question = [], e_qtype = [], e_action = Cached,
      e_allowlisted = False, e_rcode = [], e_answers = [], e_elapsed_ms = 0\<rparr>"

definition entry_is_blocked :: "query_log_entry \<Rightarrow> bool" where
  "entry_is_blocked e =
     ((case e_action e of Blocked _ _ \<Rightarrow> True | _ \<Rightarrow> False) \<and> \<not> e_allowlisted e)"

definition entry_rule :: "query_log_entry \<Rightarrow> string option" where
  "entry_rule e = (case e_action e of Blocked r _ \<Rightarrow> Some r | Rewritten r _ \<Rightarrow> Some r | _ \<Rightarrow> None)"

definition entry_list_id :: "query_log_entry \<Rightarrow> u32 option" where
  "entry_list_id e = (case e_action e of Blocked _ l \<Rightarrow> Some l | Rewritten _ l \<Rightarrow> Some l | _ \<Rightarrow> None)"

definition entry_upstream :: "query_log_entry \<Rightarrow> string option" where
  "entry_upstream e = (case e_action e of Forwarded u \<Rightarrow> Some u | _ \<Rightarrow> None)"

definition entry_cached :: "query_log_entry \<Rightarrow> bool" where
  "entry_cached e = (e_action e = Cached)"

record log_filter =
  lf_search :: "string option"
  lf_client :: "string option"
  lf_blocked_only :: bool

record log_page =
  lp_entries :: "query_log_entry list"
  lp_total :: nat

subsection \<open>The gate\<close>

record 'ch query_log =
  ql_enabled_flag :: bool
  ql_anonymize :: bool
  ql_dropped :: u64
  ql_sink :: "'ch option"

definition new_query_log :: "bool \<Rightarrow> bool \<Rightarrow> 'ch query_log" where
  "new_query_log en anon =
     \<lparr>ql_enabled_flag = en, ql_anonymize = anon, ql_dropped = 0, ql_sink = None\<rparr>"

definition set_sink :: "'ch \<Rightarrow> 'ch query_log \<Rightarrow> 'ch query_log" where
  "set_sink ch l = l\<lparr>ql_sink := Some ch\<rparr>"

definition log_reconfigure :: "bool \<Rightarrow> bool \<Rightarrow> 'ch query_log \<Rightarrow> 'ch query_log" where
  "log_reconfigure en anon l = l\<lparr>ql_enabled_flag := en, ql_anonymize := anon\<rparr>"

definition log_push ::
  "('ch \<Rightarrow> query_log_entry \<Rightarrow> 'ch option) \<Rightarrow> query_log_entry \<Rightarrow> 'ch query_log \<Rightarrow> 'ch query_log" where
  "log_push try_send entry l =
     (if \<not> ql_enabled_flag l then l
      else
        let entry = (if ql_anonymize l then entry\<lparr>e_client_ip := []\<rparr> else entry) in
        case ql_sink l of None \<Rightarrow> l
        | Some ch \<Rightarrow>
            (case try_send ch entry of
               Some ch' \<Rightarrow> l\<lparr>ql_sink := Some ch'\<rparr>
             | None \<Rightarrow> l\<lparr>ql_dropped := ql_dropped l + 1\<rparr>))"

subsection \<open>Properties\<close>

lemma log_push_flags [simp]:
  "ql_enabled_flag (log_push ts e l) = ql_enabled_flag l"
  "ql_anonymize (log_push ts e l) = ql_anonymize l"
  by (simp_all add: log_push_def Let_def split: option.split)

lemma log_push_disabled: "\<not> ql_enabled_flag l \<Longrightarrow> log_push ts e l = l"
  by (simp add: log_push_def)

text \<open>The entry as the gate sends it.\<close>

definition sent_form :: "'ch query_log \<Rightarrow> query_log_entry \<Rightarrow> query_log_entry" where
  "sent_form l e = (if ql_anonymize l then e\<lparr>e_client_ip := []\<rparr> else e)"

definition log_queued :: "('ch \<Rightarrow> query_log_entry list) \<Rightarrow> 'ch query_log \<Rightarrow> query_log_entry list" where
  "log_queued queued l = (case ql_sink l of None \<Rightarrow> [] | Some ch \<Rightarrow> queued ch)"

interpretation ql: send_gate "log_push ts"
  "\<lambda>l. ql_enabled_flag l \<and> ql_sink l \<noteq> None \<and> channel_laws ts queued"
  "log_queued queued" ql_dropped sent_form
  by unfold_locales
    (auto simp: log_push_def sent_form_def log_queued_def Let_def fun_eq_iff dest: channel_lawsD split: option.splits)

lemma sent_form_anonymous: "ql_anonymize l \<Longrightarrow> e_client_ip (sent_form l e) = []"
  by (simp add: sent_form_def)

end
