(* ===== verification/Dns_Cache.thy ===== *)
theory Dns_Cache
  imports Filter_Engine Dns_Message
begin

unbundle bit_operations_syntax

text \<open>
  The sharded response cache, \<open>crates/bulwark-engine/src/cache.rs\<close>: lookup with the TTL and
  the transaction id patched, the serve-stale window, insertion with the clamped TTL, the
  counters, run-time tuning and the restart snapshot.

  The shards are maps of the \<open>lru\<close> crate, whose operations are the fields of \<open>cache_ext\<close>
  (\<open>lru_laws\<close> states what the cache relies on), as is the hash that selects a shard. Time is
  an argument: \<open>now\<close> is the monotonic clock in nanoseconds, \<open>unix\<close> the wall clock in
  seconds. A shard index outside the vector would panic: the operations return \<open>None\<close> there.
\<close>

subsection \<open>State\<close>

datatype stored =
    StWire (st_bytes: "u8 list") (st_offsets: "u32 list") (st_rcode: u16) (st_answers: "string list")
  | StMessage message

datatype outcome = Clean | OBlock match_info

record response_verdict =
  generation :: u64
  outcome :: outcome

definition clean_verdict :: "u64 \<Rightarrow> response_verdict" where
  "clean_verdict g = \<lparr>generation = g, outcome = Clean\<rparr>"

definition block_verdict :: "match_info \<Rightarrow> u64 \<Rightarrow> response_verdict" where
  "block_verdict info g = \<lparr>generation = g, outcome = OBlock info\<rparr>"

record entry =
  stored :: stored
  stored_at :: int
  ttl :: u32
  verdict :: "response_verdict option"

record 'c cache_ext =
  lru_new :: "nat \<Rightarrow> 'c"
  lru_get :: "query_key \<Rightarrow> 'c \<Rightarrow> entry option \<times> 'c"
  lru_put :: "query_key \<Rightarrow> entry \<Rightarrow> 'c \<Rightarrow> 'c"
  lru_pop :: "query_key \<Rightarrow> 'c \<Rightarrow> 'c"
  lru_resize :: "nat \<Rightarrow> 'c \<Rightarrow> 'c"
  lru_clear :: "'c \<Rightarrow> 'c"
  lru_iter :: "'c \<Rightarrow> (query_key \<times> entry) list"
  key_hash :: "query_key \<Rightarrow> u64"
  parallelism :: "nat option"

definition NANOS :: int where
  "NANOS = 1000000000"

definition elapsed_secs :: "int \<Rightarrow> int \<Rightarrow> int" where
  "elapsed_secs now at = max 0 (now - at) div NANOS"

definition age_secs :: "int \<Rightarrow> entry \<Rightarrow> u32" where
  "age_secs now e = word_of_int (min (elapsed_secs now (stored_at e)) 4294967295)"

datatype cached_response =
    CWire "u8 list" u16 "string list"
  | CMessage message

record inserted_wire =
  iw_bytes :: "u8 list"
  iw_rcode :: u16
  iw_answers :: "string list"

definition cached_into_message :: "dns_ext \<Rightarrow> cached_response \<Rightarrow> message" where
  "cached_into_message dx r =
     (case r of CMessage m \<Rightarrow> m
      | CWire bytes _ _ \<Rightarrow>
          (case from_vec dx bytes of Some m \<Rightarrow> m | None \<Rightarrow> new_message 0 MtResponse 0))"

datatype hit_freshness = Fresh | Stale

definition requires_refresh :: "hit_freshness \<Rightarrow> bool" where
  "requires_refresh f = (f = Stale)"

record cache_hit =
  hit_response :: cached_response
  hit_freshness :: hit_freshness
  hit_verdict :: "response_verdict option"

definition summarize :: "dns_ext \<Rightarrow> dns_record \<Rightarrow> string" where
  "summarize dx r = rtype_display dx (rdata_type (r_data r)) @ '' '' @ rdata_display dx (r_data r)"

record cache_counters =
  cc_hits :: u64
  cc_misses :: u64
  cc_stale_hits :: u64
  cc_refreshes :: u64
  cc_refresh_failures :: u64

record 'c dns_cache =
  shards :: "'c list"
  mask :: u64
  c_enabled :: bool
  min_ttl :: u32
  max_ttl :: u32
  stale_max_age :: u32
  store_summaries :: bool
  capacity :: nat
  counters :: cache_counters

subsection \<open>Construction and tuning\<close>

fun pow2_from :: "nat \<Rightarrow> nat \<Rightarrow> nat \<Rightarrow> nat" where
  "pow2_from 0 p n = p"
| "pow2_from (Suc fuel) p n = (if n \<le> p then p else pow2_from fuel (2 * p) n)"

text \<open>\<open>next_power_of_two\<close>: the smallest power of two that is at least \<open>n\<close>.\<close>

definition next_power_of_two :: "nat \<Rightarrow> nat" where
  "next_power_of_two n = pow2_from n 1 n"

definition shard_count :: "nat option \<Rightarrow> nat" where
  "shard_count par =
     (let n = next_power_of_two (case par of Some n \<Rightarrow> n | None \<Rightarrow> 4) in min 64 (max 8 n))"

definition shard_cap :: "nat \<Rightarrow> nat \<Rightarrow> nat" where
  "shard_cap tot n = max (tot div n) 1"

definition zero_counters :: cache_counters where
  "zero_counters =
     \<lparr>cc_hits = 0, cc_misses = 0, cc_stale_hits = 0, cc_refreshes = 0, cc_refresh_failures = 0\<rparr>"

definition new_cache :: "'c cache_ext \<Rightarrow> nat \<Rightarrow> u32 \<Rightarrow> u32 \<Rightarrow> u32 \<Rightarrow> 'c dns_cache" where
  "new_cache cx cap mint maxt stale =
     (let cap = max cap 1; n = shard_count (parallelism cx); per_shard = shard_cap cap n
      in \<lparr>shards = replicate n (lru_new cx per_shard), mask = word_of_nat (n - 1),
          c_enabled = True, min_ttl = mint, max_ttl = maxt, stale_max_age = stale,
          store_summaries = True, capacity = cap, counters = zero_counters\<rparr>)"

definition shard_index :: "'c cache_ext \<Rightarrow> 'c dns_cache \<Rightarrow> query_key \<Rightarrow> nat" where
  "shard_index cx c k = unat (key_hash cx k AND mask c)"

definition clear_cache :: "'c cache_ext \<Rightarrow> 'c dns_cache \<Rightarrow> 'c dns_cache" where
  "clear_cache cx c = c\<lparr>shards := map (lru_clear cx) (shards c)\<rparr>"

definition reconfigure ::
  "'c cache_ext \<Rightarrow> bool \<Rightarrow> nat \<Rightarrow> u32 \<Rightarrow> u32 \<Rightarrow> u32 \<Rightarrow> 'c dns_cache \<Rightarrow> 'c dns_cache" where
  "reconfigure cx en cap mint maxt stale c =
     (let c1 = c\<lparr>c_enabled := en, min_ttl := mint, max_ttl := maxt, stale_max_age := stale\<rparr>;
          cap = max cap 1;
          c2 = (if cap \<noteq> capacity c1
                then c1\<lparr>capacity := cap,
                        shards := map (lru_resize cx (shard_cap cap (length (shards c1)))) (shards c1)\<rparr>
                else c1)
      in if \<not> en then clear_cache cx c2 else c2)"

definition set_store_summaries :: "bool \<Rightarrow> 'c dns_cache \<Rightarrow> 'c dns_cache" where
  "set_store_summaries b c = c\<lparr>store_summaries := b\<rparr>"

definition cache_len :: "'c cache_ext \<Rightarrow> 'c dns_cache \<Rightarrow> nat" where
  "cache_len cx c = sum_list (map (\<lambda>s. length (lru_iter cx s)) (shards c))"

definition note_refresh_started :: "'c dns_cache \<Rightarrow> 'c dns_cache" where
  "note_refresh_started c =
     c\<lparr>counters := (counters c)\<lparr>cc_refreshes := cc_refreshes (counters c) + 1\<rparr>\<rparr>"

definition note_refresh_failed :: "'c dns_cache \<Rightarrow> 'c dns_cache" where
  "note_refresh_failed c =
     c\<lparr>counters := (counters c)\<lparr>cc_refresh_failures := cc_refresh_failures (counters c) + 1\<rparr>\<rparr>"

definition seed_counters :: "cache_counters \<Rightarrow> 'c dns_cache \<Rightarrow> 'c dns_cache" where
  "seed_counters k c = c\<lparr>counters := k\<rparr>"

definition reset_counters :: "'c dns_cache \<Rightarrow> 'c dns_cache" where
  "reset_counters c = seed_counters zero_counters c"

definition count_hit :: "'c dns_cache \<Rightarrow> 'c dns_cache" where
  "count_hit c = c\<lparr>counters := (counters c)\<lparr>cc_hits := cc_hits (counters c) + 1\<rparr>\<rparr>"

definition count_miss :: "'c dns_cache \<Rightarrow> 'c dns_cache" where
  "count_miss c = c\<lparr>counters := (counters c)\<lparr>cc_misses := cc_misses (counters c) + 1\<rparr>\<rparr>"

definition count_stale_hit :: "'c dns_cache \<Rightarrow> 'c dns_cache" where
  "count_stale_hit c =
     c\<lparr>counters := (counters c)\<lparr>cc_stale_hits := cc_stale_hits (counters c) + 1\<rparr>\<rparr>"

subsection \<open>TTLs\<close>

definition DEFAULT_NEGATIVE_TTL :: u32 where
  "DEFAULT_NEGATIVE_TTL = 30"

definition STALE_SERVE_TTL :: u32 where
  "STALE_SERVE_TTL = 1"

definition saturating_sub :: "u32 \<Rightarrow> u32 \<Rightarrow> u32" where
  "saturating_sub a b = (if b \<le> a then a - b else 0)"

definition saturating_add :: "u32 \<Rightarrow> u32 \<Rightarrow> u32" where
  "saturating_add a b = word_of_int (min (uint a + uint b) 4294967295)"

fun negative_ttl_of :: "dns_record list \<Rightarrow> u32" where
  "negative_ttl_of [] = DEFAULT_NEGATIVE_TTL"
| "negative_ttl_of (r # rs) =
     (case r_data r of
        RD_SOA soa \<Rightarrow> max (min (soa_minimum soa) (r_ttl r)) 1
      | _ \<Rightarrow> negative_ttl_of rs)"

definition negative_ttl :: "message \<Rightarrow> u32" where
  "negative_ttl m = negative_ttl_of (m_authorities m)"

definition min_answer_ttl :: "dns_record list \<Rightarrow> u32 option" where
  "min_answer_ttl rs =
     (case map r_ttl rs of [] \<Rightarrow> None | t # ts \<Rightarrow> Some (foldl min t ts))"

definition cacheable_ttl :: "'c dns_cache \<Rightarrow> message \<Rightarrow> u32 option" where
  "cacheable_ttl c m =
     (if \<not> (m_response_code m = RC_NoError \<or> m_response_code m = RC_NXDomain) then None
      else if m_truncation m then None
      else
        let base_ttl = (if m_answers m \<noteq> [] then
                          (case min_answer_ttl (m_answers m) of
                             Some t \<Rightarrow> t | None \<Rightarrow> DEFAULT_NEGATIVE_TTL)
                        else negative_ttl m);
            t = max base_ttl (min_ttl c);
            t = (if max_ttl c \<noteq> 0 then min t (max_ttl c) else t)
        in if t = 0 then None else Some t)"

definition adjust_ttls :: "message \<Rightarrow> u32 \<Rightarrow> message" where
  "adjust_ttls m t =
     m\<lparr>m_answers := map (\<lambda>r. r\<lparr>r_ttl := t\<rparr>) (m_answers m),
       m_authorities := map (\<lambda>r. r\<lparr>r_ttl := t\<rparr>) (m_authorities m),
       m_additionals := map (\<lambda>r. r\<lparr>r_ttl := t\<rparr>) (m_additionals m)\<rparr>"

subsection \<open>Lookup and insertion\<close>

definition serve :: "stored \<Rightarrow> u16 \<Rightarrow> u32 \<Rightarrow> cached_response" where
  "serve s ident t =
     (case s of
        StWire bytes offs rcode answers \<Rightarrow> CWire (patch bytes ident t offs) rcode answers
      | StMessage m \<Rightarrow> CMessage ((adjust_ttls m t)\<lparr>m_id := ident\<rparr>))"

definition cache_get ::
  "'c cache_ext \<Rightarrow> int \<Rightarrow> 'c dns_cache \<Rightarrow> query_key \<Rightarrow> u16
   \<Rightarrow> ('c dns_cache \<times> cache_hit option) option" where
  "cache_get cx now c key ident =
     (if \<not> c_enabled c then Some (c, None)
      else
        let i = shard_index cx c key in
        (case nth_opt (shards c) i of None \<Rightarrow> None
         | Some shard \<Rightarrow>
           (case lru_get cx key shard of
              (None, shard') \<Rightarrow> Some (count_miss (c\<lparr>shards := (shards c)[i := shard']\<rparr>), None)
            | (Some e, shard') \<Rightarrow>
                let c' = c\<lparr>shards := (shards c)[i := shard']\<rparr>;
                    age = age_secs now e
                in if age < ttl e then
                     Some (count_hit c',
                       Some \<lparr>hit_response = serve (stored e) ident (max (ttl e - age) 1),
                             hit_freshness = Fresh, hit_verdict = verdict e\<rparr>)
                   else if saturating_sub age (ttl e) < stale_max_age c then
                     Some (count_hit (count_stale_hit c'),
                       Some \<lparr>hit_response = serve (stored e) ident STALE_SERVE_TTL,
                             hit_freshness = Stale, hit_verdict = verdict e\<rparr>)
                   else
                     Some (count_miss (c\<lparr>shards := (shards c)[i := lru_pop cx key shard']\<rparr>), None))))"

text \<open>The form in which a message is stored, and what the inserting query is served.\<close>

definition stored_form ::
  "dns_ext \<Rightarrow> 'c dns_cache \<Rightarrow> message \<Rightarrow> stored \<times> inserted_wire option" where
  "stored_form dx c m =
     (case to_vec dx m of
        Some bytes \<Rightarrow>
          (case scan_ttl_offsets bytes of
             Some offs \<Rightarrow>
               let rcode = m_response_code m;
                   answers = (if store_summaries c then map (summarize dx) (m_answers m) else [])
               in (StWire bytes offs rcode answers,
                   Some \<lparr>iw_bytes = bytes, iw_rcode = rcode, iw_answers = answers\<rparr>)
           | None \<Rightarrow> (StMessage m, None))
      | None \<Rightarrow> (StMessage m, None))"

definition insert_inner ::
  "dns_ext \<Rightarrow> 'c cache_ext \<Rightarrow> int \<Rightarrow> 'c dns_cache \<Rightarrow> query_key \<Rightarrow> message
   \<Rightarrow> response_verdict option \<Rightarrow> ('c dns_cache \<times> inserted_wire option) option" where
  "insert_inner dx cx now c key m v =
     (if \<not> c_enabled c then Some (c, None)
      else (case cacheable_ttl c m of None \<Rightarrow> Some (c, None)
      | Some t \<Rightarrow>
        let (st, served) = stored_form dx c m;
            e = \<lparr>stored = st, stored_at = now, ttl = t, verdict = v\<rparr>;
            i = shard_index cx c key
        in (case nth_opt (shards c) i of None \<Rightarrow> None
            | Some shard \<Rightarrow> Some (c\<lparr>shards := (shards c)[i := lru_put cx key e shard]\<rparr>, served))))"

definition cache_insert ::
  "dns_ext \<Rightarrow> 'c cache_ext \<Rightarrow> int \<Rightarrow> 'c dns_cache \<Rightarrow> query_key \<Rightarrow> message \<Rightarrow> 'c dns_cache option" where
  "cache_insert dx cx now c key m = map_option fst (insert_inner dx cx now c key m None)"

definition insert_with_verdict ::
  "dns_ext \<Rightarrow> 'c cache_ext \<Rightarrow> int \<Rightarrow> 'c dns_cache \<Rightarrow> query_key \<Rightarrow> message
   \<Rightarrow> response_verdict option \<Rightarrow> 'c dns_cache option" where
  "insert_with_verdict dx cx now c key m v = map_option fst (insert_inner dx cx now c key m v)"

definition insert_returning ::
  "dns_ext \<Rightarrow> 'c cache_ext \<Rightarrow> int \<Rightarrow> 'c dns_cache \<Rightarrow> query_key \<Rightarrow> message
   \<Rightarrow> response_verdict option \<Rightarrow> ('c dns_cache \<times> inserted_wire option) option" where
  "insert_returning dx cx now c key m v = insert_inner dx cx now c key m v"

subsection \<open>Strings and bytes\<close>

definition char_byte :: "char \<Rightarrow> u8" where
  "char_byte c = word_of_int (code c)"

definition as_bytes :: "string \<Rightarrow> u8 list" where
  "as_bytes s = map char_byte s"

text \<open>
  \<open>String::from_utf8_lossy\<close>. \<open>utf8_chunk s\<close> is the length of the first character of \<open>s\<close> and
  whether it is well formed; a malformed sequence is its longest well-formed prefix, at
  least one byte, and becomes U+FFFD.
\<close>

definition cont :: "string \<Rightarrow> nat \<Rightarrow> bool" where
  "cont s i = (i < length s \<and> continuation_byte (s ! i))"

definition in_range :: "string \<Rightarrow> nat \<Rightarrow> int \<Rightarrow> int \<Rightarrow> bool" where
  "in_range s i lo hi = (i < length s \<and> lo \<le> code (s ! i) \<and> code (s ! i) \<le> hi)"

definition utf8_chunk :: "string \<Rightarrow> nat \<times> bool" where
  "utf8_chunk s =
     (let b = code (hd s) in
      if b < 128 then (1, True)
      else if 0xC2 \<le> b \<and> b \<le> 0xDF then (if cont s 1 then (2, True) else (1, False))
      else if 0xE0 \<le> b \<and> b \<le> 0xEF then
        (if (b = 0xE0 \<and> in_range s 1 0xA0 0xBF) \<or> (b = 0xED \<and> in_range s 1 0x80 0x9F)
            \<or> (b \<noteq> 0xE0 \<and> b \<noteq> 0xED \<and> cont s 1)
         then (if cont s 2 then (3, True) else (2, False)) else (1, False))
      else if 0xF0 \<le> b \<and> b \<le> 0xF4 then
        (if (b = 0xF0 \<and> in_range s 1 0x90 0xBF) \<or> (b = 0xF4 \<and> in_range s 1 0x80 0x8F)
            \<or> (b \<noteq> 0xF0 \<and> b \<noteq> 0xF4 \<and> cont s 1)
         then (if cont s 2 then (if cont s 3 then (4, True) else (3, False)) else (2, False))
         else (1, False))
      else (1, False))"

lemma utf8_chunk_pos: "0 < fst (utf8_chunk s)"
  by (simp add: utf8_chunk_def Let_def)

function utf8_lossy :: "string \<Rightarrow> string" where
  "utf8_lossy s =
     (if s = [] then []
      else let (n, ok) = utf8_chunk s
           in (if ok then take n s else [CHR 0xEF, CHR 0xBF, CHR 0xBD]) @ utf8_lossy (drop n s))"
  by pat_completeness auto
termination
proof (relation "measure length", goal_cases)
  case (2 s x n ok)
  then have "0 < n" using utf8_chunk_pos [of s] by (metis fst_conv)
  with 2 show ?case by simp
qed simp

declare utf8_lossy.simps [simp del]

function utf8_valid :: "string \<Rightarrow> bool" where
  "utf8_valid s =
     (if s = [] then True
      else let (n, ok) = utf8_chunk s in ok \<and> utf8_valid (drop n s))"
  by pat_completeness auto
termination
proof (relation "measure length", goal_cases)
  case (2 s x n ok)
  then have "0 < n" using utf8_chunk_pos [of s] by (metis fst_conv)
  with 2 show ?case by simp
qed simp

declare utf8_valid.simps [simp del]

definition from_utf8_lossy :: "u8 list \<Rightarrow> string" where
  "from_utf8_lossy bs = utf8_lossy (map byte_char bs)"

subsection \<open>Reader and writer\<close>

text \<open>The reader is the rest of the data; every read returns the value and the new rest.\<close>

definition rd_take :: "nat \<Rightarrow> u8 list \<Rightarrow> (u8 list \<times> u8 list) option" where
  "rd_take n r = (if n \<le> length r then Some (take n r, drop n r) else None)"

definition le_value :: "u8 list \<Rightarrow> int" where
  "le_value bs = foldr (\<lambda>b acc. uint b + 256 * acc) bs 0"

definition rd_u8 :: "u8 list \<Rightarrow> (u8 \<times> u8 list) option" where
  "rd_u8 r = map_option (\<lambda>(b, r'). (hd b, r')) (rd_take 1 r)"

definition rd_u16 :: "u8 list \<Rightarrow> (u16 \<times> u8 list) option" where
  "rd_u16 r = map_option (\<lambda>(b, r'). (word_of_int (le_value b), r')) (rd_take 2 r)"

definition rd_u32 :: "u8 list \<Rightarrow> (u32 \<times> u8 list) option" where
  "rd_u32 r = map_option (\<lambda>(b, r'). (word_of_int (le_value b), r')) (rd_take 4 r)"

definition rd_u64 :: "u8 list \<Rightarrow> (u64 \<times> u8 list) option" where
  "rd_u64 r = map_option (\<lambda>(b, r'). (word_of_int (le_value b), r')) (rd_take 8 r)"

fun le_bytes :: "nat \<Rightarrow> int \<Rightarrow> u8 list" where
  "le_bytes 0 v = []"
| "le_bytes (Suc n) v = word_of_int v # le_bytes n (v div 256)"

definition le16 :: "u16 \<Rightarrow> u8 list" where "le16 w = le_bytes 2 (uint w)"
definition le32 :: "u32 \<Rightarrow> u8 list" where "le32 w = le_bytes 4 (uint w)"
definition le64 :: "u64 \<Rightarrow> u8 list" where "le64 w = le_bytes 8 (uint w)"

subsection \<open>Snapshots\<close>

definition SNAPSHOT_MAGIC :: "u8 list" where
  "SNAPSHOT_MAGIC = as_bytes ''BLWKCSN2''"

definition MAX_SNAPSHOT_WIRE_LEN :: int where "MAX_SNAPSHOT_WIRE_LEN = 65536"
definition MAX_SNAPSHOT_ANSWERS :: int where "MAX_SNAPSHOT_ANSWERS = 64"
definition MAX_SNAPSHOT_TTL_OFFSETS :: int where "MAX_SNAPSHOT_TTL_OFFSETS = 256"

definition write_answer :: "string \<Rightarrow> u8 list" where
  "write_answer a = (let ab = as_bytes a in le16 (word_of_nat (length ab)) @ ab)"

definition key_flags :: "query_key \<Rightarrow> u8" where
  "key_flags key =
     ((if k_dnssec_ok key then 1 else 0) OR push_bit 1 (if k_checking_disabled key then 1 else 0))"

definition write_record ::
  "query_key \<Rightarrow> u32 \<Rightarrow> u32 \<Rightarrow> u16 \<Rightarrow> string list \<Rightarrow> u8 list \<Rightarrow> u32 list \<Rightarrow> u8 list" where
  "write_record key age t rcode answers bytes offs =
     (let name = as_bytes (k_name key) in
      le16 (word_of_nat (length name)) @ name
      @ le16 (k_rtype key) @ le16 (k_class key)
      @ [key_flags key]
      @ le32 age @ le32 t @ le16 rcode
      @ le16 (word_of_nat (length answers)) @ concat (map write_answer answers)
      @ le32 (word_of_nat (length bytes)) @ bytes
      @ le32 (word_of_nat (length offs)) @ concat (map le32 offs))"

record parsed_entry =
  pe_key :: query_key
  pe_age :: u32
  pe_ttl :: u32
  pe_stored :: stored

definition wire_matches_key :: "dns_ext \<Rightarrow> u8 list \<Rightarrow> query_key \<Rightarrow> bool" where
  "wire_matches_key dx bytes key =
     (case from_vec dx bytes of
        Some m \<Rightarrow>
          (case m_queries m of [] \<Rightarrow> False
           | q # _ \<Rightarrow> qry_type q = k_rtype key \<and> qry_class q = k_class key
                \<and> eq_ignore_ascii_case (qry_name q) (k_name key))
      | None \<Rightarrow> False)"

fun rd_answers :: "nat \<Rightarrow> u8 list \<Rightarrow> (string list \<times> u8 list) option" where
  "rd_answers 0 r = Some ([], r)"
| "rd_answers (Suc n) r =
     (case rd_u16 r of None \<Rightarrow> None
      | Some (len, r1) \<Rightarrow>
        (case rd_take (unat len) r1 of None \<Rightarrow> None
         | Some (b, r2) \<Rightarrow>
           (case rd_answers n r2 of None \<Rightarrow> None
            | Some (as, r3) \<Rightarrow> Some (from_utf8_lossy b # as, r3))))"

fun rd_offsets :: "nat \<Rightarrow> u8 list \<Rightarrow> (u32 list \<times> u8 list) option" where
  "rd_offsets 0 r = Some ([], r)"
| "rd_offsets (Suc n) r =
     (case rd_u32 r of None \<Rightarrow> None
      | Some (o', r1) \<Rightarrow>
        (case rd_offsets n r1 of None \<Rightarrow> None
         | Some (os, r2) \<Rightarrow> Some (o' # os, r2)))"

text \<open>The key, age, TTL and response code that open a record.\<close>

definition rd_head :: "u8 list \<Rightarrow> ((query_key \<times> u32 \<times> u32 \<times> u16) \<times> u8 list) option" where
  "rd_head r =
     (case rd_u16 r of None \<Rightarrow> None | Some (name_len, r) \<Rightarrow>
     (case rd_take (unat name_len) r of None \<Rightarrow> None | Some (name, r) \<Rightarrow>
     (case rd_u16 r of None \<Rightarrow> None | Some (rt, r) \<Rightarrow>
     (case rd_u16 r of None \<Rightarrow> None | Some (cl, r) \<Rightarrow>
     (case rd_u8 r of None \<Rightarrow> None | Some (flags, r) \<Rightarrow>
     (case rd_u32 r of None \<Rightarrow> None | Some (age, r) \<Rightarrow>
     (case rd_u32 r of None \<Rightarrow> None | Some (t, r) \<Rightarrow>
     (case rd_u16 r of None \<Rightarrow> None | Some (rcode, r) \<Rightarrow>
       Some ((\<lparr>k_name = from_utf8_lossy name, k_rtype = rt, k_class = cl,
               k_dnssec_ok = (flags AND 1 \<noteq> 0), k_checking_disabled = (flags AND 2 \<noteq> 0)\<rparr>,
              age, t, rcode), r)))))))))"

definition read_record :: "dns_ext \<Rightarrow> u8 list \<Rightarrow> (parsed_entry \<times> u8 list) option" where
  "read_record dx r =
     (case rd_head r of None \<Rightarrow> None | Some ((key, age, t, rcode), r) \<Rightarrow>
     (case rd_u16 r of None \<Rightarrow> None | Some (ans_count, r) \<Rightarrow>
      if MAX_SNAPSHOT_ANSWERS < uint ans_count then None else
     (case rd_answers (unat ans_count) r of None \<Rightarrow> None | Some (answers, r) \<Rightarrow>
     (case rd_u32 r of None \<Rightarrow> None | Some (wire_len, r) \<Rightarrow>
      if MAX_SNAPSHOT_WIRE_LEN < uint wire_len then None else
     (case rd_take (unat wire_len) r of None \<Rightarrow> None | Some (bytes, r) \<Rightarrow>
      if \<not> wire_matches_key dx bytes key then None else
     (case rd_u32 r of None \<Rightarrow> None | Some (off_count, r) \<Rightarrow>
      if MAX_SNAPSHOT_TTL_OFFSETS < uint off_count then None else
     (case rd_offsets (unat off_count) r of None \<Rightarrow> None | Some (offs, r) \<Rightarrow>
      if list_ex (\<lambda>o'. int (length bytes) < uint o' + 4) offs then None
      else Some (\<lparr>pe_key = key, pe_age = age, pe_ttl = t,
                  pe_stored = StWire bytes offs rcode answers\<rparr>, r))))))))"

definition live :: "u32 \<Rightarrow> int \<Rightarrow> entry \<Rightarrow> bool" where
  "live stale now e = (age_secs now e < saturating_add (ttl e) stale)"

definition export_entry :: "int \<Rightarrow> query_key \<times> entry \<Rightarrow> u8 list option" where
  "export_entry now ke =
     (case stored (snd ke) of
        StWire bytes offs rcode answers \<Rightarrow>
          Some (write_record (fst ke) (age_secs now (snd ke)) (ttl (snd ke)) rcode answers bytes offs)
      | StMessage _ \<Rightarrow> None)"

text \<open>The records that a snapshot holds: the live wire entries, shard by shard.\<close>

definition snapshot_entries :: "'c cache_ext \<Rightarrow> int \<Rightarrow> 'c dns_cache \<Rightarrow> (query_key \<times> entry) list" where
  "snapshot_entries cx now c =
     filter (\<lambda>ke. (case stored (snd ke) of StWire _ _ _ _ \<Rightarrow> True | StMessage _ \<Rightarrow> False)
                  \<and> live (stale_max_age c) now (snd ke))
       (concat (map (lru_iter cx) (shards c)))"

definition export_snapshot :: "'c cache_ext \<Rightarrow> int \<Rightarrow> u64 \<Rightarrow> 'c dns_cache \<Rightarrow> u8 list" where
  "export_snapshot cx now unix c =
     (let recs = List.map_filter (export_entry now) (snapshot_entries cx now c)
      in SNAPSHOT_MAGIC @ le64 unix @ le32 (word_of_nat (length recs)) @ concat recs)"

definition instant_checked_sub :: "int \<Rightarrow> int \<Rightarrow> int option" where
  "instant_checked_sub now secs =
     (let t = now - secs * NANOS in
      if secs < 9223372036854775808 \<and> - 9223372036854775808 * NANOS \<le> t then Some t else None)"

fun import_loop ::
  "dns_ext \<Rightarrow> 'c cache_ext \<Rightarrow> int \<Rightarrow> int \<Rightarrow> nat \<Rightarrow> u8 list \<Rightarrow> nat \<Rightarrow> 'c dns_cache
   \<Rightarrow> ('c dns_cache \<times> nat) option" where
  "import_loop dx cx now elapsed 0 r restored c = Some (c, restored)"
| "import_loop dx cx now elapsed (Suc n) r restored c =
     (case read_record dx r of None \<Rightarrow> Some (c, restored)
      | Some (pe, r') \<Rightarrow>
          let total_age = (uint (pe_age pe) + elapsed) mod 18446744073709551616 in
          if uint (pe_ttl pe) + uint (stale_max_age c) \<le> total_age
          then import_loop dx cx now elapsed n r' restored c
          else (case instant_checked_sub now total_age of
                  None \<Rightarrow> import_loop dx cx now elapsed n r' restored c
                | Some at \<Rightarrow>
                    let e = \<lparr>stored = pe_stored pe, stored_at = at, ttl = pe_ttl pe, verdict = None\<rparr>;
                        i = shard_index cx c (pe_key pe)
                    in (case nth_opt (shards c) i of None \<Rightarrow> None
                        | Some shard \<Rightarrow>
                            import_loop dx cx now elapsed n r' (Suc restored)
                              (c\<lparr>shards := (shards c)[i := lru_put cx (pe_key pe) e shard]\<rparr>))))"

definition import_snapshot ::
  "dns_ext \<Rightarrow> 'c cache_ext \<Rightarrow> int \<Rightarrow> u64 \<Rightarrow> u8 list \<Rightarrow> 'c dns_cache
   \<Rightarrow> ('c dns_cache \<times> nat) option" where
  "import_snapshot dx cx now unix data c =
     (case rd_take (length SNAPSHOT_MAGIC) data of None \<Rightarrow> Some (c, 0)
      | Some (magic, r) \<Rightarrow>
        if magic \<noteq> SNAPSHOT_MAGIC then Some (c, 0)
        else (case rd_u64 r of None \<Rightarrow> Some (c, 0)
        | Some (snap_unix, r) \<Rightarrow>
          (case rd_u32 r of None \<Rightarrow> Some (c, 0)
           | Some (cnt, r) \<Rightarrow>
               let elapsed = max 0 (uint unix - uint snap_unix)
               in import_loop dx cx now elapsed (unat cnt) r 0 c)))"

subsection \<open>The snapshot codec round trips\<close>

lemma utf8_lossy_valid: "utf8_valid s \<Longrightarrow> utf8_lossy s = s"
proof (induction s rule: utf8_lossy.induct)
  case (1 s)
  show ?case
  proof (cases "s = []")
    case True
    then show ?thesis by (simp add: utf8_lossy.simps)
  next
    case False
    obtain n ok where ch: "utf8_chunk s = (n, ok)" by fastforce
    have "ok \<and> utf8_valid (drop n s)"
      using "1.prems" False ch by (subst (asm) utf8_valid.simps) simp
    moreover have "utf8_lossy (drop n s) = drop n s"
      using "1.IH" [OF False ch [symmetric] refl] calculation by simp
    ultimately show ?thesis using False ch by (subst utf8_lossy.simps) simp
  qed
qed

lemma byte_char_byte: "byte_char (char_byte c) = c"
proof -
  show ?thesis by (simp add: of_char_mod_256 byte_char_def char_byte_def uint_word_of_int take_bit_eq_mod)
qed

lemma from_utf8_lossy_bytes: "utf8_valid s \<Longrightarrow> from_utf8_lossy (as_bytes s) = s"
  by (simp add: from_utf8_lossy_def as_bytes_def comp_def byte_char_byte utf8_lossy_valid)

lemma rd_take_append [simp]: "rd_take (length xs) (xs @ r) = Some (xs, r)"
  by (simp add: rd_take_def)

lemma length_le_bytes [simp]: "length (le_bytes n v) = n"
  by (induction n arbitrary: v) simp_all

lemma le_value_bytes: "0 \<le> v \<Longrightarrow> v < 256 ^ n \<Longrightarrow> le_value (le_bytes n v) = v"
proof (induction n arbitrary: v)
  case (Suc n)
  have "v div 256 < 256 ^ n" using Suc.prems by (intro int_div_less) simp_all
  then have "le_value (le_bytes n (v div 256)) = v div 256"
    using Suc by (simp add: pos_imp_zdiv_nonneg_iff)
  moreover have "uint (word_of_int v :: u8) = v mod 256"
    by (simp add: uint_word_of_int take_bit_eq_mod)
  ultimately show ?case by (simp add: le_value_def)
qed (simp add: le_value_def)

lemma rd_le_append [simp]:
  "rd_u16 (le16 w16 @ r) = Some (w16, r)"
  "rd_u32 (le32 w32 @ r) = Some (w32, r)"
  "rd_u64 (le64 w64 @ r) = Some (w64, r)"
proof -
  have t: "rd_take n (le_bytes n v @ r) = Some (le_bytes n v, r)" for n v by (simp add: rd_take_def)
  have v: "le_value (le_bytes 2 (uint w16)) = uint w16" "le_value (le_bytes 4 (uint w32)) = uint w32"
    "le_value (le_bytes 8 (uint w64)) = uint w64"
    using uint_lt2p [of w16] uint_lt2p [of w32] uint_lt2p [of w64] by (auto intro!: le_value_bytes)
  show "rd_u16 (le16 w16 @ r) = Some (w16, r)" "rd_u32 (le32 w32 @ r) = Some (w32, r)"
    "rd_u64 (le64 w64 @ r) = Some (w64, r)"
    by (simp_all only: rd_u16_def rd_u32_def rd_u64_def le16_def le32_def le64_def t v option.map
        prod.case word_of_int_uint)
qed

lemma rd_u8_append [simp]: "rd_u8 (b # r) = Some (b, r)"
  by (simp add: rd_u8_def rd_take_def)

lemma rd_answers_write:
  assumes "list_all (\<lambda>a. utf8_valid a \<and> int (length a) < 65536) as"
  shows "rd_answers (length as) (concat (map write_answer as) @ r) = Some (as, r)"
  using assms
proof (induction as)
  case (Cons a as)
  then have "unat (word_of_nat (length (as_bytes a)) :: u16) = length (as_bytes a)"
    by (intro unat_be16_length) (simp add: as_bytes_def)
  with Cons show ?case by (simp add: write_answer_def Let_def from_utf8_lossy_bytes)
qed simp

lemma rd_offsets_write: "rd_offsets (length os) (concat (map le32 os) @ r) = Some (os, r)"
  by (induction os) simp_all

text \<open>What the reader accepts: the bounds that it checks, and text that is UTF-8.\<close>

definition record_fits :: "dns_ext \<Rightarrow> query_key \<Rightarrow> string list \<Rightarrow> u8 list \<Rightarrow> u32 list \<Rightarrow> bool" where
  "record_fits dx key answers bytes offs =
     (utf8_valid (k_name key) \<and> int (length (k_name key)) < 65536
      \<and> int (length answers) \<le> MAX_SNAPSHOT_ANSWERS
      \<and> list_all (\<lambda>a. utf8_valid a \<and> int (length a) < 65536) answers
      \<and> int (length bytes) \<le> MAX_SNAPSHOT_WIRE_LEN \<and> wire_matches_key dx bytes key
      \<and> int (length offs) \<le> MAX_SNAPSHOT_TTL_OFFSETS
      \<and> list_all (\<lambda>o'. uint o' + 4 \<le> int (length bytes)) offs)"

lemma key_flags_bits:
  "(key_flags key AND 1 \<noteq> 0) = k_dnssec_ok key" "(key_flags key AND 2 \<noteq> 0) = k_checking_disabled key"
  by (simp_all add: key_flags_def)

lemma rd_head_write:
  assumes "utf8_valid (k_name key)" "int (length (k_name key)) < 65536"
  shows "rd_head (le16 (word_of_nat (length (as_bytes (k_name key)))) @ as_bytes (k_name key)
      @ le16 (k_rtype key) @ le16 (k_class key)
      @ [key_flags key]
      @ le32 age @ le32 t @ le16 rcode @ r) = Some ((key, age, t, rcode), r)"
proof -
  have "unat (word_of_nat (length (as_bytes (k_name key))) :: u16) = length (as_bytes (k_name key))"
    using assms(2) by (intro unat_be16_length) (simp add: as_bytes_def)
  then show ?thesis
    using assms(1) by (simp add: rd_head_def from_utf8_lossy_bytes key_flags_bits)
qed

lemma read_write_record:
  assumes "record_fits dx key answers bytes offs"
  shows "read_record dx (write_record key age t rcode answers bytes offs @ r) =
    Some (\<lparr>pe_key = key, pe_age = age, pe_ttl = t, pe_stored = StWire bytes offs rcode answers\<rparr>, r)"
proof -
  note f = assms [unfolded record_fits_def MAX_SNAPSHOT_ANSWERS_def MAX_SNAPSHOT_WIRE_LEN_def
      MAX_SNAPSHOT_TTL_OFFSETS_def]
  have u: "unat (word_of_nat (length answers) :: u16) = length answers"
    "unat (word_of_nat (length bytes) :: u32) = length bytes"
    "unat (word_of_nat (length offs) :: u32) = length offs"
    using f by (auto intro!: unat_word_of_nat_less)
  then have i: "uint (word_of_nat (length answers) :: u16) = int (length answers)"
    "uint (word_of_nat (length bytes) :: u32) = int (length bytes)"
    "uint (word_of_nat (length offs) :: u32) = int (length offs)"
    by (metis uint_nat)+
  have "\<not> list_ex (\<lambda>o'. int (length bytes) < uint o' + 4) offs"
    using f by (auto simp: list_ex_iff list_all_iff)
  then show ?thesis
    using f rd_answers_write rd_offsets_write
    by (simp add: read_record_def write_record_def Let_def rd_head_write [simplified] u i MAX_SNAPSHOT_ANSWERS_def
        MAX_SNAPSHOT_WIRE_LEN_def MAX_SNAPSHOT_TTL_OFFSETS_def)
qed

subsection \<open>What the cache relies on from the LRU map\<close>

definition lru_laws :: "'c cache_ext \<Rightarrow> bool" where
  "lru_laws cx \<longleftrightarrow>
     (\<forall>n. lru_iter cx (lru_new cx n) = [])
     \<and> (\<forall>s. lru_iter cx (lru_clear cx s) = [])
     \<and> (\<forall>k s. fst (lru_get cx k s) = map_of (lru_iter cx s) k
          \<and> map_of (lru_iter cx (snd (lru_get cx k s))) = map_of (lru_iter cx s))
     \<and> (\<forall>k e s. map_of (lru_iter cx (lru_put cx k e s)) k = Some e
          \<and> (\<forall>k'. k' \<noteq> k \<longrightarrow>
               map_of (lru_iter cx (lru_put cx k e s)) k' \<in> {None, map_of (lru_iter cx s) k'}))
     \<and> (\<forall>k s. map_of (lru_iter cx (lru_pop cx k s)) = (map_of (lru_iter cx s))(k := None))
     \<and> (\<forall>n s k. map_of (lru_iter cx (lru_resize cx n s)) k \<in> {None, map_of (lru_iter cx s) k})"

text \<open>The entry of a key, and the invariant that keeps shard indices in range.\<close>

definition shard_view :: "'c cache_ext \<Rightarrow> 'c \<Rightarrow> query_key \<rightharpoonup> entry" where
  "shard_view cx s = map_of (lru_iter cx s)"

definition cache_find :: "'c cache_ext \<Rightarrow> 'c dns_cache \<Rightarrow> query_key \<Rightarrow> entry option" where
  "cache_find cx c k = shard_view cx (shards c ! shard_index cx c k) k"

definition cache_wf :: "'c dns_cache \<Rightarrow> bool" where
  "cache_wf c \<longleftrightarrow> unat (mask c) < length (shards c)"

lemma shard_index_less: "cache_wf c \<Longrightarrow> shard_index cx c k < length (shards c)"
proof -
  assume "cache_wf c"
  moreover have "key_hash cx k AND mask c \<le> mask c" by (rule word_and_le1)
  ultimately show ?thesis by (simp add: cache_wf_def shard_index_def word_le_nat_alt)
qed

lemma pow2_from_le: "p \<le> pow2_from fuel p n"
  by (induction fuel p n rule: pow2_from.induct) auto

lemma shard_count_bounds: "8 \<le> shard_count par \<and> shard_count par \<le> 64"
  by (simp add: shard_count_def Let_def)

lemma new_cache_wf: "cache_wf (new_cache cx cap a b d)"
proof -
  have "shard_count p - 1 < 2 ^ 64 \<and> 0 < shard_count p" for p
    using shard_count_bounds [of p] by simp linarith
  then have "unat (word_of_nat (shard_count p - 1) :: u64) < shard_count p" for p
    by (subst unat_word_of_nat_less) auto
  then show ?thesis by (simp add: cache_wf_def new_cache_def Let_def)
qed

text \<open>Operations that change one shard, and how the view changes.\<close>

lemma cache_find_update:
  assumes "cache_wf c"
  shows "cache_find cx (c\<lparr>shards := (shards c)[shard_index cx c key := s]\<rparr>) k =
    (if shard_index cx c k = shard_index cx c key then shard_view cx s k else cache_find cx c k)"
  using shard_index_less [OF assms] by (simp add: cache_find_def shard_index_def)

lemma cache_wf_update [simp]: "cache_wf (c\<lparr>shards := (shards c)[i := s]\<rparr>) = cache_wf c"
  by (simp add: cache_wf_def)

lemma count_find [simp]:
  "cache_find cx (count_hit c) = cache_find cx c" "cache_find cx (count_miss c) = cache_find cx c"
  "cache_find cx (count_stale_hit c) = cache_find cx c"
  "cache_wf (count_hit c) = cache_wf c" "cache_wf (count_miss c) = cache_wf c"
  "cache_wf (count_stale_hit c) = cache_wf c"
  by (simp_all add: cache_find_def shard_index_def count_hit_def count_miss_def count_stale_hit_def
      cache_wf_def fun_eq_iff)

text \<open>How a lookup treats the entry it finds.\<close>

datatype lookup = LMiss | LFresh u32 | LStale | LExpired

definition classify :: "u32 \<Rightarrow> int \<Rightarrow> entry option \<Rightarrow> lookup" where
  "classify stale now eo =
     (case eo of None \<Rightarrow> LMiss
      | Some e \<Rightarrow>
          let age = age_secs now e in
          if age < ttl e then LFresh (ttl e - age)
          else if uint age - uint (ttl e) < uint stale then LStale else LExpired)"

definition hit_of :: "entry \<Rightarrow> u16 \<Rightarrow> lookup \<Rightarrow> cache_hit option" where
  "hit_of e ident l =
     (case l of
        LFresh t \<Rightarrow> Some \<lparr>hit_response = serve (stored e) ident t, hit_freshness = Fresh, hit_verdict = verdict e\<rparr>
      | LStale \<Rightarrow> Some \<lparr>hit_response = serve (stored e) ident STALE_SERVE_TTL, hit_freshness = Stale,
                        hit_verdict = verdict e\<rparr>
      | _ \<Rightarrow> None)"

definition counters_after :: "lookup \<Rightarrow> cache_counters \<Rightarrow> cache_counters" where
  "counters_after l k =
     (case l of
        LFresh _ \<Rightarrow> k\<lparr>cc_hits := cc_hits k + 1\<rparr>
      | LStale \<Rightarrow> k\<lparr>cc_hits := cc_hits k + 1, cc_stale_hits := cc_stale_hits k + 1\<rparr>
      | _ \<Rightarrow> k\<lparr>cc_misses := cc_misses k + 1\<rparr>)"

lemma fresh_ttl_pos: "age < t \<Longrightarrow> max (t - age) 1 = (t - age :: u32)"
  by (metis max_def order_antisym_conv right_minus_eq word_le_less_eq word_less_1 less_irrefl)

lemma saturating_sub_uint: "\<not> age < t \<Longrightarrow> uint (saturating_sub age t) = uint age - uint t"
  using uint_minus_simple_alt [of t age] by (simp add: saturating_sub_def not_less)

lemma cache_get_spec:
  fixes key :: query_key and now :: int
  assumes wf: "cache_wf c" and laws: "lru_laws cx" and en: "c_enabled c"
  defines "eo \<equiv> cache_find cx c key"
  defines "l \<equiv> classify (stale_max_age c) now eo"
  shows "\<exists>c'. cache_get cx now c key ident = Some (c', Option.bind eo (\<lambda>e. hit_of e ident l))
    \<and> cache_wf c' \<and> counters c' = counters_after l (counters c)
    \<and> cache_find cx c' = (if l = LExpired then (cache_find cx c)(key := None) else cache_find cx c)"
proof -
  let ?i = "shard_index cx c key"
  have i: "?i < length (shards c)" using wf by (rule shard_index_less)
  obtain r s' where get: "lru_get cx key (shards c ! ?i) = (r, s')" by fastforce
  have r: "r = eo" and view: "shard_view cx s' = shard_view cx (shards c ! ?i)"
    using laws get unfolding lru_laws_def eo_def cache_find_def shard_view_def by (metis fst_conv snd_conv)+
  let ?c = "c\<lparr>shards := (shards c)[?i := s']\<rparr>"
  have same: "cache_find cx ?c = cache_find cx c"
    by (rule ext) (simp add: cache_find_update [OF wf] view, simp add: cache_find_def)
  have pop: "shard_view cx (lru_pop cx key s') = (shard_view cx (shards c ! ?i))(key := None)"
    using laws view unfolding lru_laws_def shard_view_def by simp
  have popped: "cache_find cx (c\<lparr>shards := (shards c)[?i := lru_pop cx key s']\<rparr>) = (cache_find cx c)(key := None)"
    by (rule ext) (auto simp: cache_find_update [OF wf] pop, simp add: cache_find_def)
  show ?thesis
  proof (cases eo)
    case None
    then show ?thesis
      using wf en i get r same
      by (simp add: cache_get_def Let_def nth_opt_def l_def classify_def counters_after_def count_miss_def
          cache_wf_def cache_find_def shard_index_def fun_eq_iff)
  next
    case (Some e)
    let ?age = "age_secs now e"
    consider (fresh) "?age < ttl e" | (stale) "\<not> ?age < ttl e" "uint ?age - uint (ttl e) < uint (stale_max_age c)"
      | (expired) "\<not> ?age < ttl e" "\<not> uint ?age - uint (ttl e) < uint (stale_max_age c)"
      by blast
    then show ?thesis
    proof cases
      case fresh
      then have "cache_get cx now c key ident = Some (count_hit ?c, Option.bind eo (\<lambda>e. hit_of e ident l))"
        "l = LFresh (ttl e - ?age)"
        using en i get r Some
        by (simp_all add: cache_get_def Let_def nth_opt_def l_def classify_def hit_of_def fresh_ttl_pos)
      with wf same show ?thesis by (simp add: counters_after_def) (simp add: count_hit_def)
    next
      case stale
      then have "saturating_sub ?age (ttl e) < stale_max_age c"
        by (simp add: word_less_def saturating_sub_uint)
      with stale have "cache_get cx now c key ident =
          Some (count_hit (count_stale_hit ?c), Option.bind eo (\<lambda>e. hit_of e ident l))" "l = LStale"
        using en i get r Some
        by (simp_all add: cache_get_def Let_def nth_opt_def l_def classify_def hit_of_def)
      with wf same show ?thesis by (simp add: counters_after_def) (simp add: count_hit_def count_stale_hit_def)
    next
      case expired
      then have "\<not> saturating_sub ?age (ttl e) < stale_max_age c"
        by (simp add: word_less_def saturating_sub_uint)
      with expired have "cache_get cx now c key ident =
          Some (count_miss (c\<lparr>shards := (shards c)[?i := lru_pop cx key s']\<rparr>), Option.bind eo (\<lambda>e. hit_of e ident l))"
        "l = LExpired"
        using en i get r Some
        by (simp_all add: cache_get_def Let_def nth_opt_def l_def classify_def hit_of_def)
      with wf popped show ?thesis by (simp add: counters_after_def) (simp add: count_miss_def)
    qed
  qed
qed

lemma insert_inner_spec:
  fixes dx :: dns_ext and now :: int and v :: "response_verdict option"
  assumes wf: "cache_wf c" and laws: "lru_laws cx" and en: "c_enabled c"
    and ttl: "cacheable_ttl c m = Some t"
  defines "e \<equiv> \<lparr>stored = fst (stored_form dx c m), stored_at = now, ttl = t, verdict = v\<rparr>"
  shows "\<exists>c'. insert_inner dx cx now c key m v = Some (c', snd (stored_form dx c m))
    \<and> cache_wf c' \<and> counters c' = counters c \<and> c_enabled c' \<and> stale_max_age c' = stale_max_age c
    \<and> cache_find cx c' key = Some e
    \<and> (\<forall>k. k \<noteq> key \<longrightarrow> cache_find cx c' k \<in> {None, cache_find cx c k})"
proof -
  let ?i = "shard_index cx c key"
  have i: "?i < length (shards c)" using wf by (rule shard_index_less)
  let ?s = "lru_put cx key e (shards c ! ?i)" and ?c = "c\<lparr>shards := (shards c)[?i := lru_put cx key e (shards c ! ?i)]\<rparr>"
  have put: "shard_view cx ?s key = Some e"
    "k \<noteq> key \<Longrightarrow> shard_view cx ?s k \<in> {None, shard_view cx (shards c ! ?i) k}" for k
    using laws unfolding lru_laws_def shard_view_def by blast+
  have find: "cache_find cx ?c key = Some e" by (simp add: cache_find_update [OF wf] put)
  have other: "\<forall>k. k \<noteq> key \<longrightarrow> cache_find cx ?c k \<in> {None, cache_find cx c k}"
  proof (intro allI impI)
    fix k assume k: "k \<noteq> key"
    have "cache_find cx c k = shard_view cx (shards c ! shard_index cx c k) k" by (simp add: cache_find_def)
    with put(2) [OF k] show "cache_find cx ?c k \<in> {None, cache_find cx c k}"
      by (simp only: cache_find_update [OF wf]) (auto split: if_splits)
  qed
  have "insert_inner dx cx now c key m v = Some (?c, snd (stored_form dx c m))"
    using en ttl i by (simp add: insert_inner_def Let_def nth_opt_def e_def split_beta)
  with find other wf en show ?thesis by (intro exI [of _ ?c]) simp
qed

lemma cacheable_ttl_bounds:
  assumes "cacheable_ttl c m = Some t"
  shows "0 < t" "max_ttl c \<noteq> 0 \<Longrightarrow> t \<le> max_ttl c"
    and "max_ttl c = 0 \<or> min_ttl c \<le> max_ttl c \<Longrightarrow> min_ttl c \<le> t"
    and "m_response_code m = RC_NoError \<or> m_response_code m = RC_NXDomain" "\<not> m_truncation m"
proof -
  have "t \<noteq> 0" using assms by (auto simp: cacheable_ttl_def Let_def split: if_splits)
  then show "0 < t" by (simp add: word_neq_0_conv)
qed (use assms in \<open>auto simp: cacheable_ttl_def Let_def split: if_splits\<close>)


text \<open>A fresh entry is served with the query's id and the remaining TTL.\<close>

lemma get_after_insert:
  assumes wf: "cache_wf c" and laws: "lru_laws cx" and en: "c_enabled c"
    and ttl: "cacheable_ttl c m = Some t"
    and ins: "insert_inner dx cx now c key m v = Some (c', sv)"
    and age: "elapsed_secs now' now < uint t"
  shows "\<exists>c''. cache_get cx now' c' key ident =
    Some (c'', Some \<lparr>hit_response = serve (fst (stored_form dx c m)) ident (t - word_of_int (elapsed_secs now' now)),
                     hit_freshness = Fresh, hit_verdict = v\<rparr>)"
proof -
  let ?e = "\<lparr>stored = fst (stored_form dx c m), stored_at = now, ttl = t, verdict = v\<rparr>"
  have c': "cache_wf c'" "c_enabled c'" "cache_find cx c' key = Some ?e"
    using insert_inner_spec [OF wf laws en ttl, of dx now key v] ins by auto
  have ge: "0 \<le> elapsed_secs now' now" by (simp add: elapsed_secs_def NANOS_def pos_imp_zdiv_nonneg_iff)
  have lt: "elapsed_secs now' now < 4294967296" using age uint_lt2p [of t] by simp
  then have a: "age_secs now' ?e = word_of_int (elapsed_secs now' now)" by (simp add: age_secs_def)
  have "uint (word_of_int (elapsed_secs now' now) :: u32) = elapsed_secs now' now"
    using ge lt by (simp add: uint_word_of_int take_bit_eq_mod)
  then have "age_secs now' ?e < t" using age a by (simp add: word_less_def)
  then have cl: "classify (stale_max_age c') now' (Some ?e) = LFresh (t - word_of_int (elapsed_secs now' now))"
    by (simp add: classify_def Let_def a)
  show ?thesis
    using cache_get_spec [OF c'(1) laws c'(2), of now' key ident] c'(3) cl by (auto simp: hit_of_def)
qed

lemma serve_stored_wire:
  assumes "to_vec dx m = Some (enc_msg wm)" "wire_msg_ok wm"
  shows "serve (fst (stored_form dx c m)) ident t =
    CWire (enc_msg (with_id_ttl ident t wm)) (m_response_code m)
      (if store_summaries c then map (summarize dx) (m_answers m) else [])"
proof -
  obtain offs where "scan_ttl_offsets (enc_msg wm) = Some offs"
    using scan_ttl_offsets_enc [OF assms(2)] by blast
  with assms show ?thesis by (simp add: stored_form_def Let_def serve_def patch_enc)
qed

subsection \<open>Restoring a snapshot\<close>

definition restore_entry ::
  "'c cache_ext \<Rightarrow> int \<Rightarrow> int \<Rightarrow> int \<Rightarrow> 'c dns_cache \<Rightarrow> query_key \<times> entry \<Rightarrow> 'c dns_cache" where
  "restore_entry cx now now' elapsed c ke =
     (let age = uint (age_secs now (snd ke)) + elapsed;
          e = \<lparr>stored = stored (snd ke), stored_at = now' - age * NANOS, ttl = ttl (snd ke), verdict = None\<rparr>;
          i = shard_index cx c (fst ke)
      in c\<lparr>shards := (shards c)[i := lru_put cx (fst ke) e (shards c ! i)]\<rparr>)"

definition still_live :: "int \<Rightarrow> int \<Rightarrow> u32 \<Rightarrow> query_key \<times> entry \<Rightarrow> bool" where
  "still_live now elapsed stale ke =
     (uint (age_secs now (snd ke)) + elapsed < uint (ttl (snd ke)) + uint stale)"

definition entry_fits :: "dns_ext \<Rightarrow> query_key \<times> entry \<Rightarrow> bool" where
  "entry_fits dx ke =
     (case stored (snd ke) of
        StWire bytes offs rcode answers \<Rightarrow> record_fits dx (fst ke) answers bytes offs
      | StMessage _ \<Rightarrow> False)"

lemma restore_entry_keeps [simp]:
  "cache_wf (restore_entry cx now now' el c ke) = cache_wf c"
  "stale_max_age (restore_entry cx now now' el c ke) = stale_max_age c"
  by (simp_all add: restore_entry_def Let_def)

lemma import_loop_entries:
  assumes "list_all (entry_fits dx) es" "cache_wf c" "0 \<le> el" "el < 9223372036854775808" "0 \<le> now'"
  shows "import_loop dx cx now' el (length es) (concat (List.map_filter (export_entry now) es) @ r) n c =
    Some (foldl (restore_entry cx now now' el) c (filter (still_live now el (stale_max_age c)) es),
          n + length (filter (still_live now el (stale_max_age c)) es))"
  using assms(1,2)
proof (induction es arbitrary: c n)
  case Nil
  then show ?case by (simp add: map_filter_Nil)
next
  case (Cons ke es)
  obtain key e where ke: "ke = (key, e)" by fastforce
  obtain bytes offs rcode answers where st: "stored e = StWire bytes offs rcode answers"
    and fits: "record_fits dx key answers bytes offs"
    using Cons.prems(1) ke by (auto simp: entry_fits_def split: stored.splits)
  let ?age = "age_secs now e" and ?i = "shard_index cx c key"
  let ?ta = "uint ?age + el"
  have rd: "read_record dx (concat (List.map_filter (export_entry now) (ke # es)) @ r) =
      Some (\<lparr>pe_key = key, pe_age = ?age, pe_ttl = ttl e, pe_stored = stored e\<rparr>,
            concat (List.map_filter (export_entry now) es) @ r)"
    using read_write_record [OF fits, of ?age "ttl e" rcode] st
    by (simp add: map_filter_Cons export_entry_def ke)
  have lt: "0 \<le> ?ta" "?ta < 18446744073709551616" using assms(3,4) uint_lt2p [of ?age] by simp_all
  have sub: "uint (ttl e) + uint (stale_max_age c) > ?ta \<Longrightarrow> instant_checked_sub now' ?ta = Some (now' - ?ta * NANOS)"
    using assms(5) uint_lt2p [of "ttl e"] uint_lt2p [of "stale_max_age c"] lt(1)
    by (simp add: instant_checked_sub_def Let_def NANOS_def)
  have i: "?i < length (shards c)" using Cons.prems(2) by (rule shard_index_less)
  have rest: "list_all (entry_fits dx) es" using Cons.prems(1) by simp
  show ?case
  proof (cases "still_live now el (stale_max_age c) ke")
    case True
    then have "import_loop dx cx now' el (length (ke # es)) (concat (List.map_filter (export_entry now) (ke # es)) @ r) n c =
        import_loop dx cx now' el (length es) (concat (List.map_filter (export_entry now) es) @ r) (Suc n)
          (restore_entry cx now now' el c ke)"
      using rd sub i lt by (simp add: still_live_def ke Let_def restore_entry_def nth_opt_def)
    with True Cons.IH [OF rest, of "restore_entry cx now now' el c ke"] Cons.prems(2) show ?thesis by simp
  next
    case False
    then have "import_loop dx cx now' el (length (ke # es)) (concat (List.map_filter (export_entry now) (ke # es)) @ r) n c =
        import_loop dx cx now' el (length es) (concat (List.map_filter (export_entry now) es) @ r) n c"
      using rd lt by (simp add: still_live_def ke Let_def)
    with False Cons.IH [OF rest Cons.prems(2)] show ?thesis by simp
  qed
qed

lemma length_export:
  "list_all (entry_fits dx) es \<Longrightarrow> length (List.map_filter (export_entry now) es) = length es"
  by (induction es)
    (auto simp: map_filter_Cons map_filter_Nil export_entry_def entry_fits_def split: stored.splits)

lemma import_export:
  assumes "list_all (entry_fits dx) (snapshot_entries cx now c)" "cache_wf c0"
    and "uint unix' - uint unix < 9223372036854775808" "0 \<le> now'"
    and "int (length (snapshot_entries cx now c)) < 4294967296"
  defines "el \<equiv> max 0 (uint unix' - uint unix)"
  defines "es \<equiv> filter (still_live now el (stale_max_age c0)) (snapshot_entries cx now c)"
  shows "import_snapshot dx cx now' unix' (export_snapshot cx now unix c) c0 =
           Some (foldl (restore_entry cx now now' el) c0 es, length es)"
proof -
  let ?es = "snapshot_entries cx now c" and ?recs = "List.map_filter (export_entry now) (snapshot_entries cx now c)"
  have len: "length ?recs = length ?es"
    using assms(1) by (rule length_export)
  have un: "unat (word_of_nat (length ?es) :: u32) = length ?es"
    using assms(5) by (intro unat_word_of_nat_less) simp
  have "import_loop dx cx now' el (length ?es) (concat ?recs @ []) 0 c0 =
      Some (foldl (restore_entry cx now now' el) c0 es, 0 + length es)"
    unfolding es_def using assms(1-4) by (intro import_loop_entries) (simp_all add: el_def)
  then show ?thesis
    by (simp add: import_snapshot_def export_snapshot_def Let_def len un el_def)
qed

lemma reconfigure_wf: "cache_wf (reconfigure cx en cap a b d c) = cache_wf c"
  by (simp add: reconfigure_def clear_cache_def cache_wf_def Let_def)

lemma clear_cache_find: "lru_laws cx \<Longrightarrow> cache_wf c \<Longrightarrow> cache_find cx (clear_cache cx c) k = None"
  using shard_index_less [of c cx k]
  by (simp add: clear_cache_def cache_find_def shard_index_def shard_view_def lru_laws_def)

lemma import_loop_total:
  "cache_wf c \<Longrightarrow> \<exists>c' n'. import_loop dx cx now el n r k c = Some (c', n') \<and> cache_wf c'"
proof (induction n arbitrary: r k c)
  case (Suc n)
  show ?case
  proof (cases "read_record dx r")
    case None
    with Suc.prems show ?thesis by simp
  next
    case (Some p)
    obtain pe r' where p: "p = (pe, r')" by fastforce
    have "shard_index cx c (pe_key pe) < length (shards c)" using Suc.prems by (rule shard_index_less)
    then show ?thesis
      using Suc.IH [OF Suc.prems] Suc.IH Suc.prems Some p
      by (auto simp: Let_def nth_opt_def split: option.split)
  qed
qed simp

lemma import_snapshot_total:
  "cache_wf c \<Longrightarrow> \<exists>c' n. import_snapshot dx cx now unix data c = Some (c', n) \<and> cache_wf c'"
  using import_loop_total
  by (auto simp: import_snapshot_def Let_def split: option.split if_splits)

subsection \<open>The laws of the LRU map can hold\<close>

text \<open>A list, most recently used first, with its capacity.\<close>

definition lru_ref :: "(nat \<times> (query_key \<times> entry) list) cache_ext" where
  "lru_ref =
     \<lparr>lru_new = (\<lambda>n. (n, [])),
      lru_get = (\<lambda>k (n, xs).
        case map_of xs k of None \<Rightarrow> (None, (n, xs))
        | Some e \<Rightarrow> (Some e, (n, (k, e) # filter (\<lambda>p. fst p \<noteq> k) xs))),
      lru_put = (\<lambda>k e (n, xs). (n, take (max n 1) ((k, e) # filter (\<lambda>p. fst p \<noteq> k) xs))),
      lru_pop = (\<lambda>k (n, xs). (n, filter (\<lambda>p. fst p \<noteq> k) xs)),
      lru_resize = (\<lambda>m (n, xs). (m, take m xs)),
      lru_clear = (\<lambda>(n, xs). (n, [])),
      lru_iter = snd,
      key_hash = (\<lambda>k. word_of_nat (length (k_name k))),
      parallelism = Some 8\<rparr>"

lemma map_of_filter_neq: "map_of (filter (\<lambda>p. fst p \<noteq> k) xs) k' = (if k' = k then None else map_of xs k')"
  by (induction xs) auto

lemma map_of_take: "map_of (take n xs) k \<in> {None, map_of xs k}"
proof -
  have "map_of xs = map_of (drop n xs) ++ map_of (take n xs)"
    by (metis append_take_drop_id map_of_append)
  then show ?thesis by (cases "map_of (take n xs) k") (auto simp: map_add_def)
qed

lemma lru_ref_laws: "lru_laws lru_ref"
proof -
  have put: "map_of (take (max n 1) ((k, e) # filter (\<lambda>p. fst p \<noteq> k) xs)) k = Some e"
    "k' \<noteq> k \<Longrightarrow> map_of (take (max n 1) ((k, e) # filter (\<lambda>p. fst p \<noteq> k) xs)) k' \<in> {None, map_of xs k'}"
    for n k e k' and xs :: "(query_key \<times> entry) list"
  proof -
    show "map_of (take (max n 1) ((k, e) # filter (\<lambda>p. fst p \<noteq> k) xs)) k = Some e"
      by (cases "max n 1") auto
    show "map_of (take (max n 1) ((k, e) # filter (\<lambda>p. fst p \<noteq> k) xs)) k' \<in> {None, map_of xs k'}" if "k' \<noteq> k"
      using map_of_take [of "max n 1" "(k, e) # filter (\<lambda>p. fst p \<noteq> k) xs" k'] that
      by (simp add: map_of_filter_neq)
  qed
  have get: "map_of ((k, e) # filter (\<lambda>p. fst p \<noteq> k) xs) = map_of xs"
    if "map_of xs k = Some e" for k e and xs :: "(query_key \<times> entry) list"
    using that by (auto simp: map_of_filter_neq fun_eq_iff)
  have tk: "map_of (take n xs) k \<in> {None, map_of xs k}" for n k and xs :: "(query_key \<times> entry) list"
    by (rule map_of_take)
  show ?thesis
    using put get tk
    by (auto simp: lru_laws_def lru_ref_def map_of_filter_neq fun_eq_iff split: option.split)
qed

end
