(* ===== verification/Stats.thy ===== *)
theory Stats
  imports Complex_Main Heavy_Hitters Query_Log Client_Matcher Dns_Cache
    "HOL-Library.Product_Lexorder"
begin

text \<open>
  Query statistics, \<open>crates/bulwark-engine/src/stats.rs\<close>: sharded counters, latency histograms,
  top-N estimators, the hourly series, the merged snapshot and persistence. Counters are
  64-bit words; a \<open>f64\<close> is a real number; the shard a thread records into is a parameter, as are
  the iteration order of hash maps and the JSON codec. A panic is \<open>None\<close>.
\<close>

unbundle bit_operations_syntax

subsection \<open>Data\<close>

definition TOPK_KEYS :: nat where
  "TOPK_KEYS = 4096"

definition LATENCY_BUCKETS_MS :: "real list" where
  "LATENCY_BUCKETS_MS = [1, 2, 5, 10, 20, 50, 100, 200, 500, 1000]"

fun position_ge :: "real \<Rightarrow> real list \<Rightarrow> nat" where
  "position_ge ms [] = 0"
| "position_ge ms (b # bs) = (if ms \<le> b then 0 else Suc (position_ge ms bs))"

definition hist_index :: "real \<Rightarrow> nat" where
  "hist_index ms = position_ge ms LATENCY_BUCKETS_MS"

record bucket =
  b_hour :: int
  b_total :: u64
  b_blocked :: u64
  b_cached :: u64

record stats_inner =
  s_total :: u64
  s_blocked :: u64
  s_cached :: u64
  s_rewritten :: u64
  s_errors :: u64
  s_proc_hist :: "u64 list"
  s_resolved_domains :: counts
  s_blocked_domains :: counts
  s_clients :: counts
  s_upstreams :: counts
  s_rtt_sum :: "(string \<times> real) list"
  s_rtt_count :: counts
  s_latency_hist :: "(string \<times> u64 list) list"
  s_series :: "bucket list"
  s_cache :: cache_counters

definition default_inner :: stats_inner where
  "default_inner =
     \<lparr>s_total = 0, s_blocked = 0, s_cached = 0, s_rewritten = 0, s_errors = 0, s_proc_hist = [],
      s_resolved_domains = [], s_blocked_domains = [], s_clients = [], s_upstreams = [],
      s_rtt_sum = [], s_rtt_count = [], s_latency_hist = [], s_series = [], s_cache = zero_counters\<rparr>"

record stats_env =
  ord_counts :: "counts \<Rightarrow> counts"
  ord_sums :: "(string \<times> real) list \<Rightarrow> (string \<times> real) list"
  ord_hists :: "(string \<times> u64 list) list \<Rightarrow> (string \<times> u64 list) list"
  inner_to_json :: "stats_inner \<Rightarrow> string option"
  inner_from_json :: "string \<Rightarrow> stats_inner option"
  stats_parallelism :: "nat option"

subsection \<open>Merging shards\<close>

abbreviation hist_len :: nat where
  "hist_len \<equiv> length LATENCY_BUCKETS_MS + 1"

definition resize :: "nat \<Rightarrow> 'a \<Rightarrow> 'a list \<Rightarrow> 'a list" where
  "resize n x xs = take n xs @ replicate (n - length xs) x"

fun add_zip :: "u64 list \<Rightarrow> u64 list \<Rightarrow> u64 list" where
  "add_zip (a # as) (b # bs) = (a + b) # add_zip as bs"
| "add_zip as _ = as"

definition add_sum :: "(string \<times> real) list \<Rightarrow> string \<times> real \<Rightarrow> (string \<times> real) list" where
  "add_sum m kv =
     AList.update (fst kv) ((case map_of m (fst kv) of Some s \<Rightarrow> s | None \<Rightarrow> 0) + snd kv) m"

definition add_hist ::
  "(string \<times> u64 list) list \<Rightarrow> string \<times> u64 list \<Rightarrow> (string \<times> u64 list) list" where
  "add_hist m kh =
     (let dst = (case map_of m (fst kh) of Some h \<Rightarrow> h | None \<Rightarrow> replicate hist_len 0)
      in AList.update (fst kh) (if length dst = length (snd kh) then add_zip dst (snd kh) else dst) m)"

fun add_bucket :: "bucket list \<Rightarrow> bucket \<Rightarrow> bucket list" where
  "add_bucket [] b = [b]"
| "add_bucket (x # xs) b =
     (if b_hour x = b_hour b
      then x\<lparr>b_total := b_total x + b_total b, b_blocked := b_blocked x + b_blocked b,
             b_cached := b_cached x + b_cached b\<rparr> # xs
      else x # add_bucket xs b)"

definition merge_counts :: "(counts \<Rightarrow> counts) \<Rightarrow> counts \<Rightarrow> counts \<Rightarrow> counts" where
  "merge_counts ord dst src = foldl (\<lambda>d (k, v). add_count k v d) dst (ord src)"

definition merge_from :: "stats_env \<Rightarrow> stats_inner \<Rightarrow> stats_inner \<Rightarrow> stats_inner" where
  "merge_from sx s other =
     s\<lparr>s_total := s_total s + s_total other,
       s_blocked := s_blocked s + s_blocked other,
       s_cached := s_cached s + s_cached other,
       s_rewritten := s_rewritten s + s_rewritten other,
       s_errors := s_errors s + s_errors other,
       s_proc_hist := (if s_proc_hist other \<noteq> []
                       then add_zip (resize hist_len 0 (s_proc_hist s)) (s_proc_hist other)
                       else s_proc_hist s),
       s_resolved_domains := hh_merge (ord_counts sx) (s_resolved_domains s) (s_resolved_domains other),
       s_blocked_domains := hh_merge (ord_counts sx) (s_blocked_domains s) (s_blocked_domains other),
       s_clients := hh_merge (ord_counts sx) (s_clients s) (s_clients other),
       s_upstreams := merge_counts (ord_counts sx) (s_upstreams s) (s_upstreams other),
       s_rtt_sum := foldl add_sum (s_rtt_sum s) (ord_sums sx (s_rtt_sum other)),
       s_rtt_count := merge_counts (ord_counts sx) (s_rtt_count s) (s_rtt_count other),
       s_latency_hist := foldl add_hist (s_latency_hist s) (ord_hists sx (s_latency_hist other)),
       s_series := foldl add_bucket (s_series s) (s_series other)\<rparr>"

subsection \<open>The sharded statistics\<close>

record stats =
  st_shards :: "stats_inner list"
  st_mask :: nat
  st_key_cap :: nat
  st_enabled :: bool
  st_anonymize :: bool
  st_max_buckets :: nat

definition stats_shard_count :: "nat option \<Rightarrow> nat" where
  "stats_shard_count par =
     (let n = (case par of Some n \<Rightarrow> n | None \<Rightarrow> 4) in min 64 (max 1 (next_power_of_two n)))"

text \<open>\<open>(retention_days.max(1) * 24) as usize\<close>: the product is a 32-bit word and wraps.\<close>

definition retention_buckets :: "u32 \<Rightarrow> nat" where
  "retention_buckets days = unat (max days 1 * 24)"

definition new_stats :: "stats_env \<Rightarrow> bool \<Rightarrow> u32 \<Rightarrow> bool \<Rightarrow> stats" where
  "new_stats sx en days anon =
     (let n = stats_shard_count (stats_parallelism sx)
      in \<lparr>st_shards = replicate n default_inner, st_mask = n - 1, st_key_cap = max (TOPK_KEYS div n) 256,
          st_enabled = en, st_anonymize = anon, st_max_buckets = retention_buckets days\<rparr>)"

text \<open>\<open>while series.len() > max { series.remove(0) }\<close>.\<close>

definition trim_series :: "nat \<Rightarrow> bucket list \<Rightarrow> bucket list" where
  "trim_series mx xs = drop (length xs - mx) xs"

definition stats_reconfigure :: "bool \<Rightarrow> u32 \<Rightarrow> bool \<Rightarrow> stats \<Rightarrow> stats" where
  "stats_reconfigure en days anon st =
     (let mx = retention_buckets days
      in st\<lparr>st_enabled := en, st_anonymize := anon, st_max_buckets := mx,
            st_shards := map (\<lambda>s. s\<lparr>s_series := trim_series mx (s_series s)\<rparr>) (st_shards st)\<rparr>)"

definition bump_at :: "nat \<Rightarrow> u64 list \<Rightarrow> u64 list option" where
  "bump_at i h = (if i < length h then Some (h[i := h ! i + 1]) else None)"

definition hist_or_zeros :: "u64 list \<Rightarrow> u64 list" where
  "hist_or_zeros h = (if h = [] then replicate hist_len 0 else h)"

text \<open>Integer division on \<open>i64\<close> truncates.\<close>

definition trunc_div :: "int \<Rightarrow> int \<Rightarrow> int" where
  "trunc_div a b = (if 0 \<le> a then a div b else - ((- a) div b))"

definition of_flag :: "bool \<Rightarrow> u64" where
  "of_flag b = (if b then 1 else 0)"

definition record_upstream :: "nat \<Rightarrow> real \<Rightarrow> query_log_entry \<Rightarrow> stats_inner \<Rightarrow> stats_inner option" where
  "record_upstream cap up_ms entry s =
     (case entry_upstream entry of None \<Rightarrow> Some s
      | Some up \<Rightarrow>
          let s = s\<lparr>s_upstreams := bump (s_upstreams s) up 1 cap,
                    s_rtt_sum := AList.update up
                      (case map_of (s_rtt_sum s) up of Some v \<Rightarrow> v + up_ms | None \<Rightarrow> up_ms) (s_rtt_sum s),
                    s_rtt_count := AList.update up
                      (case map_of (s_rtt_count s) up of Some v \<Rightarrow> v + 1 | None \<Rightarrow> 1) (s_rtt_count s)\<rparr>;
              h = (case map_of (s_latency_hist s) up of Some h \<Rightarrow> h | None \<Rightarrow> replicate hist_len 0)
          in map_option (\<lambda>h. s\<lparr>s_latency_hist := AList.update up h (s_latency_hist s)\<rparr>)
               (bump_at (hist_index up_ms) h))"

definition record_series :: "nat \<Rightarrow> int \<Rightarrow> bool \<Rightarrow> bool \<Rightarrow> bucket list \<Rightarrow> bucket list" where
  "record_series mx hour blocked cached xs =
     (if xs \<noteq> [] \<and> b_hour (last xs) = hour
      then butlast xs @ [(last xs)\<lparr>b_total := b_total (last xs) + 1,
                                    b_blocked := b_blocked (last xs) + of_flag blocked,
                                    b_cached := b_cached (last xs) + of_flag cached\<rparr>]
      else trim_series mx (xs @ [\<lparr>b_hour = hour, b_total = 1, b_blocked = of_flag blocked,
                                  b_cached = of_flag cached\<rparr>]))"

definition record_inner ::
  "stats_env \<Rightarrow> nat \<Rightarrow> nat \<Rightarrow> bool \<Rightarrow> query_log_entry \<Rightarrow> real option \<Rightarrow> stats_inner \<Rightarrow> stats_inner option" where
  "record_inner sx cap mx anon entry rtt s =
     (let blocked = entry_is_blocked entry;
          domain = trim_end_matches CHR ''.'' (e_question entry);
          up_ms = (case rtt of Some r \<Rightarrow> r | None \<Rightarrow> e_elapsed_ms entry);
          hour = trunc_div (trunc_div (e_time_ms entry) 1000) 3600;
          s = s\<lparr>s_total := s_total s + 1\<rparr>;
          s = (case e_action entry of
                 Cached \<Rightarrow> s\<lparr>s_cached := s_cached s + 1\<rparr>
               | Rewritten _ _ \<Rightarrow> s\<lparr>s_rewritten := s_rewritten s + 1\<rparr>
               | ErrorAction \<Rightarrow> s\<lparr>s_errors := s_errors s + 1\<rparr>
               | _ \<Rightarrow> s);
          s = (if blocked then s\<lparr>s_blocked := s_blocked s + 1\<rparr> else s)
      in case (if e_action entry = ErrorAction then Some (s_proc_hist s)
               else bump_at (hist_index (e_elapsed_ms entry))
                      (hist_or_zeros (s_proc_hist s))) of
           None \<Rightarrow> None
         | Some ph \<Rightarrow>
             let s = s\<lparr>s_proc_hist := ph\<rparr>;
                 s = (if blocked
                      then s\<lparr>s_blocked_domains := hh_bump (ord_counts sx) domain 1 cap (s_blocked_domains s)\<rparr>
                      else s\<lparr>s_resolved_domains := hh_bump (ord_counts sx) domain 1 cap (s_resolved_domains s)\<rparr>);
                 s = (if \<not> anon
                      then s\<lparr>s_clients := hh_bump (ord_counts sx) (e_client_ip entry) 1 cap (s_clients s)\<rparr>
                      else s)
             in map_option
                  (\<lambda>s. s\<lparr>s_series := record_series mx hour blocked (e_action entry = Cached) (s_series s)\<rparr>)
                  (record_upstream cap up_ms entry s))"

definition stats_record ::
  "stats_env \<Rightarrow> nat \<Rightarrow> query_log_entry \<Rightarrow> real option \<Rightarrow> stats \<Rightarrow> stats option" where
  "stats_record sx slot entry rtt st =
     (if \<not> st_enabled st then Some st
      else
        let i = slot AND st_mask st in
        case nth_opt (st_shards st) i of None \<Rightarrow> None
        | Some s \<Rightarrow>
            map_option (\<lambda>s'. st\<lparr>st_shards := (st_shards st)[i := s']\<rparr>)
              (record_inner sx (st_key_cap st) (st_max_buckets st) (st_anonymize st) entry rtt s))"

definition stats_reset :: "stats \<Rightarrow> stats" where
  "stats_reset st = st\<lparr>st_shards := map (\<lambda>_. default_inner) (st_shards st)\<rparr>"

definition merged :: "stats_env \<Rightarrow> stats \<Rightarrow> stats_inner" where
  "merged sx st =
     (let acc = foldl (merge_from sx) default_inner (st_shards st)
      in acc\<lparr>s_series := trim_series (st_max_buckets st) (sort_key b_hour (s_series acc))\<rparr>)"

subsection \<open>Snapshots\<close>

text \<open>\<open>as f64\<close> on a counter.\<close>

definition as_f64 :: "u64 \<Rightarrow> real" where
  "as_f64 w = real (unat w)"

text \<open>Bounds of a histogram bucket; the last is unbounded.\<close>

definition bucket_bounds :: "nat \<Rightarrow> real \<times> real option" where
  "bucket_bounds i =
     (if i = 0 then 0 else LATENCY_BUCKETS_MS ! (i - 1),
      if i < length LATENCY_BUCKETS_MS then Some (LATENCY_BUCKETS_MS ! i) else None)"

fun quantile_loop :: "real \<Rightarrow> u64 \<Rightarrow> nat \<Rightarrow> u64 list \<Rightarrow> real" where
  "quantile_loop target cum i [] = last LATENCY_BUCKETS_MS"
| "quantile_loop target cum i (c # cs) =
     (if c = 0 then quantile_loop target cum (Suc i) cs
      else if target \<le> as_f64 (cum + c) then
        (case bucket_bounds i of
           (lo, None) \<Rightarrow> lo
         | (lo, Some up) \<Rightarrow>
             lo + (up - lo) * ((target - as_f64 cum) / as_f64 c))
      else quantile_loop target (cum + c) (Suc i) cs)"

definition quantile :: "u64 list \<Rightarrow> u64 \<Rightarrow> real \<Rightarrow> real" where
  "quantile hist tot q =
     (if tot = 0 then 0 else quantile_loop (q * as_f64 tot) 0 0 hist)"

record latency_percentiles =
  p50 :: real
  p90 :: real
  p99 :: real

definition percentiles :: "u64 list \<Rightarrow> latency_percentiles" where
  "percentiles hist =
     (let tot = sum_list hist
      in \<lparr>p50 = quantile hist tot (50 / 100), p90 = quantile hist tot (90 / 100),
          p99 = quantile hist tot (99 / 100)\<rparr>)"

record top_entry =
  te_name :: string
  te_count :: u64

definition top_order :: "top_entry \<Rightarrow> int \<times> string" where
  "top_order e = (- uint (te_count e), te_name e)"

definition top_n_of :: "stats_env \<Rightarrow> counts \<Rightarrow> nat \<Rightarrow> top_entry list" where
  "top_n_of sx m n =
     take n (sort_key top_order (map (\<lambda>(k, c). \<lparr>te_name = k, te_count = c\<rparr>) (ord_counts sx m)))"

definition by_label :: "stats_env \<Rightarrow> filter_ext \<Rightarrow> client_matcher \<Rightarrow> counts \<Rightarrow> counts" where
  "by_label sx fx clients m =
     foldl (\<lambda>acc (ip, c).
       add_count (case name_for_str fx clients ip of Some n \<Rightarrow> n | None \<Rightarrow> ip) c acc) [] (ord_counts sx m)"

definition top_clients_resolved ::
  "stats_env \<Rightarrow> filter_ext \<Rightarrow> counts \<Rightarrow> client_matcher \<Rightarrow> nat \<Rightarrow> top_entry list" where
  "top_clients_resolved sx fx m clients n = top_n_of sx (by_label sx fx clients m) n"

record stats_summary =
  ss_total :: u64
  ss_blocked :: u64
  ss_cached :: u64
  ss_rewritten :: u64
  ss_errors :: u64
  ss_block_rate :: real
  ss_p95_processing_ms :: real
  ss_top_resolved_domains :: "top_entry list"
  ss_top_blocked_domains :: "top_entry list"
  ss_top_clients :: "top_entry list"
  ss_top_upstreams :: "top_entry list"
  ss_upstream_avg_rtt_ms :: "(string \<times> real) list"
  ss_upstream_latency_pct :: "(string \<times> latency_percentiles) list"
  ss_series :: "bucket list"

definition stats_snapshot :: "stats_env \<Rightarrow> filter_ext \<Rightarrow> nat \<Rightarrow> client_matcher \<Rightarrow> stats \<Rightarrow> stats_summary" where
  "stats_snapshot sx fx top_n clients st =
     (let s = merged sx st;
          proc_total = sum_list (s_proc_hist s)
      in \<lparr>ss_total = s_total s, ss_blocked = s_blocked s, ss_cached = s_cached s,
          ss_rewritten = s_rewritten s, ss_errors = s_errors s,
          ss_block_rate = (if 0 < s_total s then as_f64 (s_blocked s) / as_f64 (s_total s) else 0),
          ss_p95_processing_ms = quantile (s_proc_hist s) proc_total (95 / 100),
          ss_top_resolved_domains = top_n_of sx (s_resolved_domains s) top_n,
          ss_top_blocked_domains = top_n_of sx (s_blocked_domains s) top_n,
          ss_top_clients = top_clients_resolved sx fx (s_clients s) clients top_n,
          ss_top_upstreams = top_n_of sx (s_upstreams s) top_n,
          ss_upstream_avg_rtt_ms =
            map (\<lambda>(k, c). (k, if 0 < c
                              then (case map_of (s_rtt_sum s) k of Some v \<Rightarrow> v | None \<Rightarrow> 0) / as_f64 c
                              else 0)) (ord_counts sx (s_rtt_count s)),
          ss_upstream_latency_pct = map (\<lambda>(k, h). (k, percentiles h)) (ord_hists sx (s_latency_hist s)),
          ss_series = s_series s\<rparr>)"

definition stats_export :: "stats_env \<Rightarrow> cache_counters \<Rightarrow> stats \<Rightarrow> string" where
  "stats_export sx cache st =
     (case inner_to_json sx ((merged sx st)\<lparr>s_cache := cache\<rparr>) of Some j \<Rightarrow> j | None \<Rightarrow> [])"

definition stats_import :: "stats_env \<Rightarrow> string \<Rightarrow> stats \<Rightarrow> stats \<times> cache_counters" where
  "stats_import sx json st =
     (case inner_from_json sx json of
        None \<Rightarrow> (st, zero_counters)
      | Some loaded \<Rightarrow>
          (st\<lparr>st_shards := map (\<lambda>i. if i = 0 then loaded else default_inner) [0..<length (st_shards st)]\<rparr>,
           s_cache loaded))"

subsection \<open>Recording never panics\<close>

text \<open>Histograms have one slot per bucket and one above them.\<close>

definition inner_ok :: "stats_inner \<Rightarrow> bool" where
  "inner_ok s \<longleftrightarrow> (s_proc_hist s = [] \<or> length (s_proc_hist s) = hist_len)
     \<and> (\<forall>(_, h) \<in> set (s_latency_hist s). length h = hist_len)"

definition stats_ok :: "stats \<Rightarrow> bool" where
  "stats_ok st \<longleftrightarrow> st_mask st < length (st_shards st) \<and> 0 < st_key_cap st \<and> list_all inner_ok (st_shards st)"

lemma position_ge_le: "position_ge ms bs \<le> length bs"
  by (induction bs) auto

lemma hist_index_less: "hist_index ms < hist_len"
  using position_ge_le [of ms LATENCY_BUCKETS_MS] by (simp add: hist_index_def)

lemma bump_at_Some: "length h = hist_len \<Longrightarrow> \<exists>h'. bump_at (hist_index ms) h = Some h' \<and> length h' = hist_len
     \<and> sum_list h' = sum_list h + 1"
proof -
  assume h: "length h = hist_len"
  let ?i = "hist_index ms"
  have i: "?i < length h" using hist_index_less h by simp
  have "h = take ?i h @ h ! ?i # drop (Suc ?i) h" using i by (simp add: id_take_nth_drop)
  moreover have "h[?i := h ! ?i + 1] = take ?i h @ (h ! ?i + 1) # drop (Suc ?i) h" using i by (simp add: upd_conv_take_nth_drop)
  ultimately have "sum_list (h[?i := h ! ?i + 1]) = sum_list h + 1"
    by (metis (no_types, lifting) add.assoc add.commute sum_list.Cons sum_list.append)
  then show ?thesis using i h by (simp add: bump_at_def)
qed

lemma update_set: "set (AList.update k v m) \<subseteq> insert (k, v) (set m)"
  by (induction m) auto

lemma hist_ok_update:
  assumes "\<forall>(_, h) \<in> set m. length h = n" "length h = n"
  shows "\<forall>(_, h) \<in> set (AList.update k h m). length h = n"
  using assms update_set [of k h m] by fastforce

lemma hist_ok_lookup:
  assumes "\<forall>(_, h) \<in> set m. length h = n" "map_of m k = Some h"
  shows "length h = n"
  using assms map_of_SomeD by fastforce

lemma record_upstream_ok:
  assumes "inner_ok s"
  obtains s' where "record_upstream cap ms e s = Some s'" "inner_ok s'"
    "s_total s' = s_total s" "s_errors s' = s_errors s" "s_proc_hist s' = s_proc_hist s"
    "s_clients s' = s_clients s" "s_resolved_domains s' = s_resolved_domains s"
    "s_blocked_domains s' = s_blocked_domains s" "s_series s' = s_series s"
    "s_blocked s' = s_blocked s" "s_cached s' = s_cached s" "s_rewritten s' = s_rewritten s"
proof (cases "entry_upstream e")
  case None
  then show thesis using that [of s] assms by (simp add: record_upstream_def)
next
  case (Some up)
  let ?h = "case map_of (s_latency_hist s) up of Some h \<Rightarrow> h | None \<Rightarrow> replicate hist_len 0"
  have hs: "\<forall>(_, h) \<in> set (s_latency_hist s). length h = hist_len" using assms by (simp add: inner_ok_def)
  then have "length ?h = hist_len" using hist_ok_lookup [OF hs] by (auto split: option.split)
  then obtain h' where h': "bump_at (hist_index ms) ?h = Some h'" "length h' = hist_len"
    using bump_at_Some by blast
  show thesis
    using Some h' assms hist_ok_update [OF hs h'(2)]
    by (intro that [of "s\<lparr>s_upstreams := bump (s_upstreams s) up 1 cap,
        s_rtt_sum := AList.update up (case map_of (s_rtt_sum s) up of Some v \<Rightarrow> v + ms | None \<Rightarrow> ms) (s_rtt_sum s),
        s_rtt_count := AList.update up (case map_of (s_rtt_count s) up of Some v \<Rightarrow> v + 1 | None \<Rightarrow> 1) (s_rtt_count s),
        s_latency_hist := AList.update up h' (s_latency_hist s)\<rparr>"])
      (simp_all add: record_upstream_def inner_ok_def Let_def)
qed

text \<open>
  One recorded entry: the counters that move, the estimators that see it, and the series.
\<close>

definition entry_domain :: "query_log_entry \<Rightarrow> string" where
  "entry_domain e = trim_end_matches CHR ''.'' (e_question e)"

definition entry_hour :: "query_log_entry \<Rightarrow> int" where
  "entry_hour e = trunc_div (trunc_div (e_time_ms e) 1000) 3600"

lemma record_inner_spec:
  assumes "inner_ok s"
  obtains s' where "record_inner sx cap mx anon e rtt s = Some s'" "inner_ok s'"
    "s_total s' = s_total s + 1" "s_errors s' = s_errors s + of_flag (e_action e = ErrorAction)"
    "s_blocked s' = s_blocked s + of_flag (entry_is_blocked e)"
    "s_cached s' = s_cached s + of_flag (e_action e = Cached)"
    "sum_list (s_proc_hist s') = sum_list (s_proc_hist s) + of_flag (e_action e \<noteq> ErrorAction)"
    "s_clients s' = (if anon then s_clients s else hh_bump (ord_counts sx) (e_client_ip e) 1 cap (s_clients s))"
    "s_resolved_domains s' = (if entry_is_blocked e then s_resolved_domains s
       else hh_bump (ord_counts sx) (entry_domain e) 1 cap (s_resolved_domains s))"
    "s_blocked_domains s' = (if entry_is_blocked e
       then hh_bump (ord_counts sx) (entry_domain e) 1 cap (s_blocked_domains s) else s_blocked_domains s)"
    "s_series s' = record_series mx (entry_hour e) (entry_is_blocked e) (e_action e = Cached) (s_series s)"
proof -
  let ?err = "e_action e = ErrorAction" and ?b = "entry_is_blocked e"
  let ?start = "hist_or_zeros (s_proc_hist s)"
  have start: "length ?start = hist_len" "sum_list ?start = sum_list (s_proc_hist s)"
    using assms by (auto simp: inner_ok_def sum_list_replicate hist_or_zeros_def)
  obtain ph where ph: "(if ?err then Some (s_proc_hist s) else bump_at (hist_index (e_elapsed_ms e)) ?start) = Some ph"
    "ph = [] \<or> length ph = hist_len" "sum_list ph = sum_list (s_proc_hist s) + of_flag (\<not> ?err)"
  proof (cases ?err)
    case True
    then show ?thesis using that [of "s_proc_hist s"] assms by (simp add: inner_ok_def of_flag_def)
  next
    case False
    then show ?thesis using that bump_at_Some [OF start(1), of "e_elapsed_ms e"] start(2) by (auto simp: of_flag_def)
  qed
  let ?s = "s\<lparr>s_total := s_total s + 1, s_errors := s_errors s + of_flag ?err,
     s_blocked := s_blocked s + of_flag ?b, s_cached := s_cached s + of_flag (e_action e = Cached),
     s_rewritten := s_rewritten s + of_flag (\<exists>r l. e_action e = Rewritten r l), s_proc_hist := ph,
     s_clients := (if anon then s_clients s else hh_bump (ord_counts sx) (e_client_ip e) 1 cap (s_clients s)),
     s_resolved_domains := (if ?b then s_resolved_domains s
       else hh_bump (ord_counts sx) (entry_domain e) 1 cap (s_resolved_domains s)),
     s_blocked_domains := (if ?b
       then hh_bump (ord_counts sx) (entry_domain e) 1 cap (s_blocked_domains s) else s_blocked_domains s)\<rparr>"
  have eq: "record_inner sx cap mx anon e rtt s =
    map_option (\<lambda>s. s\<lparr>s_series := record_series mx (entry_hour e) ?b (e_action e = Cached) (s_series s)\<rparr>)
      (record_upstream cap (case rtt of Some r \<Rightarrow> r | None \<Rightarrow> e_elapsed_ms e) e ?s)"
    using ph(1)
    by (cases s; cases "e_action e"; cases ?b; cases anon)
      (simp_all add: record_inner_def Let_def entry_domain_def entry_hour_def of_flag_def)
  have "inner_ok ?s" using assms ph(2) by (simp add: inner_ok_def)
  then obtain s' where s': "record_upstream cap (case rtt of Some r \<Rightarrow> r | None \<Rightarrow> e_elapsed_ms e) e ?s = Some s'"
    "inner_ok s'" "s_total s' = s_total ?s" "s_errors s' = s_errors ?s" "s_proc_hist s' = s_proc_hist ?s"
    "s_clients s' = s_clients ?s" "s_resolved_domains s' = s_resolved_domains ?s"
    "s_blocked_domains s' = s_blocked_domains ?s" "s_series s' = s_series ?s"
    "s_blocked s' = s_blocked ?s" "s_cached s' = s_cached ?s"
    by (rule record_upstream_ok)
  show thesis
    using that [of "s'\<lparr>s_series := record_series mx (entry_hour e) ?b (e_action e = Cached) (s_series s')\<rparr>"]
      eq s' ph(3) by (simp add: inner_ok_def)
qed

subsection \<open>The counts of a snapshot\<close>

lemma nat_and_le: "a AND b \<le> (b :: nat)"
proof -
  have "int (a AND b) \<le> int b" by (simp add: of_nat_and_eq AND_upper2)
  then show ?thesis by simp
qed

lemma sum_list_replace:
  fixes f :: "'a \<Rightarrow> u64"
  assumes "i < length xs"
  shows "sum_list (map f (xs[i := y])) = sum_list (map f xs) + (f y - f (xs ! i))"
proof -
  have "xs = take i xs @ xs ! i # drop (Suc i) xs" using assms by (simp add: id_take_nth_drop)
  then have "sum_list (map f xs) = sum_list (map f (take i xs)) + (f (xs ! i) + sum_list (map f (drop (Suc i) xs)))"
    by (metis map_append list.simps(9) sum_list.append sum_list.Cons)
  moreover have "xs[i := y] = take i xs @ y # drop (Suc i) xs" using assms by (simp add: upd_conv_take_nth_drop)
  ultimately show ?thesis by simp
qed

lemma default_inner_ok [simp]: "inner_ok default_inner"
  by (simp add: inner_ok_def default_inner_def)

lemma stats_shard_count_pos: "0 < stats_shard_count p"
  by (simp add: stats_shard_count_def Let_def)

lemma new_stats_ok: "stats_ok (new_stats sx en days anon)"
  using stats_shard_count_pos [of "stats_parallelism sx"]
  by (simp add: stats_ok_def new_stats_def Let_def list_all_iff)

lemma stats_reset_ok: "stats_ok st \<Longrightarrow> stats_ok (stats_reset st)"
  by (simp add: stats_ok_def stats_reset_def list_all_iff)

lemma stats_reconfigure_ok: "stats_ok st \<Longrightarrow> stats_ok (stats_reconfigure en days anon st)"
  by (auto simp: stats_ok_def stats_reconfigure_def Let_def list_all_iff inner_ok_def)

text \<open>The counters summed over the shards, as one record moves them.\<close>

definition shard_sum :: "(stats_inner \<Rightarrow> u64) \<Rightarrow> stats \<Rightarrow> u64" where
  "shard_sum f st = sum_list (map f (st_shards st))"

lemma stats_record_spec:
  assumes "stats_ok st" "st_enabled st"
  obtains st' where "stats_record sx slot e rtt st = Some st'" "stats_ok st'" "st_enabled st'"
    "shard_sum s_total st' = shard_sum s_total st + 1"
    "shard_sum s_blocked st' = shard_sum s_blocked st + of_flag (entry_is_blocked e)"
    "shard_sum s_cached st' = shard_sum s_cached st + of_flag (e_action e = Cached)"
    "shard_sum s_errors st' = shard_sum s_errors st + of_flag (e_action e = ErrorAction)"
    "shard_sum (\<lambda>s. sum_list (s_proc_hist s)) st'
       = shard_sum (\<lambda>s. sum_list (s_proc_hist s)) st + of_flag (e_action e \<noteq> ErrorAction)"
proof -
  let ?i = "slot AND st_mask st"
  have i: "?i < length (st_shards st)"
    using assms(1) nat_and_le [of slot "st_mask st"] by (auto simp: stats_ok_def)
  then have "inner_ok (st_shards st ! ?i)" using assms(1) by (simp add: stats_ok_def list_all_length)
  then obtain s' where s': "record_inner sx (st_key_cap st) (st_max_buckets st) (st_anonymize st) e rtt (st_shards st ! ?i) = Some s'"
    "inner_ok s'" "s_total s' = s_total (st_shards st ! ?i) + 1"
    "s_errors s' = s_errors (st_shards st ! ?i) + of_flag (e_action e = ErrorAction)"
    "s_blocked s' = s_blocked (st_shards st ! ?i) + of_flag (entry_is_blocked e)"
    "s_cached s' = s_cached (st_shards st ! ?i) + of_flag (e_action e = Cached)"
    "sum_list (s_proc_hist s') = sum_list (s_proc_hist (st_shards st ! ?i)) + of_flag (e_action e \<noteq> ErrorAction)"
    by (rule record_inner_spec)
  let ?st = "st\<lparr>st_shards := (st_shards st)[?i := s']\<rparr>"
  have "stats_ok ?st"
    using assms(1) s'(2) i by (auto simp: stats_ok_def list_all_iff dest: subsetD [OF set_update_subset_insert])
  moreover have "stats_record sx slot e rtt st = Some ?st"
    using assms(2) i s'(1) by (simp add: stats_record_def nth_opt_def Let_def)
  ultimately show thesis using that [of ?st] assms(2) s' by (simp add: shard_sum_def sum_list_replace [OF i])
qed

fun stats_records :: "stats_env \<Rightarrow> (nat \<times> query_log_entry \<times> real option) list \<Rightarrow> stats \<Rightarrow> stats option" where
  "stats_records sx [] st = Some st"
| "stats_records sx ((slot, e, rtt) # es) st = Option.bind (stats_record sx slot e rtt st) (stats_records sx es)"

definition count_where :: "(query_log_entry \<Rightarrow> bool) \<Rightarrow> (nat \<times> query_log_entry \<times> real option) list \<Rightarrow> u64" where
  "count_where P es = word_of_nat (length (filter (\<lambda>(_, e, _). P e) es))"

lemma count_where_Cons: "count_where P ((slot, e, rtt) # es) = of_flag (P e) + count_where P es"
  by (simp add: count_where_def of_flag_def)

lemma stats_records_spec:
  assumes "stats_ok st" "st_enabled st"
  shows "\<exists>st'. stats_records sx es st = Some st' \<and> stats_ok st'
     \<and> shard_sum s_total st' = shard_sum s_total st + word_of_nat (length es)
     \<and> shard_sum s_blocked st' = shard_sum s_blocked st + count_where entry_is_blocked es
     \<and> shard_sum s_cached st' = shard_sum s_cached st + count_where (\<lambda>e. e_action e = Cached) es
     \<and> shard_sum s_errors st' = shard_sum s_errors st + count_where (\<lambda>e. e_action e = ErrorAction) es
     \<and> shard_sum (\<lambda>s. sum_list (s_proc_hist s)) st' = shard_sum (\<lambda>s. sum_list (s_proc_hist s)) st
         + count_where (\<lambda>e. e_action e \<noteq> ErrorAction) es"
  using assms
proof (induction sx es st rule: stats_records.induct)
  case (1 sx st)
  then show ?case by (simp add: count_where_def)
next
  case (2 sx slot e rtt es st)
  obtain st1 where st1: "stats_record sx slot e rtt st = Some st1" "stats_ok st1" "st_enabled st1"
    "shard_sum s_total st1 = shard_sum s_total st + 1"
    "shard_sum s_blocked st1 = shard_sum s_blocked st + of_flag (entry_is_blocked e)"
    "shard_sum s_cached st1 = shard_sum s_cached st + of_flag (e_action e = Cached)"
    "shard_sum s_errors st1 = shard_sum s_errors st + of_flag (e_action e = ErrorAction)"
    "shard_sum (\<lambda>s. sum_list (s_proc_hist s)) st1
       = shard_sum (\<lambda>s. sum_list (s_proc_hist s)) st + of_flag (e_action e \<noteq> ErrorAction)"
    using stats_record_spec [OF 2(2,3)] .
  from 2(1) [of st1] st1 show ?case by (simp add: count_where_Cons add.assoc)
qed

lemma sum_add_zip: "length a = length b \<Longrightarrow> sum_list (add_zip a b) = sum_list a + sum_list b"
  by (induction a b rule: add_zip.induct) (auto simp: algebra_simps)

lemma length_add_zip: "length (add_zip a b) = length a"
  by (induction a b rule: add_zip.induct) auto

lemma merge_hist:
  assumes "inner_ok s" "inner_ok t"
  shows "sum_list (s_proc_hist (merge_from sx s t)) = sum_list (s_proc_hist s) + sum_list (s_proc_hist t)"
    and "s_proc_hist (merge_from sx s t) = [] \<or> length (s_proc_hist (merge_from sx s t)) = hist_len"
proof -
  have r: "length (resize hist_len 0 (s_proc_hist s)) = hist_len"
    "sum_list (resize hist_len 0 (s_proc_hist s)) = sum_list (s_proc_hist s)"
    using assms(1) by (auto simp: inner_ok_def resize_def sum_list_replicate)
  show "sum_list (s_proc_hist (merge_from sx s t)) = sum_list (s_proc_hist s) + sum_list (s_proc_hist t)"
    using assms(2) r by (auto simp: merge_from_def inner_ok_def sum_add_zip)
  show "s_proc_hist (merge_from sx s t) = [] \<or> length (s_proc_hist (merge_from sx s t)) = hist_len"
    using assms(1) r by (auto simp: merge_from_def inner_ok_def length_add_zip)
qed

lemma foldl_add_hist_ok:
  assumes "\<forall>(_, h) \<in> set m. length h = hist_len"
  shows "\<forall>(_, h) \<in> set (foldl add_hist m hs). length h = hist_len"
  using assms
proof (induction hs arbitrary: m)
  case (Cons kh hs)
  let ?d = "case map_of m (fst kh) of Some h \<Rightarrow> h | None \<Rightarrow> replicate hist_len 0"
  have "length ?d = hist_len" using hist_ok_lookup [OF Cons.prems] by (auto split: option.split)
  then have "\<forall>(_, h) \<in> set (add_hist m kh). length h = hist_len"
    unfolding add_hist_def Let_def by (intro hist_ok_update [OF Cons.prems]) (simp add: length_add_zip)
  then show ?case using Cons.IH by simp
qed simp

lemma merge_from_ok: "inner_ok s \<Longrightarrow> inner_ok t \<Longrightarrow> inner_ok (merge_from sx s t)"
  using merge_hist(2) [of s t sx] foldl_add_hist_ok [of "s_latency_hist s"]
  by (simp add: inner_ok_def merge_from_def)

lemma foldl_merge:
  assumes "inner_ok s" "list_all inner_ok ss"
  shows "inner_ok (foldl (merge_from sx) s ss)"
    "s_total (foldl (merge_from sx) s ss) = s_total s + sum_list (map s_total ss)"
    "s_blocked (foldl (merge_from sx) s ss) = s_blocked s + sum_list (map s_blocked ss)"
    "s_cached (foldl (merge_from sx) s ss) = s_cached s + sum_list (map s_cached ss)"
    "s_errors (foldl (merge_from sx) s ss) = s_errors s + sum_list (map s_errors ss)"
    "sum_list (s_proc_hist (foldl (merge_from sx) s ss))
       = sum_list (s_proc_hist s) + sum_list (map (\<lambda>s. sum_list (s_proc_hist s)) ss)"
proof -
  have "inner_ok (foldl (merge_from sx) s ss)
    \<and> s_total (foldl (merge_from sx) s ss) = s_total s + sum_list (map s_total ss)
    \<and> s_blocked (foldl (merge_from sx) s ss) = s_blocked s + sum_list (map s_blocked ss)
    \<and> s_cached (foldl (merge_from sx) s ss) = s_cached s + sum_list (map s_cached ss)
    \<and> s_errors (foldl (merge_from sx) s ss) = s_errors s + sum_list (map s_errors ss)
    \<and> sum_list (s_proc_hist (foldl (merge_from sx) s ss))
       = sum_list (s_proc_hist s) + sum_list (map (\<lambda>s. sum_list (s_proc_hist s)) ss)"
    using assms
  proof (induction ss arbitrary: s)
    case (Cons t ss)
    then show ?case using merge_from_ok [of s t sx] merge_hist(1) [of s t sx] Cons.IH [of "merge_from sx s t"]
      by (simp add: merge_from_def add.assoc)
  qed simp
  then show "inner_ok (foldl (merge_from sx) s ss)"
    "s_total (foldl (merge_from sx) s ss) = s_total s + sum_list (map s_total ss)"
    "s_blocked (foldl (merge_from sx) s ss) = s_blocked s + sum_list (map s_blocked ss)"
    "s_cached (foldl (merge_from sx) s ss) = s_cached s + sum_list (map s_cached ss)"
    "s_errors (foldl (merge_from sx) s ss) = s_errors s + sum_list (map s_errors ss)"
    "sum_list (s_proc_hist (foldl (merge_from sx) s ss))
       = sum_list (s_proc_hist s) + sum_list (map (\<lambda>s. sum_list (s_proc_hist s)) ss)"
    by blast+
qed

lemma merged_sums:
  assumes "stats_ok st"
  shows "inner_ok (merged sx st)" "s_total (merged sx st) = shard_sum s_total st"
    "s_blocked (merged sx st) = shard_sum s_blocked st" "s_cached (merged sx st) = shard_sum s_cached st"
    "s_errors (merged sx st) = shard_sum s_errors st"
    "sum_list (s_proc_hist (merged sx st)) = shard_sum (\<lambda>s. sum_list (s_proc_hist s)) st"
  using foldl_merge [of default_inner "st_shards st" sx] assms
  by (simp_all add: merged_def Let_def stats_ok_def shard_sum_def inner_ok_def default_inner_def)

subsection \<open>Estimators of a shard\<close>

fun record_inners ::
  "stats_env \<Rightarrow> nat \<Rightarrow> nat \<Rightarrow> bool \<Rightarrow> (query_log_entry \<times> real option) list \<Rightarrow> stats_inner \<Rightarrow> stats_inner option" where
  "record_inners sx cap mx anon [] s = Some s"
| "record_inners sx cap mx anon ((e, rtt) # es) s =
     Option.bind (record_inner sx cap mx anon e rtt s) (record_inners sx cap mx anon es)"

abbreviation hh_more :: "stats_env \<Rightarrow> nat \<Rightarrow> counts \<Rightarrow> string list \<Rightarrow> counts" where
  "hh_more sx cap \<equiv> foldl (\<lambda>m k. hh_bump (ord_counts sx) k 1 cap m)"

lemma record_inners_estimators:
  assumes "inner_ok s"
  shows "\<exists>s'. record_inners sx cap mx anon es s = Some s'
     \<and> s_clients s' = (if anon then s_clients s else hh_more sx cap (s_clients s) (map (e_client_ip \<circ> fst) es))
     \<and> s_resolved_domains s' = hh_more sx cap (s_resolved_domains s)
         (map entry_domain (filter (\<lambda>e. \<not> entry_is_blocked e) (map fst es)))
     \<and> s_blocked_domains s' = hh_more sx cap (s_blocked_domains s)
         (map entry_domain (filter entry_is_blocked (map fst es)))"
  using assms
proof (induction sx cap mx anon es s rule: record_inners.induct)
  case (2 sx cap mx anon e rtt es s)
  obtain s1 where s1: "record_inner sx cap mx anon e rtt s = Some s1" "inner_ok s1"
    "s_clients s1 = (if anon then s_clients s else hh_bump (ord_counts sx) (e_client_ip e) 1 cap (s_clients s))"
    "s_resolved_domains s1 = (if entry_is_blocked e then s_resolved_domains s
       else hh_bump (ord_counts sx) (entry_domain e) 1 cap (s_resolved_domains s))"
    "s_blocked_domains s1 = (if entry_is_blocked e
       then hh_bump (ord_counts sx) (entry_domain e) 1 cap (s_blocked_domains s) else s_blocked_domains s)"
    using record_inner_spec [OF 2(2), of sx cap mx anon e rtt] .
  from 2(1) [OF s1(1,2)] s1 show ?case by (auto simp: comp_def)
qed simp

text \<open>A fresh shard's estimators are Space-Saving runs over what the shard recorded.\<close>

lemma fresh_shard_estimators:
  obtains s where "record_inners sx cap mx anon es default_inner = Some s"
    "s_clients s = (if anon then [] else hh_run (ord_counts sx) cap (map (e_client_ip \<circ> fst) es))"
    "s_resolved_domains s = hh_run (ord_counts sx) cap
       (map entry_domain (filter (\<lambda>e. \<not> entry_is_blocked e) (map fst es)))"
    "s_blocked_domains s = hh_run (ord_counts sx) cap (map entry_domain (filter entry_is_blocked (map fst es)))"
  using record_inners_estimators [OF default_inner_ok, of sx cap mx anon es]
  by (auto simp: hh_run_def default_inner_def)

subsection \<open>The hourly series\<close>

lemma record_series_length: "0 < mx \<Longrightarrow> length xs \<le> mx \<Longrightarrow> length (record_series mx h b c xs) \<le> mx"
  by (cases xs rule: rev_cases) (auto simp: record_series_def trim_series_def)

text \<open>The bucket of the current hour is the last, and counts the entry.\<close>

lemma record_series_last:
  assumes "0 < mx"
  shows "record_series mx h b c xs \<noteq> []" "b_hour (last (record_series mx h b c xs)) = h"
    "b_total (last (record_series mx h b c xs)) =
       (if xs \<noteq> [] \<and> b_hour (last xs) = h then b_total (last xs) + 1 else 1)"
  using assms by (auto simp: record_series_def trim_series_def)

lemma retention_wraps: "retention_buckets 0x20000000 = 0"
  by code_simp

subsection \<open>Quantiles\<close>

lemma as_f64_facts [simp]:
  "0 \<le> as_f64 w" "as_f64 0 = 0" "0 < w \<Longrightarrow> 0 < as_f64 w"
proof -
  show "0 \<le> as_f64 w" unfolding as_f64_def by (rule of_nat_0_le_iff)
  show "as_f64 0 = 0" by (simp add: as_f64_def)
  assume "0 < w"
  then have "0 < unat w" by (simp add: word_less_nat_alt)
  then show "0 < as_f64 w" unfolding as_f64_def by (simp only: of_nat_0_less_iff)
qed

lemma as_f64_add: "unat (a + b) = unat a + unat b \<Longrightarrow> as_f64 (a + b) = as_f64 a + as_f64 b"
  by (simp add: as_f64_def)

text \<open>The lower bound of bucket \<open>i\<close>, which is the upper bound of the one before.\<close>

definition edge :: "nat \<Rightarrow> real" where
  "edge i = (if i = 0 then 0 else LATENCY_BUCKETS_MS ! (min i 10 - 1))"

lemma buckets_upto: "i < 11 \<Longrightarrow> i \<in> {0, 1, 2, 3, 4, 5, 6, 7, 8, 9, 10 :: nat}"
  by (auto simp: less_Suc_eq numeral_eq_Suc)

lemma edge_mono: "edge i \<le> edge (Suc i)"
proof (cases "i < 11")
  case True
  then show ?thesis using buckets_upto [OF True] by (auto simp: edge_def LATENCY_BUCKETS_MS_def)
next
  case False
  then have "min i 10 = 10" "min (Suc i) 10 = 10" by auto
  with False show ?thesis by (simp add: edge_def)
qed

lemma edge_top: "edge i \<le> 1000" "10 \<le> i \<Longrightarrow> edge i = 1000" "0 \<le> edge i"
proof -
  show top: "10 \<le> i \<Longrightarrow> edge i = 1000"
  proof -
    assume "10 \<le> i"
    then have "min i 10 = 10" by auto
    then show ?thesis using \<open>10 \<le> i\<close> by (simp add: edge_def LATENCY_BUCKETS_MS_def)
  qed
  show "edge i \<le> 1000" "0 \<le> edge i"
    using buckets_upto [of i] top by (cases "i < 11"; auto simp: edge_def LATENCY_BUCKETS_MS_def)+
qed

lemma bucket_bounds_edge:
  "i < 10 \<Longrightarrow> bucket_bounds i = (edge i, Some (edge (Suc i)))"
  "bucket_bounds 10 = (1000, None)"
proof -
  show "bucket_bounds i = (edge i, Some (edge (Suc i)))" if "i < 10"
  proof -
    have "min i 10 = i" "min (Suc i) 10 = Suc i" using that by auto
    then show ?thesis using that by (simp add: bucket_bounds_def edge_def LATENCY_BUCKETS_MS_def)
  qed
  show "bucket_bounds 10 = (1000, None)" by (simp add: bucket_bounds_def LATENCY_BUCKETS_MS_def)
qed

text \<open>The value interpolated in bucket \<open>i\<close>.\<close>

definition in_bucket :: "real \<Rightarrow> u64 \<Rightarrow> nat \<Rightarrow> u64 \<Rightarrow> real" where
  "in_bucket target cum i c =
     (case bucket_bounds i of
        (lo, None) \<Rightarrow> lo
      | (lo, Some up) \<Rightarrow> lo + (up - lo) * ((target - as_f64 cum) / as_f64 c))"

lemma in_bucket_bounds:
  assumes "i \<le> 10" "0 < c" "as_f64 cum \<le> t" "t \<le> as_f64 cum + as_f64 c"
  shows "edge i \<le> in_bucket t cum i c" "in_bucket t cum i c \<le> edge (Suc i)"
proof -
  let ?w = "(t - as_f64 cum) / as_f64 c"
  have c: "0 < as_f64 c" using assms(2) by simp
  then have w: "0 \<le> ?w" "?w \<le> 1" using assms by (simp_all add: divide_le_eq)
  have "i < 10 \<or> i = 10" using assms(1) by linarith
  moreover have "0 \<le> (edge (Suc i) - edge i) * ?w" using w(1) edge_mono [of i] by (intro mult_nonneg_nonneg) auto
  moreover have "(edge (Suc i) - edge i) * ?w \<le> edge (Suc i) - edge i"
    using w(2) edge_mono [of i] by (intro mult_left_le) auto
  ultimately show "edge i \<le> in_bucket t cum i c" "in_bucket t cum i c \<le> edge (Suc i)"
    using edge_top(2) [of 10] edge_top(2) [of 11] by (auto simp: in_bucket_def bucket_bounds_edge)
qed

lemma in_bucket_mono:
  assumes "i \<le> 10" "t1 \<le> t2"
  shows "in_bucket t1 cum i c \<le> in_bucket t2 cum i c"
proof -
  have "i < 10 \<or> i = 10" using assms(1) by linarith
  moreover have "(t1 - as_f64 cum) / as_f64 c \<le> (t2 - as_f64 cum) / as_f64 c"
    using assms(2) by (intro divide_right_mono) auto
  then have "(edge (Suc i) - edge i) * ((t1 - as_f64 cum) / as_f64 c)
      \<le> (edge (Suc i) - edge i) * ((t2 - as_f64 cum) / as_f64 c)"
    using edge_mono [of i] by (intro mult_left_mono) auto
  ultimately show ?thesis by (auto simp: in_bucket_def bucket_bounds_edge)
qed

lemma quantile_loop_Cons:
  "0 < c \<Longrightarrow> quantile_loop t cum i (c # cs) =
     (if t \<le> as_f64 (cum + c) then in_bucket t cum i c else quantile_loop t (cum + c) (Suc i) cs)"
  by (auto simp: in_bucket_def)

abbreviation hist_mass :: "u64 list \<Rightarrow> nat" where
  "hist_mass h \<equiv> (\<Sum>c\<leftarrow>h. unat c)"

lemma unat_cum: "unat cum + hist_mass (c # cs) < 2 ^ 64 \<Longrightarrow> unat (cum + c) = unat cum + unat (c :: u64)"
  by (subst unat_add_lem [THEN iffD1]) auto

lemma quantile_loop_bounds:
  assumes "i + length cs \<le> 11" "unat cum + hist_mass cs < 2 ^ 64" "as_f64 cum \<le> t"
  shows "edge i \<le> quantile_loop t cum i cs \<and> quantile_loop t cum i cs \<le> 1000"
  using assms
proof (induction cs arbitrary: cum i)
  case Nil
  then show ?case using edge_top [of i] by (simp add: LATENCY_BUCKETS_MS_def)
next
  case (Cons c cs)
  show ?case
  proof (cases "c = 0")
    case True
    then show ?thesis using Cons.IH [of "Suc i" cum] Cons.prems edge_mono [of i] by auto
  next
    case False
    then have c: "0 < c" by (simp add: word_neq_0_conv)
    have u: "unat (cum + c) = unat cum + unat c" using Cons.prems(2) by (rule unat_cum)
    note f = as_f64_add [OF u]
    show ?thesis
    proof (cases "t \<le> as_f64 (cum + c)")
      case True
      then show ?thesis using in_bucket_bounds [of i c cum t] edge_top(1) [of "Suc i"] Cons.prems c f
        by (simp only: quantile_loop_Cons [OF c]) auto
    next
      case False
      then show ?thesis using Cons.IH [of "Suc i" "cum + c"] Cons.prems u edge_mono [of i]
        by (simp only: quantile_loop_Cons [OF c]) auto
    qed
  qed
qed

lemma quantile_loop_mono:
  assumes "i + length cs \<le> 11" "unat cum + hist_mass cs < 2 ^ 64" "as_f64 cum \<le> t1" "t1 \<le> t2"
  shows "quantile_loop t1 cum i cs \<le> quantile_loop t2 cum i cs"
  using assms
proof (induction cs arbitrary: cum i)
  case (Cons c cs)
  show ?case
  proof (cases "c = 0")
    case True
    then show ?thesis using Cons.IH [of "Suc i" cum] Cons.prems by simp
  next
    case False
    then have c: "0 < c" by (simp add: word_neq_0_conv)
    have u: "unat (cum + c) = unat cum + unat c" using Cons.prems(2) by (rule unat_cum)
    note f = as_f64_add [OF u]
    have i: "i \<le> 10" "Suc i + length cs \<le> 11" "unat (cum + c) + hist_mass cs < 2 ^ 64" using Cons.prems u by auto
    consider "t2 \<le> as_f64 (cum + c)" | "t1 \<le> as_f64 (cum + c)" "as_f64 (cum + c) < t2"
      | "as_f64 (cum + c) < t1" by linarith
    then show ?thesis
    proof cases
      case 1
      then show ?thesis using in_bucket_mono [OF i(1) Cons.prems(4)] Cons.prems(4)
        by (simp only: quantile_loop_Cons [OF c]) auto
    next
      case 2
      then have "in_bucket t1 cum i c \<le> edge (Suc i)" using in_bucket_bounds(2) [OF i(1) c Cons.prems(3)] f by simp
      also have "\<dots> \<le> quantile_loop t2 (cum + c) (Suc i) cs" using quantile_loop_bounds [OF i(2,3)] 2 by simp
      finally show ?thesis using 2 by (simp only: quantile_loop_Cons [OF c]) auto
    next
      case 3
      then show ?thesis using Cons.IH [OF i(2,3)] Cons.prems(4)
        by (simp only: quantile_loop_Cons [OF c]) auto
    qed
  qed
qed simp

lemma quantile_bounds:
  assumes "length hist \<le> 11" "hist_mass hist < 2 ^ 64" "0 \<le> q"
  shows "0 \<le> quantile hist tot q" "quantile hist tot q \<le> 1000"
  using quantile_loop_bounds [of 0 hist 0 "q * as_f64 tot"] assms edge_top(3) [of 0]
  by (auto simp: quantile_def edge_def)

lemma quantile_mono:
  assumes "length hist \<le> 11" "hist_mass hist < 2 ^ 64" "0 \<le> q" "q \<le> r"
  shows "quantile hist tot q \<le> quantile hist tot r"
  using quantile_loop_mono [of 0 hist 0 "q * as_f64 tot" "r * as_f64 tot"] assms
  by (simp add: quantile_def mult_right_mono)

lemma percentiles_ordered:
  assumes "length hist \<le> 11" "hist_mass hist < 2 ^ 64"
  shows "0 \<le> p50 (percentiles hist)" "p50 (percentiles hist) \<le> p90 (percentiles hist)"
    "p90 (percentiles hist) \<le> p99 (percentiles hist)" "p99 (percentiles hist) \<le> 1000"
  using quantile_bounds [OF assms] quantile_mono [OF assms] by (simp_all add: percentiles_def Let_def)

subsection \<open>Top lists\<close>

lemma sorted_take_drop:
  assumes "sorted (map f xs)" "x \<in> set (take n xs)" "y \<in> set (drop n xs)"
  shows "f x \<le> f y"
proof -
  have "sorted (map f (take n xs) @ map f (drop n xs))" using assms(1) by (metis append_take_drop_id map_append)
  then show ?thesis using assms(2,3) by (auto simp: sorted_append)
qed

text \<open>
  A top list: sorted by falling count and then by name, at most \<open>n\<close> of the map's entries, and
  any entry left out comes after all of those listed.
\<close>

lemma top_n_of_spec:
  assumes "order_laws (ord_counts sx)" "distinct (map fst m)"
  shows "sorted (map top_order (top_n_of sx m n))" "length (top_n_of sx m n) = min n (length m)"
    "e \<in> set (top_n_of sx m n) \<Longrightarrow> map_of m (te_name e) = Some (te_count e)"
    "map_of m k = Some c \<Longrightarrow> \<lparr>te_name = k, te_count = c\<rparr> \<in> set (top_n_of sx m n)
       \<or> (\<forall>e \<in> set (top_n_of sx m n). top_order e \<le> (- uint c, k))"
proof -
  let ?mk = "\<lambda>(k, c). \<lparr>te_name = k, te_count = c\<rparr>"
  let ?s = "sort_key top_order (map ?mk (ord_counts sx m))"
  have sorted: "sorted (map top_order ?s)" by simp
  have set: "set ?s = ?mk ` set m" using order_set [OF assms(1)] by simp
  have len: "length ?s = length m" using assms(1) by (simp add: order_laws_def) (metis size_mset)
  show "sorted (map top_order (top_n_of sx m n))"
    using sorted unfolding top_n_of_def take_map [symmetric] by (rule sorted_wrt_take)
  show "length (top_n_of sx m n) = min n (length m)" using len by (simp add: top_n_of_def min.commute)
  show "map_of m (te_name e) = Some (te_count e)" if "e \<in> set (top_n_of sx m n)"
  proof -
    have "e \<in> set ?s" using that unfolding top_n_of_def by (rule in_set_takeD)
    then show ?thesis using set assms(2) by auto
  qed
  show "\<lparr>te_name = k, te_count = c\<rparr> \<in> set (top_n_of sx m n)
       \<or> (\<forall>e \<in> set (top_n_of sx m n). top_order e \<le> (- uint c, k))" if kc: "map_of m k = Some c"
  proof -
    let ?e = "\<lparr>te_name = k, te_count = c\<rparr>"
    have "?e \<in> set ?s" using set map_of_SomeD [OF kc] by force
    then have "?e \<in> set (take n ?s) \<or> ?e \<in> set (drop n ?s)" by (metis Un_iff append_take_drop_id set_append)
    then show ?thesis using sorted_take_drop [OF sorted, of _ n ?e] by (auto simp: top_n_of_def top_order_def)
  qed
qed

end
