(* ===== verification/Upstream_Spec.thy ===== *)
theory Upstream_Spec
  imports Net_Addr Config
begin

text \<open>
  Upstream specifications, \<open>crates/bulwark-upstream/src/spec.rs\<close>, and the errors of
  \<open>crates/bulwark-upstream/src/error.rs\<close>. \<open>str::to_lowercase\<close> is a parameter of the endpoint
  identity, since it is Unicode-aware.
\<close>

subsection \<open>Model\<close>

datatype transport_kind = Udp | Tcp | Tls | Https | Quic

fun default_port :: "transport_kind \<Rightarrow> u16" where
  "default_port Udp = 53"
| "default_port Tcp = 53"
| "default_port Tls = 853"
| "default_port Quic = 853"
| "default_port Https = 443"

fun kind_as_str :: "transport_kind \<Rightarrow> string" where
  "kind_as_str Udp = ''udp''"
| "kind_as_str Tcp = ''tcp''"
| "kind_as_str Tls = ''tls''"
| "kind_as_str Https = ''https''"
| "kind_as_str Quic = ''quic''"

definition kind_from_label :: "string \<Rightarrow> transport_kind" where
  "kind_from_label s =
     (if s = ''tcp'' then Tcp else if s = ''tls'' then Tls else if s = ''https'' then Https
      else if s = ''quic'' then Quic else Udp)"

datatype host = HostIp ip_addr | HostName string

fun host_as_ip :: "host \<Rightarrow> ip_addr option" where
  "host_as_ip (HostIp ip) = Some ip"
| "host_as_ip (HostName _) = None"

fun show_host :: "host \<Rightarrow> string" where
  "show_host (HostIp ip) = show_ip ip"
| "show_host (HostName n) = n"

record upstream_spec =
  sp_kind :: transport_kind
  sp_host :: host
  sp_port :: u16
  sp_path :: string
  sp_force_http3 :: bool
  sp_display :: string

datatype upstream_error =
    Timeout
  | Io string
  | Proto string
  | Rcode string
  | TlsError string
  | QuicError string
  | Http string
  | BootstrapError string
  | NoUpstreams
  | AllFailed upstream_error
  | InvalidSpec string

fun show_upstream_error :: "upstream_error \<Rightarrow> string" where
  "show_upstream_error Timeout = ''timed out''"
| "show_upstream_error (Io s) = ''i/o error: '' @ s"
| "show_upstream_error (Proto s) = ''dns protocol error: '' @ s"
| "show_upstream_error (Rcode s) = ''upstream returned '' @ s"
| "show_upstream_error (TlsError s) = ''tls error: '' @ s"
| "show_upstream_error (QuicError s) = ''quic error: '' @ s"
| "show_upstream_error (Http s) = ''http error: '' @ s"
| "show_upstream_error (BootstrapError s) = ''bootstrap failed to resolve '' @ s"
| "show_upstream_error NoUpstreams = ''no upstreams configured''"
| "show_upstream_error (AllFailed e) = ''all upstreams failed; last error: '' @ show_upstream_error e"
| "show_upstream_error (InvalidSpec s) = ''invalid upstream spec: '' @ s"

definition split_host_port :: "string \<Rightarrow> u16 \<Rightarrow> upstream_error + host \<times> u16" where
  "split_host_port s dflt =
     (case strip_prefix s ''['' of
        Some rest \<Rightarrow>
          (case split_once rest CHR '']'' of
             None \<Rightarrow> Inl (InvalidSpec (''unterminated [ in '' @ s))
           | Some (ip_str, after) \<Rightarrow>
               (case parse_ip ip_str of
                  None \<Rightarrow> Inl (InvalidSpec (''bad IPv6 '' @ ip_str))
                | Some ip \<Rightarrow>
                    (case strip_prefix after '':'' of
                       None \<Rightarrow> Inr (HostIp ip, dflt)
                     | Some p \<Rightarrow>
                         (case parse_u16 p of
                            None \<Rightarrow> Inl (InvalidSpec (''bad port '' @ p))
                          | Some port \<Rightarrow> Inr (HostIp ip, port)))))
      | None \<Rightarrow>
          (case parse_ip s of
             Some ip \<Rightarrow> Inr (HostIp ip, dflt)
           | None \<Rightarrow>
               (case rsplit_once s CHR '':'' of
                  Some (h, p) \<Rightarrow>
                    (case parse_u16 p of
                       None \<Rightarrow> Inl (InvalidSpec (''bad port '' @ p))
                     | Some port \<Rightarrow>
                         Inr (case parse_ip h of Some ip \<Rightarrow> HostIp ip | None \<Rightarrow> HostName h, port))
                | None \<Rightarrow> Inr (HostName s, dflt))))"

definition parse_scheme :: "string \<Rightarrow> upstream_error + transport_kind \<times> bool \<times> string" where
  "parse_scheme s =
     (case split_once_str s ''://'' of
        None \<Rightarrow> Inr (Udp, False, s)
      | Some (scheme, r) \<Rightarrow>
          if scheme = ''udp'' then Inr (Udp, False, r)
          else if scheme = ''tcp'' then Inr (Tcp, False, r)
          else if scheme = ''tls'' then Inr (Tls, False, r)
          else if scheme = ''https'' then Inr (Https, False, r)
          else if scheme = ''h3'' then Inr (Https, True, r)
          else if scheme = ''quic'' then Inr (Quic, False, r)
          else Inl (InvalidSpec (''unknown scheme '' @ scheme)))"

definition parse_spec :: "string \<Rightarrow> upstream_error + upstream_spec" where
  "parse_spec input =
     (let s = trim input in
      if s = [] then Inl (InvalidSpec ''empty'')
      else case parse_scheme s of
        Inl e \<Rightarrow> Inl e
      | Inr (kind, force_http3, rest) \<Rightarrow>
          let (authority, path) =
                (case split_once rest CHR ''/'' of
                   Some (a, p) \<Rightarrow> (a, CHR ''/'' # p) | None \<Rightarrow> (rest, ''/dns-query''))
          in case split_host_port authority (default_port kind) of
               Inl e \<Rightarrow> Inl e
             | Inr (host, port) \<Rightarrow>
                 Inr \<lparr>sp_kind = kind, sp_host = host, sp_port = port, sp_path = path,
                      sp_force_http3 = force_http3, sp_display = s\<rparr>)"

definition server_name :: "upstream_spec \<Rightarrow> string" where
  "server_name sp = show_host (sp_host sp)"

definition identity :: "(string \<Rightarrow> string) \<Rightarrow> upstream_spec \<Rightarrow> string" where
  "identity to_lowercase sp =
     (let host = (case sp_host sp of
                    HostIp (V6 ip) \<Rightarrow> ''['' @ show_ip (V6 ip) @ '']''
                  | h \<Rightarrow> to_lowercase (show_host h));
          h3 = (if sp_force_http3 sp then ''+h3'' else [])
      in kind_as_str (sp_kind sp) @ ''://'' @ host @ '':'' @ show_nat (uint (sp_port sp)) @ sp_path sp @ h3)"

subsection \<open>Reading back a written specification\<close>

lemma kind_label_roundtrip: "kind_from_label (kind_as_str k) = k"
  by (cases k) (simp_all add: kind_from_label_def)

lemma find_str_scheme: "CHR '':'' \<notin> set a \<Longrightarrow> find_str (a @ ''://'' @ r) ''://'' = Some (length a)"
proof (induction a)
  case Nil
  then show ?case by (simp add: starts_with_def)
next
  case (Cons x a)
  then have "\<not> starts_with ((x # a) @ ''://'' @ r) ''://''" by (auto simp: starts_with_def)
  with Cons show ?case by simp
qed

lemma find_char_append: "c \<notin> set a \<Longrightarrow> find_char (a @ c # r) c = Some (length a)"
  by (induction a) auto

lemma split_once_append: "c \<notin> set a \<Longrightarrow> split_once (a @ c # r) c = Some (a, r)"
  by (simp add: split_once_def find_char_append)

lemma rsplit_once_append: "c \<notin> set r \<Longrightarrow> rsplit_once (a @ c # r) c = Some (a, r)"
  using find_char_append [of c "rev r" "rev a"] by (simp add: rsplit_once_def)

lemma digit_char_digit: "0 \<le> d \<Longrightarrow> d < 10 \<Longrightarrow> is_ascii_digit (digit_char d) \<and> code (digit_char d) = 48 + d"
  by (simp add: digit_char_def is_ascii_digit_def)

lemma parse_digits_append: "parse_digits a (s @ t) = Option.bind (parse_digits a s) (\<lambda>b. parse_digits b t)"
  by (induction a s rule: parse_digits.induct) auto

lemma parse_digits_show: "0 \<le> n \<Longrightarrow> parse_digits 0 (show_nat n) = Some n"
proof (induction "10 :: int" n rule: show_radix.induct)
  case (1 n)
  show ?case
  proof (cases "n < 10")
    case True
    then show ?thesis using digit_char_digit [of n] 1(2) by (subst show_radix.simps) simp
  next
    case False
    then have "parse_digits 0 (show_nat (n div 10)) = Some (n div 10)" using 1 by simp
    then show ?thesis using digit_char_digit [of "n mod 10"] False
      by (subst show_radix.simps) (simp add: parse_digits_append)
  qed
qed

lemma show_nat_digits: "0 \<le> n \<Longrightarrow> list_all is_ascii_digit (show_nat n) \<and> show_nat n \<noteq> []"
proof (induction "10 :: int" n rule: show_radix.induct)
  case (1 n)
  show ?case
  proof (cases "n < 10")
    case True
    then show ?thesis using digit_char_digit [of n] 1(2) by (subst (1 2) show_radix.simps) simp
  next
    case False
    then show ?thesis using 1 digit_char_digit [of "n mod 10"] by (subst (1 2) show_radix.simps) simp
  qed
qed

lemma parse_u16_show: "parse_u16 (show_nat (uint p)) = Some p"
proof -
  have d: "list_all is_ascii_digit (show_nat (uint p))" "show_nat (uint p) \<noteq> []"
    using show_nat_digits [of "uint p"] by simp_all
  then obtain x xs where x: "show_nat (uint p) = x # xs" "is_ascii_digit x" by (cases "show_nat (uint p)") auto
  then have "x \<noteq> CHR ''+''" by (auto simp: is_ascii_digit_def)
  then show ?thesis using parse_digits_show [of "uint p"] x uint_bounded [of p] by (simp add: parse_u16_def)
qed

lemma not_digit_notin: "\<not> is_ascii_digit c \<Longrightarrow> c \<notin> set (show_nat (uint p))"
  using show_nat_digits [of "uint p"] by (auto simp: list_all_iff)

text \<open>
  A written specification: scheme, host, port and path. The host is an IPv4 address or a name
  that does not look like an address.
\<close>

definition scheme_of :: "transport_kind \<Rightarrow> bool \<Rightarrow> string" where
  "scheme_of k h3 = (if h3 then ''h3'' else kind_as_str k)"

definition print_spec :: "upstream_spec \<Rightarrow> string" where
  "print_spec sp =
     scheme_of (sp_kind sp) (sp_force_http3 sp) @ ''://'' @ show_host (sp_host sp) @ '':''
     @ show_nat (uint (sp_port sp)) @ sp_path sp"

definition spec_ok :: "upstream_spec \<Rightarrow> bool" where
  "spec_ok sp \<longleftrightarrow>
     (sp_force_http3 sp \<longrightarrow> sp_kind sp = Https)
     \<and> (case sp_host sp of HostIp (V4 _) \<Rightarrow> True | HostIp (V6 _) \<Rightarrow> False
        | HostName n \<Rightarrow> CHR ''/'' \<notin> set n \<and> \<not> starts_with n ''['' \<and> n \<noteq> [] \<and> parse_ip n = None
            \<and> parse_ip (n @ '':'' @ show_nat (uint (sp_port sp))) = None)
     \<and> starts_with (sp_path sp) ''/'' \<and> sp_display sp = print_spec sp \<and> trim (print_spec sp) = print_spec sp"

lemma parse_scheme_print:
  assumes "h3 \<longrightarrow> k = Https"
  shows "parse_scheme (scheme_of k h3 @ ''://'' @ r) = Inr (k, h3, r)"
proof -
  have "CHR '':'' \<notin> set (scheme_of k h3)" by (cases k) (simp_all add: scheme_of_def)
  note find = find_str_scheme [OF this, of r]
  have "split_once_str (scheme_of k h3 @ ''://'' @ r) ''://'' = Some (scheme_of k h3, r)"
    unfolding split_once_str_def find by simp
  then show ?thesis using assms by (cases k) (auto simp: parse_scheme_def scheme_of_def)
qed

lemma octets_show: obtains a b c d where "octets w = [a, b, c, d]" "0 \<le> a" "0 \<le> b" "0 \<le> c" "0 \<le> d"
    "a < 256" "b < 256" "c < 256" "d < 256"
proof -
  obtain a b c d where o: "octets w = [a, b, c, d]" by (simp add: octets_def)
  then show thesis using that [OF o] octets_bound [of _ w] by auto
qed

lemma read_ipv4_show_colon: "read_ipv4_addr (show_ipv4 w @ CHR '':'' # s) = Some (w, CHR '':'' # s)"
proof -
  obtain a b c d where o: "octets w = [a, b, c, d]" "0 \<le> a" "0 \<le> b" "0 \<le> c" "0 \<le> d"
    "a < 256" "b < 256" "c < 256" "d < 256" by (rule octets_show)
  have "to_digit 10 CHR '':'' = None" by (simp add: to_digit_def is_ascii_digit_def is_ascii_lowercase_def is_ascii_uppercase_def)
  then have "read_octets 4 0 (show_ipv4 w @ CHR '':'' # s) = Some ([a, b, c, d], CHR '':'' # s)"
    using o by (simp add: show_ipv4_def four_Suc read_separator_def read_octet_show to_digit_dot)
  then show ?thesis using octets_value_octets [of w] by (simp add: read_ipv4_addr_def o(1))
qed

lemma show_ipv4_chars: "x \<in> set (show_ipv4 w) \<Longrightarrow> is_ascii_digit x \<or> x = CHR ''.''"
proof -
  obtain a b c d where o: "octets w = [a, b, c, d]" "0 \<le> a" "0 \<le> b" "0 \<le> c" "0 \<le> d"
    by (rule octets_show)
  assume "x \<in> set (show_ipv4 w)"
  then show ?thesis using o show_nat_digits [of a] show_nat_digits [of b] show_nat_digits [of c] show_nat_digits [of d]
    by (auto simp: show_ipv4_def list_all_iff)
qed

lemma split_host_port_print:
  assumes "spec_ok sp"
  shows "split_host_port (show_host (sp_host sp) @ '':'' @ show_nat (uint (sp_port sp))) dflt = Inr (sp_host sp, sp_port sp)"
    and "CHR ''/'' \<notin> set (show_host (sp_host sp) @ '':'' @ show_nat (uint (sp_port sp)))"
proof -
  let ?p = "show_nat (uint (sp_port sp))" and ?h = "show_host (sp_host sp)"
  have colon: "CHR '':'' \<notin> set ?p" "CHR ''/'' \<notin> set ?p" by (rule not_digit_notin, simp add: is_ascii_digit_def)+
  have h: "?h \<noteq> [] \<and> hd ?h \<noteq> CHR ''['' \<and> CHR ''/'' \<notin> set ?h \<and> parse_ip (?h @ '':'' @ ?p) = None
      \<and> (case parse_ip ?h of Some ip \<Rightarrow> HostIp ip | None \<Rightarrow> HostName ?h) = sp_host sp"
  proof (cases "sp_host sp")
    case (HostIp ip)
    with assms obtain w where w: "ip = V4 w" by (cases ip) (auto simp: spec_ok_def)
    have "show_ipv4 w \<noteq> []" by (rule octets_show [of w]) (simp add: show_ipv4_def show_nat_nonempty)
    moreover from this have "is_ascii_digit (hd (show_ipv4 w)) \<or> hd (show_ipv4 w) = CHR ''.''"
      using show_ipv4_chars [of _ w] hd_in_set by blast
    ultimately show ?thesis
      using HostIp w parse_show_ipv4 [of w] show_ipv4_chars [of "CHR ''/''" w]
      by (auto simp: is_ascii_digit_def parse_ip_def [of "_ @ _"] read_ipv4_show_colon)
  next
    case (HostName n)
    with assms show ?thesis by (cases n) (auto simp: spec_ok_def starts_with_def)
  qed
  then have "\<not> starts_with (?h @ '':'' @ ?p) ''[''" by (cases ?h) (auto simp: starts_with_def)
  then show "split_host_port (?h @ '':'' @ ?p) dflt = Inr (sp_host sp, sp_port sp)"
    using h rsplit_once_append [OF colon(1), of ?h] parse_u16_show [of "sp_port sp"]
    by (simp add: split_host_port_def strip_prefix_def)
  show "CHR ''/'' \<notin> set (?h @ '':'' @ ?p)" using h colon by simp
qed

lemma parse_print_spec:
  assumes "spec_ok sp"
  shows "parse_spec (print_spec sp) = Inr sp"
proof -
  let ?a = "show_host (sp_host sp) @ '':'' @ show_nat (uint (sp_port sp))"
  obtain q where q: "sp_path sp = CHR ''/'' # q" using assms by (cases "sp_path sp") (auto simp: spec_ok_def starts_with_def)
  have pr: "print_spec sp = scheme_of (sp_kind sp) (sp_force_http3 sp) @ ''://'' @ ?a @ CHR ''/'' # q"
    by (simp add: print_spec_def q)
  have "trim (print_spec sp) = print_spec sp" "print_spec sp \<noteq> []" "sp_display sp = print_spec sp"
    using assms by (simp_all add: spec_ok_def print_spec_def)
  moreover have "parse_scheme (print_spec sp) = Inr (sp_kind sp, sp_force_http3 sp, ?a @ CHR ''/'' # q)"
    unfolding pr using assms by (intro parse_scheme_print) (simp add: spec_ok_def)
  moreover have "split_once (?a @ CHR ''/'' # q) CHR ''/'' = Some (?a, q)"
    using split_host_port_print(2) [OF assms] by (rule split_once_append)
  ultimately show ?thesis
    using split_host_port_print(1) [OF assms] by (simp add: parse_spec_def Let_def q [symmetric])
qed

subsection \<open>Parsing never accepts an unknown scheme, and identity can collide\<close>

lemma parse_spec_kind:
  assumes "parse_spec s = Inr sp"
  shows "sp_force_http3 sp \<Longrightarrow> sp_kind sp = Https" "sp_display sp = trim s" "trim s \<noteq> []"
  using assms
  by (auto simp: parse_spec_def parse_scheme_def Let_def split: if_splits sum.splits option.splits prod.splits)

text \<open>
  The identity appends \<open>+h3\<close> to the path, so a forced-HTTP/3 endpoint has the identity of the
  plain endpoint whose path ends in \<open>+h3\<close>.
\<close>

lemma identity_h3_collision:
  "identity lc (sp\<lparr>sp_force_http3 := True\<rparr>)
     = identity lc (sp\<lparr>sp_force_http3 := False, sp_path := sp_path sp @ ''+h3''\<rparr>)"
  by (simp add: identity_def Let_def split: host.split ip_addr.split)

end
