(* ===== verification/Bootstrap.thy ===== *)
theory Bootstrap
  imports Complex_Main Upstream_Spec Dns_Message
begin

text \<open>
  Bootstrap resolution of upstream host names, \<open>crates/bulwark-upstream/src/bootstrap.rs\<close>. An
  \<open>Instant\<close> is a real number of seconds. What a server makes of a query within the timeout is a
  parameter, \<open>bx_udp\<close>, as is \<open>Name::from_str\<close>.
\<close>

subsection \<open>Model\<close>

text \<open>What one transport makes of a query under \<open>tokio::time::timeout\<close>: a response and the time it
  took, an error, or nothing in time.\<close>

datatype attempt_result = AOk message real | AErr upstream_error | ATimeout

record boot_entry =
  be_ips :: "ip_addr list"
  be_at :: real

record bootstrap_state =
  bs_servers :: "socket_addr list"
  bs_cache :: "string \<Rightarrow> boot_entry option"

record boot_env =
  bx_name :: "string \<Rightarrow> string + dname"
  bx_set_fqdn :: "dname \<Rightarrow> dname"
  bx_udp :: "socket_addr \<Rightarrow> message \<Rightarrow> attempt_result"

definition CACHE_TTL :: real where "CACHE_TTL = 300"

definition new_bootstrap :: "socket_addr list \<Rightarrow> bootstrap_state" where
  "new_bootstrap srvs =
     (let srvs = (if srvs = []
        then [\<lparr>sa_ip = V4 0x01010101, sa_port = 53\<rparr>, \<lparr>sa_ip = V4 0x08080808, sa_port = 53\<rparr>]
        else srvs)
      in \<lparr>bs_servers = srvs, bs_cache = Map.empty\<rparr>)"

definition extract_ips :: "message \<Rightarrow> ip_addr list" where
  "extract_ips m =
     List.map_filter (\<lambda>r. case r_data r of RD_A a \<Rightarrow> Some (V4 a) | RD_AAAA a \<Rightarrow> Some (V6 a) | _ \<Rightarrow> None)
       (m_answers m)"

fun lookup_loop :: "boot_env \<Rightarrow> message \<Rightarrow> upstream_error \<Rightarrow> socket_addr list \<Rightarrow> upstream_error + ip_addr list" where
  "lookup_loop bx msg last_err [] = Inl last_err"
| "lookup_loop bx msg last_err (server # srvs) =
     (case bx_udp bx server msg of
        AOk resp _ \<Rightarrow>
          (let ips = extract_ips resp in
           if ips \<noteq> [] then Inr ips else lookup_loop bx msg last_err srvs)
      | AErr e \<Rightarrow> lookup_loop bx msg e srvs
      | ATimeout \<Rightarrow> lookup_loop bx msg Timeout srvs)"

definition boot_lookup ::
  "boot_env \<Rightarrow> u16 \<Rightarrow> string \<Rightarrow> u16 \<Rightarrow> bootstrap_state \<Rightarrow> upstream_error + ip_addr list" where
  "boot_lookup bx rnd_id host rtype bs =
     (case bx_name bx host of
        Inl e \<Rightarrow> Inl (Proto e)
      | Inr name \<Rightarrow>
          let name = bx_set_fqdn bx name;
              msg = (new_message rnd_id MtQuery 0)\<lparr>m_recursion_desired := True\<rparr>;
              msg = msg\<lparr>m_queries := m_queries msg @ [\<lparr>qry_name = name, qry_type = rtype, qry_class = C_IN\<rparr>]\<rparr>
          in lookup_loop bx msg (BootstrapError host) (bs_servers bs))"

definition cached_ips :: "real \<Rightarrow> string \<Rightarrow> bootstrap_state \<Rightarrow> ip_addr list option" where
  "cached_ips now host bs =
     (case bs_cache bs host of None \<Rightarrow> None
      | Some e \<Rightarrow> if now - be_at e < CACHE_TTL then Some (be_ips e) else None)"

text \<open>\<open>found\<close> collects the addresses of both record types; the instant \<open>done\<close> is that of the insert.\<close>

definition found_ips :: "upstream_error + ip_addr list \<Rightarrow> ip_addr list" where
  "found_ips r = (case r of Inl _ \<Rightarrow> [] | Inr ips \<Rightarrow> ips)"

definition boot_resolve ::
  "boot_env \<Rightarrow> u16 \<Rightarrow> u16 \<Rightarrow> real \<Rightarrow> real \<Rightarrow> string \<Rightarrow> bootstrap_state
   \<Rightarrow> (upstream_error + ip_addr list) \<times> bootstrap_state" where
  "boot_resolve bx rnd_a rnd_aaaa now stored_at host bs =
     (case parse_ip host of
        Some ip \<Rightarrow> (Inr [ip], bs)
      | None \<Rightarrow>
          (case cached_ips now host bs of
             Some ips \<Rightarrow> (Inr ips, bs)
           | None \<Rightarrow>
               let ips = found_ips (boot_lookup bx rnd_a host T_A bs)
                         @ found_ips (boot_lookup bx rnd_aaaa host T_AAAA bs)
               in if ips = [] then (Inl (BootstrapError host), bs)
                  else (Inr ips, bs\<lparr>bs_cache := (bs_cache bs)(host \<mapsto> \<lparr>be_ips = ips, be_at = stored_at\<rparr>)\<rparr>)))"

subsection \<open>Properties\<close>

definition boot_ok :: "bootstrap_state \<Rightarrow> bool" where
  "boot_ok bs \<longleftrightarrow> bs_servers bs \<noteq> [] \<and> (\<forall>host e. bs_cache bs host = Some e \<longrightarrow> be_ips e \<noteq> [])"

lemma new_bootstrap_ok: "boot_ok (new_bootstrap srvs)"
  by (simp add: boot_ok_def new_bootstrap_def Let_def)

lemma boot_resolve_ok: "boot_ok bs \<Longrightarrow> boot_ok (snd (boot_resolve bx ra rb now t host bs))"
  by (auto simp: boot_resolve_def boot_ok_def Let_def split: option.splits)

text \<open>A successful resolution has an address, so the callers that take the first have one.\<close>

lemma boot_resolve_nonempty:
  "boot_ok bs \<Longrightarrow> fst (boot_resolve bx ra rb now t host bs) = Inr ips \<Longrightarrow> ips \<noteq> []"
  by (auto simp: boot_resolve_def boot_ok_def cached_ips_def Let_def split: option.splits if_splits)

lemma boot_resolve_error:
  "fst (boot_resolve bx ra rb now t host bs) = Inl e \<Longrightarrow> e = BootstrapError host"
  by (auto simp: boot_resolve_def Let_def split: option.splits if_splits)

text \<open>What was resolved is served again for 300 seconds, whatever the servers say.\<close>

lemma boot_resolve_cached:
  assumes "fst (boot_resolve bx ra rb now t host bs) = Inr ips"
    and "cached_ips now host bs = None" "later - t < CACHE_TTL"
  shows "boot_resolve bx' ra' rb' later t' host (snd (boot_resolve bx ra rb now t host bs))
         = (Inr ips, snd (boot_resolve bx ra rb now t host bs))"
  using assms by (auto simp: boot_resolve_def cached_ips_def Let_def split: option.splits if_splits)

text \<open>The server that answers with addresses first decides, and later ones are not asked.\<close>

lemma lookup_loop_first:
  assumes "list_all (\<lambda>s. case bx_udp bx s msg of AOk r _ \<Rightarrow> extract_ips r = [] | _ \<Rightarrow> True) before"
    and "bx_udp bx s msg = AOk resp rtt" "extract_ips resp \<noteq> []"
  shows "lookup_loop bx msg e (before @ s # after) = Inr (extract_ips resp)"
  using assms by (induction before arbitrary: e) (auto split: attempt_result.splits)

lemma lookup_loop_error:
  "lookup_loop bx msg e srvs = Inl err \<longleftrightarrow>
     err = foldl (\<lambda>l s. case bx_udp bx s msg of AOk _ _ \<Rightarrow> l | AErr e \<Rightarrow> e | ATimeout \<Rightarrow> Timeout) e srvs
     \<and> list_all (\<lambda>s. case bx_udp bx s msg of AOk r _ \<Rightarrow> extract_ips r = [] | _ \<Rightarrow> True) srvs"
  by (induction srvs arbitrary: e) (auto simp: Let_def split: attempt_result.splits)

end
