(* ===== verification/Probe_Log.thy ===== *)
theory Probe_Log
  imports Complex_Main Send_Gate Upstream_Spec
begin

text \<open>
  Probe telemetry, \<open>crates/bulwark-upstream/src/probe_log.rs\<close>: the outcome and error labels that
  the probe store persists, the recorded event, and the gate in front of the writer channel.
\<close>

subsection \<open>Labels\<close>

datatype probe_outcome = OutAnswer | OutMeasureFail | OutReject | OutSoftFail | OutTimeout | OutError

fun outcome_as_str :: "probe_outcome \<Rightarrow> string" where
  "outcome_as_str OutAnswer = ''answer''"
| "outcome_as_str OutMeasureFail = ''measure_fail''"
| "outcome_as_str OutReject = ''reject''"
| "outcome_as_str OutSoftFail = ''soft_fail''"
| "outcome_as_str OutTimeout = ''timeout''"
| "outcome_as_str OutError = ''error''"

definition outcome_from_label :: "string \<Rightarrow> probe_outcome" where
  "outcome_from_label s =
     (if s = ''answer'' then OutAnswer
      else if s = ''measure_fail'' then OutMeasureFail
      else if s = ''reject'' then OutReject
      else if s = ''soft_fail'' then OutSoftFail
      else if s = ''timeout'' then OutTimeout
      else OutError)"

datatype probe_error_kind =
  KTimeout | KRcode | KIo | KTls | KQuic | KHttp | KProto | KBootstrap | KOther

fun error_kind_as_str :: "probe_error_kind \<Rightarrow> string" where
  "error_kind_as_str KTimeout = ''timeout''"
| "error_kind_as_str KRcode = ''rcode''"
| "error_kind_as_str KIo = ''io''"
| "error_kind_as_str KTls = ''tls''"
| "error_kind_as_str KQuic = ''quic''"
| "error_kind_as_str KHttp = ''http''"
| "error_kind_as_str KProto = ''proto''"
| "error_kind_as_str KBootstrap = ''bootstrap''"
| "error_kind_as_str KOther = ''other''"

definition error_kind_from_label :: "string \<Rightarrow> probe_error_kind" where
  "error_kind_from_label s =
     (if s = ''timeout'' then KTimeout
      else if s = ''rcode'' then KRcode
      else if s = ''io'' then KIo
      else if s = ''tls'' then KTls
      else if s = ''quic'' then KQuic
      else if s = ''http'' then KHttp
      else if s = ''proto'' then KProto
      else if s = ''bootstrap'' then KBootstrap
      else KOther)"

fun error_kind_of :: "upstream_error \<Rightarrow> probe_error_kind" where
  "error_kind_of Timeout = KTimeout"
| "error_kind_of (Rcode _) = KRcode"
| "error_kind_of (Io _) = KIo"
| "error_kind_of (TlsError _) = KTls"
| "error_kind_of (QuicError _) = KQuic"
| "error_kind_of (Http _) = KHttp"
| "error_kind_of (Proto _) = KProto"
| "error_kind_of (BootstrapError _) = KBootstrap"
| "error_kind_of (AllFailed inner) = error_kind_of inner"
| "error_kind_of NoUpstreams = KOther"
| "error_kind_of (InvalidSpec _) = KOther"

subsection \<open>Events and the gate\<close>

record probe_event =
  pe_time_ms :: int
  pe_upstream :: string
  pe_name :: string
  pe_kind :: transport_kind
  pe_outcome :: probe_outcome
  pe_rtt_ms :: "real option"
  pe_first_rtt_ms :: "real option"
  pe_ewma_ms :: "real option"
  pe_up :: bool
  pe_consecutive_failures :: u32
  pe_detail :: "string option"
  pe_error_kind :: "probe_error_kind option"
  pe_live_ewma_ms :: "real option"
  pe_live_queries :: u64
  pe_live_failures :: u64
  pe_rank :: "u16 option"
  pe_lead_held :: bool

record 'ch probe_log =
  pl_enabled :: bool
  pl_sink :: "'ch option"
  pl_dropped :: u64

definition new_probe_log :: "bool \<Rightarrow> 'ch probe_log" where
  "new_probe_log en = \<lparr>pl_enabled = en, pl_sink = None, pl_dropped = 0\<rparr>"

definition probe_set_sink :: "'ch \<Rightarrow> 'ch probe_log \<Rightarrow> 'ch probe_log" where
  "probe_set_sink ch l = l\<lparr>pl_sink := Some ch\<rparr>"

definition probe_reconfigure :: "bool \<Rightarrow> 'ch probe_log \<Rightarrow> 'ch probe_log" where
  "probe_reconfigure en l = l\<lparr>pl_enabled := en\<rparr>"

definition probe_push ::
  "('ch \<Rightarrow> probe_event \<Rightarrow> 'ch option) \<Rightarrow> probe_event \<Rightarrow> 'ch probe_log \<Rightarrow> 'ch probe_log" where
  "probe_push try_send event l =
     (if \<not> pl_enabled l then l
      else case pl_sink l of None \<Rightarrow> l
      | Some ch \<Rightarrow>
          (case try_send ch event of
             Some ch' \<Rightarrow> l\<lparr>pl_sink := Some ch'\<rparr>
           | None \<Rightarrow> l\<lparr>pl_dropped := pl_dropped l + 1\<rparr>))"

subsection \<open>Properties\<close>

lemma outcome_label_roundtrip: "outcome_from_label (outcome_as_str x) = x"
  by (cases x) (simp_all add: outcome_from_label_def)

lemma error_kind_label_roundtrip: "error_kind_from_label (error_kind_as_str k) = k"
  by (cases k) (simp_all add: error_kind_from_label_def)

definition probe_queued :: "('ch \<Rightarrow> probe_event list) \<Rightarrow> 'ch probe_log \<Rightarrow> probe_event list" where
  "probe_queued queued l = (case pl_sink l of None \<Rightarrow> [] | Some ch \<Rightarrow> queued ch)"

interpretation pl: send_gate "probe_push ts"
  "\<lambda>l. pl_enabled l \<and> pl_sink l \<noteq> None \<and> channel_laws ts queued"
  "probe_queued queued" pl_dropped "\<lambda>l e. e"
  by unfold_locales (auto simp: probe_push_def probe_queued_def dest: channel_lawsD split: option.splits)

lemma probe_push_disabled: "\<not> pl_enabled l \<Longrightarrow> probe_push ts e l = l"
  by (simp add: probe_push_def)

end
