(* ===== verification/Upstream_Pool.thy ===== *)
theory Upstream_Pool
  imports Bootstrap Probe_Log "HOL-Library.Product_Lexorder" "HOL-Library.Multiset"
begin

text \<open>
  The upstream pool, \<open>crates/bulwark-upstream/src/pool.rs\<close>: health records fed by live queries and
  probes, the routing order with its sticky leader, sequential failover, and probing. An
  \<open>Instant\<close>, a \<open>Duration\<close> and a \<open>f64\<close> are real numbers (seconds, or milliseconds where the name
  says so). What a transport does with one query is a parameter: the \<open>attempt\<close> that an upstream
  makes of it, as are the random factors of the schedule.
\<close>

subsection \<open>Settings and schedule\<close>

record pool_settings =
  ps_query_timeout :: real
  ps_ewma_alpha :: real
  ps_failure_threshold :: u32
  ps_bootstrap :: "socket_addr list"

definition default_settings :: pool_settings where
  "default_settings =
     \<lparr>ps_query_timeout = 5, ps_ewma_alpha = 2 / 10, ps_failure_threshold = 2, ps_bootstrap = []\<rparr>"

definition LEAD_PROBE_WINDOW :: real where "LEAD_PROBE_WINDOW = 180"
definition BENCH_PROBE_WINDOW :: real where "BENCH_PROBE_WINDOW = 900"
definition LEAD_PROBE_RANKS :: u16 where "LEAD_PROBE_RANKS = 2"

definition healthy_probe_window :: "u16 option \<Rightarrow> real" where
  "healthy_probe_window rank =
     (case rank of Some r \<Rightarrow> if LEAD_PROBE_RANKS \<le> r then BENCH_PROBE_WINDOW else LEAD_PROBE_WINDOW
      | None \<Rightarrow> LEAD_PROBE_WINDOW)"

definition DOWN_PROBE_BASE :: nat where "DOWN_PROBE_BASE = 5"
definition DOWN_PROBE_MAX :: nat where "DOWN_PROBE_MAX = 60"

definition retry_backoff :: "u32 \<Rightarrow> nat" where
  "retry_backoff consecutive_failures =
     (let steps = min (unat consecutive_failures - 1) 16
      in min (push_bit steps DOWN_PROBE_BASE) DOWN_PROBE_MAX)"

text \<open>\<open>rnd\<close> is the random number, at least 0 and below 1.\<close>

definition jitter :: "real \<Rightarrow> real \<Rightarrow> real" where
  "jitter rnd delay = delay * (3 / 4 + rnd * (1 / 2))"

definition STARTUP_PROBE_SPREAD :: real where "STARTUP_PROBE_SPREAD = 2"

definition startup_delay :: "real \<Rightarrow> real \<Rightarrow> real" where
  "startup_delay rnd mx = mx * rnd"

definition LEADER_STICKY_FRACTION :: real where "LEADER_STICKY_FRACTION = 15 / 100"
definition LEADER_STICKY_FLOOR_MS :: real where "LEADER_STICKY_FLOOR_MS = 5"

definition switch_margin :: "real \<Rightarrow> real" where
  "switch_margin incumbent_ms = max (incumbent_ms * LEADER_STICKY_FRACTION) LEADER_STICKY_FLOOR_MS"

definition ewma :: "u64 \<Rightarrow> real \<Rightarrow> real \<Rightarrow> real \<Rightarrow> real" where
  "ewma samples prev_ms sample_ms alpha =
     (if samples = 0 then sample_ms else alpha * sample_ms + (1 - alpha) * prev_ms)"

subsection \<open>Health\<close>

record health =
  probe_ewma_ms :: real
  probe_samples :: u64
  probe_at :: "real option"
  h_up :: bool
  consecutive_failures :: u32
  total_queries :: u64
  total_failures :: u64
  last_rtt_ms :: "real option"
  live_ewma_ms :: real
  live_samples :: u64
  last_rank :: "u16 option"
  lead_held :: bool
  last_error :: "string option"
  next_probe_at :: "real option"

definition default_health :: health where
  "default_health =
     \<lparr>probe_ewma_ms = 0, probe_samples = 0, probe_at = None, h_up = True, consecutive_failures = 0,
      total_queries = 0, total_failures = 0, last_rtt_ms = None, live_ewma_ms = 0, live_samples = 0,
      last_rank = None, lead_held = False, last_error = None, next_probe_at = None\<rparr>"

definition routing_latency_ms :: "health \<Rightarrow> real option" where
  "routing_latency_ms h = (if 0 < probe_samples h then Some (probe_ewma_ms h) else None)"

definition live_latency_ms :: "health \<Rightarrow> real option" where
  "live_latency_ms h = (if 0 < live_samples h then Some (live_ewma_ms h) else None)"

record probe_snapshot =
  snap_ewma_ms :: "real option"
  snap_up :: bool
  snap_consecutive_failures :: u32
  snap_live_ewma_ms :: "real option"
  snap_live_queries :: u64
  snap_live_failures :: u64
  snap_rank :: "u16 option"
  snap_lead_held :: bool

definition health_snapshot :: "health \<Rightarrow> probe_snapshot" where
  "health_snapshot h =
     \<lparr>snap_ewma_ms = routing_latency_ms h, snap_up = h_up h,
      snap_consecutive_failures = consecutive_failures h, snap_live_ewma_ms = live_latency_ms h,
      snap_live_queries = total_queries h, snap_live_failures = total_failures h,
      snap_rank = last_rank h, snap_lead_held = lead_held h\<rparr>"

definition record_live_success :: "real \<Rightarrow> real \<Rightarrow> health \<Rightarrow> health" where
  "record_live_success rtt alpha h =
     (let ms = rtt * 1000 in
      h\<lparr>total_queries := total_queries h + 1, last_rtt_ms := Some ms,
        live_ewma_ms := ewma (live_samples h) (live_ewma_ms h) ms alpha,
        live_samples := live_samples h + 1, consecutive_failures := 0, h_up := True,
        last_error := None\<rparr>)"

definition fold_probe_alive :: "real \<Rightarrow> real \<Rightarrow> health \<Rightarrow> health" where
  "fold_probe_alive now rnd h =
     h\<lparr>consecutive_failures := 0, h_up := True, last_error := None,
       next_probe_at := Some (now + jitter rnd (healthy_probe_window (last_rank h)))\<rparr>"

definition record_probe_success :: "real \<Rightarrow> real \<Rightarrow> real \<Rightarrow> real \<Rightarrow> health \<Rightarrow> health" where
  "record_probe_success now rnd rtt alpha h =
     (let ms = rtt * 1000;
          h = h\<lparr>probe_ewma_ms := ewma (probe_samples h) (probe_ewma_ms h) ms alpha,
                probe_samples := probe_samples h + 1, probe_at := Some now\<rparr>
      in fold_probe_alive now rnd h)"

definition record_probe_alive :: "real \<Rightarrow> real \<Rightarrow> upstream_error \<Rightarrow> health \<Rightarrow> health" where
  "record_probe_alive now rnd err h =
     (fold_probe_alive now rnd h)\<lparr>last_error := Some (show_upstream_error err)\<rparr>"

definition fold_failure :: "real \<Rightarrow> real \<Rightarrow> upstream_error \<Rightarrow> u32 \<Rightarrow> health \<Rightarrow> health" where
  "fold_failure now rnd err threshold h =
     (let n = consecutive_failures h + 1 in
      h\<lparr>consecutive_failures := n, last_error := Some (show_upstream_error err),
        h_up := (if threshold \<le> n then False else h_up h),
        next_probe_at := Some (now + jitter rnd (real (retry_backoff n)))\<rparr>)"

definition record_live_failure :: "real \<Rightarrow> real \<Rightarrow> upstream_error \<Rightarrow> u32 \<Rightarrow> health \<Rightarrow> health" where
  "record_live_failure now rnd err threshold h =
     fold_failure now rnd err threshold
       (h\<lparr>total_queries := total_queries h + 1, total_failures := total_failures h + 1\<rparr>)"

definition record_probe_failure :: "real \<Rightarrow> real \<Rightarrow> upstream_error \<Rightarrow> u32 \<Rightarrow> health \<Rightarrow> health" where
  "record_probe_failure now rnd err threshold h = fold_failure now rnd err threshold h"

definition record_soft_failure :: "upstream_error \<Rightarrow> health \<Rightarrow> health" where
  "record_soft_failure err h =
     h\<lparr>total_queries := total_queries h + 1, total_failures := total_failures h + 1,
       last_error := Some (show_upstream_error err)\<rparr>"

definition schedule_initial_probe :: "real \<Rightarrow> real \<Rightarrow> health \<Rightarrow> health" where
  "schedule_initial_probe now rnd h =
     (if next_probe_at h = None
      then h\<lparr>next_probe_at := Some (now + startup_delay rnd STARTUP_PROBE_SPREAD)\<rparr> else h)"

definition probe_due_in :: "real \<Rightarrow> health \<Rightarrow> real option" where
  "probe_due_in now h =
     (case next_probe_at h of None \<Rightarrow> None
      | Some due \<Rightarrow> if now < due then Some (due - now) else None)"

text \<open>\<open>f64::round\<close> and the saturating cast to \<open>u64\<close>.\<close>

definition round_u64 :: "real \<Rightarrow> int" where
  "round_u64 x = (if x < 0 then 0 else min (2 ^ 64 - 1) \<lfloor>x + 1 / 2\<rfloor>)"

definition health_sort_key :: "health \<Rightarrow> bool \<times> bool \<times> bool \<times> int" where
  "health_sort_key h =
     (let down = (\<not> h_up h);
          est = routing_latency_ms h;
          unsampled = (est = None);
          recent_hard_failure = (0 < consecutive_failures h);
          lat = round_u64 (case est of Some l \<Rightarrow> l | None \<Rightarrow> 0)
      in (down, unsampled, recent_hard_failure, lat))"

definition routing_latency_if_eligible :: "health \<Rightarrow> real option" where
  "routing_latency_if_eligible h =
     (if h_up h \<and> consecutive_failures h = 0 then routing_latency_ms h else None)"

subsection \<open>Upstreams and the pool\<close>

record pool_entry =
  ent_spec :: string
  ent_name :: "string option"

text \<open>
  A transport as the pool builds it. The server-name check of the TLS transport is that of the
  \<open>rustls\<close> crate: \<open>px_server_name\<close> gives its error text, or \<open>None\<close>.
\<close>

datatype transport =
    UdpTransport socket_addr
  | TcpTransport socket_addr
  | DotTransport upstream_spec
  | DohTransport upstream_spec
  | DoqTransport upstream_spec

record pool_env =
  px_rcode_debug :: "u16 \<Rightarrow> string"
  px_lowercase :: "string \<Rightarrow> string"
  px_server_name :: "string \<Rightarrow> string option"
  px_boot :: boot_env

text \<open>The random ids and the instants of one bootstrap resolution.\<close>

record boot_draw =
  bd_a :: u16
  bd_aaaa :: u16
  bd_now :: real
  bd_stored :: real

definition plain_addr ::
  "pool_env \<Rightarrow> boot_draw \<Rightarrow> upstream_spec \<Rightarrow> bootstrap_state \<Rightarrow> (upstream_error + socket_addr) \<times> bootstrap_state" where
  "plain_addr px d spec bs =
     (case sp_host spec of
        HostIp ip \<Rightarrow> (Inr \<lparr>sa_ip = ip, sa_port = sp_port spec\<rparr>, bs)
      | HostName name \<Rightarrow>
          (case boot_resolve (px_boot px) (bd_a d) (bd_aaaa d) (bd_now d) (bd_stored d) name bs of
             (Inl e, bs) \<Rightarrow> (Inl e, bs)
           | (Inr [], bs) \<Rightarrow> (Inl (BootstrapError name), bs)
           | (Inr (ip # _), bs) \<Rightarrow> (Inr \<lparr>sa_ip = ip, sa_port = sp_port spec\<rparr>, bs)))"

definition make_transport ::
  "pool_env \<Rightarrow> boot_draw \<Rightarrow> upstream_spec \<Rightarrow> bootstrap_state \<Rightarrow> (upstream_error + transport) \<times> bootstrap_state" where
  "make_transport px d spec bs =
     (case sp_kind spec of
        Udp \<Rightarrow> (case plain_addr px d spec bs of (r, bs) \<Rightarrow> (map_sum (\<lambda>e. e) UdpTransport r, bs))
      | Tcp \<Rightarrow> (case plain_addr px d spec bs of (r, bs) \<Rightarrow> (map_sum (\<lambda>e. e) TcpTransport r, bs))
      | Tls \<Rightarrow>
          (case px_server_name px (server_name spec) of
             Some e \<Rightarrow> (Inl (TlsError (''invalid server name: '' @ e)), bs)
           | None \<Rightarrow> (Inr (DotTransport spec), bs))
      | Https \<Rightarrow> (Inr (DohTransport spec), bs)
      | Quic \<Rightarrow> (Inr (DoqTransport spec), bs))"

record upstream =
  up_spec :: upstream_spec
  up_name :: string
  up_transport :: transport
  up_health :: health

record upstream_stat =
  stat_spec :: string
  stat_name :: string
  stat_kind :: transport_kind
  stat_up :: bool
  stat_avg_rtt_ms :: "real option"
  stat_last_rtt_ms :: "real option"
  stat_total_queries :: u64
  stat_total_failures :: u64
  stat_last_error :: "string option"

definition upstream_stat_of :: "upstream \<Rightarrow> upstream_stat" where
  "upstream_stat_of u =
     (let h = up_health u in
      \<lparr>stat_spec = sp_display (up_spec u), stat_name = up_name u, stat_kind = sp_kind (up_spec u),
       stat_up = h_up h, stat_avg_rtt_ms = routing_latency_ms h, stat_last_rtt_ms = last_rtt_ms h,
       stat_total_queries = total_queries h, stat_total_failures = total_failures h,
       stat_last_error = last_error h\<rparr>)"

record resolved =
  res_message :: message
  res_upstream :: string
  res_rtt_ms :: real

text \<open>A pool: its upstreams, the position of the current leader, and the settings.\<close>

record upstream_pool =
  p_upstreams :: "upstream list"
  p_leader :: "nat option"
  p_settings :: pool_settings
  p_bootstrap :: bootstrap_state

text \<open>The entries paired with the draws of their bootstrap resolutions.\<close>

fun build_upstreams ::
  "pool_env \<Rightarrow> (pool_entry \<times> boot_draw) list \<Rightarrow> bootstrap_state \<Rightarrow> upstream_error + upstream list \<times> bootstrap_state" where
  "build_upstreams px [] bs = Inr ([], bs)"
| "build_upstreams px ((ent, d) # ents) bs =
     (case parse_spec (ent_spec ent) of
        Inl e \<Rightarrow> Inl e
      | Inr spec \<Rightarrow>
          (case make_transport px d spec bs of
             (Inl e, bs) \<Rightarrow> Inl e
           | (Inr transport, bs) \<Rightarrow>
               (case build_upstreams px ents bs of
                  Inl e \<Rightarrow> Inl e
                | Inr (ups, bs) \<Rightarrow>
                    Inr (\<lparr>up_spec = spec,
                          up_name = (case ent_name ent of Some n \<Rightarrow> n | None \<Rightarrow> sp_display spec),
                          up_transport = transport, up_health = default_health\<rparr> # ups, bs))))"

definition build_pool ::
  "pool_env \<Rightarrow> (pool_entry \<times> boot_draw) list \<Rightarrow> pool_settings \<Rightarrow> upstream_error + upstream_pool" where
  "build_pool px entries settings =
     (case build_upstreams px entries (new_bootstrap (ps_bootstrap settings)) of
        Inl e \<Rightarrow> Inl e
      | Inr (ups, bs) \<Rightarrow>
          Inr \<lparr>p_upstreams = ups, p_leader = None, p_settings = settings, p_bootstrap = bs\<rparr>)"

definition pool_stats :: "upstream_pool \<Rightarrow> upstream_stat list" where
  "pool_stats p = map upstream_stat_of (p_upstreams p)"

abbreviation health_at :: "upstream_pool \<Rightarrow> nat \<Rightarrow> health" where
  "health_at p i \<equiv> up_health (p_upstreams p ! i)"

definition on_health :: "nat \<Rightarrow> (health \<Rightarrow> health) \<Rightarrow> upstream_pool \<Rightarrow> upstream_pool" where
  "on_health i f p =
     p\<lparr>p_upstreams := (p_upstreams p)[i := (p_upstreams p ! i)\<lparr>up_health := f (health_at p i)\<rparr>]\<rparr>"

fun index_of :: "'a \<Rightarrow> 'a list \<Rightarrow> nat option" where
  "index_of x [] = None"
| "index_of x (y # ys) = (if y = x then Some 0 else map_option Suc (index_of x ys))"

text \<open>The order before the leader is considered, as positions in the pool.\<close>

definition sorted_upstreams :: "upstream_pool \<Rightarrow> nat list" where
  "sorted_upstreams p = sort_key (\<lambda>i. health_sort_key (health_at p i)) [0..<length (p_upstreams p)]"

text \<open>Whether the incumbent keeps the lead, and the order with it in front.\<close>

definition hold_leader :: "upstream_pool \<Rightarrow> nat list \<Rightarrow> nat list \<times> bool" where
  "hold_leader p v =
     (case p_leader p of None \<Rightarrow> (v, False)
      | Some cur \<Rightarrow>
          (case index_of cur v of None \<Rightarrow> (v, False)
           | Some pos \<Rightarrow>
               if pos \<noteq> 0 then
                 (case (routing_latency_if_eligible (health_at p (v ! pos)),
                        routing_latency_if_eligible (health_at p (v ! 0))) of
                    (Some inc, Some best) \<Rightarrow>
                      if inc - best \<le> switch_margin inc
                      then (v ! pos # take pos v @ drop (Suc pos) v, True) else (v, False)
                  | _ \<Rightarrow> (v, False))
               else (v, False)))"

definition rank_of :: "nat \<Rightarrow> u16" where
  "rank_of i = word_of_nat (min i 65535)"

fun set_ranks :: "bool \<Rightarrow> nat \<Rightarrow> nat list \<Rightarrow> upstream_pool \<Rightarrow> upstream_pool" where
  "set_ranks held i [] p = p"
| "set_ranks held i (u # us) p =
     set_ranks held (Suc i) us
       (on_health u (\<lambda>h. h\<lparr>last_rank := Some (rank_of i), lead_held := (i = 0 \<and> held)\<rparr>) p)"

definition ordered :: "upstream_pool \<Rightarrow> nat list \<times> upstream_pool" where
  "ordered p =
     (let (v, held) = hold_leader p (sorted_upstreams p);
          p = p\<lparr>p_leader := (case v of [] \<Rightarrow> None | u # _ \<Rightarrow> Some u)\<rparr>
      in (v, set_ranks held 0 v p))"

subsection \<open>Sequential failover\<close>

datatype pool_verdict = PAnswer | PReject | PSoftFail

definition classify_response :: "message \<Rightarrow> pool_verdict" where
  "classify_response resp =
     (if m_response_code resp = RC_Refused \<or> m_response_code resp = RC_NotImp then PReject
      else if m_response_code resp = RC_ServFail \<or> m_response_code resp = RC_FormErr then PSoftFail
      else PAnswer)"

definition rcode_err :: "pool_env \<Rightarrow> message \<Rightarrow> upstream_error" where
  "rcode_err px resp = Rcode (px_rcode_debug px (m_response_code resp))"

text \<open>What one upstream makes of the query, with the instant and the random factor of the schedule.\<close>

record attempt =
  at_result :: attempt_result
  at_now :: real
  at_rnd :: real

fun resolve_loop ::
  "pool_env \<Rightarrow> (nat \<Rightarrow> attempt) \<Rightarrow> u32 \<Rightarrow> real \<Rightarrow> nat list \<Rightarrow> upstream_error \<Rightarrow> resolved option
   \<Rightarrow> upstream_pool \<Rightarrow> (upstream_error + resolved) \<times> upstream_pool" where
  "resolve_loop px net threshold alpha [] lst fallback p =
     (case fallback of Some r \<Rightarrow> (Inr r, p) | None \<Rightarrow> (Inl (AllFailed lst), p))"
| "resolve_loop px net threshold alpha (u # us) lst fallback p =
     (let a = net u in
      case at_result a of
        AOk resp rtt \<Rightarrow>
          (let res = \<lparr>res_message = resp, res_upstream = up_name (p_upstreams p ! u), res_rtt_ms = rtt * 1000\<rparr> in
           case classify_response resp of
             PAnswer \<Rightarrow> (Inr res, on_health u (record_live_success rtt alpha) p)
           | v \<Rightarrow>
               let err = rcode_err px resp;
                   p = on_health u (if v = PReject
                         then record_live_failure (at_now a) (at_rnd a) err threshold
                         else record_soft_failure err) p
               in resolve_loop px net threshold alpha us err
                    (case fallback of None \<Rightarrow> Some res | Some f \<Rightarrow> Some f) p)
      | AErr e \<Rightarrow>
          resolve_loop px net threshold alpha us e fallback
            (on_health u (record_live_failure (at_now a) (at_rnd a) e threshold) p)
      | ATimeout \<Rightarrow>
          resolve_loop px net threshold alpha us Timeout fallback
            (on_health u (record_live_failure (at_now a) (at_rnd a) Timeout threshold) p))"

definition resolve_sequential ::
  "pool_env \<Rightarrow> (nat \<Rightarrow> attempt) \<Rightarrow> nat list \<Rightarrow> upstream_pool \<Rightarrow> (upstream_error + resolved) \<times> upstream_pool" where
  "resolve_sequential px net order p =
     resolve_loop px net (ps_failure_threshold (p_settings p)) (ps_ewma_alpha (p_settings p)) order NoUpstreams None p"

text \<open>
  One call of \<open>resolve\<close> that finds no query for the same key in flight: the normalized query
  goes to the upstreams in order, and the response gets the caller's id.
\<close>

definition resolve_alone ::
  "dns_ext \<Rightarrow> pool_env \<Rightarrow> (message \<Rightarrow> nat \<Rightarrow> attempt) \<Rightarrow> message \<Rightarrow> upstream_pool
   \<Rightarrow> (upstream_error + resolved) \<times> upstream_pool" where
  "resolve_alone dx px net query p =
     (if p_upstreams p = [] then (Inl NoUpstreams, p)
      else case key_from_message query of
        None \<Rightarrow> (Inl (Proto ''query has no question''), p)
      | Some key \<Rightarrow>
          let (order, p) = ordered p;
              (result, p) = resolve_sequential px (net (normalize_upstream_edns dx query)) order p
          in case result of
               Inl e \<Rightarrow> (Inl e, p)
             | Inr r \<Rightarrow> (Inr (r\<lparr>res_message := (res_message r)\<lparr>m_id := m_id query\<rparr>\<rparr>), p))"

subsection \<open>Probing and reloads\<close>

definition adopt_health_from :: "pool_env \<Rightarrow> upstream_pool \<Rightarrow> upstream_pool \<Rightarrow> upstream_pool" where
  "adopt_health_from px old p =
     (let prior = map_of (rev (map (\<lambda>u. (identity (px_lowercase px) (up_spec u), up_health u)) (p_upstreams old)))
      in p\<lparr>p_upstreams := map (\<lambda>u.
             case prior (identity (px_lowercase px) (up_spec u)) of
               Some h \<Rightarrow> u\<lparr>up_health := h\<rparr> | None \<Rightarrow> u) (p_upstreams p)\<rparr>)"

definition probe_query :: "u16 \<Rightarrow> message" where
  "probe_query rnd_id =
     (let m = new_message rnd_id MtQuery 0;
          m = m\<lparr>m_recursion_desired := True\<rparr>
      in m\<lparr>m_queries := m_queries m @ [\<lparr>qry_name = root_name, qry_type = T_NS, qry_class = C_IN\<rparr>]\<rparr>)"

datatype shot = Answered real | ShotFailed probe_outcome upstream_error

definition probe_shot :: "pool_env \<Rightarrow> attempt_result \<Rightarrow> shot" where
  "probe_shot px r =
     (case r of
        AOk resp rtt \<Rightarrow>
          (case classify_response resp of
             PAnswer \<Rightarrow> Answered rtt
           | PReject \<Rightarrow> ShotFailed OutReject (rcode_err px resp)
           | PSoftFail \<Rightarrow> ShotFailed OutSoftFail (rcode_err px resp))
      | AErr e \<Rightarrow> ShotFailed OutError e
      | ATimeout \<Rightarrow> ShotFailed OutTimeout Timeout)"

record probe_report =
  pr_outcome :: probe_outcome
  pr_first_rtt_ms :: "real option"
  pr_rtt_ms :: "real option"
  pr_snap :: probe_snapshot
  pr_error :: "upstream_error option"

text \<open>One probe: the first shot for liveness, the second, if there is one, for latency.\<close>

definition probe_once ::
  "pool_env \<Rightarrow> pool_settings \<Rightarrow> attempt \<Rightarrow> attempt \<Rightarrow> health \<Rightarrow> probe_report \<times> health" where
  "probe_once px st a1 a2 h =
     (case probe_shot px (at_result a1) of
        Answered first_rtt \<Rightarrow>
          (case probe_shot px (at_result a2) of
             Answered warm \<Rightarrow>
               let h' = record_probe_success (at_now a2) (at_rnd a2) warm (ps_ewma_alpha st) h
               in (\<lparr>pr_outcome = OutAnswer, pr_first_rtt_ms = Some (first_rtt * 1000),
                    pr_rtt_ms = Some (warm * 1000), pr_snap = health_snapshot h', pr_error = None\<rparr>, h')
           | ShotFailed _ e \<Rightarrow>
               let h' = record_probe_alive (at_now a2) (at_rnd a2) e h
               in (\<lparr>pr_outcome = OutMeasureFail, pr_first_rtt_ms = Some (first_rtt * 1000),
                    pr_rtt_ms = None, pr_snap = health_snapshot h', pr_error = Some e\<rparr>, h'))
      | ShotFailed out e \<Rightarrow>
          let h' = record_probe_failure (at_now a1) (at_rnd a1) e (ps_failure_threshold st) h
          in (\<lparr>pr_outcome = out, pr_first_rtt_ms = None, pr_rtt_ms = None,
               pr_snap = health_snapshot h', pr_error = Some e\<rparr>, h'))"

text \<open>The event that is logged, when the probe log is enabled.\<close>

definition report_event :: "int \<Rightarrow> upstream \<Rightarrow> probe_report \<Rightarrow> probe_event" where
  "report_event time_ms up r =
     \<lparr>pe_time_ms = time_ms, pe_upstream = sp_display (up_spec up), pe_name = up_name up,
      pe_kind = sp_kind (up_spec up), pe_outcome = pr_outcome r, pe_rtt_ms = pr_rtt_ms r,
      pe_first_rtt_ms = pr_first_rtt_ms r, pe_ewma_ms = snap_ewma_ms (pr_snap r), pe_up = snap_up (pr_snap r),
      pe_consecutive_failures = snap_consecutive_failures (pr_snap r),
      pe_detail = map_option show_upstream_error (pr_error r),
      pe_error_kind = map_option error_kind_of (pr_error r),
      pe_live_ewma_ms = snap_live_ewma_ms (pr_snap r), pe_live_queries = snap_live_queries (pr_snap r),
      pe_live_failures = snap_live_failures (pr_snap r), pe_rank = snap_rank (pr_snap r),
      pe_lead_held = snap_lead_held (pr_snap r)\<rparr>"

definition probe_and_log ::
  "pool_env \<Rightarrow> ('ch \<Rightarrow> probe_event \<Rightarrow> 'ch option) \<Rightarrow> pool_settings \<Rightarrow> int \<Rightarrow> attempt \<Rightarrow> attempt
   \<Rightarrow> upstream \<Rightarrow> 'ch probe_log \<Rightarrow> upstream \<times> 'ch probe_log" where
  "probe_and_log px ts st time_ms a1 a2 up l =
     (let (r, h) = probe_once px st a1 a2 (up_health up);
          up = up\<lparr>up_health := h\<rparr>
      in (up, if pl_enabled l then probe_push ts (report_event time_ms up r) l else l))"

text \<open>\<open>probe_all\<close>: every upstream in turn, with the draws of its two shots.\<close>

fun probe_all ::
  "pool_env \<Rightarrow> ('ch \<Rightarrow> probe_event \<Rightarrow> 'ch option) \<Rightarrow> pool_settings \<Rightarrow> (int \<times> attempt \<times> attempt) list
   \<Rightarrow> upstream list \<Rightarrow> 'ch probe_log \<Rightarrow> upstream list \<times> 'ch probe_log" where
  "probe_all px ts st ((t, a1, a2) # ds) (up # ups) l =
     (let (up, l) = probe_and_log px ts st t a1 a2 up l;
          (ups, l) = probe_all px ts st ds ups l
      in (up # ups, l))"
| "probe_all px ts st _ ups l = (ups, l)"

text \<open>One turn of \<open>probe_loop\<close>: sleep for the remaining delay, or probe.\<close>

definition probe_turn ::
  "pool_env \<Rightarrow> ('ch \<Rightarrow> probe_event \<Rightarrow> 'ch option) \<Rightarrow> pool_settings \<Rightarrow> real \<Rightarrow> int \<Rightarrow> attempt \<Rightarrow> attempt
   \<Rightarrow> upstream \<Rightarrow> 'ch probe_log \<Rightarrow> real option \<times> upstream \<times> 'ch probe_log" where
  "probe_turn px ts st now time_ms a1 a2 up l =
     (case probe_due_in now (up_health up) of
        Some remaining \<Rightarrow> (Some remaining, up, l)
      | None \<Rightarrow> (None, probe_and_log px ts st time_ms a1 a2 up l))"

definition start_probing :: "real \<Rightarrow> (nat \<Rightarrow> real) \<Rightarrow> upstream_pool \<Rightarrow> upstream_pool" where
  "start_probing now rnd p =
     p\<lparr>p_upstreams := map (\<lambda>(i, u). u\<lparr>up_health := schedule_initial_probe now (rnd i) (up_health u)\<rparr>)
         (enumerate 0 (p_upstreams p))\<rparr>"

text \<open>\<open>test_spec\<close>: one query for \<open>example.com.\<close> over a transport of its own.\<close>

definition test_query :: "u16 \<Rightarrow> message" where
  "test_query rnd_id =
     (let m = (new_message rnd_id MtQuery 0)\<lparr>m_recursion_desired := True\<rparr>
      in m\<lparr>m_queries := m_queries m @ [\<lparr>qry_name = ''example.com.'', qry_type = T_A, qry_class = C_IN\<rparr>]\<rparr>)"

definition test_spec ::
  "pool_env \<Rightarrow> (transport \<Rightarrow> message \<Rightarrow> attempt_result) \<Rightarrow> boot_draw \<Rightarrow> u16 \<Rightarrow> string \<Rightarrow> bootstrap_state
   \<Rightarrow> (upstream_error + real) \<times> bootstrap_state" where
  "test_spec px ask d rnd_id spec_str bs =
     (case parse_spec spec_str of
        Inl e \<Rightarrow> (Inl e, bs)
      | Inr spec \<Rightarrow>
          (case make_transport px d spec bs of
             (Inl e, bs) \<Rightarrow> (Inl e, bs)
           | (Inr transport, bs) \<Rightarrow>
               (case ask transport (test_query rnd_id) of
                  AOk resp elapsed \<Rightarrow> (Inr elapsed, bs)
                | AErr e \<Rightarrow> (Inl e, bs)
                | ATimeout \<Rightarrow> (Inl Timeout, bs))))"

subsection \<open>The schedule\<close>

lemma retry_backoff_eq: "retry_backoff n = min (5 * 2 ^ min (unat n - 1) 16) 60"
  by (simp add: retry_backoff_def DOWN_PROBE_BASE_def DOWN_PROBE_MAX_def push_bit_eq_mult Let_def)

lemma retry_backoff_bounds: "5 \<le> retry_backoff n" "retry_backoff n \<le> 60"
  by (simp_all add: retry_backoff_eq)

lemma retry_backoff_mono: "m \<le> n \<Longrightarrow> retry_backoff m \<le> retry_backoff n"
proof -
  assume "m \<le> n"
  then have "min (unat m - 1) 16 \<le> min (unat n - 1) 16" by (simp add: word_le_nat_alt min_le_iff_disj) linarith
  then have "(2 :: nat) ^ min (unat m - 1) 16 \<le> 2 ^ min (unat n - 1) 16" by (rule power_increasing) simp
  then show ?thesis by (simp add: retry_backoff_eq min_le_iff_disj)
qed

lemma jitter_bounds:
  assumes "0 \<le> rnd" "rnd < 1" "0 < delay"
  shows "3 / 4 * delay \<le> jitter rnd delay" "jitter rnd delay < 5 / 4 * delay"
  using assms by (simp_all add: jitter_def)

lemma healthy_probe_window_bounds: "180 \<le> healthy_probe_window rank"
  by (simp add: healthy_probe_window_def LEAD_PROBE_WINDOW_def BENCH_PROBE_WINDOW_def split: option.split)

text \<open>The jittered retry of a failing upstream comes before any jittered resample.\<close>

lemma recovery_before_resample:
  assumes "0 \<le> r" "r < 1" "0 \<le> s" "s < 1"
  shows "jitter r (real (retry_backoff n)) < jitter s (healthy_probe_window rank)"
proof -
  have "jitter r (real (retry_backoff n)) < 5 / 4 * real (retry_backoff n)"
    using assms retry_backoff_bounds(1) [of n] by (intro jitter_bounds) auto
  also have "\<dots> \<le> 3 / 4 * healthy_probe_window rank"
    using retry_backoff_bounds(2) [of n] healthy_probe_window_bounds [of rank] by linarith
  also have "\<dots> \<le> jitter s (healthy_probe_window rank)"
    using assms healthy_probe_window_bounds [of rank] by (intro jitter_bounds) auto
  finally show ?thesis .
qed

lemma ewma_between:
  assumes "0 \<le> alpha" "alpha \<le> 1" "0 < samples"
  shows "min prev x \<le> ewma samples prev x alpha" "ewma samples prev x alpha \<le> max prev x"
proof -
  have "alpha * min prev x + (1 - alpha) * min prev x \<le> alpha * x + (1 - alpha) * prev"
    using assms by (intro add_mono mult_left_mono) auto
  moreover have "alpha * x + (1 - alpha) * prev \<le> alpha * max prev x + (1 - alpha) * max prev x"
    using assms by (intro add_mono mult_left_mono) auto
  ultimately show "min prev x \<le> ewma samples prev x alpha" "ewma samples prev x alpha \<le> max prev x"
    using assms by (simp_all add: ewma_def word_neq_0_conv [symmetric] algebra_simps)
qed

subsection \<open>Health as a history of events\<close>

datatype health_event =
    LiveOk real
  | LiveFail upstream_error real real
  | LiveSoft upstream_error
  | ProbeOk real real real
  | ProbeAlive upstream_error real real
  | ProbeFail upstream_error real real

fun apply_event :: "u32 \<Rightarrow> real \<Rightarrow> health_event \<Rightarrow> health \<Rightarrow> health" where
  "apply_event threshold alpha (LiveOk rtt) h = record_live_success rtt alpha h"
| "apply_event threshold alpha (LiveFail e now rnd) h = record_live_failure now rnd e threshold h"
| "apply_event threshold alpha (LiveSoft e) h = record_soft_failure e h"
| "apply_event threshold alpha (ProbeOk rtt now rnd) h = record_probe_success now rnd rtt alpha h"
| "apply_event threshold alpha (ProbeAlive e now rnd) h = record_probe_alive now rnd e h"
| "apply_event threshold alpha (ProbeFail e now rnd) h = record_probe_failure now rnd e threshold h"

fun hard_failure :: "health_event \<Rightarrow> bool" where
  "hard_failure (LiveFail _ _ _) = True"
| "hard_failure (ProbeFail _ _ _) = True"
| "hard_failure _ = False"

fun soft_event :: "health_event \<Rightarrow> bool" where
  "soft_event (LiveSoft _) = True"
| "soft_event _ = False"

fun live_event :: "health_event \<Rightarrow> bool" where
  "live_event (LiveOk _) = True"
| "live_event (LiveFail _ _ _) = True"
| "live_event (LiveSoft _) = True"
| "live_event _ = False"

fun live_failure :: "health_event \<Rightarrow> bool" where
  "live_failure (LiveFail _ _ _) = True"
| "live_failure (LiveSoft _) = True"
| "live_failure _ = False"

text \<open>The hard failures since the last sign of life; soft failures do not count either way.\<close>

fun failure_run :: "health_event list \<Rightarrow> nat" where
  "failure_run [] = 0"
| "failure_run (e # es) =
     (if hard_failure e then Suc (failure_run es) else if soft_event e then failure_run es else 0)"

lemma failure_run_length: "failure_run es \<le> length es"
  by (induction es) auto

abbreviation health_after :: "u32 \<Rightarrow> real \<Rightarrow> health_event list \<Rightarrow> health" where
  "health_after threshold alpha es \<equiv> foldr (apply_event threshold alpha) es default_health"

lemmas health_ops = record_live_success_def record_live_failure_def record_soft_failure_def
  record_probe_success_def record_probe_alive_def record_probe_failure_def fold_failure_def
  fold_probe_alive_def

lemma apply_event_failures:
  "consecutive_failures (apply_event threshold alpha e h) =
     (if hard_failure e then consecutive_failures h + 1
      else if soft_event e then consecutive_failures h else 0)"
  by (cases e) (simp_all add: health_ops Let_def)

lemma apply_event_up:
  "h_up (apply_event threshold alpha e h) =
     (if hard_failure e then \<not> threshold \<le> consecutive_failures h + 1 \<and> h_up h
      else soft_event e \<longrightarrow> h_up h)"
  by (cases e) (simp_all add: health_ops Let_def)

lemma apply_event_counters:
  "total_queries (apply_event threshold alpha e h) = total_queries h + (if live_event e then 1 else 0)"
  "total_failures (apply_event threshold alpha e h) = total_failures h + (if live_failure e then 1 else 0)"
  by (cases e; simp add: health_ops Let_def)+

text \<open>The history with the newest event first.\<close>

lemma health_failures:
  "length es < 2 ^ 32 \<Longrightarrow> unat (consecutive_failures (health_after threshold alpha es)) = failure_run es"
proof (induction es)
  case Nil
  show ?case by (simp add: default_health_def)
next
  case (Cons e es)
  have "unat (x + 1) = unat x + 1" if "unat (x :: 32 word) < 2 ^ 32 - 1" for x
    using that by (simp add: unat_word_ariths)
  then show ?case using Cons failure_run_length [of es] by (simp add: apply_event_failures)
qed

lemma health_up:
  assumes "0 < threshold"
  shows "length es < 2 ^ 32 \<Longrightarrow>
    h_up (health_after threshold alpha es) \<longleftrightarrow> failure_run es < unat threshold"
proof (induction es)
  case Nil
  then show ?case using assms by (simp add: default_health_def unat_gt_0 word_neq_0_conv)
next
  case (Cons e es)
  let ?h = "health_after threshold alpha es"
  have f: "unat (consecutive_failures ?h) = failure_run es" using Cons.prems by (intro health_failures) simp
  have s: "unat (consecutive_failures (health_after threshold alpha (e # es))) = failure_run (e # es)"
    using Cons.prems by (intro health_failures)
  show ?case using Cons f s assms
    by (auto simp: apply_event_up apply_event_failures word_le_nat_alt unat_gt_0 word_neq_0_conv)
qed

lemma health_counters:
  "total_queries (health_after threshold alpha es) = word_of_nat (length (filter live_event es))"
  "total_failures (health_after threshold alpha es) = word_of_nat (length (filter live_failure es))"
  by (induction es) (simp_all add: apply_event_counters default_health_def)

subsection \<open>Failover\<close>

definition answers :: "attempt \<Rightarrow> bool" where
  "answers a = (case at_result a of AOk resp _ \<Rightarrow> classify_response resp = PAnswer | _ \<Rightarrow> False)"

definition attempt_error :: "pool_env \<Rightarrow> attempt \<Rightarrow> upstream_error" where
  "attempt_error px a =
     (case at_result a of AOk resp _ \<Rightarrow> rcode_err px resp | AErr e \<Rightarrow> e | ATimeout \<Rightarrow> Timeout)"

definition attempt_resolved :: "string \<Rightarrow> attempt \<Rightarrow> resolved option" where
  "attempt_resolved name a =
     (case at_result a of
        AOk resp rtt \<Rightarrow> Some \<lparr>res_message = resp, res_upstream = name, res_rtt_ms = rtt * 1000\<rparr>
      | _ \<Rightarrow> None)"

text \<open>What an attempt means for the health of the upstream.\<close>

definition attempt_event :: "pool_env \<Rightarrow> attempt \<Rightarrow> health_event" where
  "attempt_event px a =
     (case at_result a of
        AOk resp rtt \<Rightarrow>
          (case classify_response resp of
             PAnswer \<Rightarrow> LiveOk rtt
           | PReject \<Rightarrow> LiveFail (rcode_err px resp) (at_now a) (at_rnd a)
           | PSoftFail \<Rightarrow> LiveSoft (rcode_err px resp))
      | AErr e \<Rightarrow> LiveFail e (at_now a) (at_rnd a)
      | ATimeout \<Rightarrow> LiveFail Timeout (at_now a) (at_rnd a))"

fun tried :: "(nat \<Rightarrow> attempt) \<Rightarrow> nat list \<Rightarrow> nat list" where
  "tried net [] = []"
| "tried net (u # us) = u # (if answers (net u) then [] else tried net us)"

abbreviation name_at :: "upstream_pool \<Rightarrow> nat \<Rightarrow> string" where
  "name_at p i \<equiv> up_name (p_upstreams p ! i)"

lemma on_health_length [simp]: "length (p_upstreams (on_health u f p)) = length (p_upstreams p)"
  by (simp add: on_health_def)

lemma on_health_fields [simp]:
  "p_leader (on_health u f p) = p_leader p" "p_settings (on_health u f p) = p_settings p"
  by (simp_all add: on_health_def)

lemma on_health_at:
  "i < length (p_upstreams p) \<Longrightarrow> health_at (on_health u f p) i = (if i = u then f (health_at p i) else health_at p i)"
  by (simp add: on_health_def nth_list_update)

lemma on_health_name [simp]: "name_at (on_health u f p) i = name_at p i"
  by (cases "u < length (p_upstreams p)"; cases "i = u") (simp_all add: on_health_def not_less list_update_beyond)

lemma apply_event_fun:
  "apply_event thr alpha (LiveOk rtt) = record_live_success rtt alpha"
  "apply_event thr alpha (LiveFail e now rnd) = record_live_failure now rnd e thr"
  "apply_event thr alpha (LiveSoft e) = record_soft_failure e"
  by (simp_all add: fun_eq_iff)

lemma resolve_loop_step:
  "resolve_loop px net thr alpha (u # us) lst fallback p =
     (let p' = on_health u (apply_event thr alpha (attempt_event px (net u))) p;
          res = attempt_resolved (name_at p u) (net u)
      in if answers (net u) then (Inr (the res), p')
         else resolve_loop px net thr alpha us (attempt_error px (net u))
                (case fallback of None \<Rightarrow> res | Some f \<Rightarrow> Some f) p')"
  by (auto simp: answers_def attempt_error_def attempt_resolved_def attempt_event_def apply_event_fun Let_def
      split: attempt_result.split pool_verdict.split option.split)

declare resolve_loop.simps(2) [simp del]

lemma resolve_loop_pool:
  "snd (resolve_loop px net thr alpha us lst fallback p)
   = fold (\<lambda>u. on_health u (apply_event thr alpha (attempt_event px (net u)))) (tried net us) p"
  by (induction us arbitrary: lst fallback p) (simp_all add: resolve_loop_step Let_def split: option.split)

text \<open>The first answer wins; without one the first response, without one the last error.\<close>

definition failover_outcome ::
  "pool_env \<Rightarrow> (nat \<Rightarrow> attempt) \<Rightarrow> (nat \<Rightarrow> string) \<Rightarrow> nat list \<Rightarrow> upstream_error \<Rightarrow> upstream_error + resolved" where
  "failover_outcome px net name order lst =
     (case filter (\<lambda>u. answers (net u)) order of
        u # _ \<Rightarrow> Inr (the (attempt_resolved (name u) (net u)))
      | [] \<Rightarrow>
          (case List.map_filter (\<lambda>u. attempt_resolved (name u) (net u)) order of
             r # _ \<Rightarrow> Inr r
           | [] \<Rightarrow> Inl (AllFailed (last (lst # map (\<lambda>u. attempt_error px (net u)) order)))))"

lemma resolve_loop_result:
  "fst (resolve_loop px net thr alpha us lst fallback p) =
     (case fallback of
        None \<Rightarrow> failover_outcome px net (name_at p) us lst
      | Some f \<Rightarrow> if list_ex (\<lambda>u. answers (net u)) us then failover_outcome px net (name_at p) us lst else Inr f)"
proof (induction us arbitrary: lst fallback p)
  case Nil
  show ?case by (simp add: failover_outcome_def map_filter_def split: option.split)
next
  case (Cons u us)
  have none: "filter (\<lambda>u. answers (net u)) us = []" if "\<not> list_ex (\<lambda>u. answers (net u)) us"
    using that by (auto simp: list_ex_iff filter_empty_conv)
  have some: "filter (\<lambda>u. answers (net u)) us \<noteq> []" if "list_ex (\<lambda>u. answers (net u)) us"
    using that by (auto simp: list_ex_iff filter_empty_conv)
  show ?case
    using none some by (auto simp: Cons.IH resolve_loop_step failover_outcome_def Let_def map_filter_simps
        split: option.split list.split)
qed

lemma fold_on_health:
  assumes "distinct us" "i < length (p_upstreams p)"
  shows "health_at (fold (\<lambda>u. on_health u (f u)) us p) i = (if i \<in> set us then f i (health_at p i) else health_at p i)"
  using assms by (induction us arbitrary: p) (auto simp: on_health_at)

lemma fold_on_health_fields [simp]:
  "length (p_upstreams (fold (\<lambda>u. on_health u (f u)) us p)) = length (p_upstreams p)"
  "p_leader (fold (\<lambda>u. on_health u (f u)) us p) = p_leader p"
  "p_settings (fold (\<lambda>u. on_health u (f u)) us p) = p_settings p"
  "name_at (fold (\<lambda>u. on_health u (f u)) us p) i = name_at p i"
  by (induction us arbitrary: p) simp_all

lemma tried_subset: "set (tried net us) \<subseteq> set us"
  by (induction us) auto

lemma tried_distinct: "distinct us \<Longrightarrow> distinct (tried net us)"
  using tried_subset by (induction us) (auto dest: subsetD)

subsection \<open>Routing order\<close>

lemma index_of_SomeD: "index_of x ys = Some i \<Longrightarrow> i < length ys \<and> ys ! i = x"
  by (induction ys arbitrary: i) (auto split: if_splits)

lemma sorted_upstreams_mset: "mset (sorted_upstreams p) = mset [0..<length (p_upstreams p)]"
  by (simp add: sorted_upstreams_def)

lemma hold_leader_cases:
  assumes "hold_leader p v = (w, held)"
  shows "held = False \<and> w = v
    \<or> (\<exists>pos inc best. held \<and> p_leader p = Some (v ! pos) \<and> 0 < pos \<and> pos < length v
        \<and> w = v ! pos # take pos v @ drop (Suc pos) v
        \<and> routing_latency_if_eligible (health_at p (v ! pos)) = Some inc
        \<and> routing_latency_if_eligible (health_at p (v ! 0)) = Some best \<and> inc - best \<le> switch_margin inc)"
  using assms by (auto simp: hold_leader_def dest!: index_of_SomeD split: option.splits if_splits)

lemma hold_leader_mset: "hold_leader p v = (w, held) \<Longrightarrow> mset w = mset v"
proof (drule hold_leader_cases, elim disjE exE conjE)
  fix pos assume "pos < length v" "w = v ! pos # take pos v @ drop (Suc pos) v"
  then show "mset w = mset v"
    using arg_cong [OF id_take_nth_drop [of pos v], of mset] by simp
qed simp

lemma set_ranks_fields [simp]:
  "length (p_upstreams (set_ranks held i us p)) = length (p_upstreams p)"
  "p_leader (set_ranks held i us p) = p_leader p"
  "p_settings (set_ranks held i us p) = p_settings p"
  "name_at (set_ranks held i us p) j = name_at p j"
  by (induction us arbitrary: i p) simp_all

definition routing_fields :: "health \<Rightarrow> health" where
  "routing_fields h = h\<lparr>last_rank := None, lead_held := False\<rparr>"

lemma set_ranks_routing:
  "j < length (p_upstreams p) \<Longrightarrow>
     routing_fields (health_at (set_ranks held i us p) j) = routing_fields (health_at p j)"
  by (induction us arbitrary: i p) (simp_all add: on_health_at routing_fields_def)

text \<open>Ordering only records ranks: what routing reads of the health is unchanged.\<close>

lemma ordered_health:
  "i < length (p_upstreams p) \<Longrightarrow>
     routing_fields (health_at (snd (ordered p)) i) = routing_fields (health_at p i)"
  by (simp add: ordered_def set_ranks_routing Let_def split: prod.split)

lemma routing_fields_reads:
  "h_up (routing_fields h) = h_up h" "routing_latency_if_eligible (routing_fields h) = routing_latency_if_eligible h"
  "health_sort_key (routing_fields h) = health_sort_key h"
  by (simp_all add: routing_fields_def routing_latency_if_eligible_def routing_latency_ms_def health_sort_key_def Let_def)

lemma ordered_fields:
  "length (p_upstreams (snd (ordered p))) = length (p_upstreams p)"
  "p_settings (snd (ordered p)) = p_settings p"
  "name_at (snd (ordered p)) i = name_at p i"
  "p_leader (snd (ordered p)) = (case fst (ordered p) of [] \<Rightarrow> None | u # _ \<Rightarrow> Some u)"
  by (simp_all add: ordered_def Let_def split: prod.split)

lemma ordered_mset: "mset (fst (ordered p)) = mset [0..<length (p_upstreams p)]"
  using sorted_upstreams_mset by (auto simp: ordered_def Let_def dest: hold_leader_mset split: prod.split)

lemma ordered_distinct: "distinct (fst (ordered p))"
  using mset_eq_imp_distinct_iff [OF ordered_mset] by simp

lemma ordered_set: "set (fst (ordered p)) = {0..<length (p_upstreams p)}"
  using mset_eq_setD [OF ordered_mset [of p]] by simp

lemma sorted_upstreams_sorted:
  "sorted_wrt (\<lambda>i j. health_sort_key (health_at p i) \<le> health_sort_key (health_at p j)) (sorted_upstreams p)"
  using sorted_sort_key [of "\<lambda>i. health_sort_key (health_at p i)" "[0..<length (p_upstreams p)]"]
  by (simp add: sorted_upstreams_def sorted_map)

lemma sort_key_up: "health_sort_key h \<le> health_sort_key k \<Longrightarrow> h_up k \<Longrightarrow> h_up h"
  by (auto simp: health_sort_key_def Let_def less_eq_prod_def split: if_splits)

lemma eligible_up: "routing_latency_if_eligible h = Some ms \<Longrightarrow> h_up h"
  by (simp add: routing_latency_if_eligible_def split: if_splits)

text \<open>No upstream that is down stands before one that is up.\<close>

lemma ordered_up_first:
  "sorted_wrt (\<lambda>i j. h_up (health_at p j) \<longrightarrow> h_up (health_at p i)) (fst (ordered p))"
proof -
  let ?P = "\<lambda>i j. h_up (health_at p j) \<longrightarrow> h_up (health_at p i)"
  let ?v = "sorted_upstreams p"
  obtain w held where w: "hold_leader p ?v = (w, held)" by fastforce
  have v: "sorted_wrt ?P ?v"
    by (rule sorted_wrt_mono_rel [OF _ sorted_upstreams_sorted]) (use sort_key_up in blast)
  from hold_leader_cases [OF w] have "sorted_wrt ?P w"
  proof (elim disjE exE conjE)
    fix pos inc
    assume pos: "pos < length ?v" and eq: "w = ?v ! pos # take pos ?v @ drop (Suc pos) ?v"
      and "routing_latency_if_eligible (health_at p (?v ! pos)) = Some inc"
    have "sorted_wrt ?P (take pos ?v @ drop (Suc pos) ?v)"
      using v by (subst (asm) id_take_nth_drop [OF pos]) (auto simp: sorted_wrt_append)
    then show ?thesis using eligible_up [OF \<open>_ = Some inc\<close>] by (simp add: eq)
  qed (use v in simp)
  then show ?thesis using w by (simp add: ordered_def Let_def)
qed

text \<open>
  The upstream asked first is the best by the sort key, or the previous leader, which is
  clean and no more than its margin slower than the best.
\<close>

lemma ordered_head:
  assumes "fst (ordered p) = u # us" "i < length (p_upstreams p)"
  shows "health_sort_key (health_at p u) \<le> health_sort_key (health_at p i)
    \<or> p_leader p = Some u \<and> (\<exists>best inc. best < length (p_upstreams p)
        \<and> health_sort_key (health_at p best) \<le> health_sort_key (health_at p i)
        \<and> routing_latency_if_eligible (health_at p u) = Some inc
        \<and> (\<exists>b. routing_latency_if_eligible (health_at p best) = Some b \<and> inc - b \<le> switch_margin inc))"
proof -
  let ?v = "sorted_upstreams p"
  obtain w held where w: "hold_leader p ?v = (w, held)" by fastforce
  have wu: "w = u # us" using assms w by (simp add: ordered_def Let_def)
  have i: "i \<in> set ?v" using assms(2) sorted_upstreams_mset by (simp add: set_mset_mset [symmetric] del: set_mset_mset)
  have hd: "health_sort_key (health_at p (?v ! 0)) \<le> health_sort_key (health_at p i)"
    using sorted_upstreams_sorted [of p] i by (cases ?v) auto
  have v0: "?v ! 0 < length (p_upstreams p)"
  proof -
    have "?v ! 0 \<in> set ?v" using i by (cases ?v) auto
    then show ?thesis by (simp add: sorted_upstreams_def)
  qed
  from hold_leader_cases [OF w] show ?thesis
  proof (elim disjE exE conjE)
    assume "w = ?v"
    with wu have "?v ! 0 = u" by (metis nth_Cons_0)
    with hd show ?thesis by simp
  qed (use hd v0 wu in auto)
qed

subsection \<open>One query through the pool\<close>

definition retarget :: "u16 \<Rightarrow> resolved \<Rightarrow> resolved" where
  "retarget ident r = r\<lparr>res_message := (res_message r)\<lparr>m_id := ident\<rparr>\<rparr>"

lemma resolve_alone_result:
  assumes "p_upstreams p \<noteq> []" "key_from_message query = Some k"
  shows "fst (resolve_alone dx px net query p) =
     map_sum id (retarget (m_id query))
       (failover_outcome px (net (normalize_upstream_edns dx query)) (name_at p) (fst (ordered p)) NoUpstreams)"
proof -
  let ?n = "net (normalize_upstream_edns dx query)"
  obtain v q where vq: "ordered p = (v, q)" by fastforce
  have "name_at q = name_at p" using ordered_fields(3) [of p] vq by (simp add: fun_eq_iff)
  then have "fst (resolve_sequential px ?n v q) = failover_outcome px ?n (name_at p) v NoUpstreams"
    by (simp add: resolve_sequential_def resolve_loop_result)
  then show ?thesis using assms vq
    by (cases "failover_outcome px ?n (name_at p) v NoUpstreams")
      (auto simp: resolve_alone_def retarget_def split: prod.split sum.split)
qed

lemma resolve_alone_health:
  assumes "p_upstreams p \<noteq> []" "key_from_message query = Some k" "i < length (p_upstreams p)"
  shows "health_at (snd (resolve_alone dx px net query p)) i =
     (let net' = net (normalize_upstream_edns dx query); h = health_at (snd (ordered p)) i in
      if i \<in> set (tried net' (fst (ordered p)))
      then apply_event (ps_failure_threshold (p_settings p)) (ps_ewma_alpha (p_settings p)) (attempt_event px (net' i)) h
      else h)"
proof -
  let ?n = "net (normalize_upstream_edns dx query)"
  obtain v q where vq: "ordered p = (v, q)" by fastforce
  have "snd (resolve_alone dx px net query p) = snd (resolve_sequential px ?n v q)"
    using assms vq by (simp add: resolve_alone_def split: prod.split sum.split)
  moreover have "i < length (p_upstreams q)" "p_settings q = p_settings p"
    using ordered_fields [of p] vq assms by simp_all
  moreover have "distinct (tried ?n v)" using tried_distinct ordered_distinct [of p] vq by simp
  ultimately show ?thesis using vq
    by (simp add: resolve_sequential_def resolve_loop_pool fold_on_health Let_def)
qed

lemma filter_head_rank:
  "filter P xs = y # ys \<Longrightarrow> \<exists>us vs. xs = us @ y # vs \<and> list_all (\<lambda>x. \<not> P x) us \<and> P y"
  by (drule filter_eq_ConsD) (auto simp: list_all_iff)

subsection \<open>Reloads\<close>

lemma plain_addr_error:
  assumes "fst (plain_addr px d spec bs) = Inl e"
  shows "\<exists>name. sp_host spec = HostName name \<and> e = BootstrapError name"
proof (cases "sp_host spec")
  case (HostName name)
  obtain r bs' where r: "boot_resolve (px_boot px) (bd_a d) (bd_aaaa d) (bd_now d) (bd_stored d) name bs = (r, bs')"
    by fastforce
  show ?thesis using assms HostName r boot_resolve_error [of "px_boot px" "bd_a d" "bd_aaaa d" "bd_now d" "bd_stored d" name bs]
    by (cases r) (auto simp: plain_addr_def split: list.splits)
qed (use assms in \<open>simp add: plain_addr_def\<close>)

lemma build_upstreams_all:
  "build_upstreams px ents bs = Inr (ups, bs') \<Longrightarrow>
     list_all2 (\<lambda>(ent, d) u. parse_spec (ent_spec ent) = Inr (up_spec u) \<and> up_health u = default_health
       \<and> up_name u = (case ent_name ent of Some n \<Rightarrow> n | None \<Rightarrow> sp_display (up_spec u))) ents ups"
proof (induction ents arbitrary: bs ups)
  case (Cons entd ents)
  obtain ent d where "entd = (ent, d)" by fastforce
  with Cons.prems obtain spec tr bs1 ups1 where "parse_spec (ent_spec ent) = Inr spec"
    "build_upstreams px ents bs1 = Inr (ups1, bs')"
    "ups = \<lparr>up_spec = spec, up_name = (case ent_name ent of Some n \<Rightarrow> n | None \<Rightarrow> sp_display spec),
             up_transport = tr, up_health = default_health\<rparr> # ups1"
    by (auto split: sum.splits prod.splits)
  then show ?case using Cons.IH [of bs1 ups1] \<open>entd = (ent, d)\<close> by (simp split: option.split)
qed simp

text \<open>
  A reload carries the health of an endpoint over and starts new endpoints afresh; the last
  of several old upstreams with one identity counts.
\<close>

lemma adopt_health_at:
  fixes px :: pool_env
  defines "ident \<equiv> \<lambda>u. identity (px_lowercase px) (up_spec u)"
  assumes "i < length (p_upstreams p)"
  shows "health_at (adopt_health_from px old p) i =
     (case filter (\<lambda>u. ident u = ident (p_upstreams p ! i)) (p_upstreams old) of
        [] \<Rightarrow> health_at p i
      | us \<Rightarrow> up_health (last us))"
proof -
  have look: "map_of (rev (map (\<lambda>u. (ident u, up_health u)) us)) k =
      (case filter (\<lambda>u. ident u = k) us of [] \<Rightarrow> None | vs \<Rightarrow> Some (up_health (last vs)))" for us k
    by (induction us) (auto simp: map_of_append map_add_def split: list.split option.split)
  show ?thesis using assms(2) look [of "p_upstreams old" "ident (p_upstreams p ! i)"]
    by (simp add: adopt_health_from_def ident_def Let_def split: list.split option.split)
qed

lemma probe_due_none: "probe_due_in now h = None \<longleftrightarrow> (\<forall>t. next_probe_at h = Some t \<longrightarrow> t \<le> now)"
  by (auto simp: probe_due_in_def not_less split: option.split)

end
