(* ===== verification/Single_Flight.thy ===== *)
theory Single_Flight
  imports Upstream_Pool Transition_System
begin

text \<open>
  Concurrent calls of \<open>UpstreamPool::resolve\<close>, \<open>crates/bulwark-upstream/src/pool.rs\<close>: calls with the
  same key share one flight. A step of the relation is what one task does between two points
  where another may run: the first look at the in-flight map (with the building of the
  future), the registration under the second lock, one attempt of a flight, the return of a
  call with the drop of its guard, and the drop of a cancelled call.
\<close>

subsection \<open>Model\<close>

text \<open>
  A shared future: the query it sends, the upstreams still to try, the loop variables of
  \<open>resolve_sequential\<close>, and its result. The order at the start and the attempts made are kept
  for the statements.
\<close>

record flight =
  fl_query :: message
  fl_order :: "nat list"
  fl_last :: upstream_error
  fl_fallback :: "resolved option"
  fl_result :: "(upstream_error + resolved) option"
  fl_start :: "nat list"
  fl_net :: "nat \<Rightarrow> attempt"

datatype call =
    Building message "nat list"
  | Waiting message nat bool
  | Returned message "upstream_error + resolved"

record sf_state =
  sf_pool :: upstream_pool
  sf_inflight :: "query_key \<Rightarrow> nat option"
  sf_flights :: "flight list"
  sf_calls :: "nat \<Rightarrow> call option"

definition new_flight :: "message \<Rightarrow> nat list \<Rightarrow> flight" where
  "new_flight q order =
     \<lparr>fl_query = q, fl_order = order, fl_last = NoUpstreams, fl_fallback = None, fl_result = None,
      fl_start = order, fl_net = (\<lambda>_. \<lparr>at_result = ATimeout, at_now = 0, at_rnd = 0\<rparr>)\<rparr>"

text \<open>The first part of \<open>resolve\<close>, up to the second lock.\<close>

definition start_call :: "nat \<Rightarrow> message \<Rightarrow> sf_state \<Rightarrow> sf_state" where
  "start_call c query s =
     (if p_upstreams (sf_pool s) = [] then s\<lparr>sf_calls := (sf_calls s)(c \<mapsto> Returned query (Inl NoUpstreams))\<rparr>
      else case key_from_message query of
        None \<Rightarrow> s\<lparr>sf_calls := (sf_calls s)(c \<mapsto> Returned query (Inl (Proto ''query has no question'')))\<rparr>
      | Some key \<Rightarrow>
          (case sf_inflight s key of
             Some f \<Rightarrow> s\<lparr>sf_calls := (sf_calls s)(c \<mapsto> Waiting query f False)\<rparr>
           | None \<Rightarrow>
               let (order, p) = ordered (sf_pool s)
               in s\<lparr>sf_pool := p, sf_calls := (sf_calls s)(c \<mapsto> Building query order)\<rparr>))"

text \<open>The registration under the second lock.\<close>

definition register_call :: "dns_ext \<Rightarrow> nat \<Rightarrow> message \<Rightarrow> nat list \<Rightarrow> sf_state \<Rightarrow> sf_state" where
  "register_call dx c query order s =
     (case key_from_message query of None \<Rightarrow> s
      | Some key \<Rightarrow>
          (case sf_inflight s key of
             Some f \<Rightarrow> s\<lparr>sf_calls := (sf_calls s)(c \<mapsto> Waiting query f False)\<rparr>
           | None \<Rightarrow>
               let f = length (sf_flights s)
               in s\<lparr>sf_flights := sf_flights s @ [new_flight (normalize_upstream_edns dx query) order],
                    sf_inflight := (sf_inflight s)(key \<mapsto> f),
                    sf_calls := (sf_calls s)(c \<mapsto> Waiting query f True)\<rparr>))"

text \<open>One turn of the loop of \<open>resolve_sequential\<close>, or its end.\<close>

definition advance :: "pool_env \<Rightarrow> attempt \<Rightarrow> flight \<Rightarrow> upstream_pool \<Rightarrow> flight \<times> upstream_pool" where
  "advance px a fl p =
     (case fl_order fl of
        [] \<Rightarrow>
          (fl\<lparr>fl_result := Some (case fl_fallback fl of Some r \<Rightarrow> Inr r | None \<Rightarrow> Inl (AllFailed (fl_last fl)))\<rparr>, p)
      | u # us \<Rightarrow>
          let threshold = ps_failure_threshold (p_settings p);
              alpha = ps_ewma_alpha (p_settings p);
              fl = fl\<lparr>fl_order := us, fl_net := (fl_net fl)(u := a)\<rparr>
          in case at_result a of
               AOk resp rtt \<Rightarrow>
                 (let res = \<lparr>res_message = resp, res_upstream = up_name (p_upstreams p ! u), res_rtt_ms = rtt * 1000\<rparr> in
                  case classify_response resp of
                    PAnswer \<Rightarrow> (fl\<lparr>fl_result := Some (Inr res)\<rparr>, on_health u (record_live_success rtt alpha) p)
                  | v \<Rightarrow>
                      let err = rcode_err px resp in
                      (fl\<lparr>fl_last := err, fl_fallback := (case fl_fallback fl of None \<Rightarrow> Some res | Some f \<Rightarrow> Some f)\<rparr>,
                       on_health u (if v = PReject
                         then record_live_failure (at_now a) (at_rnd a) err threshold
                         else record_soft_failure err) p))
             | AErr e \<Rightarrow>
                 (fl\<lparr>fl_last := e\<rparr>, on_health u (record_live_failure (at_now a) (at_rnd a) e threshold) p)
             | ATimeout \<Rightarrow>
                 (fl\<lparr>fl_last := Timeout\<rparr>, on_health u (record_live_failure (at_now a) (at_rnd a) Timeout threshold) p))"

definition advance_flight :: "pool_env \<Rightarrow> nat \<Rightarrow> attempt \<Rightarrow> sf_state \<Rightarrow> sf_state" where
  "advance_flight px f a s =
     (let (fl, p) = advance px a (sf_flights s ! f) (sf_pool s)
      in s\<lparr>sf_flights := (sf_flights s)[f := fl], sf_pool := p\<rparr>)"

text \<open>\<open>InflightGuard::drop\<close>.\<close>

definition drop_guard :: "message \<Rightarrow> bool \<Rightarrow> sf_state \<Rightarrow> sf_state" where
  "drop_guard query guard s =
     (case key_from_message query of
        Some key \<Rightarrow> if guard then s\<lparr>sf_inflight := (sf_inflight s)(key := None)\<rparr> else s
      | None \<Rightarrow> s)"

definition return_call :: "nat \<Rightarrow> message \<Rightarrow> bool \<Rightarrow> upstream_error + resolved \<Rightarrow> sf_state \<Rightarrow> sf_state" where
  "return_call c query guard r s =
     (let s = s\<lparr>sf_calls := (sf_calls s)(c \<mapsto> Returned query (case r of
                  Inr res \<Rightarrow> Inr (res\<lparr>res_message := (res_message res)\<lparr>m_id := m_id query\<rparr>\<rparr>)
                | Inl e \<Rightarrow> Inl e))\<rparr>
      in drop_guard query guard s)"

definition cancel_call :: "nat \<Rightarrow> sf_state \<Rightarrow> sf_state" where
  "cancel_call c s =
     (case sf_calls s c of
        Some (Waiting query f guard) \<Rightarrow> drop_guard query guard (s\<lparr>sf_calls := (sf_calls s)(c := None)\<rparr>)
      | _ \<Rightarrow> s\<lparr>sf_calls := (sf_calls s)(c := None)\<rparr>)"

text \<open>A flight runs only while a call waits for it.\<close>

inductive sf_step :: "dns_ext \<Rightarrow> pool_env \<Rightarrow> sf_state \<Rightarrow> sf_state \<Rightarrow> bool" for dx px where
  start: "sf_calls s c = None \<Longrightarrow> sf_step dx px s (start_call c query s)"
| register: "sf_calls s c = Some (Building query order) \<Longrightarrow> sf_step dx px s (register_call dx c query order s)"
| advance: "sf_calls s c = Some (Waiting query f guard) \<Longrightarrow> fl_result (sf_flights s ! f) = None
    \<Longrightarrow> sf_step dx px s (advance_flight px f a s)"
| return: "sf_calls s c = Some (Waiting query f guard) \<Longrightarrow> fl_result (sf_flights s ! f) = Some r
    \<Longrightarrow> sf_step dx px s (return_call c query guard r s)"
| cancel: "sf_step dx px s (cancel_call c s)"

inductive_cases sf_stepE: "sf_step dx px s t"

definition sf_init :: "sf_state \<Rightarrow> bool" where
  "sf_init s \<longleftrightarrow> sf_inflight s = Map.empty \<and> sf_flights s = [] \<and> sf_calls s = Map.empty"

subsection \<open>A flight is one run of the failover loop\<close>

definition loop_outcome ::
  "pool_env \<Rightarrow> (nat \<Rightarrow> attempt) \<Rightarrow> (nat \<Rightarrow> string) \<Rightarrow> nat list \<Rightarrow> upstream_error \<Rightarrow> resolved option \<Rightarrow> upstream_error + resolved" where
  "loop_outcome px net name us lst fallback =
     (case fallback of
        None \<Rightarrow> failover_outcome px net name us lst
      | Some f \<Rightarrow> if list_ex (\<lambda>u. answers (net u)) us then failover_outcome px net name us lst else Inr f)"

lemma loop_outcome_run: "loop_outcome px net (name_at p) us lst fb = fst (resolve_loop px net thr alpha us lst fb p)"
  by (simp add: loop_outcome_def resolve_loop_result)

lemma loop_outcome_Nil:
  "loop_outcome px net name [] lst fb = (case fb of Some r \<Rightarrow> Inr r | None \<Rightarrow> Inl (AllFailed lst))"
  by (simp add: loop_outcome_def failover_outcome_def map_filter_def split: option.split)

lemma loop_outcome_Cons:
  "loop_outcome px net name (u # us) lst fb =
     (if answers (net u) then Inr (the (attempt_resolved (name u) (net u)))
      else loop_outcome px net name us (attempt_error px (net u))
             (case fb of None \<Rightarrow> attempt_resolved (name u) (net u) | Some f \<Rightarrow> Some f))"
proof -
  have "filter (\<lambda>u. answers (net u)) us = [] \<longleftrightarrow> \<not> list_ex (\<lambda>u. answers (net u)) us"
    by (auto simp: list_ex_iff filter_empty_conv)
  then show ?thesis
    by (auto simp: loop_outcome_def failover_outcome_def map_filter_simps split: option.split list.split)
qed

lemma advance_Nil:
  "fl_order fl = [] \<Longrightarrow>
     advance px a fl p = (fl\<lparr>fl_result := Some (loop_outcome px net name [] (fl_last fl) (fl_fallback fl))\<rparr>, p)"
  by (simp add: advance_def loop_outcome_Nil split: option.split)

lemma advance_Cons:
  "fl_order fl = u # us \<Longrightarrow>
     advance px a fl p =
       (let res = attempt_resolved (name_at p u) a;
            fl = fl\<lparr>fl_order := us, fl_net := (fl_net fl)(u := a)\<rparr>
        in (if answers a then fl\<lparr>fl_result := Some (Inr (the res))\<rparr>
            else fl\<lparr>fl_last := attempt_error px a,
                    fl_fallback := (case fl_fallback fl of None \<Rightarrow> res | Some f \<Rightarrow> Some f)\<rparr>),
        on_health u (apply_event (ps_failure_threshold (p_settings p)) (ps_ewma_alpha (p_settings p))
          (attempt_event px a)) p)"
  by (cases fl)
    (auto simp: advance_def answers_def attempt_error_def attempt_resolved_def attempt_event_def apply_event_fun Let_def
      split: attempt_result.split pool_verdict.split option.split)

definition flight_ok :: "pool_env \<Rightarrow> (nat \<Rightarrow> string) \<Rightarrow> flight \<Rightarrow> bool" where
  "flight_ok px name fl \<longleftrightarrow> distinct (fl_start fl) \<and>
     (\<exists>past. fl_start fl = past @ fl_order fl \<and>
       (\<forall>net. (\<forall>u\<in>set past. net u = fl_net fl u) \<longrightarrow>
          loop_outcome px net name (fl_start fl) NoUpstreams None =
            (case fl_result fl of
               None \<Rightarrow> loop_outcome px net name (fl_order fl) (fl_last fl) (fl_fallback fl)
             | Some r \<Rightarrow> r)))"

lemma flight_ok_new: "distinct order \<Longrightarrow> flight_ok px name (new_flight q order)"
  by (simp add: flight_ok_def new_flight_def)

lemma flight_ok_result:
  "flight_ok px name fl \<Longrightarrow> fl_result fl = Some r \<Longrightarrow>
     r = failover_outcome px (fl_net fl) name (fl_start fl) NoUpstreams"
  by (auto simp: flight_ok_def loop_outcome_def)

lemma flight_ok_advance:
  assumes ok: "flight_ok px (name_at p) fl" and "fl_result fl = None" and adv: "advance px a fl p = (fl', p')"
  shows "flight_ok px (name_at p) fl'"
proof (cases "fl_order fl")
  case Nil
  with assms show ?thesis
    by (auto simp: advance_Nil [where net = "fl_net fl" and name = "name_at p"] flight_ok_def loop_outcome_Nil)
next
  case (Cons u us)
  obtain past where past: "fl_start fl = past @ u # us"
    and eq: "\<And>net. (\<forall>u\<in>set past. net u = fl_net fl u) \<Longrightarrow>
       loop_outcome px net (name_at p) (fl_start fl) NoUpstreams None =
       loop_outcome px net (name_at p) (u # us) (fl_last fl) (fl_fallback fl)"
    using ok assms(2) Cons by (auto simp: flight_ok_def)
  have "u \<notin> set past" using ok past by (simp add: flight_ok_def)
  then have eq': "loop_outcome px net (name_at p) (fl_start fl) NoUpstreams None =
       loop_outcome px net (name_at p) (u # us) (fl_last fl) (fl_fallback fl)"
    if "\<forall>v\<in>set (past @ [u]). net v = ((fl_net fl)(u := a)) v" for net
    using eq [of net] that by auto
  have start: "fl_start fl' = fl_start fl" "fl_order fl' = us" "fl_net fl' = (fl_net fl)(u := a)"
    using adv Cons by (auto simp: advance_Cons Let_def split: if_splits)
  have res: "loop_outcome px net (name_at p) (u # us) (fl_last fl) (fl_fallback fl) =
      (case fl_result fl' of None \<Rightarrow> loop_outcome px net (name_at p) us (fl_last fl') (fl_fallback fl') | Some r \<Rightarrow> r)"
    if "net u = a" for net
  proof (cases "answers a")
    case True
    with adv Cons that show ?thesis by (auto simp: advance_Cons loop_outcome_Cons Let_def)
  next
    case False
    with adv Cons assms(2) have "fl_result fl' = None" "fl_last fl' = attempt_error px a"
      "fl_fallback fl' = (case fl_fallback fl of None \<Rightarrow> attempt_resolved (name_at p u) a | Some f \<Rightarrow> Some f)"
      by (auto simp: advance_Cons Let_def)
    with False that show ?thesis by (simp add: loop_outcome_Cons split: option.split)
  qed
  show ?thesis unfolding flight_ok_def start
    using ok past eq' res by (intro conjI exI [of _ "past @ [u]"]) (auto simp: flight_ok_def)
qed

lemma advance_keeps:
  assumes "advance px a fl p = (fl', p')"
  shows "fl_query fl' = fl_query fl" "name_at p' = name_at p" "p_settings p' = p_settings p"
    "length (p_upstreams p') = length (p_upstreams p)"
proof -
  have "fl_query fl' = fl_query fl \<and> (p' = p \<or> (\<exists>u f. p' = on_health u f p))"
  proof (cases "fl_order fl")
    case Nil
    with assms show ?thesis by (auto simp: advance_def)
  next
    case (Cons u us)
    from assms [unfolded advance_Cons [OF Cons] Let_def] show ?thesis by auto
  qed
  then show "fl_query fl' = fl_query fl" "name_at p' = name_at p" "p_settings p' = p_settings p"
    "length (p_upstreams p') = length (p_upstreams p)"
    by auto
qed

subsection \<open>The invariant\<close>

definition flights_inv :: "pool_env \<Rightarrow> (nat \<Rightarrow> string) \<Rightarrow> sf_state \<Rightarrow> bool" where
  "flights_inv px name s \<longleftrightarrow> name_at (sf_pool s) = name \<and> list_all (flight_ok px name) (sf_flights s)"

text \<open>What is known of a call, by its phase.\<close>

fun call_inv :: "sf_state \<Rightarrow> call \<Rightarrow> bool" where
  "call_inv s (Building q order) \<longleftrightarrow> key_from_message q \<noteq> None \<and> distinct order"
| "call_inv s (Waiting q f guard) \<longleftrightarrow>
     f < length (sf_flights s) \<and> key_from_message q \<noteq> None
     \<and> key_from_message (fl_query (sf_flights s ! f)) = key_from_message q
     \<and> (guard \<longrightarrow> sf_inflight s (the (key_from_message q)) = Some f)"
| "call_inv s (Returned q r) \<longleftrightarrow>
     p_upstreams (sf_pool s) = [] \<and> r = Inl NoUpstreams
     \<or> key_from_message q = None \<and> r = Inl (Proto ''query has no question'')
     \<or> (\<exists>f r0. f < length (sf_flights s) \<and> fl_result (sf_flights s ! f) = Some r0
          \<and> key_from_message (fl_query (sf_flights s ! f)) = key_from_message q
          \<and> r = map_sum id (retarget (m_id q)) r0)"

definition calls_inv :: "sf_state \<Rightarrow> bool" where
  "calls_inv s \<longleftrightarrow> (\<forall>c call. sf_calls s c = Some call \<longrightarrow> call_inv s call)"

text \<open>Every registration has its owner, and a key has at most one.\<close>

definition owns :: "sf_state \<Rightarrow> nat \<Rightarrow> query_key \<Rightarrow> nat \<Rightarrow> bool" where
  "owns s c k f \<longleftrightarrow> (\<exists>q. sf_calls s c = Some (Waiting q f True) \<and> key_from_message q = Some k)"

definition owners_inv :: "sf_state \<Rightarrow> bool" where
  "owners_inv s \<longleftrightarrow> (\<forall>k f. sf_inflight s k = Some f \<longrightarrow> (\<exists>c. owns s c k f))
     \<and> (\<forall>c c' k f f'. owns s c k f \<longrightarrow> owns s c' k f' \<longrightarrow> c = c')"

definition sf_inv :: "pool_env \<Rightarrow> (nat \<Rightarrow> string) \<Rightarrow> sf_state \<Rightarrow> bool" where
  "sf_inv px name s \<longleftrightarrow> flights_inv px name s \<and> calls_inv s \<and> owners_inv s"

lemma owns_upd:
  "owns (s\<lparr>sf_calls := (sf_calls s)(c := x)\<rparr>) c' k f =
     (if c' = c then \<exists>q. x = Some (Waiting q f True) \<and> key_from_message q = Some k else owns s c' k f)"
  by (simp add: owns_def)

lemma owns_cong: "sf_calls s = sf_calls t \<Longrightarrow> owns s = owns t"
  by (simp add: owns_def fun_eq_iff)

lemma owners_inv_idle:
  assumes "owners_inv s" "\<And>k f. \<not> owns s c k f" "\<And>k f. \<not> (\<exists>q. x = Some (Waiting q f True) \<and> key_from_message q = Some k)"
  shows "owners_inv (s\<lparr>sf_pool := p, sf_flights := fls, sf_calls := (sf_calls s)(c := x)\<rparr>)"
proof -
  have "owns (s\<lparr>sf_pool := p, sf_flights := fls, sf_calls := (sf_calls s)(c := x)\<rparr>) = owns s"
    using assms(2,3) by (fastforce simp: owns_def fun_eq_iff)
  then show ?thesis using assms(1) by (simp add: owners_inv_def)
qed

text \<open>Steps that only add flights, or finish them, keep what is known of a call.\<close>

definition flights_le :: "flight list \<Rightarrow> flight list \<Rightarrow> bool" where
  "flights_le xs ys \<longleftrightarrow> length xs \<le> length ys \<and>
     (\<forall>f<length xs. fl_query (ys ! f) = fl_query (xs ! f)
        \<and> (fl_result (xs ! f) \<noteq> None \<longrightarrow> fl_result (ys ! f) = fl_result (xs ! f)))"

lemma flights_le_refl: "flights_le xs xs"
  by (simp add: flights_le_def)

lemma flights_le_append: "flights_le xs (xs @ ys)"
  by (simp add: flights_le_def nth_append)

lemma flights_le_update:
  "fl_result (xs ! f) = None \<Longrightarrow> fl_query fl = fl_query (xs ! f) \<Longrightarrow> flights_le xs (xs[f := fl])"
  by (cases "f < length xs") (auto simp: flights_le_def nth_list_update not_less list_update_beyond)

lemma call_inv_mono:
  assumes "call_inv s call" "flights_le (sf_flights s) (sf_flights t)"
    and "length (p_upstreams (sf_pool t)) = length (p_upstreams (sf_pool s))"
    and "\<And>q f. call = Waiting q f True \<Longrightarrow> sf_inflight t (the (key_from_message q)) = Some f"
  shows "call_inv t call"
proof (cases call)
  case (Waiting q f guard)
  then show ?thesis using assms by (auto simp: flights_le_def)
next
  case (Returned q r)
  with assms(1) consider "p_upstreams (sf_pool s) = []" "r = Inl NoUpstreams"
    | "key_from_message q = None" "r = Inl (Proto ''query has no question'')"
    | f r0 where "f < length (sf_flights s)" "fl_result (sf_flights s ! f) = Some r0"
        "key_from_message (fl_query (sf_flights s ! f)) = key_from_message q" "r = map_sum id (retarget (m_id q)) r0"
    by auto
  then show ?thesis
  proof cases
    case (3 f r0)
    with assms(2) have "f < length (sf_flights t)" "fl_result (sf_flights t ! f) = Some r0"
      "key_from_message (fl_query (sf_flights t ! f)) = key_from_message q" by (auto simp: flights_le_def)
    with 3(4) show ?thesis using Returned by auto
  qed (use Returned assms(3) in auto)
qed (use assms in simp)

lemma calls_inv_step:
  assumes "calls_inv s" "flights_le (sf_flights s) (sf_flights t)"
    and "length (p_upstreams (sf_pool t)) = length (p_upstreams (sf_pool s))"
    and "\<And>c' call. sf_calls t c' = Some call \<Longrightarrow> c' = c \<or> sf_calls s c' = Some call"
    and "\<And>call. sf_calls t c = Some call \<Longrightarrow> call_inv t call"
    and "\<And>c' q f. c' \<noteq> c \<Longrightarrow> sf_calls s c' = Some (Waiting q f True) \<Longrightarrow>
           sf_inflight t (the (key_from_message q)) = sf_inflight s (the (key_from_message q))"
  shows "calls_inv t"
  unfolding calls_inv_def
proof (intro allI impI)
  fix c' call assume c': "sf_calls t c' = Some call"
  show "call_inv t call"
  proof (cases "c' = c")
    case False
    with assms(4) c' have s: "sf_calls s c' = Some call" by blast
    with assms(1) have inv: "call_inv s call" unfolding calls_inv_def by blast
    have "sf_inflight t (the (key_from_message q)) = Some f" if "call = Waiting q f True" for q f
      using assms(6) [OF False, of q f] s that inv by simp
    then show ?thesis by (rule call_inv_mono [OF inv assms(2,3)])
  qed (use assms(5) c' in simp)
qed

lemma registered_flight:
  assumes inv: "sf_inv px name s" and "sf_inflight s k = Some f"
  shows "f < length (sf_flights s)" "key_from_message (fl_query (sf_flights s ! f)) = Some k"
proof -
  obtain c where "owns s c k f" using assms unfolding sf_inv_def owners_inv_def by blast
  then obtain q where q: "sf_calls s c = Some (Waiting q f True)" "key_from_message q = Some k"
    by (auto simp: owns_def)
  then have "call_inv s (Waiting q f True)" using inv unfolding sf_inv_def calls_inv_def by blast
  then show "f < length (sf_flights s)" "key_from_message (fl_query (sf_flights s ! f)) = Some k"
    using q(2) by simp_all
qed

lemma start_call_inv:
  assumes inv: "sf_inv px name s" and new: "sf_calls s c = None"
  shows "sf_inv px name (start_call c q s)"
proof -
  let ?t = "start_call c q s"
  have "\<exists>x p. ?t = s\<lparr>sf_pool := p, sf_calls := (sf_calls s)(c \<mapsto> x)\<rparr>
          \<and> name_at p = name_at (sf_pool s) \<and> length (p_upstreams p) = length (p_upstreams (sf_pool s))
          \<and> call_inv (s\<lparr>sf_pool := p\<rparr>) x \<and> (\<forall>q f. x \<noteq> Waiting q f True)"
  proof (cases "p_upstreams (sf_pool s) = []")
    case True
    then show ?thesis
      by (intro exI [of _ "Returned q (Inl NoUpstreams)"] exI [of _ "sf_pool s"]) (simp add: start_call_def)
  next
    case nonempty: False
    show ?thesis
    proof (cases "key_from_message q")
      case None
      then show ?thesis using nonempty
        by (intro exI [of _ "Returned q (Inl (Proto ''query has no question''))"] exI [of _ "sf_pool s"])
          (simp add: start_call_def)
    next
      case (Some k)
      show ?thesis
      proof (cases "sf_inflight s k")
        case None
        have "length (p_upstreams (snd (ordered (sf_pool s)))) = length (p_upstreams (sf_pool s))"
          "name_at (snd (ordered (sf_pool s))) = name_at (sf_pool s)"
          using ordered_fields by (simp_all add: fun_eq_iff)
        then show ?thesis using nonempty Some None ordered_distinct [of "sf_pool s"]
          by (intro exI [of _ "Building q (fst (ordered (sf_pool s)))"] exI [of _ "snd (ordered (sf_pool s))"])
            (simp add: start_call_def split: prod.split)
      next
        case (Some f)
        from registered_flight [OF inv this] show ?thesis using nonempty Some \<open>key_from_message q = Some k\<close>
          by (intro exI [of _ "Waiting q f False"] exI [of _ "sf_pool s"]) (simp add: start_call_def)
      qed
    qed
  qed
  then obtain x p where t: "?t = s\<lparr>sf_pool := p, sf_calls := (sf_calls s)(c \<mapsto> x)\<rparr>"
    and p: "name_at p = name_at (sf_pool s)" "length (p_upstreams p) = length (p_upstreams (sf_pool s))"
    and x: "call_inv (s\<lparr>sf_pool := p\<rparr>) x" "\<forall>q f. x \<noteq> Waiting q f True" by auto
  have "call_inv ?t x" by (rule call_inv_mono [OF x(1)]) (simp_all add: t flights_le_refl x(2))
  moreover have "calls_inv s" using inv by (simp add: sf_inv_def)
  ultimately have "calls_inv ?t"
    by (elim calls_inv_step [where c = c]) (simp_all add: t p flights_le_refl split: if_splits)
  moreover have "owners_inv ?t" unfolding t
    using owners_inv_idle [where s = s and c = c and x = "Some x" and p = p and fls = "sf_flights s"] inv new x(2) by (simp add: sf_inv_def owns_def)
  ultimately show ?thesis using inv p unfolding t by (simp add: sf_inv_def flights_inv_def)
qed

lemma register_call_inv:
  assumes inv: "sf_inv px name s" and c: "sf_calls s c = Some (Building q order)"
  shows "sf_inv px name (register_call dx c q order s)"
proof -
  let ?t = "register_call dx c q order s"
  have "call_inv s (Building q order)" using inv c unfolding sf_inv_def calls_inv_def by blast
  then obtain k where k: "key_from_message q = Some k" and order: "distinct order" by auto
  have cs: "calls_inv s" "owners_inv s" "flights_inv px name s" using inv by (simp_all add: sf_inv_def)
  have idle: "\<not> owns s c k f" for k f using c by (simp add: owns_def)
  show ?thesis
  proof (cases "sf_inflight s k")
    case (Some f)
    then have t: "?t = s\<lparr>sf_calls := (sf_calls s)(c \<mapsto> Waiting q f False)\<rparr>"
      using k by (simp add: register_call_def)
    have "calls_inv ?t" using cs(1) registered_flight [OF inv Some] k
      by (elim calls_inv_step [where c = c]) (auto simp: t flights_le_refl split: if_splits)
    moreover have "owners_inv ?t" unfolding t
      using owners_inv_idle [where s = s and c = c and x = "Some (Waiting q f False)" and p = "sf_pool s" and fls = "sf_flights s"]
        cs(2) idle by simp
    ultimately show ?thesis using cs(3) unfolding t by (simp add: sf_inv_def flights_inv_def)
  next
    case None
    let ?fl = "new_flight (normalize_upstream_edns dx q) order" and ?f = "length (sf_flights s)"
    have t: "?t = s\<lparr>sf_flights := sf_flights s @ [?fl], sf_inflight := (sf_inflight s)(k \<mapsto> ?f),
        sf_calls := (sf_calls s)(c \<mapsto> Waiting q ?f True)\<rparr>" using k None by (simp add: register_call_def Let_def)
    have free: "key_from_message q' \<noteq> Some k" if "sf_calls s c' = Some (Waiting q' f' True)" for c' q' f'
    proof -
      have "call_inv s (Waiting q' f' True)" using cs(1) that unfolding calls_inv_def by blast
      then show ?thesis using None by auto
    qed
    have "calls_inv ?t" using cs(1)
    proof (rule calls_inv_step [where c = c])
      show "call_inv ?t call" if "sf_calls ?t c = Some call" for call
        using that k normalize_key [of dx q] by (auto simp: t new_flight_def)
      fix c' q' f' assume "c' \<noteq> c" and w: "sf_calls s c' = Some (Waiting q' f' True)"
      have "call_inv s (Waiting q' f' True)" using cs(1) w unfolding calls_inv_def by blast
      then show "sf_inflight ?t (the (key_from_message q')) = sf_inflight s (the (key_from_message q'))"
        using free [OF w] by (auto simp: t)
    qed (simp_all add: t flights_le_append split: if_splits)
    moreover have "owners_inv ?t"
    proof -
      have owns: "owns ?t c' k' f' \<longleftrightarrow> (if c' = c then k' = k \<and> f' = ?f else owns s c' k' f')" for c' k' f'
        using k by (auto simp: t owns_def)
      have no: "\<not> owns s c' k f'" for c' f' using free by (auto simp: owns_def)
      show ?thesis unfolding owners_inv_def owns using cs(2) no idle
        by (auto simp: t owners_inv_def) (metis (full_types))+
    qed
    moreover have "flights_inv px name ?t"
      using cs(3) flight_ok_new [OF order] unfolding t by (simp add: flights_inv_def)
    ultimately show ?thesis by (simp add: sf_inv_def)
  qed
qed

lemma advance_flight_inv:
  assumes inv: "sf_inv px name s" and c: "sf_calls s c = Some (Waiting q f guard)"
    and res: "fl_result (sf_flights s ! f) = None"
  shows "sf_inv px name (advance_flight px f a s)"
proof -
  let ?t = "advance_flight px f a s"
  obtain fl p where adv: "advance px a (sf_flights s ! f) (sf_pool s) = (fl, p)" by fastforce
  have t: "?t = s\<lparr>sf_flights := (sf_flights s)[f := fl], sf_pool := p\<rparr>" using adv by (simp add: advance_flight_def)
  have cs: "calls_inv s" "owners_inv s" "flights_inv px name s" using inv by (simp_all add: sf_inv_def)
  have "call_inv s (Waiting q f guard)" using cs(1) c unfolding calls_inv_def by blast
  then have f: "f < length (sf_flights s)" by simp
  have "flight_ok px name (sf_flights s ! f)" using cs(3) f by (simp add: flights_inv_def list_all_length)
  then have fl: "flight_ok px name fl" using flight_ok_advance [OF _ res adv] cs(3) by (simp add: flights_inv_def)
  note keep = advance_keeps [OF adv]
  have le: "flights_le (sf_flights s) (sf_flights ?t)"
    unfolding t by (simp add: flights_le_update res keep(1))
  have "calls_inv ?t" unfolding calls_inv_def
  proof (intro allI impI)
    fix c' call assume "sf_calls ?t c' = Some call"
    then have "sf_calls s c' = Some call" by (simp add: t)
    then have call: "call_inv s call" using cs(1) unfolding calls_inv_def by blast
    show "call_inv ?t call" by (rule call_inv_mono [OF call le]) (use call in \<open>auto simp: t keep\<close>)
  qed
  moreover have "owners_inv ?t" using cs(2) owns_cong [of ?t s] unfolding t by (simp add: owners_inv_def)
  moreover have "flights_inv px name ?t" using cs(3) fl keep(2) f
    unfolding t by (simp add: flights_inv_def list_all_length nth_list_update)
  ultimately show ?thesis by (simp add: sf_inv_def)
qed

text \<open>The drop of a call, with its guard if it has one.\<close>

lemma release_inv:
  assumes inv: "sf_inv px name s" and c: "sf_calls s c = Some (Waiting q f guard)"
    and x: "\<And>call. x = Some call \<Longrightarrow> (\<exists>q r. call = Returned q r) \<and> call_inv s call"
  shows "sf_inv px name (drop_guard q guard (s\<lparr>sf_calls := (sf_calls s)(c := x)\<rparr>))"
proof -
  let ?t = "drop_guard q guard (s\<lparr>sf_calls := (sf_calls s)(c := x)\<rparr>)"
  have cs: "calls_inv s" "owners_inv s" "flights_inv px name s" using inv by (simp_all add: sf_inv_def)
  have "call_inv s (Waiting q f guard)" using cs(1) c unfolding calls_inv_def by blast
  then obtain k where k: "key_from_message q = Some k" by auto
  have own: "owns s c k f" if guard using c k that by (simp add: owns_def)
  have other: "key_from_message q' \<noteq> Some k" if "c' \<noteq> c" "sf_calls s c' = Some (Waiting q' f' True)" guard for c' q' f'
  proof
    assume "key_from_message q' = Some k"
    then have "owns s c' k f'" using that by (simp add: owns_def)
    then show False using own that(1,3) cs(2) unfolding owners_inv_def by blast
  qed
  have t: "?t = s\<lparr>sf_inflight := (if guard then (sf_inflight s)(k := None) else sf_inflight s),
      sf_calls := (sf_calls s)(c := x)\<rparr>" using k by (simp add: drop_guard_def)
  have "calls_inv ?t" using cs(1)
  proof (rule calls_inv_step [where c = c])
    show "call_inv ?t call" if "sf_calls ?t c = Some call" for call
    proof -
      from that x have "(\<exists>q r. call = Returned q r) \<and> call_inv s call" by (simp add: t)
      then show ?thesis by (elim conjE call_inv_mono) (auto simp: t flights_le_refl)
    qed
    fix c' q' f' assume c': "c' \<noteq> c" and w: "sf_calls s c' = Some (Waiting q' f' True)"
    have "call_inv s (Waiting q' f' True)" using cs(1) w unfolding calls_inv_def by blast
    then show "sf_inflight ?t (the (key_from_message q')) = sf_inflight s (the (key_from_message q'))"
      using other [OF c' w] by (auto simp: t)
  qed (simp_all add: t flights_le_refl split: if_splits)
  moreover have "owners_inv ?t"
  proof -
    have owns: "owns ?t c' k' f' \<longleftrightarrow> c' \<noteq> c \<and> owns s c' k' f'" for c' k' f'
      using x [of "Waiting q f True" for q] by (auto simp: t owns_def dest: x)
    have "\<exists>c'. c' \<noteq> c \<and> owns s c' k' f'" if "sf_inflight ?t k' = Some f'" for k' f'
    proof -
      have kf: "sf_inflight s k' = Some f'" "guard \<longrightarrow> k' \<noteq> k" using that by (simp_all add: t split: if_splits)
      then obtain c' where c': "owns s c' k' f'" using cs(2) unfolding owners_inv_def by blast
      moreover have "c' \<noteq> c" using c' c k kf(2) by (auto simp: owns_def)
      ultimately show ?thesis by blast
    qed
    then show ?thesis using cs(2) unfolding owners_inv_def owns by blast
  qed
  ultimately show ?thesis using cs(3) unfolding t by (simp add: sf_inv_def flights_inv_def)
qed

lemma return_call_inv:
  assumes inv: "sf_inv px name s" and c: "sf_calls s c = Some (Waiting q f guard)"
    and res: "fl_result (sf_flights s ! f) = Some r"
  shows "sf_inv px name (return_call c q guard r s)"
proof -
  have "call_inv s (Waiting q f guard)" using inv c unfolding sf_inv_def calls_inv_def by blast
  moreover have "(case r of Inr res \<Rightarrow> Inr (res\<lparr>res_message := (res_message res)\<lparr>m_id := m_id q\<rparr>\<rparr>) | Inl e \<Rightarrow> Inl e)
      = map_sum id (retarget (m_id q)) r" by (simp add: retarget_def split: sum.split)
  ultimately have "call_inv s (Returned q (case r of
      Inr res \<Rightarrow> Inr (res\<lparr>res_message := (res_message res)\<lparr>m_id := m_id q\<rparr>\<rparr>) | Inl e \<Rightarrow> Inl e))"
    using res by auto
  then show ?thesis unfolding return_call_def Let_def
    by (intro release_inv [OF inv c]) (simp del: call_inv.simps, blast)
qed

lemma cancel_call_inv:
  assumes inv: "sf_inv px name s"
  shows "sf_inv px name (cancel_call c s)"
proof -
  consider q f guard where "sf_calls s c = Some (Waiting q f guard)"
    | "\<And>q f guard. sf_calls s c \<noteq> Some (Waiting q f guard)" by blast
  then show ?thesis
  proof cases
    case 1
    then show ?thesis using release_inv [OF inv 1, of None] by (simp add: cancel_call_def)
  next
    case 2
    let ?t = "s\<lparr>sf_calls := (sf_calls s)(c := None)\<rparr>"
    have t: "cancel_call c s = ?t" using 2 by (simp add: cancel_call_def split: option.split call.split)
    have "calls_inv s" using inv by (simp add: sf_inv_def)
    then have "calls_inv ?t"
      by (elim calls_inv_step [where c = c]) (simp_all add: flights_le_refl split: if_splits)
    moreover have "owners_inv ?t"
      using owners_inv_idle [where s = s and c = c and x = None and p = "sf_pool s" and fls = "sf_flights s"] inv 2
      by (simp add: sf_inv_def owns_def)
    ultimately show ?thesis using inv unfolding t by (simp add: sf_inv_def flights_inv_def)
  qed
qed

lemma sf_step_inv: "sf_inv px name s \<Longrightarrow> sf_step dx px s t \<Longrightarrow> sf_inv px name t"
  by (erule sf_stepE) (auto intro: start_call_inv register_call_inv advance_flight_inv return_call_inv cancel_call_inv)

lemma sf_init_inv: "sf_init s \<Longrightarrow> name_at (sf_pool s) = name \<Longrightarrow> sf_inv px name s"
  by (simp add: sf_init_def sf_inv_def flights_inv_def calls_inv_def owners_inv_def owns_def)

interpretation sf: step_invariant "\<lambda>s. sf_init s \<and> name_at (sf_pool s) = name" "sf_step dx px" "sf_inv px name"
  by unfold_locales (blast intro: sf_init_inv sf_step_inv)+

subsection \<open>Consequences\<close>

text \<open>A registration outlives none of its calls.\<close>

lemma inflight_owned:
  "sf_inv px name s \<Longrightarrow> sf_inflight s k = Some f \<Longrightarrow>
     \<exists>!c. \<exists>q. sf_calls s c = Some (Waiting q f True) \<and> key_from_message q = Some k"
  unfolding sf_inv_def owners_inv_def owns_def by blast

lemma inflight_idle:
  "sf_inv px name s \<Longrightarrow> (\<And>c q f guard. sf_calls s c \<noteq> Some (Waiting q f guard)) \<Longrightarrow> sf_inflight s = Map.empty"
  unfolding sf_inv_def owners_inv_def owns_def by (rule ext) (metis option.exhaust)

lemma returned_outcome:
  assumes inv: "sf_inv px name s" and "sf_calls s c = Some (Returned q r)" "p_upstreams (sf_pool s) \<noteq> []"
    and "key_from_message q = Some k"
  shows "\<exists>fl\<in>set (sf_flights s). key_from_message (fl_query fl) = Some k
     \<and> r = map_sum id (retarget (m_id q)) (failover_outcome px (fl_net fl) name (fl_start fl) NoUpstreams)"
proof -
  have "call_inv s (Returned q r)" using inv assms(2) unfolding sf_inv_def calls_inv_def by blast
  then obtain f r0 where f: "f < length (sf_flights s)" "fl_result (sf_flights s ! f) = Some r0"
    "key_from_message (fl_query (sf_flights s ! f)) = key_from_message q" "r = map_sum id (retarget (m_id q)) r0"
    using assms(3,4) by auto
  have "flight_ok px name (sf_flights s ! f)"
    using inv f(1) by (simp add: sf_inv_def flights_inv_def list_all_length)
  from flight_ok_result [OF this f(2)] show ?thesis using f assms(4) by (intro bexI [of _ "sf_flights s ! f"]) auto
qed

text \<open>
  Every attempt, whatever the upstream answers, brings a flight closer to its end, and a
  waiting call can run to its return.
\<close>

lemma advance_progress:
  assumes "fl_result fl = None" "advance px a fl p = (fl', p')"
  shows "fl_result fl' \<noteq> None \<or> length (fl_order fl') < length (fl_order fl)"
proof (cases "fl_order fl")
  case Nil
  then show ?thesis using assms by (auto simp: advance_def)
next
  case (Cons u us)
  from assms(2) [unfolded advance_Cons [OF Cons] Let_def] Cons show ?thesis by auto
qed

lemma flight_completes:
  assumes "sf_inv px name s" "sf_calls s c = Some (Waiting q f guard)"
  shows "\<exists>t. (sf_step dx px)\<^sup>*\<^sup>* s t \<and> sf_calls t c = Some (Waiting q f guard) \<and> fl_result (sf_flights t ! f) \<noteq> None"
  using assms
proof (induction "length (fl_order (sf_flights s ! f))" arbitrary: s rule: less_induct)
  case less
  show ?case
  proof (cases "fl_result (sf_flights s ! f)")
    case (Some r)
    then show ?thesis using less.prems by blast
  next
    case None
    define a where "a = \<lparr>at_result = ATimeout, at_now = 0, at_rnd = 0\<rparr>"
    let ?t = "advance_flight px f a s"
    have step: "sf_step dx px s ?t" using sf_step.advance [OF less.prems(2) None] .
    have inv: "sf_inv px name ?t" using sf_step_inv [OF less.prems(1) step] .
    have calls: "sf_calls ?t c = Some (Waiting q f guard)"
      using less.prems(2) by (simp add: advance_flight_def split: prod.split)
    have "call_inv s (Waiting q f guard)" using less.prems unfolding sf_inv_def calls_inv_def by blast
    then have "sf_flights ?t ! f = fst (advance px a (sf_flights s ! f) (sf_pool s))"
      by (simp add: advance_flight_def split: prod.split)
    with advance_progress [OF None] consider "fl_result (sf_flights ?t ! f) \<noteq> None"
      | "length (fl_order (sf_flights ?t ! f)) < length (fl_order (sf_flights s ! f))"
      by (metis prod.collapse)
    then show ?thesis
    proof cases
      case 1
      then show ?thesis using step calls by blast
    next
      case 2
      from less.hyps [OF this inv calls] step show ?thesis by (meson converse_rtranclp_into_rtranclp)
    qed
  qed
qed

lemma waiting_returns:
  assumes "sf_inv px name s" "sf_calls s c = Some (Waiting q f guard)"
  shows "\<exists>t r. (sf_step dx px)\<^sup>*\<^sup>* s t \<and> sf_calls t c = Some (Returned q r)"
proof -
  obtain t r where t: "(sf_step dx px)\<^sup>*\<^sup>* s t" "sf_calls t c = Some (Waiting q f guard)" "fl_result (sf_flights t ! f) = Some r"
    using flight_completes [OF assms] by blast
  have "sf_calls (return_call c q guard r t) c = Some (Returned q (case r of
      Inr res \<Rightarrow> Inr (res\<lparr>res_message := (res_message res)\<lparr>m_id := m_id q\<rparr>\<rparr>) | Inl e \<Rightarrow> Inl e))"
    by (simp add: return_call_def drop_guard_def Let_def split: option.split)
  then show ?thesis using t sf_step.return [OF t(2,3)] by (meson rtranclp.rtrancl_into_rtrancl)
qed

end
