(* ===== verification/Cache_Contract.thy ===== *)
theory Cache_Contract
  imports Dns_Cache
begin

text \<open>
  What the query pipeline relies on from the response cache: an operation never invents or
  changes an entry, apart from the one that is inserted, and a hit shows the entry of its key.
  A predicate that holds of every inserted entry therefore holds of every hit.
\<close>

locale response_cache =
  fixes ok :: "'c \<Rightarrow> bool"
    and find :: "'c \<Rightarrow> 'k \<Rightarrow> 'e option"
    and get :: "'t \<Rightarrow> 'c \<Rightarrow> 'k \<Rightarrow> 'i \<Rightarrow> ('c \<times> 'h option) option"
    and ins :: "'t \<Rightarrow> 'c \<Rightarrow> 'k \<Rightarrow> 'm \<Rightarrow> 'v \<Rightarrow> ('c \<times> 'w) option"
    and hit_shows :: "'h \<Rightarrow> 'e \<Rightarrow> bool"
    and made_of :: "'e \<Rightarrow> 'm \<Rightarrow> 'v \<Rightarrow> bool"
  assumes get_sound: "ok c \<Longrightarrow> get t c k i = Some (c', h) \<Longrightarrow>
      ok c' \<and> (\<forall>k' e. find c' k' = Some e \<longrightarrow> find c k' = Some e)
      \<and> (\<forall>hit. h = Some hit \<longrightarrow> (\<exists>e. find c k = Some e \<and> hit_shows hit e))"
    and ins_sound: "ok c \<Longrightarrow> ins t c k m v = Some (c', w) \<Longrightarrow>
      ok c' \<and> (\<forall>k' e. find c' k' = Some e \<longrightarrow> find c k' = Some e \<or> made_of e m v)"
    and get_total: "ok c \<Longrightarrow> get t c k i \<noteq> None"
    and ins_total: "ok c \<Longrightarrow> ins t c k m v \<noteq> None"
begin

definition all_entries :: "('e \<Rightarrow> bool) \<Rightarrow> 'c \<Rightarrow> bool" where
  "all_entries P c \<longleftrightarrow> ok c \<and> (\<forall>k e. find c k = Some e \<longrightarrow> P e)"

lemma get_keeps: "all_entries P c \<Longrightarrow> get t c k i = Some (c', h) \<Longrightarrow> all_entries P c'"
  using get_sound unfolding all_entries_def by blast

lemma get_hit: "all_entries P c \<Longrightarrow> get t c k i = Some (c', Some hit) \<Longrightarrow> \<exists>e. hit_shows hit e \<and> P e"
  using get_sound unfolding all_entries_def by blast

lemma ins_keeps:
  "all_entries P c \<Longrightarrow> ins t c k m v = Some (c', w) \<Longrightarrow> (\<And>e. made_of e m v \<Longrightarrow> P e) \<Longrightarrow> all_entries P c'"
  using ins_sound unfolding all_entries_def by blast

end

definition shows_entry :: "cache_hit \<Rightarrow> entry \<Rightarrow> bool" where
  "shows_entry hit e \<longleftrightarrow> hit_verdict hit = verdict e \<and> (\<exists>ident t. hit_response hit = serve (stored e) ident t)"

definition made_entry :: "dns_ext \<Rightarrow> entry \<Rightarrow> message \<Rightarrow> response_verdict option \<Rightarrow> bool" where
  "made_entry dx e m v \<longleftrightarrow> verdict e = v \<and>
     (case stored e of
        StMessage m' \<Rightarrow> m' = m
      | StWire bytes offs rcode _ \<Rightarrow>
          to_vec dx m = Some bytes \<and> scan_ttl_offsets bytes = Some offs \<and> rcode = m_response_code m)"

lemma shows_served:
  "shows_entry \<lparr>hit_response = serve (stored e) ident t, hit_freshness = fr, hit_verdict = verdict e\<rparr> e"
  unfolding shows_entry_def by (simp, blast)

lemma stored_form_made: "made_entry dx \<lparr>stored = fst (stored_form dx c m), stored_at = now, ttl = t, verdict = v\<rparr> m v"
  by (simp add: made_entry_def stored_form_def Let_def split: option.split)

lemma cache_get_sound:
  assumes wf: "cache_wf c" and laws: "lru_laws cx" and get: "cache_get cx now c key ident = Some (c', h)"
  shows "cache_wf c' \<and> (\<forall>k e. cache_find cx c' k = Some e \<longrightarrow> cache_find cx c k = Some e)
    \<and> (\<forall>hit. h = Some hit \<longrightarrow> (\<exists>e. cache_find cx c key = Some e \<and> shows_entry hit e))"
proof (cases "c_enabled c")
  case False
  then show ?thesis using get wf by (auto simp: cache_get_def)
next
  case True
  let ?l = "classify (stale_max_age c) now (cache_find cx c key)"
  have h: "h = Option.bind (cache_find cx c key) (\<lambda>e. hit_of e ident ?l)" and "cache_wf c'"
    "cache_find cx c' = (if ?l = LExpired then (cache_find cx c)(key := None) else cache_find cx c)"
    using cache_get_spec [OF wf laws True, of now key ident] get by auto
  moreover have "shows_entry hit e" if "hit_of e ident ?l = Some hit" for e hit
    using that by (cases ?l) (auto simp: hit_of_def shows_served)
  ultimately show ?thesis by (auto split: if_splits bind_splits)
qed

lemma cache_get_served:
  assumes wf: "cache_wf c" and laws: "lru_laws cx" and get: "cache_get cx now c key ident = Some (c', Some hit)"
  shows "\<exists>e t. cache_find cx c key = Some e \<and> hit_response hit = serve (stored e) ident t"
proof -
  have en: "c_enabled c" using get by (auto simp: cache_get_def split: if_splits)
  let ?l = "classify (stale_max_age c) now (cache_find cx c key)"
  have "Option.bind (cache_find cx c key) (\<lambda>e. hit_of e ident ?l) = Some hit"
    using cache_get_spec [OF wf laws en, of now key ident] get by auto
  then obtain e where "cache_find cx c key = Some e" "hit_of e ident ?l = Some hit" by (auto split: bind_splits)
  then show ?thesis by (cases ?l) (auto simp: hit_of_def)
qed

lemma insert_inner_sound:
  assumes wf: "cache_wf c" and laws: "lru_laws cx" and ins: "insert_inner dx cx now c key m v = Some (c', w)"
  shows "cache_wf c' \<and> (\<forall>k e. cache_find cx c' k = Some e \<longrightarrow> cache_find cx c k = Some e \<or> made_entry dx e m v)"
proof (cases "c_enabled c \<and> cacheable_ttl c m \<noteq> None")
  case False
  then show ?thesis using ins wf by (auto simp: insert_inner_def split: if_splits)
next
  case True
  then obtain t where t: "cacheable_ttl c m = Some t" and en: "c_enabled c" by auto
  let ?e = "\<lparr>stored = fst (stored_form dx c m), stored_at = now, ttl = t, verdict = v\<rparr>"
  have c': "cache_wf c'" "cache_find cx c' key = Some ?e"
    "\<forall>k. k \<noteq> key \<longrightarrow> cache_find cx c' k \<in> {None, cache_find cx c k}"
    using insert_inner_spec [OF wf laws en t, of dx now key v] ins by auto
  have "made_entry dx ?e m v" by (rule stored_form_made)
  then have "cache_find cx c k = Some e \<or> made_entry dx e m v" if "cache_find cx c' k = Some e" for k e
    using c'(2,3) that by (cases "k = key") (simp, metis insertE option.distinct(1) singletonD)
  then show ?thesis using c'(1) by blast
qed

lemma cache_get_total: "cache_wf c \<Longrightarrow> lru_laws cx \<Longrightarrow> cache_get cx now c key ident \<noteq> None"
  by (cases "c_enabled c") (use cache_get_spec [of c cx now key ident] in \<open>auto simp: cache_get_def\<close>)

lemma insert_inner_total: "cache_wf c \<Longrightarrow> insert_inner dx cx now c key m v \<noteq> None"
  using shard_index_less [of c cx key]
  by (auto simp: insert_inner_def Let_def nth_opt_def split: option.split prod.split)

interpretation dc: response_cache "\<lambda>c. cache_wf c \<and> lru_laws cx" "cache_find cx" "cache_get cx"
  "insert_inner dx cx" shows_entry "made_entry dx"
proof unfold_locales
  fix now c k ident c' h
  assume c: "cache_wf c \<and> lru_laws cx" and get: "cache_get cx now c k ident = Some (c', h)"
  show "(cache_wf c' \<and> lru_laws cx) \<and> (\<forall>k' e. cache_find cx c' k' = Some e \<longrightarrow> cache_find cx c k' = Some e)
    \<and> (\<forall>hit. h = Some hit \<longrightarrow> (\<exists>e. cache_find cx c k = Some e \<and> shows_entry hit e))"
    using cache_get_sound [OF conjunct1 [OF c] conjunct2 [OF c] get] c by blast
next
  fix now c k m v c' w
  assume c: "cache_wf c \<and> lru_laws cx" and ins: "insert_inner dx cx now c k m v = Some (c', w)"
  show "(cache_wf c' \<and> lru_laws cx)
    \<and> (\<forall>k' e. cache_find cx c' k' = Some e \<longrightarrow> cache_find cx c k' = Some e \<or> made_entry dx e m v)"
    using insert_inner_sound [OF conjunct1 [OF c] conjunct2 [OF c] ins] c by blast
qed (simp_all add: cache_get_total insert_inner_total del: not_None_eq)

text \<open>The refresh counters and the tuning of a reload.\<close>

lemma note_refresh_find [simp]:
  "cache_find cx (note_refresh_started c) = cache_find cx c" "cache_find cx (note_refresh_failed c) = cache_find cx c"
  "cache_wf (note_refresh_started c) = cache_wf c" "cache_wf (note_refresh_failed c) = cache_wf c"
  by (simp_all add: note_refresh_started_def note_refresh_failed_def cache_find_def shard_index_def cache_wf_def fun_eq_iff)

lemma map_shards_find:
  assumes "cache_wf c" "\<And>s. s \<in> set (shards c) \<Longrightarrow> shard_view cx (f s) k \<in> {None, shard_view cx s k}"
  shows "cache_find cx (c\<lparr>shards := map f (shards c)\<rparr>) k \<in> {None, cache_find cx c k}"
  using assms(2) [OF nth_mem [OF shard_index_less [OF assms(1), of cx k]]] shard_index_less [OF assms(1), of cx k]
  by (simp add: cache_find_def shard_index_def)

lemma reconfigure_find:
  assumes wf: "cache_wf c" and laws: "lru_laws cx"
  shows "cache_wf (reconfigure cx en cap a b d c)"
    "cache_find cx (reconfigure cx en cap a b d c) k \<in> {None, cache_find cx c k}"
proof -
  have sv: "shard_view cx (lru_resize cx n s) k \<in> {None, shard_view cx s k}" "shard_view cx (lru_clear cx s) k \<in> {None, shard_view cx s k}"
    for n s using laws unfolding lru_laws_def shard_view_def by simp_all
  define c1 where "c1 = c\<lparr>c_enabled := en, min_ttl := a, max_ttl := b, stale_max_age := d\<rparr>"
  define c2 where "c2 = (if max cap 1 \<noteq> capacity c1 then c1\<lparr>capacity := max cap 1,
      shards := map (lru_resize cx (shard_cap (max cap 1) (length (shards c1)))) (shards c1)\<rparr> else c1)"
  have r: "reconfigure cx en cap a b d c = (if \<not> en then clear_cache cx c2 else c2)"
    by (simp add: reconfigure_def c1_def c2_def Let_def)
  have c1: "cache_wf c1" "cache_find cx c1 = cache_find cx c"
    using wf by (simp_all add: c1_def cache_wf_def cache_find_def shard_index_def fun_eq_iff)
  have "cache_wf c2" using c1(1) by (simp add: c2_def cache_wf_def)
  moreover have "cache_find cx c2 k \<in> {None, cache_find cx c k}"
  proof (cases "max cap 1 \<noteq> capacity c1")
    case True
    let ?c = "c1\<lparr>shards := map (lru_resize cx (shard_cap (max cap 1) (length (shards c1)))) (shards c1)\<rparr>"
    have "cache_find cx c2 k = cache_find cx ?c k" using True by (simp add: c2_def cache_find_def shard_index_def)
    then show ?thesis using map_shards_find [OF c1(1), of cx "lru_resize cx (shard_cap (max cap 1) (length (shards c1)))" k] sv c1(2)
      by simp
  qed (use c1 in \<open>simp add: c2_def\<close>)
  ultimately show "cache_wf (reconfigure cx en cap a b d c)"
    "cache_find cx (reconfigure cx en cap a b d c) k \<in> {None, cache_find cx c k}"
    using map_shards_find [of c2 cx "lru_clear cx" k] sv(2)
    by (auto simp: r clear_cache_def cache_wf_def)
qed

end
