(* ===== verification/Query_Pipeline.thy ===== *)
theory Query_Pipeline
  imports Block_Response Client_Matcher Stats Single_Flight
    Cache_Contract Filter_Verdict
begin

text \<open>
  The query pipeline, \<open>crates/bulwark-engine/src/lib.rs\<close> (and the UDP encoder of
  \<open>crates/bulwark-engine/src/server.rs\<close>). \<open>Engine::handle\<close> awaits the upstream pool in two
  places, where other queries, background refreshes and reloads run: it is cut there into
  \<open>handle_start\<close> and the continuations \<open>handle_answer\<close> and \<open>handle_cname\<close>. \<open>handle\<close> composes them
  with the pool of \<open>Upstream_Pool\<close> for a query that nothing interleaves with. The clock and the
  statistics slot of a completed query are the fields of \<open>finish_draw\<close>. A panic (of an index into
  the filter, the cache or the statistics) is \<open>None\<close>.
\<close>

subsection \<open>Ingress\<close>

datatype ingress = IFast "u8 list" parsed_query | IFull message

definition parse_ingress :: "dns_ext \<Rightarrow> u8 list \<Rightarrow> ingress option" where
  "parse_ingress dx bytes =
     (case parse_query bytes of
        Some parsed \<Rightarrow> Some (IFast bytes parsed)
      | None \<Rightarrow> map_option IFull (from_vec dx bytes))"

fun advertised_payload :: "ingress \<Rightarrow> u16" where
  "advertised_payload (IFast _ parsed) = (case pq_edns_payload parsed of Some n \<Rightarrow> n | None \<Rightarrow> 512)"
| "advertised_payload (IFull m) = (case m_edns m of Some e \<Rightarrow> ed_max_payload e | None \<Rightarrow> 512)"

definition udp_max_payload :: "ingress \<Rightarrow> int" where
  "udp_max_payload i = max 512 (min 4096 (uint (advertised_payload i)))"

datatype lazy = LBytes "u8 list" | LMsg message

fun lazy_message :: "dns_ext \<Rightarrow> lazy \<Rightarrow> message option" where
  "lazy_message dx (LMsg m) = Some m"
| "lazy_message dx (LBytes b) = from_vec dx b"

record query_fields =
  qf_id :: u16
  qf_rtype :: u16
  qf_class :: u16
  qf_qname_display :: string
  qf_name_lower :: string
  qf_dnssec_ok :: bool
  qf_checking_disabled :: bool

definition fields_from_parsed :: "parsed_query \<Rightarrow> query_fields" where
  "fields_from_parsed p =
     \<lparr>qf_id = pq_id p, qf_rtype = pq_qtype p, qf_class = pq_qclass p, qf_qname_display = pq_qname p,
      qf_name_lower = to_ascii_lowercase (pq_qname p), qf_dnssec_ok = pq_dnssec_ok p,
      qf_checking_disabled = pq_checking_disabled p\<rparr>"

definition fields_from_message :: "message \<Rightarrow> query_fields option" where
  "fields_from_message m =
     (case m_queries m of [] \<Rightarrow> None
      | q # _ \<Rightarrow>
          Some \<lparr>qf_id = m_id m, qf_rtype = qry_type q, qf_class = qry_class q,
                qf_qname_display = qry_name q, qf_name_lower = to_ascii_lowercase (qry_name q),
                qf_dnssec_ok = dnssec_ok m, qf_checking_disabled = m_checking_disabled m\<rparr>)"

fun into_parts :: "ingress \<Rightarrow> message + query_fields \<times> lazy" where
  "into_parts (IFast bytes parsed) = Inr (fields_from_parsed parsed, LBytes bytes)"
| "into_parts (IFull m) =
     (case fields_from_message m of Some qf \<Rightarrow> Inr (qf, LMsg m) | None \<Rightarrow> Inl m)"

definition formerr :: "u16 \<Rightarrow> message" where
  "formerr ident = (new_message ident MtResponse 0)\<lparr>m_response_code := RC_FormErr\<rparr>"

subsection \<open>Responses\<close>

datatype engine_response = EMessage message | EWire "u8 list"

fun response_message :: "dns_ext \<Rightarrow> engine_response \<Rightarrow> message" where
  "response_message dx (EMessage m) = m"
| "response_message dx (EWire b) = (case from_vec dx b of Some m \<Rightarrow> m | None \<Rightarrow> new_message 0 MtResponse 0)"

fun response_wire :: "dns_ext \<Rightarrow> engine_response \<Rightarrow> u8 list option" where
  "response_wire dx (EMessage m) = to_vec dx m"
| "response_wire dx (EWire b) = Some b"

text \<open>\<open>server.rs\<close>: a response over UDP, cut down to its header and question when it is too long.\<close>

definition truncated :: "message \<Rightarrow> message" where
  "truncated resp =
     (new_message (m_id resp) MtResponse (m_op_code resp))
       \<lparr>m_truncation := True, m_recursion_available := m_recursion_available resp,
        m_recursion_desired := m_recursion_desired resp, m_response_code := m_response_code resp,
        m_queries := m_queries resp\<rparr>"

definition encode_udp :: "dns_ext \<Rightarrow> message \<Rightarrow> int \<Rightarrow> u8 list" where
  "encode_udp dx resp mx =
     (case to_vec dx resp of
        Some bytes \<Rightarrow>
          if int (length bytes) \<le> mx then bytes
          else (case to_vec dx (truncated resp) of Some b \<Rightarrow> b | None \<Rightarrow> [])
      | None \<Rightarrow> [])"

definition rcode_label :: "dns_ext \<Rightarrow> u16 \<Rightarrow> string" where
  "rcode_label dx rc =
     (if rc = RC_NoError then ''NOERROR''
      else if rc = RC_FormErr then ''FORMERR''
      else if rc = RC_ServFail then ''SERVFAIL''
      else if rc = RC_NXDomain then ''NXDOMAIN''
      else if rc = RC_NotImp then ''NOTIMP''
      else if rc = RC_Refused then ''REFUSED''
      else rcode_debug_upper dx rc)"

definition rtype_label :: "dns_ext \<Rightarrow> u16 \<Rightarrow> string" where
  "rtype_label dx rt =
     (if rt = T_A then ''A'' else if rt = T_AAAA then ''AAAA'' else if rt = T_CNAME then ''CNAME''
      else if rt = T_MX then ''MX'' else if rt = T_NS then ''NS'' else if rt = T_PTR then ''PTR''
      else if rt = T_SOA then ''SOA'' else if rt = T_SRV then ''SRV'' else if rt = T_TXT then ''TXT''
      else if rt = T_CAA then ''CAA'' else if rt = T_HTTPS then ''HTTPS'' else if rt = T_SVCB then ''SVCB''
      else if rt = T_DS then ''DS'' else if rt = T_DNSKEY then ''DNSKEY'' else if rt = T_NAPTR then ''NAPTR''
      else if rt = T_TLSA then ''TLSA'' else rtype_display dx rt)"

definition summarize_answers :: "dns_ext \<Rightarrow> dns_record list \<Rightarrow> string list" where
  "summarize_answers dx src = map (summarize dx) src"

subsection \<open>Response-side filtering\<close>

definition block_of :: "verdict \<Rightarrow> match_info option" where
  "block_of v = (case v of VBlock info \<Rightarrow> Some info | _ \<Rightarrow> None)"

definition check_block ::
  "filter_ext \<Rightarrow> filter_engine \<Rightarrow> client_info \<Rightarrow> string \<Rightarrow> string \<Rightarrow> match_info option option" where
  "check_block fx f ci domain rtype = map_option block_of (check fx f domain rtype ci)"

fun find_block :: "('a \<Rightarrow> match_info option option) \<Rightarrow> 'a list \<Rightarrow> match_info option option" where
  "find_block g [] = Some None"
| "find_block g (x # xs) =
     (case g x of None \<Rightarrow> None | Some (Some info) \<Rightarrow> Some (Some info) | Some None \<Rightarrow> find_block g xs)"

definition hint_block ::
  "filter_ext \<Rightarrow> filter_engine \<Rightarrow> client_info \<Rightarrow> svc_param list \<Rightarrow> match_info option option" where
  "hint_block fx f ci params =
     find_block (\<lambda>p. case p of
         Ipv4Hint ips \<Rightarrow> find_block (\<lambda>a. check_block fx f ci (show_ip (V4 a)) ''HTTPS'') ips
       | Ipv6Hint ips \<Rightarrow> find_block (\<lambda>a. check_block fx f ci (show_ip (V6 a)) ''HTTPS'') ips
       | _ \<Rightarrow> Some None) params"

definition record_block ::
  "filter_ext \<Rightarrow> filter_engine \<Rightarrow> client_info \<Rightarrow> rdata \<Rightarrow> match_info option option" where
  "record_block fx f ci d =
     (case d of
        RD_CNAME cname \<Rightarrow> check_block fx f ci (trim_end_matches CHR ''.'' cname) ''CNAME''
      | RD_A ip \<Rightarrow> check_block fx f ci (show_ip (V4 ip)) ''A''
      | RD_AAAA ip \<Rightarrow> check_block fx f ci (show_ip (V6 ip)) ''AAAA''
      | RD_HTTPS params \<Rightarrow> hint_block fx f ci params
      | RD_SVCB params \<Rightarrow> hint_block fx f ci params
      | _ \<Rightarrow> Some None)"

definition client_info_of :: "resolved_client \<Rightarrow> client_info" where
  "client_info_of c = \<lparr>ci_ip = Some (rc_ip c), ci_name = rc_name c, ci_tags = rc_tags c\<rparr>"

definition filter_answers ::
  "filter_ext \<Rightarrow> filter_engine \<Rightarrow> resolved_client \<Rightarrow> dns_record list \<Rightarrow> match_info option option" where
  "filter_answers fx f c rrs = find_block (\<lambda>r. record_block fx f (client_info_of c) (r_data r)) rrs"

fun cached_answers :: "dns_ext \<Rightarrow> cached_response \<Rightarrow> dns_record list" where
  "cached_answers dx (CWire bytes _ _) = (case from_vec dx bytes of Some m \<Rightarrow> m_answers m | None \<Rightarrow> [])"
| "cached_answers dx (CMessage m) = m_answers m"

subsection \<open>State\<close>

record engine_state =
  es_filter :: filter_engine
  es_pool :: upstream_pool
  es_clients :: client_matcher
  es_filtering_enabled :: bool
  es_blocking_mode :: blocking_mode
  es_block_v4 :: u32
  es_block_v6 :: "128 word"
  es_blocked_ttl :: u32

record ('c, 'ch) engine =
  eng_state :: engine_state
  eng_cache :: "'c dns_cache"
  eng_log :: "'ch query_log"
  eng_stats :: stats

record ('c, 'ch) engine_env =
  ev_filter :: filter_ext
  ev_dns :: dns_ext
  ev_cache :: "'c cache_ext"
  ev_stats :: stats_env
  ev_send :: "'ch \<Rightarrow> query_log_entry \<Rightarrow> 'ch option"

definition swap_state :: "engine_state \<Rightarrow> ('c, 'ch) engine \<Rightarrow> ('c, 'ch) engine" where
  "swap_state st eng = eng\<lparr>eng_state := st\<rparr>"

record log_builder =
  lb_client_ip :: ip_addr
  lb_question :: string
  lb_qtype :: string
  lb_allowlisted :: bool
  lb_upstream_rtt_ms :: "real option"

definition new_log_builder :: "resolved_client \<Rightarrow> string \<Rightarrow> string \<Rightarrow> log_builder" where
  "new_log_builder c question qt =
     \<lparr>lb_client_ip = rc_ip c, lb_question = question, lb_qtype = qt, lb_allowlisted = False,
      lb_upstream_rtt_ms = None\<rparr>"

record finish_draw =
  fd_time_ms :: int
  fd_elapsed_ms :: real
  fd_slot :: nat

definition engine_record ::
  "('c, 'ch) engine_env \<Rightarrow> finish_draw \<Rightarrow> log_builder \<Rightarrow> query_action \<Rightarrow> string \<Rightarrow> string list
   \<Rightarrow> ('c, 'ch) engine \<Rightarrow> ('c, 'ch) engine option" where
  "engine_record ev d lb qact rcode rrs eng =
     (let stats_on = st_enabled (eng_stats eng); log_on = ql_enabled_flag (eng_log eng) in
      if \<not> stats_on \<and> \<not> log_on then Some eng
      else
        let entry = empty_entry\<lparr>e_time_ms := fd_time_ms d, e_client_ip := show_ip (lb_client_ip lb),
              e_question := lb_question lb, e_qtype := lb_qtype lb, e_action := qact,
              e_allowlisted := lb_allowlisted lb, e_rcode := rcode,
              e_answers := (if log_on then rrs else []), e_elapsed_ms := fd_elapsed_ms d\<rparr>
        in case (if stats_on then stats_record (ev_stats ev) (fd_slot d) entry (lb_upstream_rtt_ms lb) (eng_stats eng)
                 else Some (eng_stats eng)) of
             None \<Rightarrow> None
           | Some st \<Rightarrow>
               let eng = eng\<lparr>eng_stats := st\<rparr>
               in Some (if log_on then eng\<lparr>eng_log := log_push (ev_send ev) entry (eng_log eng)\<rparr> else eng))"

definition finalize ::
  "('c, 'ch) engine_env \<Rightarrow> finish_draw \<Rightarrow> message \<Rightarrow> query_action \<Rightarrow> log_builder \<Rightarrow> ('c, 'ch) engine
   \<Rightarrow> (engine_response \<times> ('c, 'ch) engine) option" where
  "finalize ev d resp qact lb eng =
     map_option (Pair (EMessage resp))
       (engine_record ev d lb qact (rcode_label (ev_dns ev) (m_response_code resp))
          (summarize_answers (ev_dns ev) (m_answers resp)) eng)"

definition finalize_wire ::
  "('c, 'ch) engine_env \<Rightarrow> finish_draw \<Rightarrow> u8 list \<Rightarrow> u16 \<Rightarrow> string list \<Rightarrow> query_action \<Rightarrow> log_builder
   \<Rightarrow> ('c, 'ch) engine \<Rightarrow> (engine_response \<times> ('c, 'ch) engine) option" where
  "finalize_wire ev d bytes rcode rrs qact lb eng =
     map_option (Pair (EWire bytes)) (engine_record ev d lb qact (rcode_label (ev_dns ev) rcode) rrs eng)"

subsection \<open>The stages of a query\<close>

text \<open>
  What a query that waits for the pool carries: the state it loaded, its client, key, message
  and log fields; for a CNAME rewrite the message so far and the target. A background refresh
  carries the filter, its content hash and whether to memoize.
\<close>

record pending_query =
  pd_state :: engine_state
  pd_client :: resolved_client
  pd_key :: query_key
  pd_query :: message
  pd_log :: log_builder

record pending_cname =
  pc_pool :: upstream_pool
  pc_message :: message
  pc_target :: dname
  pc_rtype :: u16
  pc_action :: query_action
  pc_log :: log_builder

record refresh_job =
  rj_filter :: filter_engine
  rj_generation :: u64
  rj_memoize :: bool
  rj_lazy :: lazy
  rj_key :: query_key

datatype handle_stage =
    HDone query_action engine_response "refresh_job option"
  | HResolve pending_query
  | HCname pending_cname

definition done_stage ::
  "query_action \<Rightarrow> refresh_job option \<Rightarrow> (engine_response \<times> ('c, 'ch) engine) option
   \<Rightarrow> (handle_stage \<times> ('c, 'ch) engine) option" where
  "done_stage qact job r = map_option (\<lambda>(resp, eng). (HDone qact resp job, eng)) r"

definition state_block :: "('c, 'ch) engine_env \<Rightarrow> engine_state \<Rightarrow> message \<Rightarrow> message" where
  "state_block ev st query =
     block_response (ev_dns ev) query (es_blocking_mode st) (es_block_v4 st) (es_block_v6 st) (es_blocked_ttl st)"

definition blocked_action :: "match_info \<Rightarrow> query_action" where
  "blocked_action info = Blocked (mi_rule info) (mi_list_id info)"

definition memoizes :: "engine_state \<Rightarrow> bool" where
  "memoizes st = (es_filtering_enabled st \<and> \<not> has_client_dependent_rules (es_filter st))"

definition filters :: "engine_state \<Rightarrow> resolved_client \<Rightarrow> bool" where
  "filters st c = (es_filtering_enabled st \<and> rc_filtering_enabled c)"

definition spawn_refresh ::
  "engine_state \<Rightarrow> bool \<Rightarrow> lazy \<Rightarrow> query_key \<Rightarrow> ('c, 'ch) engine \<Rightarrow> refresh_job \<times> ('c, 'ch) engine" where
  "spawn_refresh st memoize lz key eng =
     (\<lparr>rj_filter = es_filter st, rj_generation = content_hash (es_filter st), rj_memoize = memoize,
       rj_lazy = lz, rj_key = key\<rparr>,
      eng\<lparr>eng_cache := note_refresh_started (eng_cache eng)\<rparr>)"

text \<open>The verdict on a cache hit: the memoized one when it can be trusted.\<close>

definition hit_block ::
  "('c, 'ch) engine_env \<Rightarrow> engine_state \<Rightarrow> resolved_client \<Rightarrow> cache_hit \<Rightarrow> match_info option option" where
  "hit_block ev st c hit =
     (if filters st c then
        let client_dependent = has_client_dependent_rules (es_filter st);
            live_gen = content_hash (es_filter st);
            recomputed = filter_answers (ev_filter ev) (es_filter st) c (cached_answers (ev_dns ev) (hit_response hit))
        in case hit_verdict hit of
             Some v \<Rightarrow>
               if \<not> client_dependent \<and> generation v = live_gen
               then Some (case outcome v of Clean \<Rightarrow> None | OBlock info \<Rightarrow> Some info)
               else recomputed
           | None \<Rightarrow> recomputed
      else Some None)"

definition maybe_refresh ::
  "engine_state \<Rightarrow> lazy \<Rightarrow> query_key \<Rightarrow> cache_hit \<Rightarrow> ('c, 'ch) engine \<Rightarrow> refresh_job option \<times> ('c, 'ch) engine" where
  "maybe_refresh st lz key hit eng =
     (if requires_refresh (hit_freshness hit)
      then (case spawn_refresh st (memoizes st) lz key eng of (job, eng) \<Rightarrow> (Some job, eng))
      else (None, eng))"

definition handle_hit ::
  "('c, 'ch) engine_env \<Rightarrow> finish_draw \<Rightarrow> engine_state \<Rightarrow> resolved_client \<Rightarrow> query_key \<Rightarrow> lazy \<Rightarrow> u16
   \<Rightarrow> log_builder \<Rightarrow> cache_hit \<Rightarrow> ('c, 'ch) engine \<Rightarrow> (handle_stage \<times> ('c, 'ch) engine) option" where
  "handle_hit ev d st c key lz ident lb hit eng =
     (case hit_block ev st c hit of None \<Rightarrow> None
      | Some (Some info) \<Rightarrow>
          (case lazy_message (ev_dns ev) lz of
             None \<Rightarrow> done_stage ErrorAction None (finalize ev d (formerr ident) ErrorAction lb eng)
           | Some query \<Rightarrow>
               let (job, eng) = maybe_refresh st (LMsg query) key hit eng;
                   qact = blocked_action info
               in done_stage qact job (finalize ev d (state_block ev st query) qact lb eng))
      | Some None \<Rightarrow>
          let (job, eng) = maybe_refresh st lz key hit eng
          in case hit_response hit of
               CWire bytes rcode rrs \<Rightarrow>
                 done_stage Cached job (finalize_wire ev d bytes rcode rrs Cached lb eng)
             | CMessage resp \<Rightarrow> done_stage Cached job (finalize ev d resp Cached lb eng))"

text \<open>From the cache lookup on.\<close>

definition handle_lookup ::
  "('c, 'ch) engine_env \<Rightarrow> finish_draw \<Rightarrow> int \<Rightarrow> engine_state \<Rightarrow> resolved_client \<Rightarrow> query_fields \<Rightarrow> lazy
   \<Rightarrow> log_builder \<Rightarrow> ('c, 'ch) engine \<Rightarrow> (handle_stage \<times> ('c, 'ch) engine) option" where
  "handle_lookup ev d now st c qf lz lb eng =
     (let key = \<lparr>k_name = qf_name_lower qf, k_rtype = qf_rtype qf, k_class = qf_class qf,
                 k_dnssec_ok = qf_dnssec_ok qf, k_checking_disabled = qf_checking_disabled qf\<rparr>
      in case cache_get (ev_cache ev) now (eng_cache eng) key (qf_id qf) of
           None \<Rightarrow> None
         | Some (cache, Some hit) \<Rightarrow>
             handle_hit ev d st c key lz (qf_id qf) lb hit (eng\<lparr>eng_cache := cache\<rparr>)
         | Some (cache, None) \<Rightarrow>
             let eng = eng\<lparr>eng_cache := cache\<rparr> in
             (case lazy_message (ev_dns ev) lz of
                None \<Rightarrow> done_stage ErrorAction None (finalize ev d (formerr (qf_id qf)) ErrorAction lb eng)
              | Some query \<Rightarrow>
                  Some (HResolve \<lparr>pd_state = st, pd_client = c, pd_key = key, pd_query = query, pd_log = lb\<rparr>, eng)))"

definition handle_start ::
  "('c, 'ch) engine_env \<Rightarrow> finish_draw \<Rightarrow> int \<Rightarrow> ingress \<Rightarrow> ip_addr \<Rightarrow> ('c, 'ch) engine
   \<Rightarrow> (handle_stage \<times> ('c, 'ch) engine) option" where
  "handle_start ev d now ing client_ip eng =
     (let st = eng_state eng; c = identify (ev_filter ev) (es_clients st) client_ip in
      case into_parts ing of
        Inl msg \<Rightarrow> Some (HDone ErrorAction (EMessage (error_response msg RC_FormErr)) None, eng)
      | Inr (qf, lz) \<Rightarrow>
          let rtype_str = rtype_label (ev_dns ev) (qf_rtype qf);
              domain = trim_end_matches CHR ''.'' (qf_name_lower qf);
              lb = new_log_builder c (qf_qname_display qf) rtype_str
          in if filters st c then
               (case check (ev_filter ev) (es_filter st) domain rtype_str (client_info_of c) of
                  None \<Rightarrow> None
                | Some (VBlock info) \<Rightarrow>
                    (case lazy_message (ev_dns ev) lz of
                       None \<Rightarrow> done_stage ErrorAction None (finalize ev d (formerr (qf_id qf)) ErrorAction lb eng)
                     | Some query \<Rightarrow>
                         done_stage (blocked_action info) None
                           (finalize ev d (state_block ev st query) (blocked_action info) lb eng))
                | Some (VRewrite info data) \<Rightarrow>
                    (case lazy_message (ev_dns ev) lz of
                       None \<Rightarrow> done_stage ErrorAction None (finalize ev d (formerr (qf_id qf)) ErrorAction lb eng)
                     | Some query \<Rightarrow>
                         let qact = Rewritten (mi_rule info) (mi_list_id info) in
                         (case rewrite_response (ev_dns ev) query data (es_blocked_ttl st) of
                            RwDone m \<Rightarrow> done_stage qact None (finalize ev d m qact lb eng)
                          | ResolveCname m target \<Rightarrow>
                              Some (HCname \<lparr>pc_pool = es_pool st, pc_message = m, pc_target = target,
                                            pc_rtype = qf_rtype qf, pc_action = qact, pc_log = lb\<rparr>, eng)))
                | Some (VAllow rule) \<Rightarrow>
                    handle_lookup ev d now st c qf lz (lb\<lparr>lb_allowlisted := (rule \<noteq> None)\<rparr>) eng)
             else handle_lookup ev d now st c qf lz lb eng)"

text \<open>After \<open>pool.resolve\<close> of the query.\<close>

definition handle_answer ::
  "('c, 'ch) engine_env \<Rightarrow> finish_draw \<Rightarrow> int \<Rightarrow> pending_query \<Rightarrow> upstream_error + resolved \<Rightarrow> ('c, 'ch) engine
   \<Rightarrow> (query_action \<times> engine_response \<times> ('c, 'ch) engine) option" where
  "handle_answer ev d now pd res eng =
     (let st = pd_state pd; c = pd_client pd; query = pd_query pd in
      case res of
        Inl e \<Rightarrow>
          map_option (Pair ErrorAction)
            (finalize ev d (error_response query RC_ServFail) ErrorAction (pd_log pd) eng)
      | Inr r \<Rightarrow>
          let lb = (pd_log pd)\<lparr>lb_upstream_rtt_ms := Some (res_rtt_ms r)\<rparr>;
              gen = content_hash (es_filter st);
              rrs = m_answers (res_message r)
          in case (if filters st c then filter_answers (ev_filter ev) (es_filter st) c rrs else Some None) of
               None \<Rightarrow> None
             | Some (Some info) \<Rightarrow>
                 (case insert_with_verdict (ev_dns ev) (ev_cache ev) now (eng_cache eng) (pd_key pd) (res_message r)
                         (if memoizes st then Some (block_verdict info gen) else None) of
                    None \<Rightarrow> None
                  | Some cache \<Rightarrow>
                      map_option (Pair (blocked_action info))
                        (finalize ev d (state_block ev st query) (blocked_action info) lb (eng\<lparr>eng_cache := cache\<rparr>)))
             | Some None \<Rightarrow>
                 (case (if memoizes st
                        then (if filters st c then Some (Some (clean_verdict gen))
                              else map_option (\<lambda>b. Some (case b of
                                       Some info \<Rightarrow> block_verdict info gen
                                     | None \<Rightarrow> clean_verdict gen))
                                     (filter_answers (ev_filter ev) (es_filter st) c rrs))
                        else Some None) of
                    None \<Rightarrow> None
                  | Some v \<Rightarrow>
                      (case insert_returning (ev_dns ev) (ev_cache ev) now (eng_cache eng) (pd_key pd) (res_message r) v of
                         None \<Rightarrow> None
                       | Some (cache, served) \<Rightarrow>
                           let qact = Forwarded (res_upstream r); eng = eng\<lparr>eng_cache := cache\<rparr> in
                           (case served of
                              Some iw \<Rightarrow>
                                map_option (Pair qact)
                                  (finalize_wire ev d (iw_bytes iw) (iw_rcode iw) (iw_answers iw) qact lb eng)
                            | None \<Rightarrow> map_option (Pair qact) (finalize ev d (res_message r) qact lb eng)))))"

text \<open>\<open>resolve_cname\<close>: the query it sends, and the rest of \<open>handle\<close> with the result.\<close>

definition cname_query :: "u16 \<Rightarrow> pending_cname \<Rightarrow> message" where
  "cname_query rnd_id pc =
     (let q = (new_message rnd_id MtQuery 0)\<lparr>m_recursion_desired := True\<rparr>
      in q\<lparr>m_queries := m_queries q @ [\<lparr>qry_name = pc_target pc, qry_type = pc_rtype pc, qry_class = C_IN\<rparr>]\<rparr>)"

definition handle_cname ::
  "('c, 'ch) engine_env \<Rightarrow> finish_draw \<Rightarrow> pending_cname \<Rightarrow> upstream_error + resolved \<Rightarrow> ('c, 'ch) engine
   \<Rightarrow> (query_action \<times> engine_response \<times> ('c, 'ch) engine) option" where
  "handle_cname ev d pc res eng =
     (let m = (case res of
                 Inr r \<Rightarrow> (pc_message pc)\<lparr>m_answers := m_answers (pc_message pc) @ m_answers (res_message r)\<rparr>
               | Inl _ \<Rightarrow> pc_message pc)
      in map_option (Pair (pc_action pc)) (finalize ev d m (pc_action pc) (pc_log pc) eng))"

text \<open>The body of the refresh task: \<open>res\<close> is what the pool makes of the job's query.\<close>

definition placeholder_client :: resolved_client where
  "placeholder_client = \<lparr>rc_ip = V4 0, rc_name = None, rc_tags = [], rc_filtering_enabled = True\<rparr>"

definition run_refresh ::
  "('c, 'ch) engine_env \<Rightarrow> int \<Rightarrow> refresh_job \<Rightarrow> (message \<Rightarrow> upstream_error + resolved) \<Rightarrow> ('c, 'ch) engine
   \<Rightarrow> ('c, 'ch) engine option" where
  "run_refresh ev now job pool eng =
     (case lazy_message (ev_dns ev) (rj_lazy job) of
        None \<Rightarrow> Some (eng\<lparr>eng_cache := note_refresh_failed (eng_cache eng)\<rparr>)
      | Some query \<Rightarrow>
          (case pool query of
             Inl _ \<Rightarrow> Some (eng\<lparr>eng_cache := note_refresh_failed (eng_cache eng)\<rparr>)
           | Inr r \<Rightarrow>
               if rj_memoize job then
                 (case filter_answers (ev_filter ev) (rj_filter job) placeholder_client (m_answers (res_message r)) of
                    None \<Rightarrow> None
                  | Some b \<Rightarrow>
                      let v = (case b of
                                 Some info \<Rightarrow> block_verdict info (rj_generation job)
                               | None \<Rightarrow> clean_verdict (rj_generation job))
                      in map_option (\<lambda>cache. eng\<lparr>eng_cache := cache\<rparr>)
                           (insert_with_verdict (ev_dns ev) (ev_cache ev) now (eng_cache eng) (rj_key job)
                              (res_message r) (Some v)))
               else map_option (\<lambda>cache. eng\<lparr>eng_cache := cache\<rparr>)
                      (cache_insert (ev_dns ev) (ev_cache ev) now (eng_cache eng) (rj_key job) (res_message r))))"

text \<open>One query with nothing in between.\<close>

definition handle ::
  "('c, 'ch) engine_env \<Rightarrow> pool_env \<Rightarrow> (message \<Rightarrow> nat \<Rightarrow> attempt) \<Rightarrow> u16 \<Rightarrow> finish_draw \<Rightarrow> int \<Rightarrow> int
   \<Rightarrow> ingress \<Rightarrow> ip_addr \<Rightarrow> ('c, 'ch) engine
   \<Rightarrow> (query_action \<times> engine_response \<times> ('c, 'ch) engine) option" where
  "handle ev px net rnd_id d now now' ing client_ip eng =
     (case handle_start ev d now ing client_ip eng of
        None \<Rightarrow> None
      | Some (HDone qact resp job, eng) \<Rightarrow> Some (qact, resp, eng)
      | Some (HResolve pd, eng) \<Rightarrow>
          let (res, pool) = resolve_alone (ev_dns ev) px net (pd_query pd) (es_pool (eng_state eng))
          in handle_answer ev d now' pd res (eng\<lparr>eng_state := (eng_state eng)\<lparr>es_pool := pool\<rparr>\<rparr>)
      | Some (HCname pc, eng) \<Rightarrow>
          let (res, pool) = resolve_alone (ev_dns ev) px net (cname_query rnd_id pc) (es_pool (eng_state eng))
          in handle_cname ev d pc res (eng\<lparr>eng_state := (eng_state eng)\<lparr>es_pool := pool\<rparr>\<rparr>))"

subsection \<open>Filtering looks at the record data only\<close>

lemma find_block_map: "find_block (\<lambda>x. g (h x)) xs = find_block g (map h xs)"
  by (induction xs) (auto split: option.split)

lemma filter_answers_data:
  "map r_data xs = map r_data ys \<Longrightarrow> filter_answers fx f c xs = filter_answers fx f c ys"
  by (simp add: filter_answers_def find_block_map [of _ r_data])

lemma check_block_client:
  assumes "from_rules fx rs = Some f" "\<not> has_client_dependent_rules f"
  shows "check_block fx f ci1 = check_block fx f ci2"
  using check_client_independent [OF assms, of _ _ ci1 ci2] by (simp add: check_block_def fun_eq_iff)

lemma filter_answers_client:
  assumes "from_rules fx rs = Some f" "\<not> has_client_dependent_rules f"
  shows "filter_answers fx f c1 xs = filter_answers fx f c2 xs"
proof -
  have "record_block fx f (client_info_of c1) = record_block fx f (client_info_of c2)"
    unfolding record_block_def hint_block_def check_block_client [OF assms, of "client_info_of c1" "client_info_of c2"] ..
  then show ?thesis by (simp add: filter_answers_def)
qed

text \<open>
  \<open>codec_laws\<close>: an encoded message is well formed, and decoding it, with another id and other
  TTLs too, gives back its record data. Both hold of the codec of \<open>hickory-proto\<close>.
\<close>

definition codec_laws :: "dns_ext \<Rightarrow> bool" where
  "codec_laws dx \<longleftrightarrow>
     (\<forall>m bytes. to_vec dx m = Some bytes \<longrightarrow>
        (\<exists>m'. from_vec dx bytes = Some m' \<and> m_id m' = m_id m \<and> map r_data (m_answers m') = map r_data (m_answers m))
        \<and> (\<exists>wm. bytes = enc_msg wm \<and> wire_msg_ok wm \<and>
              (\<forall>ident t. \<exists>m'. from_vec dx (enc_msg (with_id_ttl ident t wm)) = Some m' \<and> m_id m' = ident
                 \<and> map r_data (m_answers m') = map r_data (m_answers m))))"

lemma made_entry_serves:
  assumes "codec_laws dx" "made_entry dx e m v"
  shows "map r_data (cached_answers dx (serve (stored e) ident t)) = map r_data (m_answers m)
    \<and> m_id (cached_into_message dx (serve (stored e) ident t)) = ident"
proof (cases "stored e")
  case (StWire bytes offs rcode summ)
  with assms(2) have enc: "to_vec dx m = Some bytes" and offs: "scan_ttl_offsets bytes = Some offs"
    by (auto simp: made_entry_def)
  with assms(1) obtain wm where wm: "bytes = enc_msg wm" "wire_msg_ok wm"
    "\<forall>ident t. \<exists>m'. from_vec dx (enc_msg (with_id_ttl ident t wm)) = Some m' \<and> m_id m' = ident
        \<and> map r_data (m_answers m') = map r_data (m_answers m)"
    unfolding codec_laws_def by blast
  have "patch bytes ident t offs = enc_msg (with_id_ttl ident t wm)"
    using patch_enc [OF wm(2)] offs wm(1) by simp
  moreover obtain m' where "from_vec dx (enc_msg (with_id_ttl ident t wm)) = Some m'"
    "m_id m' = ident" "map r_data (m_answers m') = map r_data (m_answers m)" using wm(3) by blast
  ultimately show ?thesis using StWire by (simp add: serve_def cached_into_message_def)
next
  case (StMessage m')
  with assms(2) show ?thesis by (simp add: made_entry_def serve_def adjust_ttls_def comp_def cached_into_message_def)
qed

subsection \<open>Concurrent queries, refreshes and reloads\<close>

record ('c, 'ch) system =
  sys_engine :: "('c, 'ch) engine"
  sys_queries :: "pending_query list"
  sys_cnames :: "pending_cname list"
  sys_refreshes :: "refresh_job list"

fun add_stage :: "handle_stage \<Rightarrow> ('c, 'ch) system \<Rightarrow> ('c, 'ch) system" where
  "add_stage (HDone _ _ None) s = s"
| "add_stage (HDone _ _ (Some job)) s = s\<lparr>sys_refreshes := job # sys_refreshes s\<rparr>"
| "add_stage (HResolve pd) s = s\<lparr>sys_queries := pd # sys_queries s\<rparr>"
| "add_stage (HCname pc) s = s\<lparr>sys_cnames := pc # sys_cnames s\<rparr>"

text \<open>\<open>installed f\<close>: the filters that reloads install.\<close>

inductive sys_step ::
  "('c, 'ch) engine_env \<Rightarrow> (filter_engine \<Rightarrow> bool) \<Rightarrow> ('c, 'ch) system \<Rightarrow> ('c, 'ch) system \<Rightarrow> bool"
  for ev installed where
  query: "handle_start ev d now ing ip (sys_engine s) = Some (stage, eng) \<Longrightarrow>
    sys_step ev installed s (add_stage stage (s\<lparr>sys_engine := eng\<rparr>))"
| answer: "pd \<in> set (sys_queries s) \<Longrightarrow> handle_answer ev d now pd res (sys_engine s) = Some (a, resp, eng) \<Longrightarrow>
    sys_step ev installed s (s\<lparr>sys_engine := eng, sys_queries := remove1 pd (sys_queries s)\<rparr>)"
| cname: "pc \<in> set (sys_cnames s) \<Longrightarrow> handle_cname ev d pc res (sys_engine s) = Some (a, resp, eng) \<Longrightarrow>
    sys_step ev installed s (s\<lparr>sys_engine := eng, sys_cnames := remove1 pc (sys_cnames s)\<rparr>)"
| refresh: "job \<in> set (sys_refreshes s) \<Longrightarrow> run_refresh ev now job pool (sys_engine s) = Some eng \<Longrightarrow>
    sys_step ev installed s (s\<lparr>sys_engine := eng, sys_refreshes := remove1 job (sys_refreshes s)\<rparr>)"
| swap: "installed (es_filter st) \<Longrightarrow>
    sys_step ev installed s (s\<lparr>sys_engine := swap_state st (sys_engine s)\<rparr>)"
| tune: "sys_step ev installed s (s\<lparr>sys_engine := (sys_engine s)\<lparr>eng_cache :=
    reconfigure (ev_cache ev) en cap a b st (eng_cache (sys_engine s))\<rparr>\<rparr>)"

inductive_cases sys_stepE: "sys_step ev installed s t"

text \<open>
  A memoized verdict is honest when it is what any installed filter of that generation would
  say now, to any client, of the answers that a hit serves; an entry is servable when a hit on
  it carries the id that was asked for.
\<close>

definition servable :: "dns_ext \<Rightarrow> entry \<Rightarrow> bool" where
  "servable dx e \<longleftrightarrow> (\<forall>ident t. m_id (cached_into_message dx (serve (stored e) ident t)) = ident)"

definition honest :: "('c, 'ch) engine_env \<Rightarrow> (filter_engine \<Rightarrow> bool) \<Rightarrow> entry \<Rightarrow> bool" where
  "honest ev installed e \<longleftrightarrow> servable (ev_dns ev) e \<and>
     (\<forall>v f c ident t. verdict e = Some v \<longrightarrow> installed f \<longrightarrow> content_hash f = generation v \<longrightarrow>
        \<not> has_client_dependent_rules f \<longrightarrow>
        filter_answers (ev_filter ev) f c (cached_answers (ev_dns ev) (serve (stored e) ident t))
          = Some (case outcome v of Clean \<Rightarrow> None | OBlock info \<Rightarrow> Some info))"

text \<open>Installed filters are compiled from rules, and their content hash tells them apart.\<close>

definition filters_ok :: "filter_ext \<Rightarrow> (filter_engine \<Rightarrow> bool) \<Rightarrow> bool" where
  "filters_ok fx installed \<longleftrightarrow>
     (\<forall>f. installed f \<longrightarrow> (\<exists>rs. from_rules fx rs = Some f))
     \<and> (\<forall>f g. installed f \<longrightarrow> installed g \<longrightarrow> content_hash f = content_hash g \<longrightarrow> f = g)"

abbreviation honest_cache :: "('c, 'ch) engine_env \<Rightarrow> (filter_engine \<Rightarrow> bool) \<Rightarrow> 'c dns_cache \<Rightarrow> bool" where
  "honest_cache ev installed \<equiv> dc.all_entries (ev_cache ev) (honest ev installed)"

lemma honest_made:
  assumes "codec_laws (ev_dns ev)" "filters_ok (ev_filter ev) installed" "installed f"
    and "made_entry (ev_dns ev) e m (Some v)" "generation v = content_hash f"
    and "filter_answers (ev_filter ev) f c0 (m_answers m) = Some (case outcome v of Clean \<Rightarrow> None | OBlock info \<Rightarrow> Some info)"
  shows "honest ev installed e"
  unfolding honest_def
proof (intro conjI allI impI)
  show "servable (ev_dns ev) e" using made_entry_serves [OF assms(1,4)] by (simp add: servable_def)
  fix v' g c ident t
  assume v': "verdict e = Some v'" and g: "installed g" "content_hash g = generation v'" "\<not> has_client_dependent_rules g"
  have "v' = v" using v' assms(4) by (simp add: made_entry_def)
  then have "g = f" using g assms(2,3,5) unfolding filters_ok_def by metis
  obtain rs where "from_rules (ev_filter ev) rs = Some f" using assms(2,3) unfolding filters_ok_def by blast
  then have "filter_answers (ev_filter ev) f c = filter_answers (ev_filter ev) f c0"
    using filter_answers_client g(3) \<open>g = f\<close> by blast
  moreover have "map r_data (cached_answers (ev_dns ev) (serve (stored e) ident t)) = map r_data (m_answers m)"
    using made_entry_serves [OF assms(1,4)] by blast
  ultimately show "filter_answers (ev_filter ev) g c (cached_answers (ev_dns ev) (serve (stored e) ident t))
      = Some (case outcome v' of Clean \<Rightarrow> None | OBlock info \<Rightarrow> Some info)"
    using assms(6) filter_answers_data \<open>g = f\<close> \<open>v' = v\<close> by metis
qed

lemma honest_unmemoized:
  assumes "codec_laws (ev_dns ev)" "made_entry (ev_dns ev) e m None"
  shows "honest ev installed e"
  using made_entry_serves [OF assms] assms(2) by (simp add: honest_def servable_def made_entry_def)

lemma engine_record_keeps:
  "engine_record ev d lb a rc rrs eng = Some eng' \<Longrightarrow> eng_state eng' = eng_state eng \<and> eng_cache eng' = eng_cache eng"
  by (auto simp: engine_record_def Let_def split: if_splits option.splits)

lemma finalize_keeps:
  "finalize ev d m a lb eng = Some (resp, eng') \<Longrightarrow>
     eng_state eng' = eng_state eng \<and> eng_cache eng' = eng_cache eng \<and> resp = EMessage m"
  "finalize_wire ev d b rc rrs a lb eng = Some (resp, eng') \<Longrightarrow>
     eng_state eng' = eng_state eng \<and> eng_cache eng' = eng_cache eng \<and> resp = EWire b"
  by (auto simp: finalize_def finalize_wire_def dest: engine_record_keeps)

definition job_ok :: "(filter_engine \<Rightarrow> bool) \<Rightarrow> refresh_job \<Rightarrow> bool" where
  "job_ok installed job \<longleftrightarrow> installed (rj_filter job) \<and> rj_generation job = content_hash (rj_filter job)"

fun stage_ok :: "(filter_engine \<Rightarrow> bool) \<Rightarrow> handle_stage \<Rightarrow> bool" where
  "stage_ok installed (HDone _ _ (Some job)) = job_ok installed job"
| "stage_ok installed (HResolve pd) = installed (es_filter (pd_state pd))"
| "stage_ok installed _ = True"

lemma honest_note:
  "honest_cache ev installed (note_refresh_started c) = honest_cache ev installed c"
  "honest_cache ev installed (note_refresh_failed c) = honest_cache ev installed c"
  by (simp_all add: dc.all_entries_def)

lemma done_stageD:
  "done_stage a job r = Some (stage, eng) \<Longrightarrow> \<exists>resp. r = Some (resp, eng) \<and> stage = HDone a resp job"
  by (auto simp: done_stage_def)

lemma maybe_refresh_keeps:
  assumes "maybe_refresh st lz key hit eng = (job, eng')" "installed (es_filter st)"
  shows "eng_state eng' = eng_state eng" "honest_cache ev installed (eng_cache eng') = honest_cache ev installed (eng_cache eng)"
    "\<And>j. job = Some j \<Longrightarrow> job_ok installed j"
  using assms by (auto simp: maybe_refresh_def spawn_refresh_def honest_note job_ok_def split: if_splits)

lemma handle_hit_keeps:
  assumes "handle_hit ev d st c key lz ident lb hit eng = Some (stage, eng')" "installed (es_filter st)"
  shows "eng_state eng' = eng_state eng \<and> stage_ok installed stage
    \<and> honest_cache ev installed (eng_cache eng') = honest_cache ev installed (eng_cache eng)"
proof -
  obtain b where b: "hit_block ev st c hit = Some b" using assms(1) by (auto simp: handle_hit_def split: option.splits)
  have job: "stage_ok installed (HDone a resp j)" if "\<And>x. j = Some x \<Longrightarrow> job_ok installed x" for a resp j
    using that by (cases j) auto
  show ?thesis
  proof (cases "\<exists>info. b = Some info \<and> lazy_message (ev_dns ev) lz = None")
    case True
    then show ?thesis using assms(1) b by (auto simp: handle_hit_def dest!: done_stageD finalize_keeps)
  next
    case False
    then obtain lz' j eng1 a r where m: "maybe_refresh st lz' key hit eng = (j, eng1)"
      and fin: "done_stage a j r = Some (stage, eng')"
      and r: "(\<exists>m. r = finalize ev d m a lb eng1) \<or> (\<exists>x y z. r = finalize_wire ev d x y z a lb eng1)"
      using assms(1) b
      by (auto simp: handle_hit_def Let_def split: option.splits prod.splits cached_response.splits) blast+
    note keep = maybe_refresh_keeps [OF m, of installed, OF assms(2)]
    from done_stageD [OF fin] obtain resp where "r = Some (resp, eng')" "stage = HDone a resp j" by blast
    with r have "eng_state eng' = eng_state eng1 \<and> eng_cache eng' = eng_cache eng1" by (metis finalize_keeps)
    then show ?thesis using keep(1,2) job [OF keep(3)] \<open>stage = _\<close> by simp
  qed
qed

lemma handle_lookup_keeps:
  assumes "handle_lookup ev d now st c qf lz lb eng = Some (stage, eng')"
    and "installed (es_filter st)" "honest_cache ev installed (eng_cache eng)"
  shows "eng_state eng' = eng_state eng \<and> stage_ok installed stage \<and> honest_cache ev installed (eng_cache eng')"
proof -
  define key where "key = \<lparr>k_name = qf_name_lower qf, k_rtype = qf_rtype qf, k_class = qf_class qf,
      k_dnssec_ok = qf_dnssec_ok qf, k_checking_disabled = qf_checking_disabled qf\<rparr>"
  obtain cache h where get: "cache_get (ev_cache ev) now (eng_cache eng) key (qf_id qf) = Some (cache, h)"
    using assms(1) by (auto simp: handle_lookup_def key_def [symmetric] Let_def split: option.splits)
  have keep: "honest_cache ev installed cache" using dc.get_keeps [OF assms(3) get] .
  show ?thesis
  proof (cases h)
    case None
    then show ?thesis using assms(1,2) get keep
      by (auto simp: handle_lookup_def key_def [symmetric] Let_def dest!: done_stageD finalize_keeps split: option.splits)
  next
    case (Some hit)
    then have "handle_hit ev d st c key lz (qf_id qf) lb hit (eng\<lparr>eng_cache := cache\<rparr>) = Some (stage, eng')"
      using assms(1) get by (simp add: handle_lookup_def key_def [symmetric] Let_def)
    from handle_hit_keeps [where installed = installed, OF this assms(2)] keep show ?thesis by simp
  qed
qed

lemma handle_start_keeps:
  assumes "handle_start ev d now ing ip eng = Some (stage, eng')"
    and "installed (es_filter (eng_state eng))" "honest_cache ev installed (eng_cache eng)"
  shows "eng_state eng' = eng_state eng \<and> stage_ok installed stage \<and> honest_cache ev installed (eng_cache eng')"
  using assms unfolding handle_start_def Let_def
  by (auto dest!: done_stageD finalize_keeps handle_lookup_keeps [where installed = installed, OF _ assms(2,3)]
      split: sum.splits prod.splits if_splits option.splits verdict.splits rewritten.splits)

text \<open>The insertions memoize honest verdicts.\<close>

lemma insert_honest:
  assumes "honest_cache ev installed c" "insert_inner (ev_dns ev) (ev_cache ev) now c key m vo = Some (c', w)"
    and "codec_laws (ev_dns ev)" "filters_ok (ev_filter ev) installed" "installed f"
    and "\<And>v. vo = Some v \<Longrightarrow> generation v = content_hash f
      \<and> (\<exists>c0. filter_answers (ev_filter ev) f c0 (m_answers m) = Some (case outcome v of Clean \<Rightarrow> None | OBlock info \<Rightarrow> Some info))"
  shows "honest_cache ev installed c'"
proof (rule dc.ins_keeps [OF assms(1,2)])
  fix e assume "made_entry (ev_dns ev) e m vo"
  then show "honest ev installed e"
    using honest_unmemoized [OF assms(3)] honest_made [OF assms(3-5)] assms(6) by (cases vo) blast+
qed

lemma handle_answer_keeps:
  assumes "handle_answer ev d now pd res eng = Some (a, resp, eng')"
    and "installed (es_filter (pd_state pd))" "honest_cache ev installed (eng_cache eng)"
    and "codec_laws (ev_dns ev)" "filters_ok (ev_filter ev) installed"
  shows "eng_state eng' = eng_state eng \<and> honest_cache ev installed (eng_cache eng')"
proof (cases res)
  case (Inl e)
  then show ?thesis using assms(1,3) by (auto simp: handle_answer_def Let_def dest: finalize_keeps)
next
  case (Inr r)
  note ins = insert_honest [OF assms(3) _ assms(4,5,2)]
  let ?fa = "\<lambda>c. filter_answers (ev_filter ev) (es_filter (pd_state pd)) c (m_answers (res_message r))"
  let ?b = "if filters (pd_state pd) (pd_client pd) then ?fa (pd_client pd) else Some None"
  obtain b where b: "?b = Some b" using assms(1) Inr by (auto simp: handle_answer_def Let_def split: option.splits)
  have "\<exists>v cache w. insert_inner (ev_dns ev) (ev_cache ev) now (eng_cache eng) (pd_key pd) (res_message r) v = Some (cache, w)
      \<and> eng_state eng' = eng_state eng \<and> eng_cache eng' = cache
      \<and> (\<forall>x. v = Some x \<longrightarrow> generation x = content_hash (es_filter (pd_state pd))
          \<and> ?fa (pd_client pd) = Some (case outcome x of Clean \<Rightarrow> None | OBlock info \<Rightarrow> Some info))"
  proof (cases b)
    case (Some info)
    let ?v = "if memoizes (pd_state pd) then Some (block_verdict info (content_hash (es_filter (pd_state pd)))) else None"
    obtain cache w where "insert_inner (ev_dns ev) (ev_cache ev) now (eng_cache eng) (pd_key pd) (res_message r) ?v = Some (cache, w)"
      "eng_state eng' = eng_state eng" "eng_cache eng' = cache"
      using assms(1) Inr b Some
      by (auto simp: handle_answer_def Let_def insert_with_verdict_def dest!: finalize_keeps(1) split: option.splits if_splits)
    then show ?thesis using b Some
      by (intro exI [of _ ?v]) (auto simp: block_verdict_def split: if_splits)
  next
    case None
    show ?thesis
    proof (cases "memoizes (pd_state pd)")
      case False
      then obtain cache w where "insert_inner (ev_dns ev) (ev_cache ev) now (eng_cache eng) (pd_key pd) (res_message r) None = Some (cache, w)"
        "eng_state eng' = eng_state eng" "eng_cache eng' = cache"
        using assms(1) Inr b None
        by (auto simp: handle_answer_def Let_def insert_returning_def dest!: finalize_keeps
            split: option.splits if_splits prod.splits)
      then show ?thesis by (intro exI [of _ None]) auto
    next
      case True
      obtain b' where b': "?fa (pd_client pd) = Some b'" "filters (pd_state pd) (pd_client pd) \<Longrightarrow> b' = None"
        using assms(1) Inr b None True by (auto simp: handle_answer_def Let_def split: option.splits if_splits)
      define v where "v = (case b' of Some info \<Rightarrow> block_verdict info (content_hash (es_filter (pd_state pd)))
          | None \<Rightarrow> clean_verdict (content_hash (es_filter (pd_state pd))))"
      have "generation v = content_hash (es_filter (pd_state pd))"
        "(case outcome v of Clean \<Rightarrow> None | OBlock info \<Rightarrow> Some info) = b'"
        by (auto simp: v_def block_verdict_def clean_verdict_def split: option.split)
      moreover obtain cache w where "insert_inner (ev_dns ev) (ev_cache ev) now (eng_cache eng) (pd_key pd) (res_message r) (Some v) = Some (cache, w)"
        "eng_state eng' = eng_state eng" "eng_cache eng' = cache"
        using assms(1) Inr b None True b'
        by (auto simp: handle_answer_def Let_def insert_returning_def v_def dest!: finalize_keeps
            split: option.splits if_splits prod.splits)
      ultimately show ?thesis using b'(1) by (intro exI [of _ "Some v"]) auto
    qed
  qed
  then show ?thesis using ins by blast
qed

lemma run_refresh_keeps:
  assumes "run_refresh ev now job pool eng = Some eng'"
    and "job_ok installed job" "honest_cache ev installed (eng_cache eng)"
    and "codec_laws (ev_dns ev)" "filters_ok (ev_filter ev) installed"
  shows "eng_state eng' = eng_state eng \<and> honest_cache ev installed (eng_cache eng')"
proof (cases "\<exists>q r. lazy_message (ev_dns ev) (rj_lazy job) = Some q \<and> pool q = Inr r")
  case False
  then show ?thesis using assms(1,3)
    by (auto simp: run_refresh_def honest_note split: option.splits sum.splits)
next
  case True
  then obtain q r where q: "lazy_message (ev_dns ev) (rj_lazy job) = Some q" "pool q = Inr r" by blast
  have inst: "installed (rj_filter job)" "rj_generation job = content_hash (rj_filter job)" using assms(2) by (auto simp: job_ok_def)
  note ins = insert_honest [OF assms(3) _ assms(4,5) inst(1)]
  show ?thesis
  proof (cases "rj_memoize job")
    case False
    then obtain cache w where c: "insert_inner (ev_dns ev) (ev_cache ev) now (eng_cache eng) (rj_key job) (res_message r) None = Some (cache, w)"
      "eng' = eng\<lparr>eng_cache := cache\<rparr>"
      using assms(1) q by (auto simp: run_refresh_def cache_insert_def)
    then show ?thesis using ins [OF c(1)] by simp
  next
    case True
    then obtain b where b: "filter_answers (ev_filter ev) (rj_filter job) placeholder_client (m_answers (res_message r)) = Some b"
      using assms(1) q by (auto simp: run_refresh_def split: option.splits)
    define v where "v = (case b of Some info \<Rightarrow> block_verdict info (rj_generation job) | None \<Rightarrow> clean_verdict (rj_generation job))"
    obtain cache w where c: "insert_inner (ev_dns ev) (ev_cache ev) now (eng_cache eng) (rj_key job) (res_message r) (Some v) = Some (cache, w)"
      "eng' = eng\<lparr>eng_cache := cache\<rparr>"
      using assms(1) q True b by (auto simp: run_refresh_def insert_with_verdict_def v_def)
    have "generation v = content_hash (rj_filter job)" "(case outcome v of Clean \<Rightarrow> None | OBlock info \<Rightarrow> Some info) = b"
      using inst(2) by (auto simp: v_def block_verdict_def clean_verdict_def split: option.split)
    then show ?thesis using ins [OF c(1)] c(2) b by auto
  qed
qed

definition sys_inv :: "('c, 'ch) engine_env \<Rightarrow> (filter_engine \<Rightarrow> bool) \<Rightarrow> ('c, 'ch) system \<Rightarrow> bool" where
  "sys_inv ev installed s \<longleftrightarrow>
     installed (es_filter (eng_state (sys_engine s))) \<and> honest_cache ev installed (eng_cache (sys_engine s))
     \<and> list_all (\<lambda>pd. installed (es_filter (pd_state pd))) (sys_queries s)
     \<and> list_all (job_ok installed) (sys_refreshes s)"

lemma list_all_remove1: "list_all P xs \<Longrightarrow> list_all P (remove1 x xs)"
  by (auto simp: list_all_iff dest: notin_set_remove1)

lemma sys_inv_add_stage:
  "sys_inv ev installed s \<Longrightarrow> stage_ok installed stage \<Longrightarrow> sys_inv ev installed (add_stage stage s)"
  by (cases "(stage, s)" rule: add_stage.cases) (auto simp: sys_inv_def)

lemma sys_step_inv:
  assumes laws: "codec_laws (ev_dns ev)" "filters_ok (ev_filter ev) installed"
    and inv: "sys_inv ev installed s" and step: "sys_step ev installed s t"
  shows "sys_inv ev installed t"
  using step
proof (cases rule: sys_step.cases)
  case (query d now ing ip stage eng)
  from handle_start_keeps [where installed = installed, OF query(2)] inv
  have "sys_inv ev installed (s\<lparr>sys_engine := eng\<rparr>)" "stage_ok installed stage" by (auto simp: sys_inv_def)
  then show ?thesis using query(1) sys_inv_add_stage by blast
next
  case (answer pd d now res a resp eng)
  then have "installed (es_filter (pd_state pd))" using inv by (auto simp: sys_inv_def list_all_iff)
  from handle_answer_keeps [where installed = installed, OF answer(3) this _ laws] show ?thesis
    using inv answer(1) by (auto simp: sys_inv_def intro: list_all_remove1)
next
  case (cname pc d res a resp eng)
  then have "eng_state eng = eng_state (sys_engine s) \<and> eng_cache eng = eng_cache (sys_engine s)"
    by (auto simp: handle_cname_def Let_def dest: finalize_keeps)
  then show ?thesis using inv cname(1) by (simp add: sys_inv_def)
next
  case (refresh job now pool eng)
  then have "job_ok installed job" using inv by (auto simp: sys_inv_def list_all_iff)
  from run_refresh_keeps [where installed = installed, OF refresh(3) this _ laws] show ?thesis
    using inv refresh(1) by (auto simp: sys_inv_def intro: list_all_remove1)
next
  case (swap st)
  then show ?thesis using inv by (simp add: sys_inv_def swap_state_def)
next
  case (tune en cap a b st)
  have "honest_cache ev installed (reconfigure (ev_cache ev) en cap a b st (eng_cache (sys_engine s)))"
    using inv reconfigure_find [of "eng_cache (sys_engine s)" "ev_cache ev"]
    unfolding sys_inv_def dc.all_entries_def by (metis insertE option.distinct(1) singletonD)
  then show ?thesis using inv tune by (simp add: sys_inv_def)
qed

definition sys_init :: "('c, 'ch) engine_env \<Rightarrow> (filter_engine \<Rightarrow> bool) \<Rightarrow> ('c, 'ch) system \<Rightarrow> bool" where
  "sys_init ev installed s \<longleftrightarrow>
     installed (es_filter (eng_state (sys_engine s))) \<and> cache_wf (eng_cache (sys_engine s)) \<and> lru_laws (ev_cache ev)
     \<and> (\<forall>k e. cache_find (ev_cache ev) (eng_cache (sys_engine s)) k = Some e \<longrightarrow>
          verdict e = None \<and> servable (ev_dns ev) e)
     \<and> sys_queries s = [] \<and> sys_cnames s = [] \<and> sys_refreshes s = []"

interpretation sys: step_invariant
  "\<lambda>s. sys_init ev installed s \<and> codec_laws (ev_dns ev) \<and> filters_ok (ev_filter ev) installed"
  "sys_step ev installed"
  "\<lambda>s. sys_inv ev installed s \<and> codec_laws (ev_dns ev) \<and> filters_ok (ev_filter ev) installed"
proof unfold_locales
  fix s assume "sys_init ev installed s \<and> codec_laws (ev_dns ev) \<and> filters_ok (ev_filter ev) installed"
  then show "sys_inv ev installed s \<and> codec_laws (ev_dns ev) \<and> filters_ok (ev_filter ev) installed"
    unfolding sys_inv_def sys_init_def dc.all_entries_def by (auto simp: honest_def)
qed (blast intro: sys_step_inv)

subsection \<open>Cached answers are filtered as fresh ones\<close>

lemma hit_block_honest:
  assumes "honest_cache ev installed c" "cache_get (ev_cache ev) now c key ident = Some (c', Some hit)"
    and "installed (es_filter st)"
  shows "hit_block ev st cl hit =
    (if filters st cl then filter_answers (ev_filter ev) (es_filter st) cl (cached_answers (ev_dns ev) (hit_response hit))
     else Some None)"
proof -
  obtain e where e: "shows_entry hit e" "honest ev installed e" using dc.get_hit [OF assms(1,2)] by blast
  then obtain i t where "hit_response hit = serve (stored e) i t" "hit_verdict hit = verdict e"
    by (auto simp: shows_entry_def)
  with e(2) assms(3) show ?thesis by (simp add: hit_block_def honest_def Let_def split: option.split)
qed

lemma response_answers:
  "m_answers (response_message dx (EWire b)) = cached_answers dx (CWire b rc rrs)"
  "m_answers (response_message dx (EMessage m)) = cached_answers dx (CMessage m)"
  by (simp_all add: new_message_def split: option.split)

lemma handle_hit_cached:
  assumes "handle_hit ev d st c key lz ident lb hit eng = Some (HDone Cached resp job, eng')"
  shows "hit_block ev st c hit = Some None"
    "m_answers (response_message (ev_dns ev) resp) = cached_answers (ev_dns ev) (hit_response hit)"
proof -
  have "hit_block ev st c hit = Some None \<and>
      m_answers (response_message (ev_dns ev) resp) = cached_answers (ev_dns ev) (hit_response hit)"
    using assms
    by (auto simp: handle_hit_def Let_def blocked_action_def new_message_def
        dest!: done_stageD finalize_keeps split: option.splits prod.splits cached_response.splits)
  then show "hit_block ev st c hit = Some None"
    "m_answers (response_message (ev_dns ev) resp) = cached_answers (ev_dns ev) (hit_response hit)" by blast+
qed

lemma handle_lookup_cached:
  assumes "handle_lookup ev d now st c qf lz lb eng = Some (HDone Cached resp job, eng')"
    and "installed (es_filter st)" "honest_cache ev installed (eng_cache eng)" "filters st c"
  shows "filter_answers (ev_filter ev) (es_filter st) c (m_answers (response_message (ev_dns ev) resp)) = Some None"
proof -
  define key where "key = \<lparr>k_name = qf_name_lower qf, k_rtype = qf_rtype qf, k_class = qf_class qf,
      k_dnssec_ok = qf_dnssec_ok qf, k_checking_disabled = qf_checking_disabled qf\<rparr>"
  obtain cache hit where get: "cache_get (ev_cache ev) now (eng_cache eng) key (qf_id qf) = Some (cache, Some hit)"
    and hit: "handle_hit ev d st c key lz (qf_id qf) lb hit (eng\<lparr>eng_cache := cache\<rparr>) = Some (HDone Cached resp job, eng')"
    using assms(1)
    by (auto simp: handle_lookup_def key_def [symmetric] Let_def dest!: done_stageD split: option.splits prod.splits)
  from handle_hit_cached [OF hit] hit_block_honest [where installed = installed, OF assms(3) get assms(2), of c] assms(4) show ?thesis by simp
qed

text \<open>What is served from the cache to a filtered client passes the live filter.\<close>

lemma cached_response_clean:
  assumes "sys_inv ev installed s"
    and "handle_start ev d now ing ip (sys_engine s) = Some (HDone Cached resp job, eng')"
    and "st = eng_state (sys_engine s)" "c = identify (ev_filter ev) (es_clients st) ip" "filters st c"
  shows "filter_answers (ev_filter ev) (es_filter st) c (m_answers (response_message (ev_dns ev) resp)) = Some None"
proof -
  have inst: "installed (es_filter st)" "honest_cache ev installed (eng_cache (sys_engine s))"
    using assms(1,3) by (auto simp: sys_inv_def)
  obtain qf lz lb where "handle_lookup ev d now st c qf lz lb (sys_engine s) = Some (HDone Cached resp job, eng')"
    using assms(2-5)
    by (auto simp: handle_start_def Let_def blocked_action_def dest!: done_stageD
        split: sum.splits prod.splits if_splits option.splits verdict.splits rewritten.splits)
  from handle_lookup_cached [where installed = installed, OF this inst assms(5)] show ?thesis .
qed

text \<open>What is forwarded to a filtered client passes the filter that the query loaded.\<close>

lemma forwarded_response_clean:
  assumes "handle_answer ev d now pd res eng = Some (Forwarded u, resp, eng')"
    and "filters (pd_state pd) (pd_client pd)" "codec_laws (ev_dns ev)"
  shows "filter_answers (ev_filter ev) (es_filter (pd_state pd)) (pd_client pd)
    (m_answers (response_message (ev_dns ev) resp)) = Some None"
proof -
  obtain r where r: "res = Inr r" using assms(1) by (auto simp: handle_answer_def Let_def split: sum.splits)
  have clean: "filter_answers (ev_filter ev) (es_filter (pd_state pd)) (pd_client pd) (m_answers (res_message r)) = Some None"
    using assms(1,2) r by (auto simp: handle_answer_def Let_def blocked_action_def split: option.splits)
  have "resp = EMessage (res_message r) \<or> (\<exists>b. resp = EWire b \<and> to_vec (ev_dns ev) (res_message r) = Some b)"
    using assms(1,2) r clean
    by (auto simp: handle_answer_def Let_def insert_returning_def insert_inner_def stored_form_def
        dest!: finalize_keeps split: option.splits if_splits prod.splits)
  then have "map r_data (m_answers (response_message (ev_dns ev) resp)) = map r_data (m_answers (res_message r))"
    using assms(3) unfolding codec_laws_def by fastforce
  with clean show ?thesis using filter_answers_data by metis
qed

subsection \<open>Every response carries the id of its query\<close>

definition ingress_id :: "dns_ext \<Rightarrow> ingress \<Rightarrow> u16 \<Rightarrow> bool" where
  "ingress_id dx ing ident \<longleftrightarrow>
     (case into_parts ing of
        Inl m \<Rightarrow> m_id m = ident
      | Inr (qf, lz) \<Rightarrow> qf_id qf = ident \<and> (\<forall>m. lazy_message dx lz = Some m \<longrightarrow> m_id m = ident))"

fun stage_id :: "dns_ext \<Rightarrow> u16 \<Rightarrow> handle_stage \<Rightarrow> bool" where
  "stage_id dx ident (HDone _ resp _) \<longleftrightarrow> m_id (response_message dx resp) = ident"
| "stage_id dx ident (HResolve pd) \<longleftrightarrow> m_id (pd_query pd) = ident"
| "stage_id dx ident (HCname pc) \<longleftrightarrow> m_id (pc_message pc) = ident"

lemma answers_query_id: "answers_query query m \<Longrightarrow> m_id m = m_id query"
  by (simp add: answers_query_def)

lemma synthesized_id:
  "m_id (state_block ev st query) = m_id query" "m_id (error_response query rc) = m_id query" "m_id (formerr ident) = ident"
  using error_response_shape(1) [of query rc]
  by (auto simp: state_block_def formerr_def new_message_def answers_query_id [OF block_response_shape(1)]
      dest: answers_query_id)

lemma rewritten_id:
  "rewrite_response dx query data t = RwDone m \<Longrightarrow> m_id m = m_id query"
  "rewrite_response dx query data t = ResolveCname m target \<Longrightarrow> m_id m = m_id query"
  using rewrite_response_shape(1) [of query dx data t] by (auto dest: answers_query_id)

lemma handle_hit_id:
  assumes "handle_hit ev d st c key lz ident lb hit eng = Some (stage, eng')"
    and resp: "m_id (cached_into_message (ev_dns ev) (hit_response hit)) = ident"
    and lz: "\<And>m. lazy_message (ev_dns ev) lz = Some m \<Longrightarrow> m_id m = ident"
  shows "stage_id (ev_dns ev) ident stage"
proof (cases "hit_block ev st c hit")
  case None
  then show ?thesis using assms(1) by (simp add: handle_hit_def)
next
  case (Some b)
  show ?thesis
  proof (cases b)
    case None
    then show ?thesis using assms(1) resp Some
      by (cases "hit_response hit"; cases "maybe_refresh st lz key hit eng")
        (auto simp: handle_hit_def cached_into_message_def dest!: done_stageD finalize_keeps)
  next
    case (Some info)
    show ?thesis
    proof (cases "lazy_message (ev_dns ev) lz")
      case None
      then show ?thesis using assms(1) \<open>hit_block ev st c hit = Some b\<close> Some
        by (auto simp: handle_hit_def synthesized_id dest!: done_stageD finalize_keeps)
    next
      case (Some query)
      then show ?thesis using assms(1) lz [OF Some] \<open>hit_block ev st c hit = Some b\<close> \<open>b = Some info\<close>
        by (cases "maybe_refresh st (LMsg query) key hit eng")
          (auto simp: handle_hit_def Let_def synthesized_id dest!: done_stageD finalize_keeps)
    qed
  qed
qed

lemma handle_lookup_id:
  assumes "handle_lookup ev d now st c qf lz lb eng = Some (stage, eng')" "honest_cache ev installed (eng_cache eng)"
    and "\<And>m. lazy_message (ev_dns ev) lz = Some m \<Longrightarrow> m_id m = qf_id qf"
  shows "stage_id (ev_dns ev) (qf_id qf) stage"
proof -
  define key where "key = \<lparr>k_name = qf_name_lower qf, k_rtype = qf_rtype qf, k_class = qf_class qf,
      k_dnssec_ok = qf_dnssec_ok qf, k_checking_disabled = qf_checking_disabled qf\<rparr>"
  obtain cache h where get: "cache_get (ev_cache ev) now (eng_cache eng) key (qf_id qf) = Some (cache, h)"
    using assms(1) by (auto simp: handle_lookup_def key_def [symmetric] Let_def split: option.splits)
  show ?thesis
  proof (cases h)
    case None
    then show ?thesis using assms(1,3) get
      by (auto simp: handle_lookup_def key_def [symmetric] Let_def synthesized_id dest!: done_stageD finalize_keeps split: option.splits)
  next
    case (Some hit)
    then have hit: "handle_hit ev d st c key lz (qf_id qf) lb hit (eng\<lparr>eng_cache := cache\<rparr>) = Some (stage, eng')"
      using assms(1) get by (simp add: handle_lookup_def key_def [symmetric] Let_def)
    have "m_id (cached_into_message (ev_dns ev) (hit_response hit)) = qf_id qf"
      using cache_get_served [OF _ _ get [unfolded Some]] assms(2) unfolding dc.all_entries_def honest_def servable_def by metis
    from handle_hit_id [OF hit this assms(3)] show ?thesis .
  qed
qed

lemma handle_start_id:
  assumes "handle_start ev d now ing ip eng = Some (stage, eng')" "honest_cache ev installed (eng_cache eng)"
    and "ingress_id (ev_dns ev) ing ident"
  shows "stage_id (ev_dns ev) ident stage"
proof (cases "into_parts ing")
  case (Inl m)
  then show ?thesis using assms(1,3) by (auto simp: handle_start_def ingress_id_def synthesized_id Let_def)
next
  case (Inr p)
  obtain qf lz where p: "p = (qf, lz)" by fastforce
  have ids: "qf_id qf = ident" "\<And>m. lazy_message (ev_dns ev) lz = Some m \<Longrightarrow> m_id m = qf_id qf"
    using assms(3) Inr p by (simp_all add: ingress_id_def)
  note look = handle_lookup_id [where installed = installed, OF _ assms(2) ids(2), unfolded ids(1)]
  show ?thesis using assms(1) Inr p ids
    by (auto simp: handle_start_def Let_def synthesized_id rewritten_id dest!: done_stageD finalize_keeps look
        split: if_splits option.splits verdict.splits rewritten.splits)
qed

lemma handle_answer_id:
  assumes "handle_answer ev d now pd res eng = Some (a, resp, eng')" "codec_laws (ev_dns ev)"
    and "m_id (pd_query pd) = ident" "\<And>r. res = Inr r \<Longrightarrow> m_id (res_message r) = ident"
  shows "m_id (response_message (ev_dns ev) resp) = ident"
proof (cases res)
  case (Inl e)
  then show ?thesis using assms(1,3) by (auto simp: handle_answer_def Let_def synthesized_id dest!: finalize_keeps)
next
  case (Inr r)
  have "(\<exists>m. resp = EMessage m \<and> m_id m = ident) \<or> (\<exists>b. resp = EWire b \<and> to_vec (ev_dns ev) (res_message r) = Some b)"
    using assms(1,3,4) Inr
    by (auto simp: handle_answer_def Let_def insert_returning_def insert_inner_def stored_form_def synthesized_id
        dest!: finalize_keeps split: option.splits if_splits prod.splits)
  then show ?thesis using assms(2,4) Inr unfolding codec_laws_def by fastforce
qed

subsection \<open>Recording, refreshing and blocking\<close>

text \<open>Recording a query cannot fail, and keeps the statistics well formed.\<close>

lemma engine_record_total:
  assumes "stats_ok (eng_stats eng)"
  shows "\<exists>eng'. engine_record ev d lb a rc rrs eng = Some eng' \<and> stats_ok (eng_stats eng')"
proof -
  have rec: "\<exists>st. stats_record (ev_stats ev) slot e rtt (eng_stats eng) = Some st \<and> stats_ok st" for slot e rtt
  proof (cases "st_enabled (eng_stats eng)")
    case True
    obtain st where "stats_record (ev_stats ev) slot e rtt (eng_stats eng) = Some st" "stats_ok st"
      using assms True by (rule stats_record_spec)
    then show ?thesis by blast
  qed (use assms in \<open>simp add: stats_record_def\<close>)
  define e where "e = empty_entry\<lparr>e_time_ms := fd_time_ms d, e_client_ip := show_ip (lb_client_ip lb),
      e_question := lb_question lb, e_qtype := lb_qtype lb, e_action := a, e_allowlisted := lb_allowlisted lb,
      e_rcode := rc, e_answers := (if ql_enabled_flag (eng_log eng) then rrs else []), e_elapsed_ms := fd_elapsed_ms d\<rparr>"
  obtain st where "(if st_enabled (eng_stats eng)
      then stats_record (ev_stats ev) (fd_slot d) e (lb_upstream_rtt_ms lb) (eng_stats eng)
      else Some (eng_stats eng)) = Some st" "stats_ok st"
    using rec [of "fd_slot d" e "lb_upstream_rtt_ms lb"] assms by (cases "st_enabled (eng_stats eng)") auto
  then show ?thesis using assms unfolding engine_record_def e_def [symmetric] Let_def by simp
qed

lemma finalize_total:
  assumes "stats_ok (eng_stats eng)"
  obtains eng' where "finalize ev d m a lb eng = Some (EMessage m, eng')" "stats_ok (eng_stats eng')"
    "eng_cache eng' = eng_cache eng" "eng_state eng' = eng_state eng"
proof -
  obtain eng' where eng': "engine_record ev d lb a (rcode_label (ev_dns ev) (m_response_code m))
      (summarize_answers (ev_dns ev) (m_answers m)) eng = Some eng'" "stats_ok (eng_stats eng')"
    using engine_record_total [OF assms] by blast
  from engine_record_keeps [OF eng'(1)] eng' that show thesis by (simp add: finalize_def)
qed

text \<open>A query whose name is blocked is answered at once, with neither cache nor upstream.\<close>

lemma handle_start_blocked:
  assumes "into_parts ing = Inr (qf, lz)" "st = eng_state eng" "c = identify (ev_filter ev) (es_clients st) ip"
    and "filters st c" "stats_ok (eng_stats eng)" "lazy_message (ev_dns ev) lz = Some query"
    and "check (ev_filter ev) (es_filter st) (trim_end_matches CHR ''.'' (qf_name_lower qf))
           (rtype_label (ev_dns ev) (qf_rtype qf)) (client_info_of c) = Some (VBlock info)"
  shows "\<exists>eng'. handle_start ev d now ing ip eng
      = Some (HDone (blocked_action info) (EMessage (state_block ev st query)) None, eng')
    \<and> eng_cache eng' = eng_cache eng \<and> eng_state eng' = eng_state eng"
proof -
  obtain eng' where eng': "finalize ev d (state_block ev st query) (blocked_action info)
      (new_log_builder c (qf_qname_display qf) (rtype_label (ev_dns ev) (qf_rtype qf))) eng
      = Some (EMessage (state_block ev st query), eng')"
    "eng_cache eng' = eng_cache eng" "eng_state eng' = eng_state eng"
    using assms(5) by (rule finalize_total)
  then show ?thesis using assms by (simp add: handle_start_def done_stage_def)
qed

text \<open>A stale hit starts one refresh, with the filter of the query, and a fresh hit none.\<close>

lemma handle_hit_refresh:
  assumes "handle_hit ev d st c key lz ident lb hit eng = Some (HDone a resp job, eng')" "a \<noteq> ErrorAction"
  shows "(job \<noteq> None) = requires_refresh (hit_freshness hit)"
    "\<And>j. job = Some j \<Longrightarrow> rj_filter j = es_filter st \<and> rj_key j = key \<and> rj_memoize j = memoizes st"
    "eng_cache eng' = (if job = None then eng_cache eng else note_refresh_started (eng_cache eng))"
proof -
  obtain lz' j eng1 a' r where m: "maybe_refresh st lz' key hit eng = (j, eng1)"
    and fin: "done_stage a' j r = Some (HDone a resp job, eng')"
    and r: "(\<exists>m. r = finalize ev d m a' lb eng1) \<or> (\<exists>x y z. r = finalize_wire ev d x y z a' lb eng1)"
    using assms
    by (auto simp: handle_hit_def Let_def dest: done_stageD split: option.splits prod.splits cached_response.splits) blast+
  from done_stageD [OF fin] r have "job = j" "eng_cache eng' = eng_cache eng1" by (auto, (metis finalize_keeps)+)
  with m show "(job \<noteq> None) = requires_refresh (hit_freshness hit)"
    "\<And>j. job = Some j \<Longrightarrow> rj_filter j = es_filter st \<and> rj_key j = key \<and> rj_memoize j = memoizes st"
    "eng_cache eng' = (if job = None then eng_cache eng else note_refresh_started (eng_cache eng))"
    by (auto simp: maybe_refresh_def spawn_refresh_def split: if_splits)
qed

subsection \<open>UDP\<close>

lemma udp_max_payload_bounds: "512 \<le> udp_max_payload i \<and> udp_max_payload i \<le> 4096"
  by (simp add: udp_max_payload_def)

lemma encode_udp_fits:
  assumes "to_vec dx resp = Some bytes" "to_vec dx (truncated resp) = Some tc" "int (length tc) \<le> mx"
  shows "int (length (encode_udp dx resp mx)) \<le> mx"
    "encode_udp dx resp mx = (if int (length bytes) \<le> mx then bytes else tc)"
  using assms by (simp_all add: encode_udp_def)

end
