(* ===== verification/Service_Properties.thy ===== *)
theory Service_Properties
  imports Query_Pipeline Filter_List
begin

text \<open>
  The properties of the resolver service: the query pipeline, the upstream pool and its shared
  flights, the logs and the statistics, with the concrete inputs of their witnesses.
\<close>

section \<open>A concrete system\<close>

definition svc_rule :: build_rule where
  "svc_rule =
     \<lparr>br_rule = \<lparr>rid = 0, raw = ''||ads.com^'', act = Block, pat = Subdomain ''ads.com'', mods = None,
                  list_id = 1\<rparr>,
      badfilter = False, signature = ''||ads.com^'', index_tokens = []\<rparr>"

lemma svc_rule_ok: "buildable [svc_rule]" "\<not> client_dependent svc_rule" "list_all carries_rewrite [svc_rule]"
  "tokens_sound ref_ext (pat (br_rule svc_rule)) (index_tokens svc_rule) d"
  by (simp_all add: buildable_def svc_rule_def raws_def doms_def raw_of_def dom_text_def rule_fits_def
      starts_char_def char_boundary_def client_dependent_def continuation_byte_def carries_rewrite_def tokens_sound_def)

definition svc_filter :: filter_engine where
  "svc_filter = the (from_rules ref_ext [svc_rule])"

lemma svc_filter_built: "from_rules ref_ext [svc_rule] = Some svc_filter"
  using check_verdict [OF ref_regex_laws ref_sort_laws svc_rule_ok(1,3)] svc_rule_ok(4)
  by (fastforce simp: svc_filter_def)

lemma svc_check:
  "\<exists>v. check ref_ext svc_filter domain rtype ci = Some v
     \<and> v = (if eligible ref_ext (br_rule svc_rule) (query_name domain) rtype ci
            then verdict_of 0 (br_rule svc_rule) else VAllow None)"
proof -
  obtain v where "check ref_ext svc_filter domain rtype ci = Some v"
    "verdict_ok ref_ext [svc_rule] [svc_rule] (query_name domain) rtype ci v"
    using check_verdict [OF ref_regex_laws ref_sort_laws svc_rule_ok(1,3), of domain rtype ci] svc_rule_ok(4) svc_filter_built
    by auto
  then show ?thesis by (auto simp: verdict_ok_def split: if_splits)
qed

lemma svc_rule_eligible:
  "eligible ref_ext (br_rule svc_rule) d rtype ci \<longleftrightarrow> rule_matches ref_ext (br_rule svc_rule) d"
  by (simp add: eligible_def mods_apply_def svc_rule_def)

definition svc_wire :: wire_msg where
  "svc_wire =
     \<lparr>wm_id = 7, wm_flags = (1, 0),
      wm_questions = [\<lparr>wq_name = \<lparr>wn_labels = [[111, 107], [111, 114, 103]], wn_pointer = None\<rparr>, wq_type = 1, wq_class = 1\<rparr>],
      wm_answers = [\<lparr>wr_name = \<lparr>wn_labels = [], wn_pointer = Some (192, 12)\<rparr>, wr_type = 1,
                     wr_class = 1, wr_ttl = 300, wr_rdata = [1, 2, 3, 4]\<rparr>],
      wm_authorities = [], wm_additionals = []\<rparr>"

definition svc_message :: message where
  "svc_message = (new_message 7 MtResponse 0)
     \<lparr>m_queries := [\<lparr>qry_name = ''ok.org.'', qry_type = 1, qry_class = 1\<rparr>],
      m_answers := [from_rdata ''ok.org.'' 300 (RD_A 0x01020304)]\<rparr>"

text \<open>A codec for the messages whose only answer is this address.\<close>

definition svc_dns :: dns_ext where
  "svc_dns =
     \<lparr>to_vec = (\<lambda>m. if map r_data (m_answers m) = [RD_A 0x01020304]
                     then Some (enc_msg (svc_wire\<lparr>wm_id := m_id m\<rparr>)) else None),
      from_vec = (\<lambda>b. Some (svc_message\<lparr>m_id := field16 b 0\<rparr>)),
      name_from_str = Some, name_eq_ignore_root = (=),
      edns_default = \<lparr>ed_version = 0, ed_max_payload = 512, ed_dnssec_ok = False, ed_options = []\<rparr>,
      edns_payload_set = max 512, rdata_display = (\<lambda>_. []), rtype_display = (\<lambda>_. ''A''),
      rcode_debug_upper = (\<lambda>_. [])\<rparr>"

lemma enc_msg_id: "field16 (enc_msg wm) 0 = wm_id wm"
  using field16_at [of "[]" 0 "wm_id wm"] by (simp add: enc_msg_def enc_header_def)

lemma wire_msg_ok_id: "wire_msg_ok (wm\<lparr>wm_id := i\<rparr>) = wire_msg_ok wm"
  by (simp add: wire_msg_ok_def enc_msg_def enc_header_def all_rrs_def)

lemma svc_codec: "codec_laws svc_dns"
proof -
  have "wire_msg_ok svc_wire" by code_simp
  then have "wire_msg_ok (svc_wire\<lparr>wm_id := i\<rparr>)" for i by (simp add: wire_msg_ok_id)
  then show ?thesis
    unfolding codec_laws_def
    by (auto simp: svc_dns_def enc_msg_id with_id_ttl_def svc_message_def from_rdata_def split: if_splits
        intro!: exI [of _ "svc_wire\<lparr>wm_id := _\<rparr>"])
qed

abbreviation svc_key :: query_key where
  "svc_key \<equiv> \<lparr>k_name = ''ok.org.'', k_rtype = 1, k_class = 1, k_dnssec_ok = False, k_checking_disabled = False\<rparr>"

abbreviation svc_empty_cache :: "(nat \<times> (query_key \<times> entry) list) dns_cache" where
  "svc_empty_cache \<equiv> new_cache lru_ref 10 0 86400 60"

definition svc_cache :: "(nat \<times> (query_key \<times> entry) list) dns_cache" where
  "svc_cache = fst (the (insert_inner svc_dns lru_ref 0 svc_empty_cache svc_key svc_message None))"

definition svc_pool :: upstream_pool where
  "svc_pool = \<lparr>p_upstreams = [], p_leader = None, p_settings = default_settings, p_bootstrap = new_bootstrap []\<rparr>"

definition svc_engine :: "(nat \<times> (query_key \<times> entry) list, unit) engine" where
  "svc_engine =
     \<lparr>eng_state = \<lparr>es_filter = svc_filter, es_pool = svc_pool, es_clients = \<lparr>cm_hosts = Map.empty, cm_entries = []\<rparr>,
                   es_filtering_enabled = True, es_blocking_mode = NxDomainMode, es_block_v4 = 0, es_block_v6 = 0,
                   es_blocked_ttl = 10\<rparr>,
      eng_cache = svc_cache, eng_log = new_query_log False False,
      eng_stats = new_stats \<lparr>ord_counts = id, ord_sums = id, ord_hists = id, inner_to_json = (\<lambda>_. None),
        inner_from_json = (\<lambda>_. None), stats_parallelism = None\<rparr> False 1 False\<rparr>"

definition svc_env :: "(nat \<times> (query_key \<times> entry) list, unit) engine_env" where
  "svc_env =
     \<lparr>ev_filter = ref_ext, ev_dns = svc_dns, ev_cache = lru_ref,
      ev_stats = \<lparr>ord_counts = id, ord_sums = id, ord_hists = id, inner_to_json = (\<lambda>_. None),
        inner_from_json = (\<lambda>_. None), stats_parallelism = None\<rparr>,
      ev_send = (\<lambda>_ _. None)\<rparr>"

definition svc_system :: "(nat \<times> (query_key \<times> entry) list, unit) system" where
  "svc_system = \<lparr>sys_engine = svc_engine, sys_queries = [], sys_cnames = [], sys_refreshes = []\<rparr>"

definition svc_installed :: "filter_engine \<Rightarrow> bool" where
  "svc_installed f \<longleftrightarrow> f = svc_filter"

definition svc_query :: "u16 \<Rightarrow> string \<Rightarrow> ingress" where
  "svc_query ident name = IFull ((new_message ident MtQuery 0)\<lparr>m_queries := [\<lparr>qry_name = name, qry_type = 1, qry_class = 1\<rparr>]\<rparr>)"

definition svc_draw :: finish_draw where
  "svc_draw = \<lparr>fd_time_ms = 0, fd_elapsed_ms = 0, fd_slot = 0\<rparr>"

lemma svc_ttl: "cacheable_ttl svc_empty_cache svc_message = Some 300" by code_simp

lemma svc_empty_ok: "cache_wf svc_empty_cache" "c_enabled svc_empty_cache"
  by (simp_all add: new_cache_wf) (simp add: new_cache_def Let_def)

lemma svc_empty_find: "cache_find lru_ref svc_empty_cache k = None"
proof -
  have "shards svc_empty_cache = replicate (shard_count (parallelism lru_ref)) (lru_new lru_ref (shard_cap 10 (shard_count (parallelism lru_ref))))"
    by (simp add: new_cache_def Let_def)
  then show ?thesis using shard_index_less [OF svc_empty_ok(1), of lru_ref k] lru_ref_laws
    by (simp add: cache_find_def shard_view_def lru_laws_def)
qed

lemma svc_cache_insert:
  "\<exists>sv. insert_inner svc_dns lru_ref 0 svc_empty_cache svc_key svc_message None = Some (svc_cache, sv)"
proof -
  obtain c' sv where "insert_inner svc_dns lru_ref 0 svc_empty_cache svc_key svc_message None = Some (c', sv)"
    using insert_inner_total [OF svc_empty_ok(1)] by fast
  then show ?thesis by (simp add: svc_cache_def)
qed

lemma svc_cache_entry:
  "cache_wf svc_cache" "cache_find lru_ref svc_cache k = Some e \<Longrightarrow> made_entry svc_dns e svc_message None"
proof -
  obtain sv where ins: "insert_inner svc_dns lru_ref 0 svc_empty_cache svc_key svc_message None = Some (svc_cache, sv)"
    using svc_cache_insert by blast
  from insert_inner_sound [OF svc_empty_ok(1) lru_ref_laws ins] svc_empty_find
  show "cache_wf svc_cache" "cache_find lru_ref svc_cache k = Some e \<Longrightarrow> made_entry svc_dns e svc_message None" by auto
qed

lemma svc_init: "sys_init svc_env svc_installed svc_system" "filters_ok (ev_filter svc_env) svc_installed" "codec_laws (ev_dns svc_env)"
proof -
  have "verdict e = None \<and> servable svc_dns e" if "cache_find lru_ref svc_cache k = Some e" for k e
    using made_entry_serves [OF svc_codec svc_cache_entry(2) [OF that]] svc_cache_entry(2) [OF that]
    by (simp add: servable_def made_entry_def)
  then show "sys_init svc_env svc_installed svc_system"
    using svc_cache_entry(1) lru_ref_laws
    by (simp add: sys_init_def svc_installed_def svc_system_def svc_engine_def svc_env_def)
  show "filters_ok (ev_filter svc_env) svc_installed" "codec_laws (ev_dns svc_env)"
    using svc_filter_built svc_codec by (auto simp: filters_ok_def svc_installed_def svc_env_def)
qed


lemma svc_hit:
  "\<exists>c'. cache_get lru_ref 0 svc_cache svc_key 9 =
     Some (c', Some \<lparr>hit_response = CWire (enc_msg (with_id_ttl 9 300 svc_wire)) 0 [''A ''], hit_freshness = Fresh, hit_verdict = None\<rparr>)"
proof -
  obtain sv where ins: "insert_inner svc_dns lru_ref 0 svc_empty_cache svc_key svc_message None = Some (svc_cache, sv)"
    using svc_cache_insert by blast
  have el: "elapsed_secs 0 0 = 0" by code_simp
  have "elapsed_secs 0 0 < uint (300 :: u32)" unfolding el by simp
  from get_after_insert [OF svc_empty_ok(1) lru_ref_laws svc_empty_ok(2) svc_ttl ins this, of 9]
  obtain c' where "cache_get lru_ref 0 svc_cache svc_key 9 =
     Some (c', Some \<lparr>hit_response = serve (fst (stored_form svc_dns svc_empty_cache svc_message)) 9 300,
                     hit_freshness = Fresh, hit_verdict = None\<rparr>)" unfolding el by auto
  moreover have "to_vec svc_dns svc_message = Some (enc_msg svc_wire)"
    by (simp add: svc_dns_def svc_message_def from_rdata_def new_message_def svc_wire_def)
  moreover have "wire_msg_ok svc_wire" by code_simp
  ultimately show ?thesis
    by (auto simp: serve_stored_wire) (simp_all add: new_cache_def Let_def svc_message_def new_message_def from_rdata_def summarize_def svc_dns_def)
qed

lemma svc_passes:
  "check ref_ext svc_filter ''ok.org'' ''A'' ci = Some (VAllow None)"
  "check ref_ext svc_filter ''1.2.3.4'' ''A'' ci = Some (VAllow None)"
  "check ref_ext svc_filter ''ads.com'' ''A'' ci = Some (VBlock \<lparr>mi_rule = ''||ads.com^'', mi_list_id = 1, mi_rule_id = 0\<rparr>)"
proof -
  have q: "query_name ''ok.org'' = ''ok.org''" "query_name ''1.2.3.4'' = ''1.2.3.4''" "query_name ''ads.com'' = ''ads.com''"
    by code_simp+
  have m: "\<not> rule_matches ref_ext (br_rule svc_rule) ''ok.org''" "\<not> rule_matches ref_ext (br_rule svc_rule) ''1.2.3.4''"
    "rule_matches ref_ext (br_rule svc_rule) ''ads.com''"
    by (simp_all add: rule_matches_def svc_rule_def is_subdomain_of_def ends_with_def)
  have v: "verdict_of 0 (br_rule svc_rule) = VBlock \<lparr>mi_rule = ''||ads.com^'', mi_list_id = 1, mi_rule_id = 0\<rparr>"
    by (simp add: verdict_of_def svc_rule_def)
  show "check ref_ext svc_filter ''ok.org'' ''A'' ci = Some (VAllow None)"
    "check ref_ext svc_filter ''1.2.3.4'' ''A'' ci = Some (VAllow None)"
    "check ref_ext svc_filter ''ads.com'' ''A'' ci = Some (VBlock \<lparr>mi_rule = ''||ads.com^'', mi_list_id = 1, mi_rule_id = 0\<rparr>)"
    using svc_check [of "''ok.org''" "''A''" ci] svc_check [of "''1.2.3.4''" "''A''" ci] svc_check [of "''ads.com''" "''A''" ci]
    by (simp_all add: q svc_rule_eligible m v)
qed

abbreviation svc_client :: resolved_client where
  "svc_client \<equiv> \<lparr>rc_ip = V4 1, rc_name = None, rc_tags = [], rc_filtering_enabled = True\<rparr>"

lemma svc_identify: "identify ref_ext (es_clients (eng_state svc_engine)) (V4 1) = svc_client"
  by (simp add: identify_def best_match_def svc_engine_def)

lemma svc_filters: "filters (eng_state svc_engine) svc_client"
  by (simp add: filters_def svc_engine_def)

lemma svc_parts:
  "into_parts (svc_query ident name) = Inr (\<lparr>qf_id = ident, qf_rtype = 1, qf_class = 1, qf_qname_display = name,
      qf_name_lower = to_ascii_lowercase name, qf_dnssec_ok = False, qf_checking_disabled = False\<rparr>,
    LMsg ((new_message ident MtQuery 0)\<lparr>m_queries := [\<lparr>qry_name = name, qry_type = 1, qry_class = 1\<rparr>]\<rparr>))"
  by (simp add: svc_query_def fields_from_message_def dnssec_ok_def new_message_def)

lemma svc_hit_clean:
  "hit_block svc_env (eng_state svc_engine) svc_client
     \<lparr>hit_response = CWire (enc_msg (with_id_ttl 9 300 svc_wire)) 0 [''A ''], hit_freshness = Fresh, hit_verdict = None\<rparr> = Some None"
proof -
  have "show_ip (V4 0x01020304) = ''1.2.3.4''" by code_simp
  then show ?thesis
    by (simp add: hit_block_def svc_filters svc_env_def svc_dns_def svc_engine_def svc_message_def from_rdata_def
        filter_answers_def record_block_def check_block_def svc_passes block_of_def)
qed

lemma svc_quiet: "\<not> st_enabled (eng_stats svc_engine)" "\<not> ql_enabled_flag (eng_log svc_engine)" "stats_ok (eng_stats svc_engine)"
  by (simp_all add: svc_engine_def new_stats_ok) (simp_all add: new_stats_def new_query_log_def Let_def)

lemma svc_cached:
  "\<exists>eng'. handle_start svc_env svc_draw 0 (svc_query 9 ''ok.org.'') (V4 1) svc_engine =
     Some (HDone Cached (EWire (enc_msg (with_id_ttl 9 300 svc_wire))) None, eng')"
proof -
  have name: "to_ascii_lowercase ''ok.org.'' = ''ok.org.''" "trim_end_matches CHR ''.'' ''ok.org.'' = ''ok.org''"
    "rtype_label svc_dns 1 = ''A''" by code_simp+
  obtain c' where get: "cache_get lru_ref 0 svc_cache svc_key 9 = Some (c', Some
      \<lparr>hit_response = CWire (enc_msg (with_id_ttl 9 300 svc_wire)) 0 [''A ''], hit_freshness = Fresh, hit_verdict = None\<rparr>)"
    using svc_hit by blast
  have env: "ev_dns svc_env = svc_dns" "ev_cache svc_env = lru_ref" "eng_cache svc_engine = svc_cache"
    "es_filter (eng_state svc_engine) = svc_filter" "ev_filter svc_env = ref_ext"
    by (simp_all add: svc_env_def svc_engine_def)
  show ?thesis
    by (simp add: handle_start_def svc_parts svc_identify svc_filters handle_lookup_def handle_hit_def env name svc_passes
        get svc_hit_clean maybe_refresh_def requires_refresh_def finalize_wire_def engine_record_def svc_quiet done_stage_def Let_def
        del: dns_cache.update_convs)
qed

section \<open>The query pipeline\<close>

text \<open>
  C3. Memoized verdicts are honest. In every state that concurrent queries, background refreshes
  and reloads can reach, judging a cache hit by the verdict stored with it gives what the live
  filter says of the answers that the hit serves, for every client. The content hashes of
  installed filters are assumed distinct.
\<close>

theorem memoized_verdicts_honest:
  assumes "sys_init ev installed s0" "codec_laws (ev_dns ev)" "filters_ok (ev_filter ev) installed"
    and "(sys_step ev installed)\<^sup>*\<^sup>* s0 s"
    and "cache_get (ev_cache ev) now (eng_cache (sys_engine s)) key ident = Some (c', Some hit)"
    and "filters (eng_state (sys_engine s)) c"
  shows "hit_block ev (eng_state (sys_engine s)) c hit
    = filter_answers (ev_filter ev) (es_filter (eng_state (sys_engine s))) c (cached_answers (ev_dns ev) (hit_response hit))"
proof -
  have "sys_inv ev installed s" using sys.reachable_inv [where ev = ev and installed = installed] assms(1-4) by blast
  then have inst: "installed (es_filter (eng_state (sys_engine s)))" "honest_cache ev installed (eng_cache (sys_engine s))"
    by (simp_all add: sys_inv_def)
  show ?thesis using hit_block_honest [where installed = installed, OF inst(2) assms(5) inst(1)] assms(6) by simp
qed

theorem memoized_verdicts_honest_witness:
  "\<exists>c' hit. cache_get lru_ref 0 svc_cache svc_key 9 = Some (c', Some hit) \<and> hit_block svc_env (eng_state svc_engine) svc_client hit
    = filter_answers ref_ext svc_filter svc_client (cached_answers svc_dns (hit_response hit))"
proof -
  have env: "ev_dns svc_env = svc_dns" "ev_cache svc_env = lru_ref" "eng_cache (sys_engine svc_system) = svc_cache"
    "es_filter (eng_state (sys_engine svc_system)) = svc_filter" "ev_filter svc_env = ref_ext" "sys_engine svc_system = svc_engine"
    "eng_cache svc_engine = svc_cache"
    by (simp_all add: svc_env_def svc_engine_def svc_system_def)
  obtain c' hit where get: "cache_get lru_ref 0 svc_cache svc_key 9 = Some (c', Some hit)" using svc_hit by blast
  have "hit_block svc_env (eng_state (sys_engine svc_system)) svc_client hit
    = filter_answers (ev_filter svc_env) (es_filter (eng_state (sys_engine svc_system))) svc_client
        (cached_answers (ev_dns svc_env) (hit_response hit))"
    by (rule memoized_verdicts_honest [OF svc_init(1,3,2), where c' = c' and now = 0 and key = svc_key and ident = 9])
      (simp_all add: env get svc_filters)
  then show ?thesis using get env by auto
qed

text \<open>
  C2. Nothing that the filter blocks is served from the cache. In every reachable state, when a
  query of a filtered client is answered from the cache, no address, alias or address hint
  among the answers of the response is blocked by the live filter.
\<close>

theorem cached_answers_filtered:
  assumes "sys_init ev installed s0" "codec_laws (ev_dns ev)" "filters_ok (ev_filter ev) installed"
    and "(sys_step ev installed)\<^sup>*\<^sup>* s0 s"
    and "handle_start ev d now ing ip (sys_engine s) = Some (HDone Cached resp job, eng')"
    and "filters (eng_state (sys_engine s)) (identify (ev_filter ev) (es_clients (eng_state (sys_engine s))) ip)"
  shows "filter_answers (ev_filter ev) (es_filter (eng_state (sys_engine s)))
    (identify (ev_filter ev) (es_clients (eng_state (sys_engine s))) ip)
    (m_answers (response_message (ev_dns ev) resp)) = Some None"
proof -
  have "sys_inv ev installed s" using sys.reachable_inv [where ev = ev and installed = installed] assms(1-4) by blast
  from cached_response_clean [OF this assms(5) refl refl assms(6)] show ?thesis .
qed

theorem cached_answers_filtered_witness:
  "\<exists>resp eng'. handle_start svc_env svc_draw 0 (svc_query 9 ''ok.org.'') (V4 1) svc_engine = Some (HDone Cached resp None, eng')
    \<and> filter_answers ref_ext svc_filter svc_client (m_answers (response_message svc_dns resp)) = Some None"
proof -
  have env: "ev_dns svc_env = svc_dns" "es_filter (eng_state (sys_engine svc_system)) = svc_filter" "ev_filter svc_env = ref_ext"
    "sys_engine svc_system = svc_engine" "es_filter (eng_state svc_engine) = svc_filter"
    by (simp_all add: svc_env_def svc_engine_def svc_system_def)
  obtain resp eng' where h: "handle_start svc_env svc_draw 0 (svc_query 9 ''ok.org.'') (V4 1) svc_engine = Some (HDone Cached resp None, eng')"
    using svc_cached by blast
  have "filter_answers (ev_filter svc_env) (es_filter (eng_state (sys_engine svc_system)))
      (identify (ev_filter svc_env) (es_clients (eng_state (sys_engine svc_system))) (V4 1))
      (m_answers (response_message (ev_dns svc_env) resp)) = Some None"
    by (rule cached_answers_filtered [OF svc_init(1,3,2), where now = 0 and d = svc_draw and ing = "svc_query 9 ''ok.org.''" and eng' = eng'])
      (simp_all add: env h svc_identify svc_filters)
  then show ?thesis using h by (auto simp: env svc_identify)
qed

text \<open>
  C4. Nothing that the filter blocks is forwarded: when a query of a filtered client is answered
  with what an upstream said, the filter that the query loaded blocks none of the answers.
\<close>

theorem forwarded_answers_filtered:
  assumes "codec_laws (ev_dns ev)" "filters (pd_state pd) (pd_client pd)"
    and "handle_answer ev d now pd res eng = Some (Forwarded u, resp, eng')"
  shows "filter_answers (ev_filter ev) (es_filter (pd_state pd)) (pd_client pd)
    (m_answers (response_message (ev_dns ev) resp)) = Some None"
  using forwarded_response_clean [OF assms(3,2,1)] .


definition svc_pending :: pending_query where
  "svc_pending =
     \<lparr>pd_state = eng_state svc_engine, pd_client = svc_client, pd_key = svc_key,
      pd_query = (new_message 9 MtQuery 0)\<lparr>m_queries := [\<lparr>qry_name = ''ok.org.'', qry_type = 1, qry_class = 1\<rparr>]\<rparr>,
      pd_log = new_log_builder svc_client ''ok.org.'' ''A''\<rparr>"

definition svc_resolved :: resolved where
  "svc_resolved = \<lparr>res_message = svc_message\<lparr>m_id := 9\<rparr>, res_upstream = ''up'', res_rtt_ms = 1\<rparr>"

lemma svc_forwarded:
  "\<exists>resp eng'. handle_answer svc_env svc_draw 0 svc_pending (Inr svc_resolved) svc_engine = Some (Forwarded ''up'', resp, eng')"
proof -
  have "show_ip (V4 0x01020304) = ''1.2.3.4''" by code_simp
  then have clean: "filter_answers ref_ext svc_filter svc_client (m_answers svc_message) = Some None"
    by (simp add: svc_message_def from_rdata_def filter_answers_def record_block_def check_block_def svc_passes block_of_def)
  have env: "ev_dns svc_env = svc_dns" "ev_cache svc_env = lru_ref" "eng_cache svc_engine = svc_cache"
    "es_filter (eng_state svc_engine) = svc_filter" "ev_filter svc_env = ref_ext"
    by (simp_all add: svc_env_def svc_engine_def)
  have ins: "insert_inner svc_dns lru_ref 0 svc_cache svc_key (svc_message\<lparr>m_id := 9\<rparr>) v \<noteq> None" for v
    by (rule insert_inner_total [OF svc_cache_entry(1)])
  have rec: "engine_record svc_env svc_draw lb qact rc rrs (svc_engine\<lparr>eng_cache := c\<rparr>) \<noteq> None" for lb qact rc rrs c
    by (simp add: engine_record_def svc_quiet Let_def)
  obtain c' sv where got: "insert_inner svc_dns lru_ref 0 svc_cache svc_key (svc_message\<lparr>m_id := 9\<rparr>)
      (if memoizes (eng_state svc_engine) then Some (clean_verdict (content_hash svc_filter)) else None) = Some (c', sv)"
    using ins by fast
  show ?thesis
    using got rec
    by (cases "memoizes (eng_state svc_engine)"; cases sv)
      (fastforce simp: handle_answer_def svc_pending_def svc_resolved_def clean env svc_filters insert_returning_def
        finalize_def finalize_wire_def Let_def)+
qed

theorem forwarded_answers_filtered_witness:
  "\<exists>resp. filter_answers ref_ext svc_filter svc_client (m_answers (response_message svc_dns resp)) = Some None"
proof -
  have env: "ev_dns svc_env = svc_dns" "es_filter (pd_state svc_pending) = svc_filter" "ev_filter svc_env = ref_ext"
    "pd_client svc_pending = svc_client" "pd_state svc_pending = eng_state svc_engine"
    by (simp_all add: svc_env_def svc_engine_def svc_pending_def)
  obtain resp eng' where "handle_answer svc_env svc_draw 0 svc_pending (Inr svc_resolved) svc_engine = Some (Forwarded ''up'', resp, eng')"
    using svc_forwarded by blast
  from forwarded_answers_filtered [OF svc_init(3) _ this] show ?thesis
    unfolding env(5) using svc_filters env by auto
qed

text \<open>
  C24. A query that the filter blocks is answered at once. When the client is filtered and the
  filter blocks the queried name, the handler finishes with the synthesized block response and
  the rule that blocked it, asks no upstream, and leaves the cache as it is.
\<close>

theorem blocked_query_answered:
  assumes "into_parts ing = Inr (qf, lz)" "st = eng_state eng" "c = identify (ev_filter ev) (es_clients st) ip"
    and "filters st c" "stats_ok (eng_stats eng)" "lazy_message (ev_dns ev) lz = Some query"
    and "check (ev_filter ev) (es_filter st) (trim_end_matches CHR ''.'' (qf_name_lower qf))
           (rtype_label (ev_dns ev) (qf_rtype qf)) (client_info_of c) = Some (VBlock info)"
  shows "\<exists>eng'. handle_start ev d now ing ip eng
      = Some (HDone (blocked_action info) (EMessage (state_block ev st query)) None, eng')
    \<and> eng_cache eng' = eng_cache eng \<and> eng_state eng' = eng_state eng"
  by (rule handle_start_blocked [OF assms])

theorem blocked_query_answered_witness:
  "\<exists>resp eng'. handle_start svc_env svc_draw 0 (svc_query 9 ''ads.com.'') (V4 1) svc_engine
      = Some (HDone (Blocked ''||ads.com^'' 1) resp None, eng') \<and> eng_cache eng' = svc_cache"
proof -
  have name: "to_ascii_lowercase ''ads.com.'' = ''ads.com.''" "trim_end_matches CHR ''.'' ''ads.com.'' = ''ads.com''"
    "rtype_label svc_dns 1 = ''A''" by code_simp+
  have env: "ev_dns svc_env = svc_dns" "es_filter (eng_state svc_engine) = svc_filter" "ev_filter svc_env = ref_ext"
    "eng_cache svc_engine = svc_cache"
    by (simp_all add: svc_env_def svc_engine_def)
  have "\<exists>eng'. handle_start svc_env svc_draw 0 (svc_query 9 ''ads.com.'') (V4 1) svc_engine
      = Some (HDone (blocked_action \<lparr>mi_rule = ''||ads.com^'', mi_list_id = 1, mi_rule_id = 0\<rparr>)
          (EMessage (state_block svc_env (eng_state svc_engine)
             ((new_message 9 MtQuery 0)\<lparr>m_queries := [\<lparr>qry_name = ''ads.com.'', qry_type = 1, qry_class = 1\<rparr>]\<rparr>))) None, eng')
    \<and> eng_cache eng' = eng_cache svc_engine \<and> eng_state eng' = eng_state svc_engine"
    by (rule blocked_query_answered [OF svc_parts refl refl])
      (simp_all add: env name svc_identify svc_filters svc_quiet svc_passes)
  then show ?thesis by (auto simp: blocked_action_def env)
qed

text \<open>
  C25. Every response carries the id of its query: in every reachable state, what the handler
  answers at once (a cached, blocked, rewritten or error response) has the id that the client
  sent, whatever the cache holds.
\<close>

theorem response_id_echoed:
  assumes "sys_init ev installed s0" "codec_laws (ev_dns ev)" "filters_ok (ev_filter ev) installed"
    and "(sys_step ev installed)\<^sup>*\<^sup>* s0 s"
    and "handle_start ev d now ing ip (sys_engine s) = Some (HDone a resp job, eng')" "ingress_id (ev_dns ev) ing ident"
  shows "m_id (response_message (ev_dns ev) resp) = ident"
proof -
  have "sys_inv ev installed s" using sys.reachable_inv [where ev = ev and installed = installed] assms(1-4) by blast
  then have "honest_cache ev installed (eng_cache (sys_engine s))" by (simp add: sys_inv_def)
  from handle_start_id [where installed = installed, OF assms(5) this assms(6)] show ?thesis by simp
qed

theorem response_id_echoed_witness:
  "\<exists>resp eng'. handle_start svc_env svc_draw 0 (svc_query 9 ''ok.org.'') (V4 1) svc_engine = Some (HDone Cached resp None, eng')
    \<and> m_id (response_message svc_dns resp) = 9"
proof -
  have env: "ev_dns svc_env = svc_dns" "sys_engine svc_system = svc_engine"
    by (simp_all add: svc_env_def svc_system_def)
  obtain resp eng' where h: "handle_start svc_env svc_draw 0 (svc_query 9 ''ok.org.'') (V4 1) svc_engine = Some (HDone Cached resp None, eng')"
    using svc_cached by blast
  have "m_id (response_message (ev_dns svc_env) resp) = 9"
    by (rule response_id_echoed [OF svc_init(1,3,2), where s = svc_system and now = 0 and d = svc_draw and ing = "svc_query 9 ''ok.org.''" and eng' = eng' and ip = "V4 1" and a = Cached and job = None])
      (simp_all add: env h ingress_id_def svc_parts new_message_def)
  then show ?thesis using h by (auto simp: env)
qed

end
