(* ===== verification/Upstream_Properties.thy ===== *)
theory Upstream_Properties
  imports Single_Flight Upstream_Spec
begin

text \<open>
  The properties of the upstream pool, \<open>crates/bulwark-upstream/src/pool.rs\<close>: failover, the order
  in which upstreams are tried, health, and the sharing of flights between concurrent calls.
\<close>

section \<open>A concrete pool\<close>

definition up_demo_spec :: upstream_spec where
  "up_demo_spec =
     \<lparr>sp_kind = Udp, sp_host = HostIp (V4 0x01010101), sp_port = 53, sp_path = ''/dns-query'', sp_force_http3 = False,
      sp_display = ''udp://1.1.1.1:53/dns-query''\<rparr>"

definition up_demo :: "string \<Rightarrow> bool \<Rightarrow> upstream" where
  "up_demo name ok =
     \<lparr>up_spec = up_demo_spec, up_name = name, up_transport = UdpTransport \<lparr>sa_ip = V4 0x01010101, sa_port = 53\<rparr>,
      up_health = default_health\<lparr>h_up := ok\<rparr>\<rparr>"

definition up_pool :: upstream_pool where
  "up_pool = \<lparr>p_upstreams = [up_demo ''down'' False, up_demo ''up'' True], p_leader = None,
     p_settings = default_settings, p_bootstrap = new_bootstrap []\<rparr>"

definition up_query :: message where
  "up_query = (new_message 5 MtQuery 0)\<lparr>m_queries := [\<lparr>qry_name = ''a.b.'', qry_type = 1, qry_class = 1\<rparr>]\<rparr>"

definition up_answer :: "u16 \<Rightarrow> message" where
  "up_answer rcode = (new_message 5 MtResponse 0)\<lparr>m_response_code := rcode\<rparr>"

definition up_px :: pool_env where
  "up_px = \<lparr>px_rcode_debug = (\<lambda>_. ''X''), px_lowercase = id, px_server_name = (\<lambda>_. None),
     px_boot = \<lparr>bx_name = Inr, bx_set_fqdn = id, bx_udp = (\<lambda>_ _. ATimeout)\<rparr>\<rparr>"

text \<open>One upstream times out, the other answers.\<close>

definition up_net :: "message \<Rightarrow> nat \<Rightarrow> attempt" where
  "up_net q i = \<lparr>at_result = (if i = 1 then AOk (up_answer 0) 2 else ATimeout), at_now = 0, at_rnd = 0\<rparr>"

definition up_dns :: dns_ext where
  "up_dns =
     \<lparr>to_vec = (\<lambda>_. None), from_vec = (\<lambda>_. None), name_from_str = Some, name_eq_ignore_root = (=),
      edns_default = \<lparr>ed_version = 0, ed_max_payload = 512, ed_dnssec_ok = False, ed_options = []\<rparr>,
      edns_payload_set = max 512, rdata_display = (\<lambda>_. []), rtype_display = (\<lambda>_. ''A''),
      rcode_debug_upper = (\<lambda>_. [])\<rparr>"

abbreviation up_key :: query_key where
  "up_key \<equiv> \<lparr>k_name = ''a.b.'', k_rtype = 1, k_class = 1, k_dnssec_ok = False, k_checking_disabled = False\<rparr>"

lemma up_query_key: "key_from_message up_query = Some up_key" by code_simp

lemma up_pool_size: "p_upstreams up_pool \<noteq> []" "length (p_upstreams up_pool) = 2"
  by (simp_all add: up_pool_def)

section \<open>Order and failover\<close>

text \<open>
  C23. The order of the upstreams: every upstream is tried once, those that are up before those
  that are down, and the first has the least sort key of all, or is the leader of the last
  query with a latency within the switch margin of the best one.
\<close>

theorem upstream_order:
  assumes "fst (ordered p) = u # us" "i < length (p_upstreams p)"
  shows "mset (fst (ordered p)) = mset [0..<length (p_upstreams p)]
    \<and> sorted_wrt (\<lambda>i j. h_up (health_at p j) \<longrightarrow> h_up (health_at p i)) (fst (ordered p))
    \<and> (health_sort_key (health_at p u) \<le> health_sort_key (health_at p i)
       \<or> p_leader p = Some u \<and> (\<exists>best inc b. best < length (p_upstreams p)
           \<and> health_sort_key (health_at p best) \<le> health_sort_key (health_at p i)
           \<and> routing_latency_if_eligible (health_at p u) = Some inc
           \<and> routing_latency_if_eligible (health_at p best) = Some b \<and> inc - b \<le> switch_margin inc))"
  using ordered_mset ordered_up_first ordered_head [OF assms] by blast

lemma up_order_cases: "fst (ordered up_pool) = [0, 1] \<or> fst (ordered up_pool) = [1, 0]"
proof -
  have len: "length (fst (ordered up_pool)) = 2" using mset_eq_length [OF ordered_mset [of up_pool]] up_pool_size by simp
  then obtain a b where "fst (ordered up_pool) = [a, b]" by (auto simp: length_Suc_conv numeral_2_eq_2)
  then show ?thesis using ordered_set [of up_pool] ordered_distinct [of up_pool] up_pool_size
    by (auto simp: atLeast0_lessThan_Suc numeral_2_eq_2 doubleton_eq_iff)
qed

theorem upstream_order_witness: "fst (ordered up_pool) = [1, 0]"
proof (rule ccontr)
  assume "fst (ordered up_pool) \<noteq> [1, 0]"
  then have o: "fst (ordered up_pool) = [0, 1]" using up_order_cases by blast
  from upstream_order [OF o, of 0] show False
    unfolding o using up_pool_size by (simp add: up_pool_def up_demo_def)
qed

text \<open>
  C5. Failover. A resolution returns the answer of the first upstream, in the order tried, that
  gives one; when none does, the first response of any kind; and when nothing came back, the
  error of the last attempt. The response has the id of the query.
\<close>

theorem failover_correct:
  assumes "p_upstreams p \<noteq> []" "key_from_message query = Some k"
  shows "fst (resolve_alone dx px net query p) =
     map_sum id (retarget (m_id query))
       (failover_outcome px (net (normalize_upstream_edns dx query)) (name_at p) (fst (ordered p)) NoUpstreams)"
  by (rule resolve_alone_result [OF assms])

theorem failover_correct_witness:
  "fst (resolve_alone up_dns up_px up_net up_query up_pool)
     = Inr \<lparr>res_message = up_answer 0, res_upstream = ''up'', res_rtt_ms = 2000\<rparr>"
  using failover_correct [OF up_pool_size(1) up_query_key, of up_dns up_px up_net] up_order_cases
  by (auto simp: failover_outcome_def answers_def up_net_def attempt_resolved_def up_pool_def up_demo_def retarget_def
      up_answer_def up_query_def new_message_def classify_response_def)

section \<open>Health\<close>

text \<open>
  C19. The health of an upstream is a function of its history. After any sequence of live queries
  and probes, the failure count is the number of hard failures since the last sign of life, the
  upstream is up exactly while that run is shorter than the threshold, and the query and
  failure counters count the live queries and their failures.
\<close>

theorem health_of_history:
  assumes "0 < threshold" "length es < 2 ^ 32"
  shows "unat (consecutive_failures (health_after threshold alpha es)) = failure_run es
    \<and> h_up (health_after threshold alpha es) = (failure_run es < unat threshold)
    \<and> total_queries (health_after threshold alpha es) = word_of_nat (length (filter live_event es))
    \<and> total_failures (health_after threshold alpha es) = word_of_nat (length (filter live_failure es))"
  using health_failures [OF assms(2)] health_up [OF assms(1,2)] health_counters by blast

theorem health_of_history_witness:
  "\<not> h_up (health_after 2 (1 / 5) [LiveFail Timeout 9 0, LiveSoft Timeout, ProbeFail Timeout 5 0, LiveOk 1])"
  using health_of_history [of 2 "[LiveFail Timeout 9 0, LiveSoft Timeout, ProbeFail Timeout 5 0, LiveOk 1]" "1 / 5"]
  by simp

text \<open>
  The schedule of recovery probes: the delay before an upstream that failed is probed again is
  between 5 and 60 seconds and grows with the run of failures, and with the jitter of both it
  is shorter than the delay before a healthy upstream is sampled again.
\<close>

theorem recovery_schedule:
  assumes "m \<le> n" "0 \<le> r" "r < 1" "0 \<le> s" "s < 1"
  shows "5 \<le> retry_backoff m \<and> retry_backoff m \<le> retry_backoff n \<and> retry_backoff n \<le> 60
    \<and> jitter r (real (retry_backoff n)) < jitter s (healthy_probe_window rank)"
  using retry_backoff_bounds retry_backoff_mono [OF assms(1)] recovery_before_resample [OF assms(2-5)] by blast

theorem recovery_schedule_witness:
  "jitter 0 (real (retry_backoff 3)) < jitter (1 / 2) (healthy_probe_window None)"
  using recovery_schedule [of 1 3 0 "1 / 2" None] by simp

section \<open>Shared flights\<close>

definition up_sf :: sf_state where
  "up_sf = \<lparr>sf_pool = up_pool, sf_inflight = Map.empty, sf_flights = [], sf_calls = Map.empty\<rparr>"

lemma up_sf_init: "sf_init up_sf" "name_at (sf_pool up_sf) = name_at up_pool"
  by (simp_all add: sf_init_def up_sf_def)

text \<open>
  C16. Coalesced calls. Whatever concurrent calls of the pool start, join, finish or are cancelled,
  a call returns the failover outcome of a flight for its own key, with the id of its own
  query, also when it joined the flight of another call.
\<close>

theorem coalesced_outcome:
  assumes "sf_init s0" "name_at (sf_pool s0) = name" "(sf_step dx px)\<^sup>*\<^sup>* s0 s"
    and "sf_calls s c = Some (Returned q r)" "p_upstreams (sf_pool s) \<noteq> []" "key_from_message q = Some k"
  shows "\<exists>fl. fl \<in> set (sf_flights s) \<and> key_from_message (fl_query fl) = Some k
     \<and> r = map_sum id (retarget (m_id q)) (failover_outcome px (fl_net fl) name (fl_start fl) NoUpstreams)"
proof -
  have "sf_inv px name s" using sf.reachable_inv assms(1-3) by blast
  from returned_outcome [OF this assms(4-6)] show ?thesis by blast
qed

text \<open>
  C17. No registration leaks. In every reachable state a registered flight has exactly one waiting
  call that holds its guard, so with no call waiting the in-flight map is empty.
\<close>

theorem registration_owned:
  assumes "sf_init s0" "name_at (sf_pool s0) = name" "(sf_step dx px)\<^sup>*\<^sup>* s0 s"
  shows "(\<forall>k f. sf_inflight s k = Some f \<longrightarrow> (\<exists>!c. \<exists>q. sf_calls s c = Some (Waiting q f True) \<and> key_from_message q = Some k))
    \<and> ((\<forall>c q f guard. sf_calls s c \<noteq> Some (Waiting q f guard)) \<longrightarrow> sf_inflight s = Map.empty)"
proof -
  have "sf_inv px name s" using sf.reachable_inv assms by blast
  then show ?thesis using inflight_owned inflight_idle by blast
qed


text \<open>A run: two calls for one key, of which the first registers a flight and is cancelled.\<close>

definition up_joined :: sf_state where
  "up_joined = start_call 1 up_query (register_call up_dns 0 up_query (fst (ordered up_pool)) (start_call 0 up_query up_sf))"

lemma up_joined_reachable: "(sf_step up_dns up_px)\<^sup>*\<^sup>* up_sf up_joined"
proof -
  let ?s1 = "start_call 0 up_query up_sf" and ?s2 = "register_call up_dns 0 up_query (fst (ordered up_pool)) (start_call 0 up_query up_sf)"
  have "sf_step up_dns up_px up_sf ?s1" by (rule sf_step.start) (simp add: up_sf_def)
  moreover have "sf_step up_dns up_px ?s1 ?s2"
    by (rule sf_step.register) (simp add: start_call_def up_query_key up_sf_def up_pool_size split: prod.split)
  moreover have "sf_step up_dns up_px ?s2 up_joined" unfolding up_joined_def
    by (rule sf_step.start) (simp add: start_call_def register_call_def up_query_key up_sf_def up_pool_size Let_def split: prod.split)
  ultimately show ?thesis by (meson converse_rtranclp_into_rtranclp rtranclp.rtrancl_refl)
qed

lemma up_joined_calls:
  "sf_calls up_joined 0 = Some (Waiting up_query 0 True)" "sf_calls up_joined 1 = Some (Waiting up_query 0 False)"
  "sf_inflight up_joined up_key = Some 0" "length (p_upstreams (sf_pool up_joined)) = 2"
  "sf_flights up_joined = [new_flight (normalize_upstream_edns up_dns up_query) (fst (ordered up_pool))]"
proof -
  obtain order p where o: "ordered up_pool = (order, p)" by fastforce
  then have "length (p_upstreams p) = 2" using ordered_fields(1) [of up_pool] up_pool_size by simp
  moreover from this have "p_upstreams p \<noteq> []" by auto
  ultimately show "sf_calls up_joined 0 = Some (Waiting up_query 0 True)" "sf_calls up_joined 1 = Some (Waiting up_query 0 False)"
    "sf_inflight up_joined up_key = Some 0" "length (p_upstreams (sf_pool up_joined)) = 2"
    "sf_flights up_joined = [new_flight (normalize_upstream_edns up_dns up_query) (fst (ordered up_pool))]"
    by (simp_all add: up_joined_def start_call_def register_call_def up_query_key up_sf_def up_pool_size o Let_def)
qed

theorem registration_owned_witness: "\<exists>!c. \<exists>q. sf_calls up_joined c = Some (Waiting q 0 True) \<and> key_from_message q = Some up_key"
  using registration_owned [OF up_sf_init up_joined_reachable] up_joined_calls by blast


text \<open>The flight gets an answer, and the call that joined it returns.\<close>

definition up_attempt :: attempt where
  "up_attempt = \<lparr>at_result = AOk (up_answer 0) 2, at_now = 0, at_rnd = 0\<rparr>"

definition up_answered :: sf_state where
  "up_answered = advance_flight up_px 0 up_attempt up_joined"

definition up_returned :: sf_state where
  "up_returned = return_call 1 up_query False (the (fl_result (sf_flights up_answered ! 0))) up_answered"

lemma up_answered_state:
  "sf_calls up_answered = sf_calls up_joined" "length (p_upstreams (sf_pool up_answered)) = 2"
  "\<exists>r. fl_result (sf_flights up_answered ! 0) = Some r"
  using up_order_cases up_joined_calls
  by (auto simp: up_answered_def advance_flight_def advance_def new_flight_def up_attempt_def classify_response_def
      up_answer_def new_message_def Let_def)

lemma up_returned_reachable: "(sf_step up_dns up_px)\<^sup>*\<^sup>* up_sf up_returned"
proof -
  obtain r where r: "fl_result (sf_flights up_answered ! 0) = Some r" using up_answered_state(3) by blast
  have "sf_step up_dns up_px up_joined up_answered" unfolding up_answered_def
    by (rule sf_step.advance [OF up_joined_calls(2)]) (simp add: up_joined_calls new_flight_def)
  moreover have "sf_step up_dns up_px up_answered up_returned" unfolding up_returned_def r option.sel
    by (rule sf_step.return [OF _ r, of 1]) (simp only: up_answered_state up_joined_calls)
  ultimately show ?thesis using up_joined_reachable by (meson rtranclp.rtrancl_into_rtrancl)
qed

theorem coalesced_outcome_witness:
  "\<exists>r fl. sf_calls up_returned 1 = Some (Returned up_query r) \<and> fl \<in> set (sf_flights up_returned)
     \<and> r = map_sum id (retarget 5) (failover_outcome up_px (fl_net fl) (name_at up_pool) (fl_start fl) NoUpstreams)"
proof -
  obtain r where r: "sf_calls up_returned 1 = Some (Returned up_query r)"
    by (simp add: up_returned_def return_call_def drop_guard_def up_query_key)
  have "p_upstreams (sf_pool up_returned) = p_upstreams (sf_pool up_answered)"
    by (simp add: up_returned_def return_call_def drop_guard_def up_query_key Let_def)
  then have "p_upstreams (sf_pool up_returned) \<noteq> []" using up_answered_state(2) by auto
  from coalesced_outcome [OF up_sf_init up_returned_reachable r this up_query_key] show ?thesis
    using r by (auto simp: up_query_def new_message_def)
qed

section \<open>Specifications\<close>

text \<open>
  C36. A written upstream specification is read back: for every well-formed specification (IPv4
  address or host name), parsing scheme, host, port and path as written gives it again.
\<close>

theorem spec_roundtrip:
  assumes "spec_ok sp"
  shows "parse_spec (print_spec sp) = Inr sp"
  by (rule parse_print_spec [OF assms])

theorem spec_roundtrip_witness: "parse_spec ''udp://1.1.1.1:53/dns-query'' = Inr up_demo_spec"
proof -
  have "print_spec up_demo_spec = ''udp://1.1.1.1:53/dns-query''" "spec_ok up_demo_spec" by code_simp+
  then show ?thesis using spec_roundtrip by metis
qed

end
