(* ===== verification/Telemetry_Properties.thy ===== *)
theory Telemetry_Properties
  imports Query_Log Stats
begin

text \<open>
  The properties of the query log gate, \<open>crates/bulwark-engine/src/querylog.rs\<close>, and of the
  statistics, \<open>crates/bulwark-engine/src/stats.rs\<close>.
\<close>

section \<open>The query log\<close>

text \<open>
  C35. Delivery and anonymity of the query log. Of the entries pushed while the log is enabled, the
  writer's queue receives a subsequence in their order and the counter of dropped entries
  counts all others; with anonymization on, no queued entry has a client address.
\<close>

theorem log_delivery:
  assumes "ql_enabled_flag l" "ql_sink l \<noteq> None" "channel_laws ts queued"
  shows "\<exists>sent. subseq sent es
    \<and> log_queued queued (fold (log_push ts) es l) = log_queued queued l @ map (sent_form l) sent
    \<and> ql_dropped (fold (log_push ts) es l) = ql_dropped l + word_of_nat (length es - length sent)
    \<and> (ql_anonymize l \<longrightarrow> list_all (\<lambda>e. e_client_ip e = []) (map (sent_form l) sent))"
proof -
  obtain sent where "subseq sent es" "log_queued queued (fold (log_push ts) es l) = log_queued queued l @ map (sent_form l) sent"
    "ql_dropped (fold (log_push ts) es l) = ql_dropped l + word_of_nat (length es - length sent)"
    using ql.push_all [of l ts queued es] assms by blast
  then show ?thesis by (intro exI [of _ sent]) (simp add: list_all_iff sent_form_anonymous)
qed

text \<open>A queue with room for two entries.\<close>

definition tm_send :: "query_log_entry list \<Rightarrow> query_log_entry \<Rightarrow> query_log_entry list option" where
  "tm_send q e = (if length q < 2 then Some (q @ [e]) else None)"

definition tm_log :: "query_log_entry list query_log" where
  "tm_log = set_sink [] (new_query_log True True)"

abbreviation tm_entry :: query_log_entry where
  "tm_entry \<equiv> empty_entry\<lparr>e_client_ip := ''10.0.0.1'', e_question := ''a.b.''\<rparr>"

theorem log_delivery_witness:
  "\<exists>sent. log_queued id (fold (log_push tm_send) [tm_entry, tm_entry, tm_entry] tm_log) = map (sent_form tm_log) sent
    \<and> ql_dropped (fold (log_push tm_send) [tm_entry, tm_entry, tm_entry] tm_log) = word_of_nat (3 - length sent)
    \<and> list_all (\<lambda>e. e_client_ip e = []) (map (sent_form tm_log) sent)"
proof -
  have "ql_enabled_flag tm_log" "ql_sink tm_log \<noteq> None" "ql_anonymize tm_log" "channel_laws tm_send id"
    "ql_dropped tm_log = 0" "log_queued id tm_log = []"
    by (simp_all add: tm_log_def set_sink_def new_query_log_def channel_laws_def tm_send_def log_queued_def)
  from log_delivery [OF this(1,2,4), of "[tm_entry, tm_entry, tm_entry]"] this show ?thesis by (auto simp: numeral_3_eq_3)
qed

section \<open>Statistics\<close>

lemma fresh_shard_sum:
  assumes "f default_inner = 0"
  shows "shard_sum f (new_stats sx en days anon) = 0"
  using assms by (simp add: shard_sum_def new_stats_def Let_def sum_list_replicate)

text \<open>
  C33. The counters of a snapshot. However the recorded queries are spread over the shards, a
  snapshot's totals are those of the queries recorded: all, blocked, served from the cache and
  failed.
\<close>

theorem snapshot_totals:
  "\<exists>st. stats_records sx es (new_stats sx True days anon) = Some st
    \<and> ss_total (stats_snapshot sx fx n clients st) = word_of_nat (length es)
    \<and> ss_blocked (stats_snapshot sx fx n clients st) = count_where entry_is_blocked es
    \<and> ss_cached (stats_snapshot sx fx n clients st) = count_where (\<lambda>e. e_action e = Cached) es
    \<and> ss_errors (stats_snapshot sx fx n clients st) = count_where (\<lambda>e. e_action e = ErrorAction) es"
proof -
  have en: "st_enabled (new_stats sx True days anon)" by (simp add: new_stats_def Let_def)
  from stats_records_spec [OF new_stats_ok en, of sx es] obtain st where
    st: "stats_records sx es (new_stats sx True days anon) = Some st" "stats_ok st"
    "shard_sum s_total st = word_of_nat (length es)" "shard_sum s_blocked st = count_where entry_is_blocked es"
    "shard_sum s_cached st = count_where (\<lambda>e. e_action e = Cached) es"
    "shard_sum s_errors st = count_where (\<lambda>e. e_action e = ErrorAction) es"
    by (auto simp: fresh_shard_sum default_inner_def)
  then show ?thesis by (simp add: stats_snapshot_def merged_sums Let_def)
qed

text \<open>
  C34. The domain counters of a shard. After any sequence of recorded queries the map of blocked
  domains has at most \<open>cap\<close> keys; a count is at least the true one and too high by at most the
  number of blocked queries over \<open>cap\<close>; and every domain with more than that share is there.
\<close>

theorem blocked_domain_counts:
  fixes es :: "(query_log_entry \<times> real option) list"
  defines "ds \<equiv> map entry_domain (filter entry_is_blocked (map fst es))"
  assumes "0 < cap" "order_laws (ord_counts sx)" "length es < 2 ^ 64"
  shows "\<exists>s. record_inners sx cap mx anon es default_inner = Some s
    \<and> length (s_blocked_domains s) \<le> cap
    \<and> (\<forall>d v. (d, v) \<in> set (s_blocked_domains s) \<longrightarrow>
         count_list ds d \<le> unat v \<and> unat v * cap \<le> count_list ds d * cap + length ds)
    \<and> (\<forall>d. length ds < count_list ds d * cap \<longrightarrow> d \<in> fst ` set (s_blocked_domains s))"
proof -
  obtain s where s: "record_inners sx cap mx anon es default_inner = Some s"
    "s_blocked_domains s = hh_run (ord_counts sx) cap ds"
    unfolding ds_def by (rule fresh_shard_estimators)
  have "length ds < 2 ^ 64" using assms(4) le_less_trans [OF length_filter_le] unfolding ds_def length_map by (metis length_map)
  note b = hh_run_bounds [OF assms(2,3) this]
  show ?thesis using s b by (intro exI [of _ s]) simp
qed

definition tm_stats :: stats_env where
  "tm_stats = \<lparr>ord_counts = id, ord_sums = id, ord_hists = id, inner_to_json = (\<lambda>_. None),
     inner_from_json = (\<lambda>_. None), stats_parallelism = Some 4\<rparr>"

theorem blocked_domain_counts_witness:
  "\<exists>s. record_inners tm_stats 2 24 False [(tm_entry\<lparr>e_action := Blocked ''r'' 1\<rparr>, None)] default_inner = Some s
    \<and> ''a.b'' \<in> fst ` set (s_blocked_domains s)"
proof -
  let ?e = "tm_entry\<lparr>e_action := Blocked ''r'' 1\<rparr>"
  have d: "entry_domain ?e = ''a.b''" "entry_is_blocked ?e" by code_simp+
  have "order_laws (ord_counts tm_stats)" by (simp add: order_laws_def tm_stats_def)
  from blocked_domain_counts [of 2 tm_stats "[(?e, None)]" 24 False, OF _ this] d show ?thesis by fastforce
qed

text \<open>
  Latency percentiles are ordered and stay in the range of the buckets, for every histogram
  with at most the eleven buckets and a total below \<open>2 ^ 64\<close>.
\<close>

theorem latency_percentiles:
  assumes "length hist \<le> 11" "hist_mass hist < 2 ^ 64"
  shows "0 \<le> p50 (percentiles hist) \<and> p50 (percentiles hist) \<le> p90 (percentiles hist)
    \<and> p90 (percentiles hist) \<le> p99 (percentiles hist) \<and> p99 (percentiles hist) \<le> 1000"
  using percentiles_ordered [OF assms] by blast

theorem latency_percentiles_witness:
  "p50 (percentiles [3, 0, 7, 1]) \<le> p90 (percentiles [3, 0, 7, 1]) \<and> p99 (percentiles [3, 0, 7, 1]) \<le> 1000"
  using latency_percentiles [of "[3, 0, 7, 1]"] by simp

end
