(* ===== verification/Session.thy ===== *)
theory Session
  imports Upstream_Spec
begin

text \<open>
  Passwords and sessions, \<open>server/src/auth.rs\<close>. The Argon2 and HMAC-SHA256 functions, the base64
  codec and the JSON codec of the claims belong to third-party crates and are the fields of
  \<open>auth_env\<close>; a random draw and the clock are arguments.
\<close>

subsection \<open>Model\<close>

record claims =
  cl_iat :: u64
  cl_exp :: u64

record auth_env =
  ae_salt :: "u8 list \<Rightarrow> string + string"
  ae_hash :: "string \<Rightarrow> string \<Rightarrow> string + string"
  ae_verify :: "string \<Rightarrow> string \<Rightarrow> bool option"
  ae_b64 :: "u8 list \<Rightarrow> string"
  ae_unb64 :: "string \<Rightarrow> u8 list option"
  ae_mac :: "u8 list \<Rightarrow> string \<Rightarrow> u8 list"
  ae_claims_json :: "claims \<Rightarrow> u8 list"
  ae_json_claims :: "u8 list \<Rightarrow> claims option"
  ae_bytes :: "string \<Rightarrow> u8 list"

definition hash_password :: "auth_env \<Rightarrow> u8 list \<Rightarrow> string \<Rightarrow> string + string" where
  "hash_password ae salt_bytes password =
     (case ae_salt ae salt_bytes of
        Inl e \<Rightarrow> Inl (''salt error: '' @ e)
      | Inr salt \<Rightarrow>
          (case ae_hash ae password salt of
             Inl e \<Rightarrow> Inl (''hash error: '' @ e)
           | Inr h \<Rightarrow> Inr h))"

text \<open>\<open>ae_verify\<close> is \<open>None\<close> when the stored hash does not parse.\<close>

definition verify_password :: "auth_env \<Rightarrow> string \<Rightarrow> string \<Rightarrow> bool" where
  "verify_password ae password hash = (case ae_verify ae hash password of Some ok \<Rightarrow> ok | None \<Rightarrow> False)"

definition SESSION_COOKIE :: string where "SESSION_COOKIE = ''bw_session''"
definition SESSION_TTL_SECS :: u64 where "SESSION_TTL_SECS = 14 * 24 * 3600"

definition generate_secret :: "auth_env \<Rightarrow> u8 list \<Rightarrow> string" where
  "generate_secret ae bytes = ae_b64 ae bytes"

definition JWT_HEADER_B64 :: string where
  "JWT_HEADER_B64 = ''eyJhbGciOiJIUzI1NiIsInR5cCI6IkpXVCJ9''"

record session_signer =
  ss_secret :: "u8 list"
  ss_ttl :: u64

definition new_signer :: "auth_env \<Rightarrow> string \<Rightarrow> u64 \<Rightarrow> session_signer" where
  "new_signer ae secret_b64 t =
     \<lparr>ss_secret = (case ae_unb64 ae secret_b64 of Some b \<Rightarrow> b | None \<Rightarrow> ae_bytes ae secret_b64), ss_ttl = t\<rparr>"

definition sign :: "auth_env \<Rightarrow> session_signer \<Rightarrow> string \<Rightarrow> string" where
  "sign ae ss signing_input = ae_b64 ae (ae_mac ae (ss_secret ss) signing_input)"

text \<open>The addition of \<open>u64\<close> wraps in a release build.\<close>

definition issue :: "auth_env \<Rightarrow> session_signer \<Rightarrow> u64 \<Rightarrow> string" where
  "issue ae ss now =
     (let claims = \<lparr>cl_iat = now, cl_exp = now + ss_ttl ss\<rparr>;
          payload = ae_b64 ae (ae_claims_json ae claims);
          signing_input = JWT_HEADER_B64 @ ''.'' @ payload;
          sig = sign ae ss signing_input
      in signing_input @ ''.'' @ sig)"

datatype session_verdict = Invalid | Valid | Refresh

definition verify_inner :: "auth_env \<Rightarrow> session_signer \<Rightarrow> string \<Rightarrow> claims option" where
  "verify_inner ae ss token =
     (case splitn 4 CHR ''.'' token of
        [header, payload, sig] \<Rightarrow>
          if header \<noteq> JWT_HEADER_B64 then None
          else (case ae_unb64 ae sig of
                  None \<Rightarrow> None
                | Some expected \<Rightarrow>
                    if ae_mac ae (ss_secret ss) (header @ ''.'' @ payload) \<noteq> expected then None
                    else Option.bind (ae_unb64 ae payload) (ae_json_claims ae))
      | _ \<Rightarrow> None)"

definition check_session :: "auth_env \<Rightarrow> session_signer \<Rightarrow> u64 \<Rightarrow> string \<Rightarrow> session_verdict" where
  "check_session ae ss now token =
     (case verify_inner ae ss token of
        None \<Rightarrow> Invalid
      | Some claims \<Rightarrow>
          if cl_exp claims \<le> now then Invalid
          else if cl_iat claims + ss_ttl ss div 2 \<le> now then Refresh
          else Valid)"

definition verify_session :: "auth_env \<Rightarrow> session_signer \<Rightarrow> u64 \<Rightarrow> string \<Rightarrow> bool" where
  "verify_session ae ss now token = (check_session ae ss now token \<noteq> Invalid)"

subsection \<open>Properties\<close>

text \<open>
  \<open>auth_laws\<close>: base64 and JSON are read back, and the URL-safe alphabet has no dot.
\<close>

definition auth_laws :: "auth_env \<Rightarrow> bool" where
  "auth_laws ae \<longleftrightarrow> (\<forall>b. ae_unb64 ae (ae_b64 ae b) = Some b \<and> CHR ''.'' \<notin> set (ae_b64 ae b))
     \<and> (\<forall>c. ae_json_claims ae (ae_claims_json ae c) = Some c)"

lemma splitn_token:
  assumes "c \<notin> set a" "c \<notin> set b" "c \<notin> set d"
  shows "splitn 4 c (a @ c # b @ c # d) = [a, b, d]"
proof -
  have "find_char d c = None" using assms(3) by (induction d) auto
  then have "split_once d c = None" by (simp add: split_once_def)
  then show ?thesis using split_once_append [OF assms(1)] split_once_append [OF assms(2)]
    by (simp add: numeral_eq_Suc)
qed

lemma verify_issued:
  assumes "auth_laws ae"
  shows "verify_inner ae ss (issue ae ss t0) = Some \<lparr>cl_iat = t0, cl_exp = t0 + ss_ttl ss\<rparr>"
proof -
  have "CHR ''.'' \<notin> set JWT_HEADER_B64" by (simp add: JWT_HEADER_B64_def)
  moreover have "CHR ''.'' \<notin> set (ae_b64 ae b)" for b using assms by (simp add: auth_laws_def)
  ultimately have "splitn 4 CHR ''.'' (JWT_HEADER_B64 @ CHR ''.'' # ae_b64 ae b @ CHR ''.'' # ae_b64 ae d)
      = [JWT_HEADER_B64, ae_b64 ae b, ae_b64 ae d]" for b d by (intro splitn_token)
  then show ?thesis using assms by (simp add: verify_inner_def issue_def sign_def Let_def auth_laws_def)
qed

lemma check_issued:
  assumes "auth_laws ae" "unat t0 + unat (ss_ttl ss) < 2 ^ 64"
  shows "check_session ae ss now (issue ae ss t0) =
     (if unat t0 + unat (ss_ttl ss) \<le> unat now then Invalid
      else if unat t0 + unat (ss_ttl ss) div 2 \<le> unat now then Refresh
      else Valid)"
proof -
  have "unat (t0 + ss_ttl ss) = unat t0 + unat (ss_ttl ss)"
    using assms(2) by (simp add: unat_word_ariths)
  moreover have "unat (t0 + ss_ttl ss div 2) = unat t0 + unat (ss_ttl ss) div 2"
    using assms(2) by (simp add: unat_word_ariths unat_div_distrib)
  ultimately show ?thesis by (simp add: check_session_def verify_issued [OF assms(1)] word_le_nat_alt)
qed

text \<open>A token that is accepted carries the signature of its own header and claims, and is in time.\<close>

lemma accepted_signed:
  assumes "verify_session ae ss now token"
  shows "\<exists>payload sig claims. splitn 4 CHR ''.'' token = [JWT_HEADER_B64, payload, sig]
     \<and> ae_unb64 ae sig = Some (ae_mac ae (ss_secret ss) (JWT_HEADER_B64 @ ''.'' @ payload))
     \<and> Option.bind (ae_unb64 ae payload) (ae_json_claims ae) = Some claims \<and> now < cl_exp claims"
  using assms
  by (auto simp: verify_session_def check_session_def verify_inner_def not_le split: list.splits option.splits if_splits)

text \<open>What Argon2 promises: a hash verifies the password that it was made from.\<close>

definition hash_laws :: "auth_env \<Rightarrow> bool" where
  "hash_laws ae \<longleftrightarrow> (\<forall>p s h. ae_hash ae p s = Inr h \<longrightarrow> ae_verify ae h p = Some True)"

lemma password_roundtrip:
  assumes "hash_password ae salt password = Inr h" "hash_laws ae"
  shows "verify_password ae password h"
  using assms by (auto simp: hash_password_def verify_password_def hash_laws_def split: sum.splits)

end
