(* ===== verification/App_State.thy ===== *)
theory App_State
  imports Filter_List Query_Pipeline Session
begin

text \<open>
  The application state and how a configuration is applied to it, \<open>server/src/app.rs\<close>. Everything
  that \<open>apply_config\<close> calls is one of the components: the filter compiler, the upstream pool,
  the client matcher, the cache, the query log, the statistics and the probe log. The file
  system holds the configuration and the list texts; the YAML printer is a parameter, and so
  is the file-system step at which a save fails.
\<close>

subsection \<open>Paths\<close>

record paths =
  pt_data_dir :: string
  pt_config :: path
  pt_lists_dir :: string
  pt_querylog_db :: path
  pt_upstream_log_db :: path
  pt_stats :: path
  pt_cache_snapshot :: path

definition new_paths :: "string \<Rightarrow> paths" where
  "new_paths dir =
     \<lparr>pt_data_dir = dir, pt_config = (dir, ''config.yaml''), pt_lists_dir = dir @ ''/lists'',
      pt_querylog_db = (dir, ''querylog.db''), pt_upstream_log_db = (dir, ''upstream_log.db''),
      pt_stats = (dir, ''stats.json''), pt_cache_snapshot = (dir, ''cache.snap'')\<rparr>"

definition list_file :: "paths \<Rightarrow> u32 \<Rightarrow> path" where
  "list_file pt lid = (pt_lists_dir pt, show_u32 lid @ ''.txt'')"

subsection \<open>State\<close>

record ('c, 'ch, 'pch) app_state =
  app_engine :: "('c, 'ch) engine"
  app_config :: config
  app_fs :: fs
  app_probe_log :: "'pch probe_log"
  app_sessions :: session_signer

record ('c, 'ch) app_env =
  ap_engine :: "('c, 'ch) engine_env"
  ap_pool :: pool_env
  ap_boot_draw :: "nat \<Rightarrow> boot_draw"
  ap_yaml :: "config \<Rightarrow> string + string"
  ap_save_fails :: "(nat \<times> string) option"
  ap_paths :: paths

datatype app_error = ConfigValidation config_error | BuildingPool upstream_error | SavingConfig config_error

text \<open>Only the outermost context of an \<open>anyhow\<close> error is printed.\<close>

fun show_app_error :: "app_error \<Rightarrow> string" where
  "show_app_error (ConfigValidation _) = ''config validation''"
| "show_app_error (BuildingPool _) = ''building upstream pool''"
| "show_app_error (SavingConfig _) = ''saving config''"

definition read_list_text :: "paths \<Rightarrow> fs \<Rightarrow> u32 \<Rightarrow> string" where
  "read_list_text pt fs lid = (case fs (list_file pt lid) of Some (tx, _) \<Rightarrow> tx | None \<Rightarrow> [])"

definition write_list_text :: "paths \<Rightarrow> u32 \<Rightarrow> string \<Rightarrow> fs \<Rightarrow> fs" where
  "write_list_text pt lid tx fs = fs_run [WriteFile (list_file pt lid) tx] fs"

text \<open>The custom rules as list 0 and the enabled lists, in their order.\<close>

definition filter_sources :: "config \<Rightarrow> paths \<Rightarrow> fs \<Rightarrow> (u32 \<times> string \<times> string) list" where
  "filter_sources cfg pt fs =
     (0, ''Custom rules'', custom_rules (cfg_filtering cfg))
     # map (\<lambda>l. (fl_id l, fl_name l, read_list_text pt fs (fl_id l)))
         (filter fl_enabled (filter_lists (cfg_filtering cfg)))"

definition compile_filters :: "filter_ext \<Rightarrow> config \<Rightarrow> paths \<Rightarrow> fs \<Rightarrow> (filter_engine \<times> (u32 \<times> nat) list) option" where
  "compile_filters fx cfg pt fs =
     map_option (\<lambda>(engine, stats). (engine, map (\<lambda>s. (ls_list_id s, ls_rules s)) stats))
       (build fx (compile_lists fx (filter_sources cfg pt fs)))"

definition pool_entries :: "(nat \<Rightarrow> boot_draw) \<Rightarrow> config \<Rightarrow> (pool_entry \<times> boot_draw) list" where
  "pool_entries draw cfg =
     (let specs = active_specs (cfg_upstreams cfg)
      in map (\<lambda>i. (\<lparr>ent_spec = specs ! i, ent_name = None\<rparr>, draw i)) [0..<length specs])"

definition pool_settings_of :: "config \<Rightarrow> pool_settings" where
  "pool_settings_of cfg =
     default_settings\<lparr>ps_query_timeout := real (unat (max (timeout_secs (cfg_upstreams cfg)) 1)),
       ps_bootstrap := bootstrap (cfg_upstreams cfg)\<rparr>"

definition app_build_pool ::
  "pool_env \<Rightarrow> (nat \<Rightarrow> boot_draw) \<Rightarrow> config \<Rightarrow> upstream_pool option \<Rightarrow> app_error + upstream_pool" where
  "app_build_pool px draw cfg prev =
     (case build_pool px (pool_entries draw cfg) (pool_settings_of cfg) of
        Inl e \<Rightarrow> Inl (BuildingPool e)
      | Inr pool \<Rightarrow> Inr (case prev of Some old \<Rightarrow> adopt_health_from px old pool | None \<Rightarrow> pool))"

definition build_engine_state ::
  "('c, 'ch) app_env \<Rightarrow> config \<Rightarrow> fs \<Rightarrow> upstream_pool option \<Rightarrow> (app_error + engine_state) option" where
  "build_engine_state ap cfg fs prev =
     (let fx = ev_filter (ap_engine ap) in
      case compile_filters fx cfg (ap_paths ap) fs of
        None \<Rightarrow> None
      | Some (flt, _) \<Rightarrow>
          Some (case app_build_pool (ap_pool ap) (ap_boot_draw ap) cfg prev of
            Inl e \<Rightarrow> Inl e
          | Inr pool \<Rightarrow>
              Inr \<lparr>es_filter = flt, es_pool = pool, es_clients = build_clients fx (cfg_clients cfg),
                   es_filtering_enabled = f_enabled (cfg_filtering cfg), es_blocking_mode = blocking_mode (cfg_filtering cfg),
                   es_block_v4 = custom_block_ipv4 (cfg_filtering cfg), es_block_v6 = custom_block_ipv6 (cfg_filtering cfg),
                   es_blocked_ttl = blocked_ttl_secs (cfg_filtering cfg)\<rparr>))"

definition tune_cache :: "'c cache_ext \<Rightarrow> config \<Rightarrow> 'c dns_cache \<Rightarrow> 'c dns_cache" where
  "tune_cache cx cfg c =
     set_store_summaries (ql_enabled (cfg_query_log cfg))
       (reconfigure cx (cfg_cache_enabled (cfg_cache cfg)) (cfg_size (cfg_cache cfg)) (min_ttl_secs (cfg_cache cfg))
         (max_ttl_secs (cfg_cache cfg)) (optimistic_max_age_secs (cfg_cache cfg)) c)"

definition build_engine :: "('c, 'ch) app_env \<Rightarrow> config \<Rightarrow> fs \<Rightarrow> (app_error + ('c, 'ch) engine) option" where
  "build_engine ap cfg fs =
     (case build_engine_state ap cfg fs None of
        None \<Rightarrow> None
      | Some (Inl e) \<Rightarrow> Some (Inl e)
      | Some (Inr st) \<Rightarrow>
          let cx = ev_cache (ap_engine ap);
              cache = new_cache cx (cfg_size (cfg_cache cfg)) (min_ttl_secs (cfg_cache cfg)) (max_ttl_secs (cfg_cache cfg))
                (optimistic_max_age_secs (cfg_cache cfg))
          in Some (Inr
            \<lparr>eng_state = st, eng_cache = tune_cache cx cfg cache,
             eng_log = new_query_log (ql_enabled (cfg_query_log cfg)) (cfg_anonymize_client_ips cfg),
             eng_stats = new_stats (ev_stats (ap_engine ap)) (sc_enabled (cfg_stats cfg)) (sc_retention_days (cfg_stats cfg))
               (cfg_anonymize_client_ips cfg)\<rparr>))"

subsection \<open>Applying a configuration\<close>

definition set_rule_counts :: "(u32 \<times> nat) list \<Rightarrow> config \<Rightarrow> config" where
  "set_rule_counts counts cfg =
     cfg\<lparr>cfg_filtering := (cfg_filtering cfg)\<lparr>filter_lists :=
       map (\<lambda>l. case find (\<lambda>(lid, _). lid = fl_id l) counts of
              Some (_, n) \<Rightarrow> l\<lparr>fl_rule_count := n\<rparr> | None \<Rightarrow> l)
         (filter_lists (cfg_filtering cfg))\<rparr>\<rparr>"

text \<open>The save: the file system after it, and its error. With a failing step, those before it are done.\<close>

definition save_config :: "('c, 'ch) app_env \<Rightarrow> config \<Rightarrow> fs \<Rightarrow> fs \<times> config_error option" where
  "save_config ap cfg fs =
     (let (steps, err) = save_steps (ap_yaml ap) (pt_config (ap_paths ap)) cfg
      in case ap_save_fails ap of
           Some (n, e) \<Rightarrow> if n < length steps then (fs_run (take n steps) fs, Some (CIo e)) else (fs_run steps fs, err)
         | None \<Rightarrow> (fs_run steps fs, err))"

definition reconfigure_engine :: "('c, 'ch) app_env \<Rightarrow> config \<Rightarrow> engine_state \<Rightarrow> ('c, 'ch) engine \<Rightarrow> ('c, 'ch) engine" where
  "reconfigure_engine ap cfg st eng =
     (let eng = swap_state st eng
      in eng\<lparr>eng_cache := tune_cache (ev_cache (ap_engine ap)) cfg (eng_cache eng),
             eng_log := log_reconfigure (ql_enabled (cfg_query_log cfg)) (cfg_anonymize_client_ips cfg) (eng_log eng),
             eng_stats := stats_reconfigure (sc_enabled (cfg_stats cfg)) (sc_retention_days (cfg_stats cfg))
               (cfg_anonymize_client_ips cfg) (eng_stats eng)\<rparr>)"

definition apply_config ::
  "('c, 'ch) app_env \<Rightarrow> config \<Rightarrow> ('c, 'ch, 'pch) app_state \<Rightarrow> ((app_error + unit) \<times> ('c, 'ch, 'pch) app_state) option" where
  "apply_config ap cfg0 s =
     (let cfg = cfg0\<lparr>cfg_upstreams := normalize (cfg_upstreams cfg0)\<rparr> in
      case validate cfg of
        Inl e \<Rightarrow> Some (Inl (ConfigValidation e), s)
      | Inr _ \<Rightarrow>
          (case compile_filters (ev_filter (ap_engine ap)) cfg (ap_paths ap) (app_fs s) of
             None \<Rightarrow> None
           | Some (_, counts) \<Rightarrow>
               let cfg = set_rule_counts counts cfg in
               (case build_engine_state ap cfg (app_fs s) (Some (es_pool (eng_state (app_engine s)))) of
                  None \<Rightarrow> None
                | Some (Inl e) \<Rightarrow> Some (Inl e, s)
                | Some (Inr st) \<Rightarrow>
                    let (fs, err) = save_config ap cfg (app_fs s); s = s\<lparr>app_fs := fs\<rparr> in
                    (case err of
                       Some e \<Rightarrow> Some (Inl (SavingConfig e), s)
                     | None \<Rightarrow>
                         Some (Inr (),
                           s\<lparr>app_engine := reconfigure_engine ap cfg st (app_engine s),
                             app_probe_log := probe_reconfigure (ul_enabled (cfg_upstream_log cfg)) (app_probe_log s),
                             app_config := cfg\<rparr>)))))"

subsection \<open>Properties\<close>

lemma set_rule_counts_keeps:
  "cfg_upstreams (set_rule_counts counts cfg) = cfg_upstreams cfg" "cfg_server (set_rule_counts counts cfg) = cfg_server cfg"
  "cfg_cache (set_rule_counts counts cfg) = cfg_cache cfg" "cfg_clients (set_rule_counts counts cfg) = cfg_clients cfg"
  "cfg_auth (set_rule_counts counts cfg) = cfg_auth cfg"
  "validate (set_rule_counts counts cfg) = validate cfg" "filter_sources (set_rule_counts counts cfg) pt fs = filter_sources cfg pt fs"
proof -
  show "cfg_upstreams (set_rule_counts counts cfg) = cfg_upstreams cfg" "cfg_server (set_rule_counts counts cfg) = cfg_server cfg"
    "cfg_cache (set_rule_counts counts cfg) = cfg_cache cfg" "cfg_clients (set_rule_counts counts cfg) = cfg_clients cfg"
    "cfg_auth (set_rule_counts counts cfg) = cfg_auth cfg" "validate (set_rule_counts counts cfg) = validate cfg"
    by (simp_all add: set_rule_counts_def validate_def)
  let ?f = "\<lambda>l. case find (\<lambda>(lid, _). lid = fl_id l) counts of Some (_, n) \<Rightarrow> l\<lparr>fl_rule_count := n\<rparr> | None \<Rightarrow> l"
  have f: "fl_id (?f l) = fl_id l" "fl_name (?f l) = fl_name l" "fl_enabled (?f l) = fl_enabled l" for l
    by (simp_all split: option.split prod.split)
  have "map (\<lambda>l. (fl_id l, fl_name l, read_list_text pt fs (fl_id l))) (filter fl_enabled (map ?f ls))
      = map (\<lambda>l. (fl_id l, fl_name l, read_list_text pt fs (fl_id l))) (filter fl_enabled ls)" for ls
    by (induction ls) (simp_all only: list.map filter.simps f split: if_split, simp_all)
  then show "filter_sources (set_rule_counts counts cfg) pt fs = filter_sources cfg pt fs"
    unfolding filter_sources_def set_rule_counts_def by simp
qed

lemma save_interrupted:
  assumes "n < length (fst (save_steps yaml p cfg))"
  shows "fs_run (take n (fst (save_steps yaml p cfg))) fs p = fs p"
proof (cases "yaml cfg")
  case (Inl e)
  then show ?thesis by (auto simp: save_steps_def Let_def take_Cons split: nat.split)
next
  case (Inr tx)
  let ?tmp = "with_extension p ''yaml.tmp''"
  have neq: "?tmp \<noteq> p" "p \<noteq> ?tmp" using tmp_differs by metis+
  have "fs_run (take k [WriteFile ?tmp tx, SetMode ?tmp 384, Rename ?tmp p]) fs p = fs p" if "k < 3" for k fs
  proof -
    have "k = 0 \<or> k = 1 \<or> k = 2" using that by linarith
    then show ?thesis using neq by (auto simp: numeral_2_eq_2 split: option.split)
  qed
  then show ?thesis using assms Inr neq by (auto simp: save_steps_def Let_def take_Cons split: nat.split)
qed

lemma save_config_outcome:
  assumes "save_config ap cfg fs = (fs', err)"
  shows "err \<noteq> None \<Longrightarrow> fs' (pt_config (ap_paths ap)) = fs (pt_config (ap_paths ap))"
    "err = None \<Longrightarrow> \<exists>tx. ap_yaml ap cfg = Inr tx \<and> fs' (pt_config (ap_paths ap)) = Some (tx, 384)"
proof -
  let ?p = "pt_config (ap_paths ap)"
  obtain steps er where st: "save_steps (ap_yaml ap) ?p cfg = (steps, er)" by fastforce
  have keep: "n < length steps \<Longrightarrow> fs_run (take n steps) fs ?p = fs ?p" for n
    using save_interrupted [of n "ap_yaml ap" ?p cfg fs] st by simp
  have yaml: "er = None \<longleftrightarrow> (\<exists>tx. ap_yaml ap cfg = Inr tx)" using st by (auto simp: save_steps_def Let_def split: sum.splits)
  have bad: "er \<noteq> None \<Longrightarrow> fs_run steps fs ?p = fs ?p"
    using yaml save_failed_keeps [of "ap_yaml ap" cfg _ ?p fs] st by (cases "ap_yaml ap cfg") auto
  have good: "ap_yaml ap cfg = Inr tx \<Longrightarrow> fs_run steps fs ?p = Some (tx, 384)" for tx
    using save_atomic(2) [of "ap_yaml ap" cfg tx ?p fs] st by simp
  show "err \<noteq> None \<Longrightarrow> fs' ?p = fs ?p" using assms st keep bad
    by (auto simp: save_config_def split: option.splits if_splits)
  show "err = None \<Longrightarrow> \<exists>tx. ap_yaml ap cfg = Inr tx \<and> fs' ?p = Some (tx, 384)" using assms st good yaml
    by (auto simp: save_config_def split: option.splits if_splits)
qed

text \<open>A configuration that is refused, or that cannot be saved, changes nothing that is live.\<close>

lemma apply_config_refused:
  assumes "apply_config ap cfg s = Some (Inl e, s')"
  shows "app_engine s' = app_engine s" "app_config s' = app_config s" "app_probe_log s' = app_probe_log s"
    "app_sessions s' = app_sessions s" "app_fs s' (pt_config (ap_paths ap)) = app_fs s (pt_config (ap_paths ap))"
proof -
  have "s' = s \<or> (\<exists>cfg' fs er. save_config ap cfg' (app_fs s) = (fs, Some er) \<and> s' = s\<lparr>app_fs := fs\<rparr>)"
    using assms unfolding apply_config_def by (auto simp: Let_def split: sum.splits option.splits prod.splits)
  then have "app_engine s' = app_engine s \<and> app_config s' = app_config s \<and> app_probe_log s' = app_probe_log s
    \<and> app_sessions s' = app_sessions s \<and> app_fs s' (pt_config (ap_paths ap)) = app_fs s (pt_config (ap_paths ap))"
  proof
    assume "\<exists>cfg' fs er. save_config ap cfg' (app_fs s) = (fs, Some er) \<and> s' = s\<lparr>app_fs := fs\<rparr>"
    then obtain cfg' fs er where sv: "save_config ap cfg' (app_fs s) = (fs, Some er)" "s' = s\<lparr>app_fs := fs\<rparr>" by blast
    show ?thesis using save_config_outcome(1) [OF sv(1)] sv(2) by simp
  qed simp
  then show "app_engine s' = app_engine s" "app_config s' = app_config s" "app_probe_log s' = app_probe_log s"
    "app_sessions s' = app_sessions s" "app_fs s' (pt_config (ap_paths ap)) = app_fs s (pt_config (ap_paths ap))" by blast+
qed

text \<open>What the live parts show of a configuration: what it settles of the engine and the logs.\<close>

definition runs_config :: "('c, 'ch) app_env \<Rightarrow> config \<Rightarrow> ('c, 'ch) engine \<Rightarrow> bool" where
  "runs_config ap cfg eng \<longleftrightarrow>
     es_clients (eng_state eng) = build_clients (ev_filter (ap_engine ap)) (cfg_clients cfg)
     \<and> es_filtering_enabled (eng_state eng) = f_enabled (cfg_filtering cfg)
     \<and> es_blocking_mode (eng_state eng) = blocking_mode (cfg_filtering cfg)
     \<and> es_block_v4 (eng_state eng) = custom_block_ipv4 (cfg_filtering cfg)
     \<and> es_block_v6 (eng_state eng) = custom_block_ipv6 (cfg_filtering cfg)
     \<and> es_blocked_ttl (eng_state eng) = blocked_ttl_secs (cfg_filtering cfg)
     \<and> map (Inr \<circ> up_spec) (p_upstreams (es_pool (eng_state eng))) = map parse_spec (active_specs (cfg_upstreams cfg))
     \<and> c_enabled (eng_cache eng) = cfg_cache_enabled (cfg_cache cfg)
     \<and> max_ttl (eng_cache eng) = max_ttl_secs (cfg_cache cfg) \<and> min_ttl (eng_cache eng) = min_ttl_secs (cfg_cache cfg)
     \<and> ql_enabled_flag (eng_log eng) = ql_enabled (cfg_query_log cfg)
     \<and> ql_anonymize (eng_log eng) = cfg_anonymize_client_ips cfg
     \<and> st_enabled (eng_stats eng) = sc_enabled (cfg_stats cfg) \<and> st_anonymize (eng_stats eng) = cfg_anonymize_client_ips cfg"

lemma adopt_specs: "map up_spec (p_upstreams (adopt_health_from px old p)) = map up_spec (p_upstreams p)"
  by (simp add: adopt_health_from_def Let_def comp_def option.case_eq_if cong: map_cong)

lemma pool_specs:
  assumes "app_build_pool px draw cfg prev = Inr pool"
  shows "map (Inr \<circ> up_spec) (p_upstreams pool) = map parse_spec (active_specs (cfg_upstreams cfg))"
proof -
  let ?specs = "active_specs (cfg_upstreams cfg)"
  obtain p where p: "build_pool px (pool_entries draw cfg) (pool_settings_of cfg) = Inr p"
    "map up_spec (p_upstreams pool) = map up_spec (p_upstreams p)"
    using assms by (auto simp: app_build_pool_def adopt_specs split: sum.splits option.splits)
  obtain bs where b: "build_upstreams px (pool_entries draw cfg) (new_bootstrap (ps_bootstrap (pool_settings_of cfg)))
      = Inr (p_upstreams p, bs)"
    using p(1) by (auto simp: build_pool_def split: sum.splits prod.splits)
  have "list_all2 (\<lambda>e u. parse_spec (ent_spec (fst e)) = Inr (up_spec u)) (pool_entries draw cfg) (p_upstreams p)"
    using build_upstreams_all [OF b] by (rule list_all2_mono) auto
  then have "map (\<lambda>e. parse_spec (ent_spec (fst e))) (pool_entries draw cfg) = map (Inr \<circ> up_spec) (p_upstreams p)"
    by (auto simp: list_all2_conv_all_nth intro: nth_equalityI)
  moreover have "map (\<lambda>e. parse_spec (ent_spec (fst e))) (pool_entries draw cfg) = map parse_spec ?specs"
    by (auto simp: pool_entries_def Let_def intro: nth_equalityI)
  moreover have "map (Inr \<circ> up_spec) (p_upstreams pool) = map (Inr \<circ> up_spec) (p_upstreams p)"
    using p(2) by (metis map_map)
  ultimately show ?thesis by simp
qed

lemma tune_cache_fields:
  "c_enabled (tune_cache cx cfg c) = cfg_cache_enabled (cfg_cache cfg)" "max_ttl (tune_cache cx cfg c) = max_ttl_secs (cfg_cache cfg)"
  "min_ttl (tune_cache cx cfg c) = min_ttl_secs (cfg_cache cfg)"
  by (simp_all add: tune_cache_def set_store_summaries_def reconfigure_def clear_cache_def Let_def)

lemma runs_config_built:
  assumes "build_engine_state ap cfg fs prev = Some (Inr st)" "eng_state eng = st" "eng_cache eng = tune_cache cx cfg c"
    and "ql_enabled_flag (eng_log eng) = ql_enabled (cfg_query_log cfg)" "ql_anonymize (eng_log eng) = cfg_anonymize_client_ips cfg"
    and "st_enabled (eng_stats eng) = sc_enabled (cfg_stats cfg)" "st_anonymize (eng_stats eng) = cfg_anonymize_client_ips cfg"
  shows "runs_config ap cfg eng"
proof -
  obtain flt counts pool where h: "app_build_pool (ap_pool ap) (ap_boot_draw ap) cfg prev = Inr pool"
    "st = \<lparr>es_filter = flt, es_pool = pool, es_clients = build_clients (ev_filter (ap_engine ap)) (cfg_clients cfg),
           es_filtering_enabled = f_enabled (cfg_filtering cfg), es_blocking_mode = blocking_mode (cfg_filtering cfg),
           es_block_v4 = custom_block_ipv4 (cfg_filtering cfg), es_block_v6 = custom_block_ipv6 (cfg_filtering cfg),
           es_blocked_ttl = blocked_ttl_secs (cfg_filtering cfg)\<rparr>"
    using assms(1) unfolding build_engine_state_def Let_def by (fastforce split: option.splits sum.splits prod.splits)
  show ?thesis using pool_specs [OF h(1)] assms(2-) unfolding runs_config_def h(2) by (simp add: tune_cache_fields)
qed

text \<open>Success: the configuration is valid, on disk, and live in every part; the filter is that of its lists.\<close>

lemma apply_config_applied:
  assumes "apply_config ap cfg s = Some (Inr (), s')"
  shows "validate (app_config s') = Inr ()" "runs_config ap (app_config s') (app_engine s')"
    "\<exists>tx. ap_yaml ap (app_config s') = Inr tx \<and> app_fs s' (pt_config (ap_paths ap)) = Some (tx, 384)"
    "\<exists>counts. compile_filters (ev_filter (ap_engine ap)) (app_config s') (ap_paths ap) (app_fs s)
        = Some (es_filter (eng_state (app_engine s')), counts)
      \<and> app_config s' = set_rule_counts counts (cfg\<lparr>cfg_upstreams := normalize (cfg_upstreams cfg)\<rparr>)"
    "pl_enabled (app_probe_log s') = ul_enabled (cfg_upstream_log (app_config s'))" "app_sessions s' = app_sessions s"
proof -
  define cfg1 where "cfg1 = cfg\<lparr>cfg_upstreams := normalize (cfg_upstreams cfg)\<rparr>"
  obtain flt counts st fs where h: "validate cfg1 = Inr ()"
    "compile_filters (ev_filter (ap_engine ap)) cfg1 (ap_paths ap) (app_fs s) = Some (flt, counts)"
    "build_engine_state ap (set_rule_counts counts cfg1) (app_fs s) (Some (es_pool (eng_state (app_engine s)))) = Some (Inr st)"
    "save_config ap (set_rule_counts counts cfg1) (app_fs s) = (fs, None)"
    "s' = s\<lparr>app_fs := fs, app_engine := reconfigure_engine ap (set_rule_counts counts cfg1) st (app_engine s),
            app_probe_log := probe_reconfigure (ul_enabled (cfg_upstream_log (set_rule_counts counts cfg1))) (app_probe_log s),
            app_config := set_rule_counts counts cfg1\<rparr>"
    using assms unfolding apply_config_def cfg1_def [symmetric]
    by (auto simp: Let_def split: sum.splits option.splits prod.splits)
  have cf: "compile_filters (ev_filter (ap_engine ap)) (set_rule_counts counts cfg1) (ap_paths ap) (app_fs s) = Some (flt, counts)"
    using h(2) by (simp add: compile_filters_def set_rule_counts_keeps)
  then have "es_filter st = flt" using h(3) by (auto simp: build_engine_state_def Let_def split: sum.splits)
  then show "\<exists>counts. compile_filters (ev_filter (ap_engine ap)) (app_config s') (ap_paths ap) (app_fs s)
        = Some (es_filter (eng_state (app_engine s')), counts)
      \<and> app_config s' = set_rule_counts counts (cfg\<lparr>cfg_upstreams := normalize (cfg_upstreams cfg)\<rparr>)"
    using cf h(5) by (intro exI [of _ counts]) (simp add: reconfigure_engine_def swap_state_def Let_def cfg1_def)
  show "runs_config ap (app_config s') (app_engine s')" unfolding h(5)
    by (rule runs_config_built [OF _ refl, where fs = "app_fs s" and prev = "Some (es_pool (eng_state (app_engine s)))"
          and cx = "ev_cache (ap_engine ap)" and c = "eng_cache (app_engine s)"])
      (simp_all add: h(3) reconfigure_engine_def swap_state_def log_reconfigure_def stats_reconfigure_def Let_def)
  show "validate (app_config s') = Inr ()" using h(1,5) by (simp add: set_rule_counts_keeps)
  show "\<exists>tx. ap_yaml ap (app_config s') = Inr tx \<and> app_fs s' (pt_config (ap_paths ap)) = Some (tx, 384)"
    using save_config_outcome(2) [OF h(4) refl] h(5) by simp
  show "pl_enabled (app_probe_log s') = ul_enabled (cfg_upstream_log (app_config s'))" "app_sessions s' = app_sessions s"
    using h(5) by (simp_all add: probe_reconfigure_def)
qed

text \<open>
  The invariant of the application: the live configuration is valid and runs in every part, and the
  file holds what it prints to, or neither has changed since the start.
\<close>

definition app_inv :: "('c, 'ch) app_env \<Rightarrow> config \<times> (string \<times> nat) option \<Rightarrow> ('c, 'ch, 'pch) app_state \<Rightarrow> bool" where
  "app_inv ap start s \<longleftrightarrow> validate (app_config s) = Inr () \<and> runs_config ap (app_config s) (app_engine s)
     \<and> ((\<exists>tx. ap_yaml ap (app_config s) = Inr tx \<and> app_fs s (pt_config (ap_paths ap)) = Some (tx, 384))
        \<or> (app_config s, app_fs s (pt_config (ap_paths ap))) = start)"

lemma apply_config_inv:
  assumes "app_inv ap start s" "apply_config ap' cfg s = Some (r, s')"
    and "ap' = ap\<lparr>ap_save_fails := ap_save_fails ap', ap_boot_draw := ap_boot_draw ap'\<rparr>"
  shows "app_inv ap start s'"
proof -
  have ap: "ap_engine ap' = ap_engine ap" "ap_yaml ap' = ap_yaml ap" "ap_paths ap' = ap_paths ap"
    by (subst assms(3), simp)+
  have rc: "runs_config ap' = runs_config ap" by (simp add: runs_config_def ap fun_eq_iff)
  show ?thesis
  proof (cases r)
    case (Inl e)
    from apply_config_refused [OF assms(2) [unfolded Inl]] assms(1) show ?thesis by (simp add: app_inv_def ap)
  next
    case (Inr u)
    then have "apply_config ap' cfg s = Some (Inr (), s')" using assms(2) by simp
    from apply_config_applied(1-3) [OF this] show ?thesis by (simp add: app_inv_def ap rc)
  qed
qed

end
