(* ===== verification/Sql_Store.thy ===== *)
theory Sql_Store
  imports Bulwark_Prelude Complex_Main "HOL-Library.Sublist"
begin

text \<open>
  What the two stores of \<open>server/src\<close>, \<open>store.rs\<close> and \<open>probe_store.rs\<close>, share: the values bound to
  SQL statements, the batch insert in one transaction, and the escaping of search terms. The
  database itself is the \<open>turso\<close> crate: executing a statement, running a query and converting
  a value are the fields of \<open>sql_env\<close>, and what the stores rely on of them is stated as laws
  about the rows that a connection shows.
\<close>

subsection \<open>Model\<close>

datatype sql_value = SNull | SInteger int | SReal real | SText string

record 'db sql_env =
  sq_exec :: "'db \<Rightarrow> string \<Rightarrow> sql_value list \<Rightarrow> (string + u64) \<times> 'db"
  sq_prepare :: "'db \<Rightarrow> string \<Rightarrow> string option"
  sq_query :: "'db \<Rightarrow> string \<Rightarrow> sql_value list \<Rightarrow> string + sql_value list list"
  sq_text :: "sql_value \<Rightarrow> string + string"
  sq_int :: "sql_value \<Rightarrow> string + int"
  sq_real :: "sql_value \<Rightarrow> string + real"

definition opt_value :: "('a \<Rightarrow> sql_value) \<Rightarrow> 'a option \<Rightarrow> sql_value" where
  "opt_value f x = (case x of Some v \<Rightarrow> f v | None \<Rightarrow> SNull)"

definition flag_value :: "bool \<Rightarrow> sql_value" where
  "flag_value b = SInteger (if b then 1 else 0)"

definition opt_text :: "sql_value \<Rightarrow> string option" where
  "opt_text v = (case v of SText s \<Rightarrow> Some s | _ \<Rightarrow> None)"

definition opt_int :: "sql_value \<Rightarrow> int option" where
  "opt_int v = (case v of SInteger i \<Rightarrow> Some i | _ \<Rightarrow> None)"

text \<open>\<open>Row::get\<close> at an index; past the row it is an error.\<close>

definition row_get :: "(sql_value \<Rightarrow> string + 'a) \<Rightarrow> sql_value list \<Rightarrow> nat \<Rightarrow> string + 'a" where
  "row_get conv row i = (case nth_opt row i of Some v \<Rightarrow> conv v | None \<Rightarrow> Inl ''no such column'')"

definition row_value :: "sql_value list \<Rightarrow> nat \<Rightarrow> string + sql_value" where
  "row_value row i = row_get Inr row i"

definition bind_sum :: "'e + 'a \<Rightarrow> ('a \<Rightarrow> 'e + 'b) \<Rightarrow> 'e + 'b" where
  "bind_sum r f = (case r of Inl e \<Rightarrow> Inl e | Inr x \<Rightarrow> f x)"

lemma bind_sum_simps [simp]: "bind_sum (Inl e) f = Inl e" "bind_sum (Inr x) f = f x"
  by (simp_all add: bind_sum_def)

subsection \<open>Batches\<close>

fun insert_rows :: "'db sql_env \<Rightarrow> string \<Rightarrow> sql_value list list \<Rightarrow> 'db \<Rightarrow> (string + unit) \<times> 'db" where
  "insert_rows sq sql [] db = (Inr (), db)"
| "insert_rows sq sql (p # ps) db =
     (case sq_exec sq db sql p of
        (Inl e, db) \<Rightarrow> (Inl e, db)
      | (Inr _, db) \<Rightarrow> insert_rows sq sql ps db)"

definition insert_all :: "'db sql_env \<Rightarrow> string \<Rightarrow> ('e \<Rightarrow> sql_value list) \<Rightarrow> 'e list \<Rightarrow> 'db \<Rightarrow> (string + unit) \<times> 'db" where
  "insert_all sq sql params entries db =
     (case sq_prepare sq db sql of
        Some e \<Rightarrow> (Inl e, db)
      | None \<Rightarrow> insert_rows sq sql (map params entries) db)"

definition insert_batch :: "'db sql_env \<Rightarrow> string \<Rightarrow> ('e \<Rightarrow> sql_value list) \<Rightarrow> 'e list \<Rightarrow> 'db \<Rightarrow> (string + unit) \<times> 'db" where
  "insert_batch sq sql params entries db =
     (if entries = [] then (Inr (), db)
      else case sq_exec sq db ''BEGIN IMMEDIATE'' [] of
        (Inl e, db) \<Rightarrow> (Inl e, db)
      | (Inr _, db) \<Rightarrow>
          (case insert_all sq sql params entries db of
             (Inr _, db) \<Rightarrow>
               (case sq_exec sq db ''COMMIT'' [] of
                  (Inl e, db) \<Rightarrow> (Inl e, db)
                | (Inr _, db) \<Rightarrow> (Inr (), db))
           | (Inl e, db) \<Rightarrow> (Inl e, snd (sq_exec sq db ''ROLLBACK'' []))))"

text \<open>
  The rows that a connection shows, each with its id, and those to go back to when a
  transaction is open. Statements that fail change nothing; an inserted row gets an id above
  all others.
\<close>

type_synonym sql_table = "(int \<times> sql_value list) list"

abbreviation begin_outcome :: "('db \<Rightarrow> sql_table \<times> sql_table option) \<Rightarrow> sql_table \<Rightarrow> (string + u64) \<times> 'db \<Rightarrow> bool" where
  "begin_outcome view tbl out \<equiv> view (snd out) = (tbl, case fst out of Inl _ \<Rightarrow> None | Inr _ \<Rightarrow> Some tbl)"

abbreviation insert_outcome ::
  "('db \<Rightarrow> sql_table \<times> sql_table option) \<Rightarrow> sql_table \<Rightarrow> sql_table \<Rightarrow> sql_value list \<Rightarrow> (string + u64) \<times> 'db \<Rightarrow> bool" where
  "insert_outcome view tbl old p out \<equiv>
     (case fst out of
        Inl _ \<Rightarrow> view (snd out) = (tbl, Some old)
      | Inr _ \<Rightarrow> \<exists>i. view (snd out) = (tbl @ [(i, p)], Some old) \<and> (\<forall>r. r \<in> set tbl \<longrightarrow> fst r < i))"

definition txn_laws :: "'db sql_env \<Rightarrow> string \<Rightarrow> ('db \<Rightarrow> sql_table \<times> sql_table option) \<Rightarrow> bool" where
  "txn_laws sq ins view \<longleftrightarrow>
     (\<forall>db tbl. view db = (tbl, None) \<longrightarrow> begin_outcome view tbl (sq_exec sq db ''BEGIN IMMEDIATE'' []))
     \<and> (\<forall>db tbl old p. view db = (tbl, Some old) \<longrightarrow> insert_outcome view tbl old p (sq_exec sq db ins p))
     \<and> (\<forall>db tbl old. view db = (tbl, Some old) \<longrightarrow>
          view (snd (sq_exec sq db ''COMMIT'' []))
            = (tbl, case fst (sq_exec sq db ''COMMIT'' []) of Inl _ \<Rightarrow> Some old | Inr _ \<Rightarrow> None))
     \<and> (\<forall>db tbl old. view db = (tbl, Some old) \<longrightarrow>
          view (snd (sq_exec sq db ''ROLLBACK'' []))
            = (case fst (sq_exec sq db ''ROLLBACK'' []) of Inl _ \<Rightarrow> (tbl, Some old) | Inr _ \<Rightarrow> (old, None)))"

text \<open>What survives when the connection goes away.\<close>

fun committed :: "sql_table \<times> sql_table option \<Rightarrow> sql_table" where
  "committed (tbl, None) = tbl"
| "committed (tbl, Some old) = old"

abbreviation ids_ascend :: "sql_table \<Rightarrow> bool" where
  "ids_ascend tbl \<equiv> sorted_wrt (<) (map fst tbl)"

lemma txn_begin: "txn_laws sq ins view \<Longrightarrow> view db = (tbl, None) \<Longrightarrow> begin_outcome view tbl (sq_exec sq db ''BEGIN IMMEDIATE'' [])"
  unfolding txn_laws_def by blast

lemma txn_insert: "txn_laws sq ins view \<Longrightarrow> view db = (tbl, Some old) \<Longrightarrow> insert_outcome view tbl old p (sq_exec sq db ins p)"
  unfolding txn_laws_def by blast

lemma txn_commit: "txn_laws sq ins view \<Longrightarrow> view db = (tbl, Some old) \<Longrightarrow>
    view (snd (sq_exec sq db ''COMMIT'' [])) = (tbl, case fst (sq_exec sq db ''COMMIT'' []) of Inl _ \<Rightarrow> Some old | Inr _ \<Rightarrow> None)"
  unfolding txn_laws_def by blast

lemma txn_rollback: "txn_laws sq ins view \<Longrightarrow> view db = (tbl, Some old) \<Longrightarrow>
    view (snd (sq_exec sq db ''ROLLBACK'' []))
      = (case fst (sq_exec sq db ''ROLLBACK'' []) of Inl _ \<Rightarrow> (tbl, Some old) | Inr _ \<Rightarrow> (old, None))"
  unfolding txn_laws_def by blast

lemma insert_rows_view:
  assumes "txn_laws sq ins view" "view db = (tbl, Some old)" "ids_ascend tbl" "insert_rows sq ins ps db = (r, db')"
  shows "\<exists>tbl'. view db' = (tbl', Some old) \<and> ids_ascend tbl'
    \<and> (r = Inr () \<longrightarrow> (\<exists>added. tbl' = tbl @ added \<and> map snd added = ps))"
  using assms
proof (induction ps arbitrary: db tbl)
  case (Cons p ps)
  note ins = txn_insert [OF Cons.prems(1,2), of p]
  show ?case
  proof (cases "fst (sq_exec sq db ins p)")
    case (Inl e)
    then show ?thesis using Cons.prems ins by (auto simp: prod.case_eq_if)
  next
    case (Inr n)
    then obtain i where i: "view (snd (sq_exec sq db ins p)) = (tbl @ [(i, p)], Some old)" "\<forall>r. r \<in> set tbl \<longrightarrow> fst r < i"
      using ins by auto
    have "ids_ascend (tbl @ [(i, p)])" using Cons.prems(3) i(2) by (auto simp: sorted_wrt_append)
    from Cons.IH [OF Cons.prems(1) i(1) this] Cons.prems(4) Inr
    obtain tbl' where t: "view db' = (tbl', Some old)" "ids_ascend tbl'"
      "r = Inr () \<longrightarrow> (\<exists>added. tbl' = (tbl @ [(i, p)]) @ added \<and> map snd added = ps)" by (auto simp: prod.case_eq_if)
    have "\<exists>added'. tbl' = tbl @ added' \<and> map snd added' = p # ps" if r: "r = Inr ()"
    proof -
      obtain added where "tbl' = tbl @ (i, p) # added" "map snd added = ps" using t(3) r by auto
      then show ?thesis by (intro exI [of _ "(i, p) # added"]) simp
    qed
    then show ?thesis using t(1,2) by (intro exI [of _ tbl']) simp
  qed
qed auto

text \<open>A batch is inserted as a whole, or what is committed stays as it was.\<close>

lemma insert_batch_atomic:
  assumes "txn_laws sq ins view" "view db = (tbl, None)" "ids_ascend tbl"
    and "insert_batch sq ins params es db = (r, db')"
  shows "case r of
      Inr _ \<Rightarrow> \<exists>added. view db' = (tbl @ added, None) \<and> map snd added = map params es \<and> ids_ascend (tbl @ added)
    | Inl _ \<Rightarrow> committed (view db') = tbl"
proof (cases "es = []")
  case True
  then show ?thesis using assms by (auto simp: insert_batch_def)
next
  case False
  define b where "b = sq_exec sq db ''BEGIN IMMEDIATE'' []"
  note v1 = txn_begin [OF assms(1,2), folded b_def]
  show ?thesis
  proof (cases "fst b")
    case (Inl e)
    then show ?thesis using assms(4) False v1 by (auto simp: insert_batch_def b_def prod.case_eq_if)
  next
    case (Inr n)
    then have v1: "view (snd b) = (tbl, Some tbl)" using v1 by simp
    obtain r2 db2 where i: "insert_all sq ins params es (snd b) = (r2, db2)" by fastforce
    have "\<exists>tbl'. view db2 = (tbl', Some tbl) \<and> ids_ascend tbl'
        \<and> (r2 = Inr () \<longrightarrow> (\<exists>added. tbl' = tbl @ added \<and> map snd added = map params es))"
      using i v1 assms(3) insert_rows_view [OF assms(1) v1 assms(3)] by (auto simp: insert_all_def split: option.splits)
    then obtain tbl' where t: "view db2 = (tbl', Some tbl)" "ids_ascend tbl'"
      "r2 = Inr () \<longrightarrow> (\<exists>added. tbl' = tbl @ added \<and> map snd added = map params es)" by blast
    note rb = txn_rollback [OF assms(1) t(1)] and cm = txn_commit [OF assms(1) t(1)]
    show ?thesis
    proof (cases r2)
      case (Inl e)
      then show ?thesis using assms(4) False Inr i rb
        by (auto simp: insert_batch_def b_def prod.case_eq_if split: sum.splits)
    next
      case (Inr u)
      then obtain added where a: "tbl' = tbl @ added" "map snd added = map params es" using t(3) by auto
      have "insert_batch sq ins params es db
          = (case fst (sq_exec sq db2 ''COMMIT'' []) of Inl e \<Rightarrow> Inl e | Inr _ \<Rightarrow> Inr (), snd (sq_exec sq db2 ''COMMIT'' []))"
        using False \<open>fst b = Inr n\<close> i Inr by (simp add: insert_batch_def b_def prod.case_eq_if split: sum.split)
      then show ?thesis using assms(4) cm a t(2) by (cases "fst (sq_exec sq db2 ''COMMIT'' [])") auto
    qed
  qed
qed

text \<open>A commit that fails leaves the transaction open on the shared connection.\<close>

lemma failed_commit_stays_open:
  assumes "txn_laws sq ins view" "view db = (tbl, Some old)" "sq_exec sq db ''COMMIT'' [] = (Inl e, db')"
  shows "snd (view db') = Some old"
  using txn_commit [OF assms(1,2)] assms(3) by simp

end
