(* ===== verification/Log_Store.thy ===== *)
theory Log_Store
  imports Sql_Store Query_Log Client_Matcher Upstream_Spec
begin

text \<open>
  The query log on disk, \<open>server/src/store.rs\<close>: how an entry becomes a row and comes back, the
  filter with its pagination, and retention. The JSON codec of the answers is a parameter.
\<close>

subsection \<open>Rows\<close>

record json_env =
  js_answers :: "string list \<Rightarrow> string option"
  js_parse :: "string \<Rightarrow> string list option"

definition LOG_INSERT_SQL :: string where
  "LOG_INSERT_SQL =
     ''INSERT INTO queries
    (time_ms, client_ip, question, qtype, action, blocked,
     upstream, rule, list_id, allowlisted, rcode, answers, elapsed_ms)
    VALUES (?,?,?,?,?,?,?,?,?,?,?,?,?)''"

definition action_columns :: "query_action \<Rightarrow> string \<times> string option \<times> string option \<times> u32 option" where
  "action_columns a =
     (case a of
        Forwarded up \<Rightarrow> (''forwarded'', Some up, None, None)
      | Cached \<Rightarrow> (''cached'', None, None, None)
      | Blocked rule lid \<Rightarrow> (''blocked'', None, Some rule, Some lid)
      | Rewritten rule lid \<Rightarrow> (''rewritten'', None, Some rule, Some lid)
      | ErrorAction \<Rightarrow> (''error'', None, None, None))"

definition log_insert_params :: "json_env \<Rightarrow> query_log_entry \<Rightarrow> sql_value list" where
  "log_insert_params js e =
     (let (qact, upstream, rule, lid) = action_columns (e_action e) in
      [SInteger (e_time_ms e), SText (e_client_ip e), SText (e_question e), SText (e_qtype e), SText qact,
       flag_value (entry_is_blocked e), opt_value SText upstream, opt_value SText rule,
       opt_value (\<lambda>v. SInteger (uint v)) lid, flag_value (e_allowlisted e), SText (e_rcode e),
       SText (case js_answers js (e_answers e) of Some j \<Rightarrow> j | None \<Rightarrow> ''[]''), SReal (e_elapsed_ms e)])"

definition row_action :: "string \<Rightarrow> string option \<Rightarrow> string option \<Rightarrow> u32 option \<Rightarrow> query_action" where
  "row_action qact upstream rule lid =
     (let dflt = (\<lambda>x. case x of Some s \<Rightarrow> s | None \<Rightarrow> []); num = (case lid of Some v \<Rightarrow> v | None \<Rightarrow> 0) in
      if qact = ''forwarded'' then Forwarded (dflt upstream)
      else if qact = ''blocked'' then Blocked (dflt rule) num
      else if qact = ''rewritten'' then Rewritten (dflt rule) num
      else if qact = ''error'' then ErrorAction
      else Cached)"

definition row_to_entry :: "'db sql_env \<Rightarrow> json_env \<Rightarrow> sql_value list \<Rightarrow> string + query_log_entry" where
  "row_to_entry sq js row =
     bind_sum (row_get (sq_text sq) row 5) (\<lambda>qact.
     bind_sum (row_value row 6) (\<lambda>upstream.
     bind_sum (row_value row 7) (\<lambda>rule.
     bind_sum (row_value row 8) (\<lambda>lid.
     let rrs = (case row_get (sq_text sq) row 11 of
                  Inr s \<Rightarrow> (case js_parse js s of Some a \<Rightarrow> a | None \<Rightarrow> [])
                | Inl _ \<Rightarrow> [])
     in
     bind_sum (row_get (sq_int sq) row 0) (\<lambda>ident.
     bind_sum (row_get (sq_int sq) row 1) (\<lambda>time_ms.
     bind_sum (row_get (sq_text sq) row 2) (\<lambda>client_ip.
     bind_sum (row_get (sq_text sq) row 3) (\<lambda>question.
     bind_sum (row_get (sq_text sq) row 4) (\<lambda>qtype.
     bind_sum (row_get (sq_int sq) row 9) (\<lambda>allowlisted.
     bind_sum (row_get (sq_text sq) row 10) (\<lambda>rcode.
     bind_sum (row_get (sq_real sq) row 12) (\<lambda>elapsed_ms.
       Inr \<lparr>e_id = word_of_int ident, e_time_ms = time_ms, e_client_ip = client_ip, e_question = question, e_qtype = qtype,
            e_action = row_action qact (opt_text upstream) (opt_text rule) (map_option word_of_int (opt_int lid)),
            e_allowlisted = (allowlisted \<noteq> 0), e_rcode = rcode, e_answers = rrs, e_elapsed_ms = elapsed_ms\<rparr>))))))))))))"

definition log_insert_batch :: "'db sql_env \<Rightarrow> json_env \<Rightarrow> query_log_entry list \<Rightarrow> 'db \<Rightarrow> (string + unit) \<times> 'db" where
  "log_insert_batch sq js = insert_batch sq LOG_INSERT_SQL (log_insert_params js)"

definition log_delete_older_than :: "'db sql_env \<Rightarrow> int \<Rightarrow> 'db \<Rightarrow> (string + u64) \<times> 'db" where
  "log_delete_older_than sq cutoff_ms db = sq_exec sq db ''DELETE FROM queries WHERE time_ms < ?1'' [SInteger cutoff_ms]"

definition log_clear :: "'db sql_env \<Rightarrow> 'db \<Rightarrow> (string + unit) \<times> 'db" where
  "log_clear sq db =
     (case sq_exec sq db ''DELETE FROM queries'' [] of (Inl e, db) \<Rightarrow> (Inl e, db) | (Inr _, db) \<Rightarrow> (Inr (), db))"

subsection \<open>Filters\<close>

definition like_escape :: "string \<Rightarrow> string" where
  "like_escape s = concat (map (\<lambda>c. if c \<in> {CHR 0x5C, CHR ''%'', CHR ''_''} then [CHR 0x5C, c] else [c]) s)"

definition like_pattern :: "string \<Rightarrow> string" where
  "like_pattern s = ''%'' @ like_escape s @ ''%''"

definition nonempty :: "string option \<Rightarrow> string option" where
  "nonempty x = (case x of Some s \<Rightarrow> if s = [] then None else Some s | None \<Rightarrow> None)"

definition placeholder :: "nat \<Rightarrow> string" where
  "placeholder n = ''?'' @ show_nat (int n)"

definition like_text :: "string \<Rightarrow> nat \<Rightarrow> string" where
  "like_text column n = column @ '' LIKE '' @ placeholder n @ '' ESCAPE '' @ [CHR 0x27, CHR 0x5C, CHR 0x27]"

definition distinct_client_ips_matching ::
  "'db sql_env \<Rightarrow> filter_ext \<Rightarrow> client_matcher \<Rightarrow> string \<Rightarrow> 'db \<Rightarrow> string + string list" where
  "distinct_client_ips_matching sq fx clients needle db =
     bind_sum (sq_query sq db ''SELECT DISTINCT client_ip FROM queries'' []) (\<lambda>rows.
       foldl (\<lambda>out row. bind_sum out (\<lambda>out. bind_sum (row_get (sq_text sq) row 0) (\<lambda>ip.
           Inr (if (case name_for_str fx clients ip of Some n \<Rightarrow> sublist needle (to_ascii_lowercase n) | None \<Rightarrow> False)
                then out @ [ip] else out))))
         (Inr []) rows)"

definition where_sql :: "string list \<Rightarrow> string" where
  "where_sql clauses = (if clauses = [] then [] else '' WHERE '' @ join '' AND '' clauses)"

definition build_where ::
  "'db sql_env \<Rightarrow> filter_ext \<Rightarrow> log_filter \<Rightarrow> client_matcher \<Rightarrow> 'db \<Rightarrow> string + string \<times> sql_value list" where
  "build_where sq fx flt clients db =
     (let clauses = (if lf_blocked_only flt then [''blocked = 1''] else []);
          (clauses, params) =
            (case nonempty (lf_search flt) of
               Some search \<Rightarrow> (clauses @ [like_text ''question'' 1], [SText (like_pattern search)])
             | None \<Rightarrow> (clauses, []))
      in case nonempty (lf_client flt) of
           None \<Rightarrow> Inr (where_sql clauses, params)
         | Some wanted \<Rightarrow>
             let params = params @ [SText (like_pattern wanted)];
                 ip_like = like_text ''client_ip'' (length params);
                 needle = to_ascii_lowercase wanted
             in bind_sum (distinct_client_ips_matching sq fx clients needle db) (\<lambda>name_ips.
                  if name_ips = [] then Inr (where_sql (clauses @ [ip_like]), params)
                  else
                    let start = length params;
                        placeholders = map (\<lambda>i. placeholder (start + i + 1)) [0..<length name_ips]
                    in Inr (where_sql (clauses @ [''('' @ ip_like @ '' OR client_ip IN ('' @ join '', '' placeholders @ ''))'']),
                            params @ map SText name_ips)))"

definition count_sql :: "string \<Rightarrow> string" where
  "count_sql w = ''SELECT COUNT(*) FROM queries'' @ w"

definition page_sql :: "string \<Rightarrow> nat \<Rightarrow> string" where
  "page_sql w n =
     ''SELECT id, time_ms, client_ip, question, qtype, action, upstream, rule, list_id, allowlisted, rcode, answers, elapsed_ms FROM queries''
     @ w @ '' ORDER BY id DESC LIMIT '' @ placeholder (n + 1) @ '' OFFSET '' @ placeholder (n + 2)"

fun collect_rows :: "(sql_value list \<Rightarrow> string + 'a) \<Rightarrow> sql_value list list \<Rightarrow> string + 'a list" where
  "collect_rows f [] = Inr []"
| "collect_rows f (r # rs) = bind_sum (f r) (\<lambda>x. bind_sum (collect_rows f rs) (\<lambda>xs. Inr (x # xs)))"

text \<open>A \<open>usize\<close> bound as a signed 64-bit integer.\<close>

definition as_i64 :: "nat \<Rightarrow> int" where
  "as_i64 n = sint (word_of_nat n :: u64)"

definition store_query ::
  "'db sql_env \<Rightarrow> json_env \<Rightarrow> filter_ext \<Rightarrow> log_filter \<Rightarrow> nat \<Rightarrow> nat \<Rightarrow> client_matcher \<Rightarrow> 'db \<Rightarrow> string + log_page" where
  "store_query sq js fx flt offset limit clients db =
     bind_sum (build_where sq fx flt clients db) (\<lambda>(w, params).
     bind_sum (sq_query sq db (count_sql w) params) (\<lambda>counts.
     bind_sum (case counts of row # _ \<Rightarrow> row_get (sq_int sq) row 0 | [] \<Rightarrow> Inr 0) (\<lambda>total.
     bind_sum (sq_query sq db (page_sql w (length params)) (params @ [SInteger (as_i64 limit), SInteger (as_i64 offset)])) (\<lambda>rows.
     bind_sum (collect_rows (row_to_entry sq js) rows) (\<lambda>entries.
       Inr \<lparr>lp_entries = entries, lp_total = nat (max total 0)\<rparr>)))))"

subsection \<open>Search terms are literal\<close>

text \<open>\<open>LIKE\<close> with a backslash as its escape character: ASCII letters match without regard to case.\<close>

fun like_match :: "string \<Rightarrow> string \<Rightarrow> bool" where
  "like_match [] t = (t = [])"
| "like_match (p # ps) [] = (p = CHR ''%'' \<and> like_match ps [])"
| "like_match (p # ps) (x # t) =
     (if p = CHR ''%'' then like_match ps (x # t) \<or> like_match (p # ps) t
      else if p = CHR ''_'' then like_match ps t
      else if p = CHR 0x5C then (case ps of [] \<Rightarrow> False | c # cs \<Rightarrow> lower c = lower x \<and> like_match cs t)
      else lower p = lower x \<and> like_match ps t)"

lemma like_escaped_Cons:
  "like_match (like_escape (c # s) @ r) (x # t) \<longleftrightarrow> lower c = lower x \<and> like_match (like_escape s @ r) t"
  "\<not> like_match (like_escape (c # s) @ r) []"
  by (simp_all add: like_escape_def)

lemma like_percent_end: "like_match ''%'' t"
  by (induction t) simp_all

lemma like_escaped_prefix: "like_match (like_escape s @ ''%'') t \<longleftrightarrow> prefix (to_ascii_lowercase s) (to_ascii_lowercase t)"
proof (induction s arbitrary: t)
  case Nil
  then show ?case by (simp add: like_escape_def like_percent_end to_ascii_lowercase_def)
next
  case (Cons c s)
  then show ?case by (cases t) (auto simp: like_escaped_Cons to_ascii_lowercase_def)
qed

text \<open>A pattern matches exactly the texts that contain the search term, without regard to case.\<close>

lemma like_pattern_contains:
  "like_match (like_pattern s) t \<longleftrightarrow> sublist (to_ascii_lowercase s) (to_ascii_lowercase t)"
proof (induction t)
  case Nil
  then show ?case using like_escaped_prefix [of s "[]"]
    by (simp add: like_pattern_def to_ascii_lowercase_def)
next
  case (Cons x t)
  have "like_match (like_pattern s) (x # t) \<longleftrightarrow> like_match (like_escape s @ ''%'') (x # t) \<or> like_match (like_pattern s) t"
    by (simp add: like_pattern_def)
  also have "\<dots> \<longleftrightarrow> sublist (to_ascii_lowercase s) (to_ascii_lowercase (x # t))"
    using Cons like_escaped_prefix [of s "x # t"] by (simp add: to_ascii_lowercase_def sublist_Cons_right)
  finally show ?case .
qed

subsection \<open>Rows come back\<close>

text \<open>
  \<open>conv_laws\<close>: a value converts to its own type. \<open>json_laws\<close>: answers are read back. The ids and
  times are those of a 64-bit integer column.
\<close>

definition conv_laws :: "'db sql_env \<Rightarrow> bool" where
  "conv_laws sq \<longleftrightarrow> (\<forall>s. sq_text sq (SText s) = Inr s) \<and> (\<forall>i. sq_int sq (SInteger i) = Inr i)
     \<and> (\<forall>r. sq_real sq (SReal r) = Inr r)"

definition json_laws :: "json_env \<Rightarrow> bool" where
  "json_laws js \<longleftrightarrow> (\<forall>a j. js_answers js a = Some j \<longrightarrow> js_parse js j = Some a) \<and> (\<forall>a. js_answers js a \<noteq> None)"

text \<open>The columns that a page reads: the id, and all but \<open>blocked\<close>.\<close>

definition project :: "int \<times> sql_value list \<Rightarrow> sql_value list" where
  "project r = SInteger (fst r) # take 5 (snd r) @ drop 6 (snd r)"

lemma row_roundtrip:
  assumes "conv_laws sq" "json_laws js"
  shows "row_to_entry sq js (project (i, log_insert_params js e)) = Inr (e\<lparr>e_id := word_of_int i\<rparr>)"
proof -
  have j: "\<exists>j. js_answers js (e_answers e) = Some j \<and> js_parse js j = Some (e_answers e)"
    using assms(2) unfolding json_laws_def by blast
  then show ?thesis using assms(1)
    by (cases "e_action e")
      (auto simp: row_to_entry_def project_def log_insert_params_def action_columns_def row_get_def row_value_def nth_opt_def
        conv_laws_def opt_value_def flag_value_def opt_text_def opt_int_def row_action_def)
qed

subsection \<open>Pages\<close>

text \<open>The conditions that a filter puts into the statement, and what they mean for a row.\<close>

datatype clause = CBlocked | CQuestion nat | CClient nat | CClientIn nat "nat list"

fun clause_text :: "clause \<Rightarrow> string" where
  "clause_text CBlocked = ''blocked = 1''"
| "clause_text (CQuestion n) = like_text ''question'' n"
| "clause_text (CClient n) = like_text ''client_ip'' n"
| "clause_text (CClientIn n ks) =
     ''('' @ like_text ''client_ip'' n @ '' OR client_ip IN ('' @ join '', '' (map placeholder ks) @ ''))''"

definition param :: "sql_value list \<Rightarrow> nat \<Rightarrow> sql_value" where
  "param ps n = (case nth_opt ps (n - 1) of Some v \<Rightarrow> v | None \<Rightarrow> SNull)"

definition column :: "sql_value list \<Rightarrow> nat \<Rightarrow> sql_value" where
  "column cols k = (case nth_opt cols k of Some v \<Rightarrow> v | None \<Rightarrow> SNull)"

fun like_holds :: "sql_value \<Rightarrow> sql_value \<Rightarrow> bool" where
  "like_holds (SText p) (SText t) = like_match p t"
| "like_holds _ _ = False"

fun clause_holds :: "sql_value list \<Rightarrow> sql_value list \<Rightarrow> clause \<Rightarrow> bool" where
  "clause_holds ps cols CBlocked = (column cols 5 = SInteger 1)"
| "clause_holds ps cols (CQuestion n) = like_holds (param ps n) (column cols 2)"
| "clause_holds ps cols (CClient n) = like_holds (param ps n) (column cols 1)"
| "clause_holds ps cols (CClientIn n ks) =
     (like_holds (param ps n) (column cols 1) \<or> column cols 1 \<in> set (map (param ps) ks))"

definition selected :: "sql_value list \<Rightarrow> clause list \<Rightarrow> sql_table \<Rightarrow> sql_table" where
  "selected ps cs tbl = filter (\<lambda>r. list_all (clause_holds ps (snd r)) cs) tbl"

text \<open>
  How the database answers the count and the page for some conditions, on rows with ascending
  ids: the number of rows selected, and those of the page, the newest first.
\<close>

definition answers_selects :: "'db sql_env \<Rightarrow> 'db \<Rightarrow> sql_table \<Rightarrow> clause list \<Rightarrow> sql_value list \<Rightarrow> bool" where
  "answers_selects sq db tbl cs ps \<longleftrightarrow>
     sq_query sq db (count_sql (where_sql (map clause_text cs))) ps = Inr [[SInteger (int (length (selected ps cs tbl)))]]
     \<and> (\<forall>limit offset. 0 \<le> limit \<longrightarrow> 0 \<le> offset \<longrightarrow>
          sq_query sq db (page_sql (where_sql (map clause_text cs)) (length ps)) (ps @ [SInteger limit, SInteger offset])
            = Inr (map project (take (nat limit) (drop (nat offset) (rev (selected ps cs tbl))))))"

definition names_match :: "filter_ext \<Rightarrow> client_matcher \<Rightarrow> string \<Rightarrow> string \<Rightarrow> bool" where
  "names_match fx clients wanted ip \<longleftrightarrow>
     (case name_for_str fx clients ip of
        Some n \<Rightarrow> sublist (to_ascii_lowercase wanted) (to_ascii_lowercase n) | None \<Rightarrow> False)"

definition log_matches :: "filter_ext \<Rightarrow> client_matcher \<Rightarrow> log_filter \<Rightarrow> query_log_entry \<Rightarrow> bool" where
  "log_matches fx clients flt e \<longleftrightarrow>
     (lf_blocked_only flt \<longrightarrow> entry_is_blocked e)
     \<and> (case nonempty (lf_search flt) of None \<Rightarrow> True
        | Some s \<Rightarrow> sublist (to_ascii_lowercase s) (to_ascii_lowercase (e_question e)))
     \<and> (case nonempty (lf_client flt) of None \<Rightarrow> True
        | Some c \<Rightarrow> sublist (to_ascii_lowercase c) (to_ascii_lowercase (e_client_ip e)) \<or> names_match fx clients c (e_client_ip e))"

text \<open>The client addresses in the log whose name contains what is searched for.\<close>

definition named_ips :: "filter_ext \<Rightarrow> client_matcher \<Rightarrow> log_filter \<Rightarrow> string list \<Rightarrow> string list" where
  "named_ips fx clients flt ips =
     (case nonempty (lf_client flt) of None \<Rightarrow> [] | Some c \<Rightarrow> filter (names_match fx clients c) ips)"

definition search_params :: "log_filter \<Rightarrow> sql_value list" where
  "search_params flt = (case nonempty (lf_search flt) of None \<Rightarrow> [] | Some s \<Rightarrow> [SText (like_pattern s)])"

definition filter_params :: "log_filter \<Rightarrow> string list \<Rightarrow> sql_value list" where
  "filter_params flt names =
     search_params flt @ (case nonempty (lf_client flt) of None \<Rightarrow> [] | Some c \<Rightarrow> SText (like_pattern c) # map SText names)"

definition filter_clauses :: "log_filter \<Rightarrow> string list \<Rightarrow> clause list" where
  "filter_clauses flt names =
     (let n = Suc (length (search_params flt)) in
      (if lf_blocked_only flt then [CBlocked] else [])
      @ (case nonempty (lf_search flt) of None \<Rightarrow> [] | Some _ \<Rightarrow> [CQuestion 1])
      @ (case nonempty (lf_client flt) of None \<Rightarrow> []
         | Some _ \<Rightarrow> [if names = [] then CClient n else CClientIn n (map (\<lambda>i. n + i + 1) [0..<length names])]))"

lemma distinct_ips:
  assumes "conv_laws sq" "sq_query sq db ''SELECT DISTINCT client_ip FROM queries'' [] = Inr (map (\<lambda>ip. [SText ip]) ips)"
  shows "distinct_client_ips_matching sq fx clients (to_ascii_lowercase c) db = Inr (filter (names_match fx clients c) ips)"
proof -
  let ?f = "\<lambda>out row. bind_sum out (\<lambda>out. bind_sum (row_get (sq_text sq) row 0) (\<lambda>ip.
           Inr (if (case name_for_str fx clients ip of Some n \<Rightarrow> sublist (to_ascii_lowercase c) (to_ascii_lowercase n) | None \<Rightarrow> False)
                then out @ [ip] else out)))"
  have "foldl ?f (Inr acc) (map (\<lambda>ip. [SText ip]) ips) = Inr (acc @ filter (names_match fx clients c) ips)" for acc
    using assms(1)
    by (induction ips arbitrary: acc) (auto simp: row_get_def nth_opt_def conv_laws_def names_match_def)
  from this [of "[]"] show ?thesis using assms(2) by (simp add: distinct_client_ips_matching_def)
qed

lemma build_where_clauses:
  assumes "conv_laws sq" "sq_query sq db ''SELECT DISTINCT client_ip FROM queries'' [] = Inr (map (\<lambda>ip. [SText ip]) ips)"
  shows "build_where sq fx flt clients db
    = Inr (where_sql (map clause_text (filter_clauses flt (named_ips fx clients flt ips))), filter_params flt (named_ips fx clients flt ips))"
  unfolding build_where_def filter_clauses_def filter_params_def search_params_def named_ips_def
  using distinct_ips [OF assms]
  by (auto simp: Let_def comp_def split: option.split)

lemma row_columns:
  "column (log_insert_params js e) 5 = flag_value (entry_is_blocked e)"
  "column (log_insert_params js e) 2 = SText (e_question e)" "column (log_insert_params js e) 1 = SText (e_client_ip e)"
  by (simp_all add: column_def nth_opt_def log_insert_params_def split: prod.split)

lemma client_params:
  assumes "nonempty (lf_client flt) = Some c"
  shows "param (filter_params flt names) (Suc (length (search_params flt))) = SText (like_pattern c)"
    "map (param (filter_params flt names)) (map (\<lambda>i. Suc (length (search_params flt)) + i + 1) [0..<length names]) = map SText names"
  using assms by (auto simp: param_def filter_params_def nth_opt_def nth_append intro: nth_equalityI)

text \<open>The conditions select exactly the entries that the filter means.\<close>

lemma clauses_hold:
  assumes "e_client_ip e \<in> set ips" and names_def: "names = named_ips fx clients flt ips"
  shows "list_all (clause_holds (filter_params flt names) (log_insert_params js e)) (filter_clauses flt names) = log_matches fx clients flt e"
proof -
  let ?ps = "filter_params flt names" and ?row = "log_insert_params js e"
  have q: "clause_holds ?ps ?row (CQuestion 1) \<longleftrightarrow> sublist (to_ascii_lowercase s) (to_ascii_lowercase (e_question e))"
    if "nonempty (lf_search flt) = Some s" for s
    using that by (simp add: row_columns like_pattern_contains param_def filter_params_def search_params_def nth_opt_def nth_append)
  have b: "clause_holds ?ps ?row CBlocked \<longleftrightarrow> entry_is_blocked e" by (simp add: row_columns flag_value_def)
  have c: "clause_holds ?ps ?row (if names = [] then CClient n else CClientIn n (map (\<lambda>i. n + i + 1) [0..<length names]))
      \<longleftrightarrow> sublist (to_ascii_lowercase c) (to_ascii_lowercase (e_client_ip e)) \<or> names_match fx clients c (e_client_ip e)"
    if "nonempty (lf_client flt) = Some c" "n = Suc (length (search_params flt))" for c n
  proof -
    have "e_client_ip e \<in> set names \<longleftrightarrow> names_match fx clients c (e_client_ip e)"
      using that(1) assms(1) by (simp add: names_def named_ips_def)
    moreover have "clause_holds ?ps ?row (CClient n) \<longleftrightarrow> sublist (to_ascii_lowercase c) (to_ascii_lowercase (e_client_ip e))"
      "clause_holds ?ps ?row (CClientIn n (map (\<lambda>i. n + i + 1) [0..<length names]))
        \<longleftrightarrow> sublist (to_ascii_lowercase c) (to_ascii_lowercase (e_client_ip e)) \<or> e_client_ip e \<in> set names"
      unfolding clause_holds.simps that(2) client_params [OF that(1)] row_columns by (auto simp: like_pattern_contains)
    ultimately show ?thesis by auto
  qed
  let ?n = "Suc (length (search_params flt))" and ?H = "clause_holds ?ps ?row"
  have "list_all ?H (if lf_blocked_only flt then [CBlocked] else []) \<longleftrightarrow> (lf_blocked_only flt \<longrightarrow> entry_is_blocked e)"
    by (simp add: b del: clause_holds.simps)
  moreover have "list_all ?H (case nonempty (lf_search flt) of None \<Rightarrow> [] | Some _ \<Rightarrow> [CQuestion 1]) \<longleftrightarrow>
      (case nonempty (lf_search flt) of None \<Rightarrow> True | Some s \<Rightarrow> sublist (to_ascii_lowercase s) (to_ascii_lowercase (e_question e)))"
    using q by (simp del: clause_holds.simps split: option.split)
  moreover have "list_all ?H (case nonempty (lf_client flt) of None \<Rightarrow> []
       | Some _ \<Rightarrow> [if names = [] then CClient ?n else CClientIn ?n (map (\<lambda>i. ?n + i + 1) [0..<length names])]) \<longleftrightarrow>
      (case nonempty (lf_client flt) of None \<Rightarrow> True
       | Some c \<Rightarrow> sublist (to_ascii_lowercase c) (to_ascii_lowercase (e_client_ip e)) \<or> names_match fx clients c (e_client_ip e))"
    using c [OF _ refl] by (simp only: list_all_iff split: option.split) simp
  ultimately show ?thesis unfolding filter_clauses_def log_matches_def Let_def list_all_append by simp
qed

lemma collect_rows_map: "list_all (\<lambda>r. f (g r) = Inr (h r)) rs \<Longrightarrow> collect_rows f (map g rs) = Inr (map h rs)"
  by (induction rs) simp_all

lemma as_i64_small: "n < 2 ^ 63 \<Longrightarrow> as_i64 n = int n"
  by (simp add: as_i64_def signed_of_nat signed_take_bit_int_eq_self)

text \<open>What a log of entries, stored with their ids, answers to a filter.\<close>

definition log_rows :: "json_env \<Rightarrow> (int \<times> query_log_entry) list \<Rightarrow> sql_table" where
  "log_rows js qlog = map (\<lambda>(i, e). (i, log_insert_params js e)) qlog"

lemma store_query_page:
  assumes "conv_laws sq" "json_laws js"
    and "sq_query sq db ''SELECT DISTINCT client_ip FROM queries'' [] = Inr (map (\<lambda>ip. [SText ip]) ips)"
    and "list_all (\<lambda>(_, e). e_client_ip e \<in> set ips) qlog"
    and "names = named_ips fx clients flt ips"
    and "answers_selects sq db (log_rows js qlog) (filter_clauses flt names) (filter_params flt names)"
    and "offset < 2 ^ 63" "limit < 2 ^ 63"
  shows "store_query sq js fx flt offset limit clients db =
     (let found = filter (\<lambda>(_, e). log_matches fx clients flt e) qlog in
      Inr \<lparr>lp_entries = map (\<lambda>(i, e). e\<lparr>e_id := word_of_int i\<rparr>) (take limit (drop offset (rev found))),
           lp_total = length found\<rparr>)"
proof -
  let ?cs = "filter_clauses flt names" and ?ps = "filter_params flt names"
  let ?found = "filter (\<lambda>(_, e). log_matches fx clients flt e) qlog"
  have sel: "selected ?ps ?cs (log_rows js qlog) = log_rows js ?found"
    using assms(4) clauses_hold [OF _ assms(5), of _ js]
    unfolding selected_def log_rows_def by (induction qlog) (auto simp: case_prod_beta)
  have "list_all (\<lambda>r. row_to_entry sq js (project (case r of (i, e) \<Rightarrow> (i, log_insert_params js e)))
      = Inr (case r of (i, e) \<Rightarrow> e\<lparr>e_id := word_of_int i\<rparr>)) xs" for xs
    using row_roundtrip [OF assms(1,2)] by (induction xs) auto
  note rows = collect_rows_map [OF this]
  have page: "sq_query sq db (page_sql (where_sql (map clause_text ?cs)) (length ?ps)) (?ps @ [SInteger (int limit), SInteger (int offset)])
      = Inr (map (\<lambda>r. project (case r of (i, e) \<Rightarrow> (i, log_insert_params js e))) (take limit (drop offset (rev ?found))))"
    using assms(6) unfolding answers_selects_def sel
    by (simp add: log_rows_def rev_map drop_map take_map comp_def)
  have "row_get (sq_int sq) [SInteger (int (length ?found))] 0 = Inr (int (length ?found))"
    using assms(1) by (simp add: row_get_def nth_opt_def conv_laws_def)
  then show ?thesis
    using assms(6) page rows [of "take limit (drop offset (rev ?found))"] unfolding answers_selects_def sel
    by (simp add: store_query_def build_where_clauses [OF assms(1,3)] assms(5) [symmetric] as_i64_small [OF assms(7)] as_i64_small [OF assms(8)]
        log_rows_def Let_def)
qed

end
