(* ===== verification/Probe_Store.thy ===== *)
theory Probe_Store
  imports Log_Store Probe_Log
begin

text \<open>
  The probe telemetry on disk, \<open>server/src/probe_store.rs\<close>: how a probe event becomes a row and
  comes back, the recent events and the export. The JSON text of an event is a parameter.
\<close>

subsection \<open>Model\<close>

definition PROBE_INSERT_SQL :: string where
  "PROBE_INSERT_SQL =
     ''INSERT INTO probes
    (time_ms, upstream, name, kind, outcome, rtt_ms, first_rtt_ms, ewma_ms, up, consecutive_failures, detail, error_kind, live_ewma_ms, live_queries, live_failures, rank, lead_held)
    VALUES (?,?,?,?,?,?,?,?,?,?,?,?,?,?,?,?,?)''"

definition PROBE_COLUMNS :: string where
  "PROBE_COLUMNS =
     ''time_ms, upstream, name, kind, outcome, rtt_ms, first_rtt_ms, ewma_ms, up, consecutive_failures, detail, error_kind, live_ewma_ms, live_queries, live_failures, rank, lead_held''"

definition probe_insert_params :: "probe_event \<Rightarrow> sql_value list" where
  "probe_insert_params e =
     [SInteger (pe_time_ms e), SText (pe_upstream e), SText (pe_name e), SText (kind_as_str (pe_kind e)),
      SText (outcome_as_str (pe_outcome e)), opt_value SReal (pe_rtt_ms e), opt_value SReal (pe_first_rtt_ms e),
      opt_value SReal (pe_ewma_ms e), flag_value (pe_up e), SInteger (uint (pe_consecutive_failures e)),
      opt_value SText (pe_detail e), opt_value (\<lambda>k. SText (error_kind_as_str k)) (pe_error_kind e),
      opt_value SReal (pe_live_ewma_ms e), SInteger (sint (pe_live_queries e)), SInteger (sint (pe_live_failures e)),
      opt_value (\<lambda>r. SInteger (uint r)) (pe_rank e), flag_value (pe_lead_held e)]"

definition opt_real :: "sql_value \<Rightarrow> real option" where
  "opt_real v = (case v of SReal r \<Rightarrow> Some r | SInteger i \<Rightarrow> Some (real_of_int i) | _ \<Rightarrow> None)"

definition row_to_event :: "'db sql_env \<Rightarrow> sql_value list \<Rightarrow> string + probe_event" where
  "row_to_event sq row =
     bind_sum (row_get (sq_int sq) row 0) (\<lambda>time_ms.
     bind_sum (row_get (sq_text sq) row 1) (\<lambda>upstream.
     bind_sum (row_get (sq_text sq) row 2) (\<lambda>name.
     bind_sum (row_get (sq_text sq) row 3) (\<lambda>kind.
     bind_sum (row_get (sq_text sq) row 4) (\<lambda>outcome.
     bind_sum (row_value row 5) (\<lambda>rtt.
     bind_sum (row_value row 6) (\<lambda>first_rtt.
     bind_sum (row_value row 7) (\<lambda>ewma_v.
     bind_sum (row_get (sq_int sq) row 8) (\<lambda>up.
     bind_sum (row_get (sq_int sq) row 9) (\<lambda>failures.
     bind_sum (row_value row 10) (\<lambda>detail.
     bind_sum (row_value row 11) (\<lambda>error_kind.
     bind_sum (row_value row 12) (\<lambda>live_ewma.
     bind_sum (row_get (sq_int sq) row 13) (\<lambda>live_queries.
     bind_sum (row_get (sq_int sq) row 14) (\<lambda>live_failures.
     bind_sum (row_value row 15) (\<lambda>rnk.
     bind_sum (row_get (sq_int sq) row 16) (\<lambda>lead_held.
       Inr \<lparr>pe_time_ms = time_ms, pe_upstream = upstream, pe_name = name, pe_kind = kind_from_label kind,
            pe_outcome = outcome_from_label outcome, pe_rtt_ms = opt_real rtt, pe_first_rtt_ms = opt_real first_rtt,
            pe_ewma_ms = opt_real ewma_v, pe_up = (up \<noteq> 0), pe_consecutive_failures = word_of_int failures,
            pe_detail = opt_text detail, pe_error_kind = map_option error_kind_from_label (opt_text error_kind),
            pe_live_ewma_ms = opt_real live_ewma, pe_live_queries = word_of_int live_queries,
            pe_live_failures = word_of_int live_failures, pe_rank = map_option word_of_int (opt_int rnk),
            pe_lead_held = (lead_held \<noteq> 0)\<rparr>)))))))))))))))))"

definition probe_insert_batch :: "'db sql_env \<Rightarrow> probe_event list \<Rightarrow> 'db \<Rightarrow> (string + unit) \<times> 'db" where
  "probe_insert_batch sq = insert_batch sq PROBE_INSERT_SQL probe_insert_params"

definition probe_clear :: "'db sql_env \<Rightarrow> 'db \<Rightarrow> (string + unit) \<times> 'db" where
  "probe_clear sq db =
     (case sq_exec sq db ''DELETE FROM probes'' [] of (Inl e, db) \<Rightarrow> (Inl e, db) | (Inr _, db) \<Rightarrow> (Inr (), db))"

definition probe_delete_older_than :: "'db sql_env \<Rightarrow> int \<Rightarrow> 'db \<Rightarrow> (string + u64) \<times> 'db" where
  "probe_delete_older_than sq cutoff_ms db = sq_exec sq db ''DELETE FROM probes WHERE time_ms < ?1'' [SInteger cutoff_ms]"

definition recent_sql :: "string \<Rightarrow> nat \<Rightarrow> string" where
  "recent_sql w n = ''SELECT '' @ PROBE_COLUMNS @ '' FROM probes'' @ w @ '' ORDER BY id DESC LIMIT '' @ placeholder n"

definition recent :: "'db sql_env \<Rightarrow> int option \<Rightarrow> nat \<Rightarrow> 'db \<Rightarrow> string + probe_event list" where
  "recent sq since_ms limit db =
     (let (w, params) = (case since_ms of
            Some ms \<Rightarrow> ('' WHERE time_ms >= ?1'', [SInteger ms])
          | None \<Rightarrow> ([], []))
      in bind_sum (sq_query sq db (recent_sql w (length params + 1)) (params @ [SInteger (as_i64 limit)]))
           (collect_rows (row_to_event sq)))"

text \<open>An event whose JSON text cannot be made is left out.\<close>

definition export_jsonl :: "'db sql_env \<Rightarrow> (probe_event \<Rightarrow> string option) \<Rightarrow> 'db \<Rightarrow> string + string" where
  "export_jsonl sq to_json db =
     bind_sum (sq_query sq db (''SELECT '' @ PROBE_COLUMNS @ '' FROM probes ORDER BY id ASC'') []) (\<lambda>rows.
     bind_sum (collect_rows (row_to_event sq) rows) (\<lambda>events.
       Inr (concat (map (\<lambda>e. case to_json e of Some l \<Rightarrow> l @ [CHR 0x0A] | None \<Rightarrow> []) events))))"

text \<open>
  \<open>open\<close> of both stores: a database that cannot be opened is removed and made anew, but one in
  memory is not. \<open>try_open\<close> is what opening gives, the second time after the removal.
\<close>

definition open_store :: "string \<Rightarrow> (nat \<Rightarrow> string + 's) \<Rightarrow> (string + 's) \<times> bool" where
  "open_store path try_open =
     (case try_open 0 of
        Inr st \<Rightarrow> (Inr st, False)
      | Inl e \<Rightarrow> if path \<noteq> '':memory:'' then (try_open 1, True) else (Inl e, False))"

definition reset_db_files :: "string \<Rightarrow> string list" where
  "reset_db_files path = map (\<lambda>suffix. path @ suffix) [[], ''-wal'', ''-shm'', ''-journal'']"

subsection \<open>Properties\<close>

lemma opt_back [simp]:
  "opt_real (opt_value SReal x) = x" "opt_text (opt_value SText y) = y"
  "opt_text (opt_value (\<lambda>k. SText (f k)) z) = map_option f z" "opt_int (opt_value (\<lambda>k. SInteger (g k)) w) = map_option g w"
  by (simp_all add: opt_real_def opt_text_def opt_int_def opt_value_def split: option.split)

lemma event_roundtrip:
  assumes "conv_laws sq"
  shows "row_to_event sq (probe_insert_params e) = Inr e"
  using assms
  by (simp add: row_to_event_def probe_insert_params_def row_get_def row_value_def nth_opt_def conv_laws_def flag_value_def
      kind_label_roundtrip outcome_label_roundtrip error_kind_label_roundtrip option.map_comp comp_def option.map_ident)

end
