(* ===== verification/Http_Guard.thy ===== *)
theory Http_Guard
  imports Session
begin

text \<open>
  The request guards of \<open>server/src/api.rs\<close>: cross-origin protection, the session cookie, and the
  middleware that asks for a valid session. A header map is an association list with lower-case
  names; the first value of a name counts, and it is text when all its characters are visible.
\<close>

subsection \<open>Headers\<close>

datatype http_method = GET | HEAD | OPTIONS | POST | PUT | DELETE

type_synonym headers = "(string \<times> string) list"

definition header_str :: "headers \<Rightarrow> string \<Rightarrow> string option" where
  "header_str hs name =
     (case map_of hs name of
        Some v \<Rightarrow> if list_all (\<lambda>c. 32 \<le> code c \<and> code c < 127 \<or> c = CHR 0x09) v then Some v else None
      | None \<Rightarrow> None)"

definition origin_matches_host :: "headers \<Rightarrow> bool" where
  "origin_matches_host hs =
     (case header_str hs ''origin'' of
        None \<Rightarrow> True
      | Some origin \<Rightarrow>
          (case (map_option snd (split_once_str origin ''://''), header_str hs ''host'') of
             (Some orig, Some host) \<Rightarrow> eq_ignore_ascii_case orig host
           | _ \<Rightarrow> False))"

text \<open>\<open>None\<close> lets the request through; otherwise the request is answered with the status and text.\<close>

definition cross_origin_protection :: "http_method \<Rightarrow> headers \<Rightarrow> (nat \<times> string) option" where
  "cross_origin_protection meth hs =
     (if meth \<in> {GET, HEAD, OPTIONS} then None
      else let allowed = (case header_str hs ''sec-fetch-site'' of
                 Some v \<Rightarrow> v = ''same-origin'' \<or> v = ''none''
               | None \<Rightarrow> origin_matches_host hs)
           in if allowed then None else Some (403, ''cross-origin request blocked''))"

subsection \<open>The session cookie\<close>

fun find_session :: "string list \<Rightarrow> string option" where
  "find_session [] = None"
| "find_session (kv # rest) =
     (case split_once (trim kv) CHR ''='' of
        Some (k, v) \<Rightarrow> if k = SESSION_COOKIE then Some v else find_session rest
      | None \<Rightarrow> find_session rest)"

definition cookie_token :: "headers \<Rightarrow> string option" where
  "cookie_token hs =
     (case header_str hs ''cookie'' of
        None \<Rightarrow> None
      | Some cookie \<Rightarrow> find_session (split_char CHR '';'' cookie))"

definition session_cookie :: "string \<Rightarrow> bool \<Rightarrow> string" where
  "session_cookie token secure =
     SESSION_COOKIE @ ''='' @ token @ ''; HttpOnly; SameSite=Lax; Path=/; Max-Age='' @ show_nat (uint SESSION_TTL_SECS)
     @ (if secure then ''; Secure'' else [])"

definition is_https :: "headers \<Rightarrow> bool" where
  "is_https hs =
     (case header_str hs ''x-forwarded-proto'' of Some p \<Rightarrow> eq_ignore_ascii_case p ''https'' | None \<Rightarrow> False)"

definition session_of :: "auth_env \<Rightarrow> session_signer \<Rightarrow> u64 \<Rightarrow> headers \<Rightarrow> session_verdict" where
  "session_of ae ss now hs =
     (case cookie_token hs of Some t \<Rightarrow> check_session ae ss now t | None \<Rightarrow> Invalid)"

text \<open>
  \<open>require_auth\<close>: \<open>None\<close> when the request is refused; otherwise the cookie to add to the response
  of the handler. The clock is read again after the handler ran.
\<close>

definition require_auth :: "auth_env \<Rightarrow> session_signer \<Rightarrow> u64 \<Rightarrow> u64 \<Rightarrow> headers \<Rightarrow> string option option" where
  "require_auth ae ss now later hs =
     (case session_of ae ss now hs of
        Invalid \<Rightarrow> None
      | Valid \<Rightarrow> Some None
      | Refresh \<Rightarrow> Some (Some (session_cookie (issue ae ss later) (is_https hs))))"

subsection \<open>Properties\<close>

lemma header_str_cons:
  "header_str ((k, v) # hs) name =
     (if k = name then (if list_all (\<lambda>c. 32 \<le> code c \<and> code c < 127 \<or> c = CHR 0x09) v then Some v else None)
      else header_str hs name)"
  by (simp add: header_str_def)

text \<open>What a browser says of the origin decides, whatever the other headers say.\<close>

lemma cross_site_blocked:
  assumes "meth \<notin> {GET, HEAD, OPTIONS}" "header_str hs ''sec-fetch-site'' = Some v" "v \<noteq> ''same-origin''" "v \<noteq> ''none''"
  shows "cross_origin_protection meth hs = Some (403, ''cross-origin request blocked'')"
  using assms by (simp add: cross_origin_protection_def)

lemma split_char_no_sep: "c \<notin> set s \<Longrightarrow> split_char c s = [s]"
  by (induction s) (auto simp: split_char.simps)

lemma find_str_prefix: "(\<And>i. i < length a \<Longrightarrow> \<not> starts_with (drop i (a @ p @ b)) p) \<Longrightarrow> find_str (a @ p @ b) p = Some (length a)"
proof (induction a)
  case Nil
  have "starts_with (p @ b) p" by (simp add: starts_with_def)
  then show ?case by (cases "p @ b") auto
next
  case (Cons x a)
  have "find_str (a @ p @ b) p = Some (length a)" using Cons.IH Cons.prems by fastforce
  then show ?case using Cons.prems [of 0] by simp
qed

text \<open>Without that header, an origin with a scheme passes only when what follows the scheme is the host.\<close>

lemma origin_decides:
  assumes "header_str hs ''sec-fetch-site'' = None" "header_str hs ''origin'' = Some (scheme @ ''://'' @ orig)"
    and "CHR '':'' \<notin> set scheme" "meth \<notin> {GET, HEAD, OPTIONS}"
  shows "cross_origin_protection meth hs = None \<longleftrightarrow>
    (\<exists>host. header_str hs ''host'' = Some host \<and> eq_ignore_ascii_case orig host)"
proof -
  have "find_str (scheme @ ''://'' @ orig) ''://'' = Some (length scheme)"
  proof (rule find_str_prefix)
    fix i assume i: "i < length scheme"
    then have "drop i (scheme @ ''://'' @ orig) = (scheme ! i) # drop (Suc i) (scheme @ ''://'' @ orig)"
      by (subst Cons_nth_drop_Suc [symmetric]) (simp_all add: nth_append)
    moreover have "scheme ! i \<noteq> CHR '':''" using i assms(3) nth_mem by metis
    ultimately show "\<not> starts_with (drop i (scheme @ ''://'' @ orig)) ''://''" by (simp add: starts_with_def)
  qed
  then have "split_once_str (scheme @ ''://'' @ orig) ''://'' = Some (scheme, orig)" by (simp add: split_once_str_def)
  then show ?thesis using assms(1,2,4) by (simp add: cross_origin_protection_def origin_matches_host_def split: option.split)
qed

text \<open>Printable characters other than the semicolon: what a token is made of.\<close>

definition graphic :: "string \<Rightarrow> bool" where
  "graphic s \<longleftrightarrow> list_all (\<lambda>c. 33 \<le> code c \<and> code c < 127 \<and> c \<noteq> CHR '';'') s"

lemma graphic_append [simp]: "graphic (a @ b) \<longleftrightarrow> graphic a \<and> graphic b"
  by (auto simp: graphic_def)

lemma graphic_Cons [simp]: "graphic (c # s) \<longleftrightarrow> 33 \<le> code c \<and> code c < 127 \<and> c \<noteq> CHR '';'' \<and> graphic s"
  by (simp add: graphic_def)

lemma graphic_ws: "graphic s \<Longrightarrow> ws_len s = 0"
  by (cases s) (auto simp: graphic_def ws_len_def split: list.split)

lemma graphic_drop: "graphic s \<Longrightarrow> graphic (drop n s)"
  using graphic_append [of "take n s" "drop n s"] by simp

lemma graphic_trim: "graphic s \<Longrightarrow> trim s = s"
  by (simp add: trim_def trim_start.simps [of s] trim_end.simps [of s] ws_end_len_def Let_def graphic_ws graphic_drop)

lemma graphic_literals: "graphic SESSION_COOKIE" "graphic ''=''" "graphic ''.''" "graphic JWT_HEADER_B64"
  by (simp_all add: graphic_def SESSION_COOKIE_def JWT_HEADER_B64_def)

text \<open>A browser sends back the name and value of the cookie that was set, and the server reads the token.\<close>

lemma cookie_roundtrip:
  assumes "graphic token"
  shows "cookie_token [(''cookie'', SESSION_COOKIE @ ''='' @ token)] = Some token"
proof -
  let ?c = "SESSION_COOKIE @ CHR ''='' # token"
  have g: "graphic ?c" using assms graphic_literals(1) by simp
  have "graphic s \<Longrightarrow> CHR '';'' \<notin> set s \<and> list_all (\<lambda>c. 32 \<le> code c \<and> code c < 127 \<or> c = CHR 0x09) s" for s
    by (induction s) auto
  from this [OF g] have "CHR '';'' \<notin> set ?c" "list_all (\<lambda>c. 32 \<le> code c \<and> code c < 127 \<or> c = CHR 0x09) ?c" by blast+
  moreover have "split_once ?c CHR ''='' = Some (SESSION_COOKIE, token)"
    by (rule split_once_append) (simp add: SESSION_COOKIE_def)
  ultimately show ?thesis using graphic_trim [OF g]
    by (simp add: cookie_token_def header_str_def split_char_no_sep)
qed

text \<open>A session that was issued is valid for half its life, is renewed in the other half, and then ends.\<close>

definition b64_graphic :: "auth_env \<Rightarrow> bool" where
  "b64_graphic ae \<longleftrightarrow> (\<forall>b. graphic (ae_b64 ae b))"

lemma issued_graphic: "b64_graphic ae \<Longrightarrow> graphic (issue ae ss t0)"
  using graphic_literals by (simp add: issue_def sign_def b64_graphic_def Let_def)

lemma issued_session:
  assumes "auth_laws ae" "b64_graphic ae" "unat t0 + unat (ss_ttl ss) < 2 ^ 64"
  shows "session_of ae ss now [(''cookie'', SESSION_COOKIE @ ''='' @ issue ae ss t0)] =
     (if unat t0 + unat (ss_ttl ss) \<le> unat now then Invalid
      else if unat t0 + unat (ss_ttl ss) div 2 \<le> unat now then Refresh
      else Valid)"
  using check_issued [OF assms(1,3)] cookie_roundtrip [OF issued_graphic [OF assms(2)]] by (simp add: session_of_def)

text \<open>A request that passes carries a token with the signature of its own claims, which have not run out.\<close>

definition signed_token :: "auth_env \<Rightarrow> session_signer \<Rightarrow> u64 \<Rightarrow> string \<Rightarrow> bool" where
  "signed_token ae ss now token \<longleftrightarrow> (\<exists>payload sig claims. splitn 4 CHR ''.'' token = [JWT_HEADER_B64, payload, sig]
     \<and> ae_unb64 ae sig = Some (ae_mac ae (ss_secret ss) (JWT_HEADER_B64 @ ''.'' @ payload))
     \<and> Option.bind (ae_unb64 ae payload) (ae_json_claims ae) = Some claims \<and> now < cl_exp claims)"

lemma passed_signed:
  assumes "require_auth ae ss now later hs \<noteq> None"
  shows "\<exists>token. cookie_token hs = Some token \<and> signed_token ae ss now token"
  using assms accepted_signed [of ae ss now]
  by (auto simp: require_auth_def session_of_def verify_session_def signed_token_def split: option.splits session_verdict.splits)

end
