(* ===== verification/Api.thy ===== *)
theory Api
  imports App_State Log_Store Probe_Store Http_Guard
begin

text \<open>
  The HTTP API, \<open>server/src/api.rs\<close>: one definition per handler, the routing with its guards, and
  the steps that handlers take outside the update lock. A body is what the JSON codec made of it;
  the HTTP client, the database, the clock, the file system's failures and the random draws are the
  fields of \<open>api_env\<close>, given for the request at hand.
\<close>

subsection \<open>State and responses\<close>

record ('c, 'ch, 'pch, 'db) server =
  sv_app :: "('c, 'ch, 'pch) app_state"
  sv_store :: 'db
  sv_probe_store :: 'db

datatype fetch_outcome =
    ClientFails string
  | SendFails string
  | Fetched bool string "string + string"

record ('c, 'ch, 'db) api_env =
  ax_app :: "('c, 'ch) app_env"
  ax_auth :: auth_env
  ax_now :: u64
  ax_later :: u64
  ax_now_ms :: int
  ax_salt :: "u8 list"
  ax_draws :: "u8 list list"
  ax_get :: "string \<Rightarrow> fetch_outcome"
  ax_write_fails :: "(string \<times> string option) option"
  ax_sql :: "'db sql_env"
  ax_json :: json_env
  ax_probe_json :: "probe_event \<Rightarrow> string option"
  ax_ask :: "transport \<Rightarrow> message \<Rightarrow> attempt_result"
  ax_boot_draw :: boot_draw
  ax_rnd_id :: u16
  ax_version :: string

abbreviation ax_filter :: "('c, 'ch, 'db) api_env \<Rightarrow> filter_ext" where
  "ax_filter ax \<equiv> ev_filter (ap_engine (ax_app ax))"

datatype api_error = BadRequest string | Unauthorized | NotFound string | Internal string

record log_entry_view =
  v_id :: u64
  v_time_ms :: int
  v_client_ip :: string
  v_client_name :: "string option"
  v_question :: string
  v_qtype :: string
  v_action :: string
  v_upstream :: "string option"
  v_rule :: "string option"
  v_list_id :: "u32 option"
  v_allowlisted :: bool
  v_rcode :: string
  v_answers :: "string list"
  v_elapsed_ms :: real
  v_list_name :: "string option"

record upstream_stat_dto =
  ud_spec :: string
  ud_name :: string
  ud_kind :: transport_kind
  ud_up :: bool
  ud_avg_rtt_ms :: "real option"
  ud_total_queries :: u64
  ud_total_failures :: u64
  ud_last_error :: "string option"

record stats_response =
  sr_summary :: stats_summary
  sr_cache_size :: nat
  sr_cache :: cache_counters

datatype body =
    OkBody
  | ErrorBody string
  | TextBody string
  | StatusBody bool bool string "socket_addr list"
  | ConfigBody config
  | ServerUpdateBody bool
  | FiltersBody "filter_list_config list" string bool blocking_mode
  | AddRuleBody string bool
  | AddListBody u32
  | CheckBody string "string option" "string option"
  | ClientsBody "client_config list"
  | ClientBody client_config
  | StatsBody stats_response
  | LogBody "log_entry_view list" nat
  | UpstreamsBody "upstream_stat_dto list"
  | TestBody bool "real option" "string option"

record response =
  rs_status :: nat
  rs_body :: body
  rs_set_cookie :: "string option"

definition ok_response :: "body \<Rightarrow> response" where
  "ok_response b = \<lparr>rs_status = 200, rs_body = b, rs_set_cookie = None\<rparr>"

definition api_error_response :: "api_error \<Rightarrow> response" where
  "api_error_response e =
     (let (status, msg) = (case e of
            BadRequest m \<Rightarrow> (400, m)
          | Unauthorized \<Rightarrow> (401, ''unauthorized'')
          | NotFound m \<Rightarrow> (404, m)
          | Internal m \<Rightarrow> (500, m))
      in \<lparr>rs_status = status, rs_body = ErrorBody msg, rs_set_cookie = None\<rparr>)"

text \<open>A handler's outcome and the state after it; \<open>None\<close> stands for a filter that cannot be built.\<close>

type_synonym ('c, 'ch, 'pch, 'db) api_outcome = "((api_error + response) \<times> ('c, 'ch, 'pch, 'db) server) option"

abbreviation sv_config :: "('c, 'ch, 'pch, 'db) server \<Rightarrow> config" where
  "sv_config s \<equiv> app_config (sv_app s)"

abbreviation answer_body :: "body \<Rightarrow> ('c, 'ch, 'pch, 'db) server \<Rightarrow> ('c, 'ch, 'pch, 'db) api_outcome" where
  "answer_body b s \<equiv> Some (Inr (ok_response b), s)"

abbreviation fail_with :: "api_error \<Rightarrow> ('c, 'ch, 'pch, 'db) server \<Rightarrow> ('c, 'ch, 'pch, 'db) api_outcome" where
  "fail_with e s \<equiv> Some (Inl e, s)"

text \<open>What every update does under the lock: apply the configuration, answer, or report the error.\<close>

definition apply_update ::
  "('c, 'ch, 'db) api_env \<Rightarrow> (string \<Rightarrow> api_error) \<Rightarrow> config \<Rightarrow> response \<Rightarrow> ('c, 'ch, 'pch, 'db) server
   \<Rightarrow> ('c, 'ch, 'pch, 'db) api_outcome" where
  "apply_update ax err cfg rsp s =
     (case apply_config (ax_app ax) cfg (sv_app s) of
        None \<Rightarrow> None
      | Some (Inl e, app) \<Rightarrow> Some (Inl (err (show_app_error e)), s\<lparr>sv_app := app\<rparr>)
      | Some (Inr _, app) \<Rightarrow> Some (Inr rsp, s\<lparr>sv_app := app\<rparr>))"

subsection \<open>Setup and login\<close>

record credentials =
  cr_username :: string
  cr_password :: string

definition status_info :: "('c, 'ch, 'db) api_env \<Rightarrow> headers \<Rightarrow> ('c, 'ch, 'pch, 'db) server \<Rightarrow> body" where
  "status_info ax hs s =
     StatusBody (needs_setup (cfg_auth (sv_config s)))
       (case cookie_token hs of Some t \<Rightarrow> verify_session (ax_auth ax) (app_sessions (sv_app s)) (ax_now ax) t | None \<Rightarrow> False)
       (ax_version ax) (dns_bind (cfg_server (sv_config s)))"

text \<open>The part of \<open>setup\<close> before the update lock, and the part under it.\<close>

definition setup_check :: "('c, 'ch, 'db) api_env \<Rightarrow> credentials \<Rightarrow> config \<Rightarrow> api_error + string" where
  "setup_check ax creds cfg =
     (if \<not> needs_setup (cfg_auth cfg) then Inl (BadRequest ''already set up'')
      else if trim (cr_username creds) = [] \<or> length (cr_password creds) < 6
      then Inl (BadRequest ''username required and password must be at least 6 characters'')
      else (case hash_password (ax_auth ax) (ax_salt ax) (cr_password creds) of
              Inl e \<Rightarrow> Inl (Internal e)
            | Inr hash \<Rightarrow> Inr hash))"

definition session_response :: "('c, 'ch, 'db) api_env \<Rightarrow> headers \<Rightarrow> ('c, 'ch, 'pch, 'db) server \<Rightarrow> response" where
  "session_response ax hs s =
     (ok_response OkBody)
       \<lparr>rs_set_cookie := Some (session_cookie (issue (ax_auth ax) (app_sessions (sv_app s)) (ax_now ax)) (is_https hs))\<rparr>"

definition setup_commit ::
  "('c, 'ch, 'db) api_env \<Rightarrow> headers \<Rightarrow> string \<Rightarrow> string \<Rightarrow> ('c, 'ch, 'pch, 'db) server \<Rightarrow> ('c, 'ch, 'pch, 'db) api_outcome" where
  "setup_commit ax hs name hash s =
     (let cfg = sv_config s
      in apply_update ax Internal (cfg\<lparr>cfg_auth := (cfg_auth cfg)\<lparr>username := name, password_hash := Some hash\<rparr>\<rparr>)
           (session_response ax hs s) s)"

definition setup_account ::
  "('c, 'ch, 'db) api_env \<Rightarrow> headers \<Rightarrow> credentials \<Rightarrow> ('c, 'ch, 'pch, 'db) server \<Rightarrow> ('c, 'ch, 'pch, 'db) api_outcome" where
  "setup_account ax hs creds s =
     (case setup_check ax creds (sv_config s) of
        Inl e \<Rightarrow> fail_with e s
      | Inr hash \<Rightarrow> setup_commit ax hs (cr_username creds) hash s)"

definition login ::
  "('c, 'ch, 'db) api_env \<Rightarrow> headers \<Rightarrow> credentials \<Rightarrow> ('c, 'ch, 'pch, 'db) server \<Rightarrow> ('c, 'ch, 'pch, 'db) api_outcome" where
  "login ax hs creds s =
     (let auth = cfg_auth (sv_config s);
          ok = (username auth = cr_username creds
                \<and> (case password_hash auth of Some h \<Rightarrow> verify_password (ax_auth ax) (cr_password creds) h | None \<Rightarrow> False))
      in if \<not> ok then fail_with Unauthorized s else Some (Inr (session_response ax hs s), s))"

definition logout :: "('c, 'ch, 'pch, 'db) server \<Rightarrow> ('c, 'ch, 'pch, 'db) api_outcome" where
  "logout s = Some (Inr ((ok_response OkBody)\<lparr>rs_set_cookie := Some (SESSION_COOKIE @ ''=; HttpOnly; Path=/; Max-Age=0'')\<rparr>), s)"

subsection \<open>Configuration\<close>

definition get_config :: "('c, 'ch, 'pch, 'db) server \<Rightarrow> body" where
  "get_config s =
     (let cfg = sv_config s in ConfigBody (cfg\<lparr>cfg_auth := (cfg_auth cfg)\<lparr>password_hash := None, session_secret := None\<rparr>\<rparr>))"

definition put_upstreams ::
  "('c, 'ch, 'db) api_env \<Rightarrow> upstreams_config \<Rightarrow> ('c, 'ch, 'pch, 'db) server \<Rightarrow> ('c, 'ch, 'pch, 'db) api_outcome" where
  "put_upstreams ax b s = apply_update ax BadRequest ((sv_config s)\<lparr>cfg_upstreams := b\<rparr>) (ok_response OkBody) s"

definition put_cache ::
  "('c, 'ch, 'db) api_env \<Rightarrow> cache_config \<Rightarrow> ('c, 'ch, 'pch, 'db) server \<Rightarrow> ('c, 'ch, 'pch, 'db) api_outcome" where
  "put_cache ax b s = apply_update ax BadRequest ((sv_config s)\<lparr>cfg_cache := b\<rparr>) (ok_response OkBody) s"

record filtering_settings =
  fs_enabled :: bool
  fs_blocking_mode :: blocking_mode
  fs_custom_block_ipv4 :: u32
  fs_custom_block_ipv6 :: "128 word"
  fs_blocked_ttl_secs :: u32

abbreviation with_filtering :: "(filtering_config \<Rightarrow> filtering_config) \<Rightarrow> config \<Rightarrow> config" where
  "with_filtering f cfg \<equiv> cfg\<lparr>cfg_filtering := f (cfg_filtering cfg)\<rparr>"

definition put_filtering ::
  "('c, 'ch, 'db) api_env \<Rightarrow> filtering_settings \<Rightarrow> ('c, 'ch, 'pch, 'db) server \<Rightarrow> ('c, 'ch, 'pch, 'db) api_outcome" where
  "put_filtering ax b s =
     apply_update ax BadRequest
       (with_filtering (\<lambda>f. f\<lparr>f_enabled := fs_enabled b, blocking_mode := fs_blocking_mode b,
          custom_block_ipv4 := fs_custom_block_ipv4 b, custom_block_ipv6 := fs_custom_block_ipv6 b,
          blocked_ttl_secs := fs_blocked_ttl_secs b\<rparr>) (sv_config s))
       (ok_response OkBody) s"

definition put_server ::
  "('c, 'ch, 'db) api_env \<Rightarrow> server_config \<Rightarrow> ('c, 'ch, 'pch, 'db) server \<Rightarrow> ('c, 'ch, 'pch, 'db) api_outcome" where
  "put_server ax b s =
     (let cfg = sv_config s;
          restart_required = (dns_bind (cfg_server cfg) \<noteq> dns_bind b \<or> http_bind (cfg_server cfg) \<noteq> http_bind b)
      in apply_update ax BadRequest (cfg\<lparr>cfg_server := b\<rparr>) (ok_response (ServerUpdateBody restart_required)) s)"

definition put_querylog ::
  "('c, 'ch, 'db) api_env \<Rightarrow> query_log_config \<Rightarrow> ('c, 'ch, 'pch, 'db) server \<Rightarrow> ('c, 'ch, 'pch, 'db) api_outcome" where
  "put_querylog ax b s = apply_update ax BadRequest ((sv_config s)\<lparr>cfg_query_log := b\<rparr>) (ok_response OkBody) s"

definition put_upstream_log ::
  "('c, 'ch, 'db) api_env \<Rightarrow> upstream_log_config \<Rightarrow> ('c, 'ch, 'pch, 'db) server \<Rightarrow> ('c, 'ch, 'pch, 'db) api_outcome" where
  "put_upstream_log ax b s = apply_update ax BadRequest ((sv_config s)\<lparr>cfg_upstream_log := b\<rparr>) (ok_response OkBody) s"

definition put_stats_cfg ::
  "('c, 'ch, 'db) api_env \<Rightarrow> stats_config \<Rightarrow> ('c, 'ch, 'pch, 'db) server \<Rightarrow> ('c, 'ch, 'pch, 'db) api_outcome" where
  "put_stats_cfg ax b s = apply_update ax BadRequest ((sv_config s)\<lparr>cfg_stats := b\<rparr>) (ok_response OkBody) s"

definition put_privacy ::
  "('c, 'ch, 'db) api_env \<Rightarrow> bool \<Rightarrow> ('c, 'ch, 'pch, 'db) server \<Rightarrow> ('c, 'ch, 'pch, 'db) api_outcome" where
  "put_privacy ax anonymize s = apply_update ax BadRequest ((sv_config s)\<lparr>cfg_anonymize_client_ips := anonymize\<rparr>) (ok_response OkBody) s"

subsection \<open>Filters\<close>

definition get_filters :: "('c, 'ch, 'pch, 'db) server \<Rightarrow> body" where
  "get_filters s =
     (let f = cfg_filtering (sv_config s) in FiltersBody (filter_lists f) (custom_rules f) (f_enabled f) (blocking_mode f))"

definition put_custom_rules ::
  "('c, 'ch, 'db) api_env \<Rightarrow> string \<Rightarrow> ('c, 'ch, 'pch, 'db) server \<Rightarrow> ('c, 'ch, 'pch, 'db) api_outcome" where
  "put_custom_rules ax cur s =
     apply_update ax BadRequest (with_filtering (\<lambda>f. f\<lparr>custom_rules := cur\<rparr>) (sv_config s)) (ok_response OkBody) s"

text \<open>The text with a line added: a last line that is not ended is ended first.\<close>

definition append_rule :: "string \<Rightarrow> string \<Rightarrow> string" where
  "append_rule cur rule =
     (if cur \<noteq> [] \<and> last cur \<noteq> NL then cur @ [NL] else cur) @ rule @ [NL]"

definition add_custom_rule ::
  "('c, 'ch, 'db) api_env \<Rightarrow> string \<Rightarrow> ('c, 'ch, 'pch, 'db) server \<Rightarrow> ('c, 'ch, 'pch, 'db) api_outcome" where
  "add_custom_rule ax given s =
     (let rule = trim given in
      if rule = [] then fail_with (BadRequest ''empty rule'') s
      else let cur = custom_rules (cfg_filtering (sv_config s));
               already = list_ex (\<lambda>l. trim l = rule) (lines cur)
           in if already then answer_body (AddRuleBody rule False) s
              else apply_update ax BadRequest (with_filtering (\<lambda>f. f\<lparr>custom_rules := append_rule cur rule\<rparr>) (sv_config s))
                     (ok_response (AddRuleBody rule True)) s)"

record new_list =
  nl_name :: string
  nl_url :: "string option"
  nl_enabled :: bool
  nl_content :: "string option"

definition fetch_list :: "('c, 'ch, 'db) api_env \<Rightarrow> string \<Rightarrow> api_error + string" where
  "fetch_list ax url =
     (case ax_get ax url of
        ClientFails e \<Rightarrow> Inl (Internal e)
      | SendFails e \<Rightarrow> Inl (BadRequest (''fetch failed: '' @ e))
      | Fetched success status tx \<Rightarrow>
          if \<not> success then Inl (BadRequest (''fetch status '' @ status))
          else (case tx of Inl e \<Rightarrow> Inl (BadRequest e) | Inr t \<Rightarrow> Inr t))"

text \<open>A write of a list's text may fail, having left part of it.\<close>

definition write_list ::
  "('c, 'ch, 'db) api_env \<Rightarrow> u32 \<Rightarrow> string \<Rightarrow> ('c, 'ch, 'pch, 'db) server \<Rightarrow> (string + unit) \<times> ('c, 'ch, 'pch, 'db) server" where
  "write_list ax lid tx s =
     (let put = (\<lambda>t. s\<lparr>sv_app := (sv_app s)\<lparr>app_fs := write_list_text (ap_paths (ax_app ax)) lid t (app_fs (sv_app s))\<rparr>\<rparr>)
      in case ax_write_fails ax of
           None \<Rightarrow> (Inr (), put tx)
         | Some (e, None) \<Rightarrow> (Inl e, s)
         | Some (e, Some part) \<Rightarrow> (Inl e, put part))"

definition list_text :: "('c, 'ch, 'db) api_env \<Rightarrow> new_list \<Rightarrow> api_error + string" where
  "list_text ax b =
     (case nl_url b of
        Some url \<Rightarrow> fetch_list ax url
      | None \<Rightarrow> Inr (case nl_content b of Some t \<Rightarrow> t | None \<Rightarrow> []))"

definition add_list_commit ::
  "('c, 'ch, 'db) api_env \<Rightarrow> new_list \<Rightarrow> string \<Rightarrow> ('c, 'ch, 'pch, 'db) server \<Rightarrow> ('c, 'ch, 'pch, 'db) api_outcome" where
  "add_list_commit ax b tx s =
     (let cfg = sv_config s; lid = next_list_id cfg in
      case write_list ax lid tx s of
        (Inl e, s) \<Rightarrow> fail_with (Internal e) s
      | (Inr _, s) \<Rightarrow>
          apply_update ax BadRequest
            (with_filtering (\<lambda>f. f\<lparr>filter_lists := filter_lists f @
               [\<lparr>fl_id = lid, fl_name = nl_name b, fl_url = nl_url b, fl_enabled = nl_enabled b, fl_rule_count = 0,
                 fl_last_updated = Some (ax_now_ms ax)\<rparr>]\<rparr>) cfg)
            (ok_response (AddListBody lid)) s)"

definition add_list_request ::
  "('c, 'ch, 'db) api_env \<Rightarrow> new_list \<Rightarrow> ('c, 'ch, 'pch, 'db) server \<Rightarrow> ('c, 'ch, 'pch, 'db) api_outcome" where
  "add_list_request ax b s = (case list_text ax b of Inl e \<Rightarrow> fail_with e s | Inr tx \<Rightarrow> add_list_commit ax b tx s)"

record list_update =
  lu_name :: "string option"
  lu_url :: "string option"
  lu_enabled :: "bool option"

text \<open>The first element that satisfies a test is changed, if there is one: \<open>iter_mut().find\<close>.\<close>

fun update_first :: "('a \<Rightarrow> bool) \<Rightarrow> ('a \<Rightarrow> 'a) \<Rightarrow> 'a list \<Rightarrow> 'a list option" where
  "update_first p f [] = None"
| "update_first p f (x # xs) = (if p x then Some (f x # xs) else map_option (\<lambda>ys. x # ys) (update_first p f xs))"

definition edit_list :: "list_update \<Rightarrow> filter_list_config \<Rightarrow> filter_list_config" where
  "edit_list b l =
     (let l = (case lu_name b of Some n \<Rightarrow> l\<lparr>fl_name := n\<rparr> | None \<Rightarrow> l);
          l = (case lu_url b of Some u \<Rightarrow> l\<lparr>fl_url := Some u\<rparr> | None \<Rightarrow> l)
      in (case lu_enabled b of Some e \<Rightarrow> l\<lparr>fl_enabled := e\<rparr> | None \<Rightarrow> l))"

definition update_list ::
  "('c, 'ch, 'db) api_env \<Rightarrow> u32 \<Rightarrow> list_update \<Rightarrow> ('c, 'ch, 'pch, 'db) server \<Rightarrow> ('c, 'ch, 'pch, 'db) api_outcome" where
  "update_list ax lid b s =
     (let cfg = sv_config s in
      case update_first (\<lambda>l. fl_id l = lid) (edit_list b) (filter_lists (cfg_filtering cfg)) of
        None \<Rightarrow> fail_with (NotFound (''list '' @ show_u32 lid)) s
      | Some ls \<Rightarrow> apply_update ax BadRequest (with_filtering (\<lambda>f. f\<lparr>filter_lists := ls\<rparr>) cfg) (ok_response OkBody) s)"

definition delete_list ::
  "('c, 'ch, 'db) api_env \<Rightarrow> u32 \<Rightarrow> ('c, 'ch, 'pch, 'db) server \<Rightarrow> ('c, 'ch, 'pch, 'db) api_outcome" where
  "delete_list ax lid s =
     (let cfg = sv_config s; kept = filter (\<lambda>l. fl_id l \<noteq> lid) (filter_lists (cfg_filtering cfg)) in
      if length kept = length (filter_lists (cfg_filtering cfg)) then fail_with (NotFound (''list '' @ show_u32 lid)) s
      else let s = s\<lparr>sv_app := (sv_app s)\<lparr>app_fs := (app_fs (sv_app s))(list_file (ap_paths (ax_app ax)) lid := None)\<rparr>\<rparr>
           in apply_update ax BadRequest (with_filtering (\<lambda>f. f\<lparr>filter_lists := kept\<rparr>) cfg) (ok_response OkBody) s)"

text \<open>\<open>refresh_list\<close>: find the URL; fetch and write the text without the lock; then mark and apply under it.\<close>

definition refresh_find :: "u32 \<Rightarrow> config \<Rightarrow> api_error + string" where
  "refresh_find lid cfg =
     (case find (\<lambda>l. fl_id l = lid) (filter_lists (cfg_filtering cfg)) of
        None \<Rightarrow> Inl (NotFound (''list '' @ show_u32 lid))
      | Some l \<Rightarrow> (case fl_url l of None \<Rightarrow> Inl (BadRequest ''list has no URL to refresh'') | Some url \<Rightarrow> Inr url))"

definition refresh_commit ::
  "('c, 'ch, 'db) api_env \<Rightarrow> u32 \<Rightarrow> ('c, 'ch, 'pch, 'db) server \<Rightarrow> ('c, 'ch, 'pch, 'db) api_outcome" where
  "refresh_commit ax lid s =
     (let cfg = sv_config s;
          ls = filter_lists (cfg_filtering cfg);
          ls = (case update_first (\<lambda>l. fl_id l = lid) (\<lambda>l. l\<lparr>fl_last_updated := Some (ax_now_ms ax)\<rparr>) ls of Some ls \<Rightarrow> ls | None \<Rightarrow> ls)
      in apply_update ax BadRequest (with_filtering (\<lambda>f. f\<lparr>filter_lists := ls\<rparr>) cfg) (ok_response OkBody) s)"

definition refresh_list ::
  "('c, 'ch, 'db) api_env \<Rightarrow> u32 \<Rightarrow> ('c, 'ch, 'pch, 'db) server \<Rightarrow> ('c, 'ch, 'pch, 'db) api_outcome" where
  "refresh_list ax lid s =
     (case refresh_find lid (sv_config s) of
        Inl e \<Rightarrow> fail_with e s
      | Inr url \<Rightarrow>
          (case fetch_list ax url of
             Inl e \<Rightarrow> fail_with e s
           | Inr tx \<Rightarrow>
               (case write_list ax lid tx s of
                  (Inl e, s) \<Rightarrow> fail_with (Internal e) s
                | (Inr _, s) \<Rightarrow> refresh_commit ax lid s)))"

definition list_names :: "config \<Rightarrow> u32 \<rightharpoonup> string" where
  "list_names cfg =
     (foldl (\<lambda>m l. m(fl_id l \<mapsto> fl_name l)) Map.empty (filter_lists (cfg_filtering cfg)))(0 \<mapsto> ''Custom rules'')"

definition check_domain ::
  "('c, 'ch, 'db) api_env \<Rightarrow> string \<Rightarrow> string option \<Rightarrow> ('c, 'ch, 'pch, 'db) server \<Rightarrow> body option" where
  "check_domain ax given rtype s =
     (let domain = to_ascii_lowercase (trim_end_matches CHR ''.'' given);
          rtype = to_ascii_uppercase (case rtype of Some t \<Rightarrow> t | None \<Rightarrow> ''A'');
          names = list_names (sv_config s);
          attribute = (\<lambda>info action. CheckBody action (Some (mi_rule info)) (names (mi_list_id info)))
      in map_option (\<lambda>v. case v of
             VAllow (Some info) \<Rightarrow> attribute info ''allow''
           | VAllow None \<Rightarrow> CheckBody ''allow'' None None
           | VBlock info \<Rightarrow> attribute info ''block''
           | VRewrite info _ \<Rightarrow> attribute info ''rewrite'')
         (check (ax_filter ax) (es_filter (eng_state (app_engine (sv_app s)))) domain rtype
            \<lparr>ci_ip = None, ci_name = None, ci_tags = []\<rparr>))"

subsection \<open>Clients\<close>

record client_input =
  in_name :: string
  in_ids :: "string list"
  in_tags :: "string list"
  in_filtering_enabled :: bool

definition hex_digit :: "nat \<Rightarrow> char" where
  "hex_digit n = char_of (if n < 10 then 48 + n else 87 + n)"

definition hex_id :: "u8 list \<Rightarrow> string" where
  "hex_id bs = concat (map (\<lambda>b. let n = unat b in [hex_digit (n div 16), hex_digit (n mod 16)]) bs)"

text \<open>The draws are those of the loop, one after another; \<open>None\<close> when each of them is taken.\<close>

fun new_client_id :: "u8 list list \<Rightarrow> client_config list \<Rightarrow> string option" where
  "new_client_id [] existing = None"
| "new_client_id (bytes # draws) existing =
     (let cid = hex_id bytes in
      if \<not> list_ex (\<lambda>c. cl_id c = cid) existing then Some cid else new_client_id draws existing)"

definition post_client ::
  "('c, 'ch, 'db) api_env \<Rightarrow> client_input \<Rightarrow> ('c, 'ch, 'pch, 'db) server \<Rightarrow> ('c, 'ch, 'pch, 'db) api_outcome" where
  "post_client ax b s =
     (if trim (in_name b) = [] then fail_with (BadRequest ''client name must not be empty'') s
      else let cfg = sv_config s in
           case new_client_id (ax_draws ax) (cfg_clients cfg) of
             None \<Rightarrow> None
           | Some cid \<Rightarrow>
               let c = \<lparr>cl_id = cid, cl_name = in_name b, cl_ids = in_ids b, cl_tags = in_tags b,
                        cl_filtering_enabled = in_filtering_enabled b\<rparr>
               in apply_update ax BadRequest (cfg\<lparr>cfg_clients := cfg_clients cfg @ [c]\<rparr>) (ok_response (ClientBody c)) s)"

definition edit_client :: "client_input \<Rightarrow> client_config \<Rightarrow> client_config" where
  "edit_client b c =
     c\<lparr>cl_name := in_name b, cl_ids := in_ids b, cl_tags := in_tags b, cl_filtering_enabled := in_filtering_enabled b\<rparr>"

definition put_client ::
  "('c, 'ch, 'db) api_env \<Rightarrow> string \<Rightarrow> client_input \<Rightarrow> ('c, 'ch, 'pch, 'db) server \<Rightarrow> ('c, 'ch, 'pch, 'db) api_outcome" where
  "put_client ax cid b s =
     (if trim (in_name b) = [] then fail_with (BadRequest ''client name must not be empty'') s
      else let cfg = sv_config s in
           case update_first (\<lambda>c. cl_id c = cid) (edit_client b) (cfg_clients cfg) of
             None \<Rightarrow> fail_with (NotFound (''client '' @ cid)) s
           | Some cs \<Rightarrow> apply_update ax BadRequest (cfg\<lparr>cfg_clients := cs\<rparr>) (ok_response OkBody) s)"

definition delete_client ::
  "('c, 'ch, 'db) api_env \<Rightarrow> string \<Rightarrow> ('c, 'ch, 'pch, 'db) server \<Rightarrow> ('c, 'ch, 'pch, 'db) api_outcome" where
  "delete_client ax cid s =
     (let cfg = sv_config s; kept = filter (\<lambda>c. cl_id c \<noteq> cid) (cfg_clients cfg) in
      if length kept = length (cfg_clients cfg) then fail_with (NotFound (''client '' @ cid)) s
      else apply_update ax BadRequest (cfg\<lparr>cfg_clients := kept\<rparr>) (ok_response OkBody) s)"

subsection \<open>Statistics and logs\<close>

abbreviation sv_engine :: "('c, 'ch, 'pch, 'db) server \<Rightarrow> ('c, 'ch) engine" where
  "sv_engine s \<equiv> app_engine (sv_app s)"

definition get_stats :: "('c, 'ch, 'db) api_env \<Rightarrow> nat \<Rightarrow> ('c, 'ch, 'pch, 'db) server \<Rightarrow> body" where
  "get_stats ax n s =
     (let ev = ap_engine (ax_app ax); eng = sv_engine s
      in StatsBody \<lparr>sr_summary = stats_snapshot (ev_stats ev) (ev_filter ev) n (es_clients (eng_state eng)) (eng_stats eng),
                    sr_cache_size = cache_len (ev_cache ev) (eng_cache eng), sr_cache = counters (eng_cache eng)\<rparr>)"

definition reset_stats :: "('c, 'ch, 'pch, 'db) server \<Rightarrow> ('c, 'ch, 'pch, 'db) server" where
  "reset_stats s =
     (let eng = sv_engine s
      in s\<lparr>sv_app := (sv_app s)\<lparr>app_engine :=
             eng\<lparr>eng_stats := stats_reset (eng_stats eng), eng_cache := reset_counters (eng_cache eng)\<rparr>\<rparr>\<rparr>)"

definition new_log_view :: "query_log_entry \<Rightarrow> string option \<Rightarrow> string option \<Rightarrow> log_entry_view" where
  "new_log_view e list_name client_name =
     (let (action, upstream, rule, lid) = (case e_action e of
            Forwarded up \<Rightarrow> (''forwarded'', Some up, None, None)
          | Cached \<Rightarrow> (''cached'', None, None, None)
          | Blocked r l \<Rightarrow> (''blocked'', None, Some r, Some l)
          | Rewritten r l \<Rightarrow> (''rewritten'', None, Some r, Some l)
          | ErrorAction \<Rightarrow> (''error'', None, None, None))
      in \<lparr>v_id = e_id e, v_time_ms = e_time_ms e, v_client_ip = e_client_ip e, v_client_name = client_name,
          v_question = e_question e, v_qtype = e_qtype e, v_action = action, v_upstream = upstream, v_rule = rule,
          v_list_id = lid, v_allowlisted = e_allowlisted e, v_rcode = e_rcode e, v_answers = e_answers e,
          v_elapsed_ms = e_elapsed_ms e, v_list_name = list_name\<rparr>)"

definition get_querylog ::
  "('c, 'ch, 'db) api_env \<Rightarrow> log_filter \<Rightarrow> nat \<Rightarrow> nat \<Rightarrow> ('c, 'ch, 'pch, 'db) server \<Rightarrow> api_error + body" where
  "get_querylog ax flt offset limit s =
     (let clients = es_clients (eng_state (sv_engine s)); names = list_names (sv_config s) in
      case store_query (ax_sql ax) (ax_json ax) (ax_filter ax) flt offset (min limit 1000) clients (sv_store s) of
        Inl e \<Rightarrow> Inl (Internal e)
      | Inr page \<Rightarrow>
          Inr (LogBody (map (\<lambda>e. new_log_view e (Option.bind (entry_list_id e) names) (name_for_str (ax_filter ax) clients (e_client_ip e)))
                 (lp_entries page)) (lp_total page)))"

definition clear_querylog ::
  "('c, 'ch, 'db) api_env \<Rightarrow> ('c, 'ch, 'pch, 'db) server \<Rightarrow> ('c, 'ch, 'pch, 'db) api_outcome" where
  "clear_querylog ax s =
     (case log_clear (ax_sql ax) (sv_store s) of
        (Inl e, db) \<Rightarrow> fail_with (Internal e) (s\<lparr>sv_store := db\<rparr>)
      | (Inr _, db) \<Rightarrow> answer_body OkBody (s\<lparr>sv_store := db\<rparr>))"

definition clear_upstream_log ::
  "('c, 'ch, 'db) api_env \<Rightarrow> ('c, 'ch, 'pch, 'db) server \<Rightarrow> ('c, 'ch, 'pch, 'db) api_outcome" where
  "clear_upstream_log ax s =
     (case probe_clear (ax_sql ax) (sv_probe_store s) of
        (Inl e, db) \<Rightarrow> fail_with (Internal e) (s\<lparr>sv_probe_store := db\<rparr>)
      | (Inr _, db) \<Rightarrow> answer_body OkBody (s\<lparr>sv_probe_store := db\<rparr>))"

definition export_upstream_log :: "('c, 'ch, 'db) api_env \<Rightarrow> ('c, 'ch, 'pch, 'db) server \<Rightarrow> api_error + body" where
  "export_upstream_log ax s =
     (case export_jsonl (ax_sql ax) (ax_probe_json ax) (sv_probe_store s) of Inl e \<Rightarrow> Inl (Internal e) | Inr t \<Rightarrow> Inr (TextBody t))"

definition upstream_dto :: "upstream_stat \<Rightarrow> upstream_stat_dto" where
  "upstream_dto u =
     \<lparr>ud_spec = stat_spec u, ud_name = stat_name u, ud_kind = stat_kind u, ud_up = stat_up u, ud_avg_rtt_ms = stat_avg_rtt_ms u,
      ud_total_queries = stat_total_queries u, ud_total_failures = stat_total_failures u, ud_last_error = stat_last_error u\<rparr>"

definition get_upstreams :: "('c, 'ch, 'pch, 'db) server \<Rightarrow> body" where
  "get_upstreams s = UpstreamsBody (map upstream_dto (pool_stats (es_pool (eng_state (sv_engine s)))))"

text \<open>The test resolves through the bootstrap resolver of the live pool, whose cache it fills.\<close>

definition test_upstream ::
  "('c, 'ch, 'db) api_env \<Rightarrow> string \<Rightarrow> ('c, 'ch, 'pch, 'db) server \<Rightarrow> ('c, 'ch, 'pch, 'db) api_outcome" where
  "test_upstream ax spec s =
     (case parse_spec spec of
        Inl e \<Rightarrow> fail_with (BadRequest (show_upstream_error e)) s
      | Inr _ \<Rightarrow>
          let eng = sv_engine s; pool = es_pool (eng_state eng);
              (r, bs) = test_spec (ap_pool (ax_app ax)) (ax_ask ax) (ax_boot_draw ax) (ax_rnd_id ax) spec (p_bootstrap pool);
              s = s\<lparr>sv_app := (sv_app s)\<lparr>app_engine := eng\<lparr>eng_state := (eng_state eng)\<lparr>es_pool := pool\<lparr>p_bootstrap := bs\<rparr>\<rparr>\<rparr>\<rparr>\<rparr>
          in (case r of
                Inr rtt \<Rightarrow> answer_body (TestBody True (Some (rtt * 1000)) None) s
              | Inl e \<Rightarrow> answer_body (TestBody False None (Some (show_upstream_error e))) s))"

subsection \<open>Routing\<close>

datatype api_call =
    Status | Setup credentials | Login credentials | Logout
  | GetConfig | PutUpstreams upstreams_config | PutCache cache_config | PutFiltering filtering_settings
  | PutServer server_config | PutQuerylog query_log_config | PutUpstreamLog upstream_log_config
  | PutStatsCfg stats_config | PutPrivacy bool
  | GetFilters | PutCustomRules string | AddCustomRule string | CheckDomain string "string option"
  | AddList new_list | UpdateList u32 list_update | DeleteList u32 | RefreshList u32
  | GetClients | PostClient client_input | PutClient string client_input | DeleteClient string
  | GetStats nat | ResetStats | GetQuerylog log_filter nat nat | ClearQuerylog
  | ClearUpstreamLog | ExportUpstreamLog | GetUpstreams | TestUpstream string

definition call_method :: "api_call \<Rightarrow> http_method" where
  "call_method c =
     (case c of
        Status \<Rightarrow> GET | Setup _ \<Rightarrow> POST | Login _ \<Rightarrow> POST | Logout \<Rightarrow> POST
      | GetConfig \<Rightarrow> GET | PutUpstreams _ \<Rightarrow> PUT | PutCache _ \<Rightarrow> PUT | PutFiltering _ \<Rightarrow> PUT
      | PutServer _ \<Rightarrow> PUT | PutQuerylog _ \<Rightarrow> PUT | PutUpstreamLog _ \<Rightarrow> PUT
      | PutStatsCfg _ \<Rightarrow> PUT | PutPrivacy _ \<Rightarrow> PUT
      | GetFilters \<Rightarrow> GET | PutCustomRules _ \<Rightarrow> PUT | AddCustomRule _ \<Rightarrow> POST | CheckDomain _ _ \<Rightarrow> POST
      | AddList _ \<Rightarrow> POST | UpdateList _ _ \<Rightarrow> PUT | DeleteList _ \<Rightarrow> DELETE | RefreshList _ \<Rightarrow> POST
      | GetClients \<Rightarrow> GET | PostClient _ \<Rightarrow> POST | PutClient _ _ \<Rightarrow> PUT | DeleteClient _ \<Rightarrow> DELETE
      | GetStats _ \<Rightarrow> GET | ResetStats \<Rightarrow> POST | GetQuerylog _ _ _ \<Rightarrow> GET | ClearQuerylog \<Rightarrow> DELETE
      | ClearUpstreamLog \<Rightarrow> DELETE | ExportUpstreamLog \<Rightarrow> GET | GetUpstreams \<Rightarrow> GET | TestUpstream _ \<Rightarrow> POST)"

definition is_public :: "api_call \<Rightarrow> bool" where
  "is_public c = (case c of Status \<Rightarrow> True | Setup _ \<Rightarrow> True | Login _ \<Rightarrow> True | Logout \<Rightarrow> True | _ \<Rightarrow> False)"

abbreviation read_only :: "api_error + body \<Rightarrow> ('c, 'ch, 'pch, 'db) server \<Rightarrow> ('c, 'ch, 'pch, 'db) api_outcome" where
  "read_only r s \<equiv> Some (map_sum id ok_response r, s)"

fun dispatch ::
  "('c, 'ch, 'db) api_env \<Rightarrow> headers \<Rightarrow> api_call \<Rightarrow> ('c, 'ch, 'pch, 'db) server \<Rightarrow> ('c, 'ch, 'pch, 'db) api_outcome" where
  "dispatch ax hs Status s = answer_body (status_info ax hs s) s"
| "dispatch ax hs (Setup creds) s = setup_account ax hs creds s"
| "dispatch ax hs (Login creds) s = login ax hs creds s"
| "dispatch ax hs Logout s = logout s"
| "dispatch ax hs GetConfig s = answer_body (get_config s) s"
| "dispatch ax hs (PutUpstreams b) s = put_upstreams ax b s"
| "dispatch ax hs (PutCache b) s = put_cache ax b s"
| "dispatch ax hs (PutFiltering b) s = put_filtering ax b s"
| "dispatch ax hs (PutServer b) s = put_server ax b s"
| "dispatch ax hs (PutQuerylog b) s = put_querylog ax b s"
| "dispatch ax hs (PutUpstreamLog b) s = put_upstream_log ax b s"
| "dispatch ax hs (PutStatsCfg b) s = put_stats_cfg ax b s"
| "dispatch ax hs (PutPrivacy b) s = put_privacy ax b s"
| "dispatch ax hs GetFilters s = answer_body (get_filters s) s"
| "dispatch ax hs (PutCustomRules b) s = put_custom_rules ax b s"
| "dispatch ax hs (AddCustomRule b) s = add_custom_rule ax b s"
| "dispatch ax hs (CheckDomain d t) s =
     (case check_domain ax d t s of None \<Rightarrow> None | Some b \<Rightarrow> answer_body b s)"
| "dispatch ax hs (AddList b) s = add_list_request ax b s"
| "dispatch ax hs (UpdateList i b) s = update_list ax i b s"
| "dispatch ax hs (DeleteList i) s = delete_list ax i s"
| "dispatch ax hs (RefreshList i) s = refresh_list ax i s"
| "dispatch ax hs GetClients s = answer_body (ClientsBody (cfg_clients (sv_config s))) s"
| "dispatch ax hs (PostClient b) s = post_client ax b s"
| "dispatch ax hs (PutClient i b) s = put_client ax i b s"
| "dispatch ax hs (DeleteClient i) s = delete_client ax i s"
| "dispatch ax hs (GetStats n) s = answer_body (get_stats ax n s) s"
| "dispatch ax hs ResetStats s = answer_body OkBody (reset_stats s)"
| "dispatch ax hs (GetQuerylog flt offset limit) s = read_only (get_querylog ax flt offset limit s) s"
| "dispatch ax hs ClearQuerylog s = clear_querylog ax s"
| "dispatch ax hs ClearUpstreamLog s = clear_upstream_log ax s"
| "dispatch ax hs ExportUpstreamLog s = read_only (export_upstream_log ax s) s"
| "dispatch ax hs GetUpstreams s = answer_body (get_upstreams s) s"
| "dispatch ax hs (TestUpstream spec) s = test_upstream ax spec s"

definition render :: "api_error + response \<Rightarrow> response" where
  "render r = (case r of Inl e \<Rightarrow> api_error_response e | Inr rsp \<Rightarrow> rsp)"

text \<open>A route of method \<open>GET\<close> also answers \<open>HEAD\<close>; \<open>head\<close> tells which one it is.\<close>

definition request_method :: "bool \<Rightarrow> api_call \<Rightarrow> http_method" where
  "request_method head c = (if head \<and> call_method c = GET then HEAD else call_method c)"

definition handle_request ::
  "('c, 'ch, 'db) api_env \<Rightarrow> headers \<Rightarrow> bool \<Rightarrow> api_call \<Rightarrow> ('c, 'ch, 'pch, 'db) server
   \<Rightarrow> (response \<times> ('c, 'ch, 'pch, 'db) server) option" where
  "handle_request ax hs head c s =
     (case cross_origin_protection (request_method head c) hs of
        Some (status, msg) \<Rightarrow> Some (\<lparr>rs_status = status, rs_body = TextBody msg, rs_set_cookie = None\<rparr>, s)
      | None \<Rightarrow>
          if is_public c then map_option (map_prod render id) (dispatch ax hs c s)
          else case require_auth (ax_auth ax) (app_sessions (sv_app s)) (ax_now ax) (ax_later ax) hs of
            None \<Rightarrow> Some (api_error_response Unauthorized, s)
          | Some None \<Rightarrow> map_option (map_prod render id) (dispatch ax hs c s)
          | Some (Some cookie) \<Rightarrow>
              map_option (map_prod (\<lambda>r. (render r)\<lparr>rs_set_cookie := Some cookie\<rparr>) id) (dispatch ax hs c s))"

subsection \<open>Requests side by side\<close>

text \<open>
  What a request has left to do when it holds no lock: \<open>setup\<close> after its check, \<open>add_list\<close> after the
  fetch, \<open>refresh_list\<close> after the fetch and after the write.
\<close>

datatype job =
    SetupJob string string
  | AddListJob new_list string
  | RefreshWrite u32 string
  | RefreshCommit u32

definition admitted :: "('c, 'ch, 'db) api_env \<Rightarrow> headers \<Rightarrow> api_call \<Rightarrow> ('c, 'ch, 'pch, 'db) server \<Rightarrow> bool" where
  "admitted ax hs c s \<longleftrightarrow> cross_origin_protection (call_method c) hs = None
     \<and> (is_public c \<or> require_auth (ax_auth ax) (app_sessions (sv_app s)) (ax_now ax) (ax_later ax) hs \<noteq> None)"

text \<open>The environments of the requests to one server differ in what the file system and the network do.\<close>

definition env_of :: "('c, 'ch) app_env \<Rightarrow> ('c, 'ch, 'db) api_env \<Rightarrow> bool" where
  "env_of ap ax \<longleftrightarrow> ax_app ax = ap\<lparr>ap_save_fails := ap_save_fails (ax_app ax), ap_boot_draw := ap_boot_draw (ax_app ax)\<rparr>"

inductive api_step ::
  "('c, 'ch) app_env \<Rightarrow> ('c, 'ch, 'pch, 'db) server \<times> job list \<Rightarrow> ('c, 'ch, 'pch, 'db) server \<times> job list \<Rightarrow> bool"
  for ap :: "('c, 'ch) app_env" where
  request: "env_of ap (ax :: ('c, 'ch, 'db) api_env) \<Longrightarrow> handle_request ax hs head c s = Some (rsp, s') \<Longrightarrow> api_step ap (s, js) (s', js)"
| setup_start: "env_of ap (ax :: ('c, 'ch, 'db) api_env) \<Longrightarrow> admitted ax hs (Setup creds) s \<Longrightarrow> setup_check ax creds (sv_config s) = Inr h \<Longrightarrow>
    api_step ap (s, js) (s, SetupJob (cr_username creds) h # js)"
| setup_finish: "env_of ap (ax :: ('c, 'ch, 'db) api_env) \<Longrightarrow> SetupJob name h \<in> set js \<Longrightarrow> setup_commit ax hs name h s = Some (r, s') \<Longrightarrow>
    api_step ap (s, js) (s', remove1 (SetupJob name h) js)"
| add_start: "env_of ap (ax :: ('c, 'ch, 'db) api_env) \<Longrightarrow> admitted ax hs (AddList b) s \<Longrightarrow> list_text ax b = Inr tx \<Longrightarrow>
    api_step ap (s, js) (s, AddListJob b tx # js)"
| add_finish: "env_of ap (ax :: ('c, 'ch, 'db) api_env) \<Longrightarrow> AddListJob b tx \<in> set js \<Longrightarrow> add_list_commit ax b tx s = Some (r, s') \<Longrightarrow>
    api_step ap (s, js) (s', remove1 (AddListJob b tx) js)"
| refresh_start: "env_of ap (ax :: ('c, 'ch, 'db) api_env) \<Longrightarrow> admitted ax hs (RefreshList lid) s \<Longrightarrow> refresh_find lid (sv_config s) = Inr url \<Longrightarrow>
    fetch_list ax url = Inr tx \<Longrightarrow> api_step ap (s, js) (s, RefreshWrite lid tx # js)"
| refresh_write: "env_of ap (ax :: ('c, 'ch, 'db) api_env) \<Longrightarrow> RefreshWrite lid tx \<in> set js \<Longrightarrow> write_list ax lid tx s = (Inr u, s') \<Longrightarrow>
    api_step ap (s, js) (s', RefreshCommit lid # remove1 (RefreshWrite lid tx) js)"
| refresh_fail: "env_of ap (ax :: ('c, 'ch, 'db) api_env) \<Longrightarrow> RefreshWrite lid tx \<in> set js \<Longrightarrow> write_list ax lid tx s = (Inl e, s') \<Longrightarrow>
    api_step ap (s, js) (s', remove1 (RefreshWrite lid tx) js)"
| refresh_finish: "env_of ap (ax :: ('c, 'ch, 'db) api_env) \<Longrightarrow> RefreshCommit lid \<in> set js \<Longrightarrow> refresh_commit ax lid s = Some (r, s') \<Longrightarrow>
    api_step ap (s, js) (s', remove1 (RefreshCommit lid) js)"

end
