(* ===== verification/Api_Safety.thy ===== *)
theory Api_Safety
  imports Api Transition_System
begin

text \<open>
  What holds of the API of theory \<open>Api\<close>: who may change the state, that the configuration in memory,
  on disk and in the engine stays one and valid in every interleaving of requests, that
  identifiers are used once, and the life of an account.
\<close>

subsection \<open>Only who may changes the state\<close>

lemma get_keeps_state: "call_method c = GET \<Longrightarrow> dispatch ax hs c s = Some (r, s') \<Longrightarrow> s' = s"
  by (cases c) (auto simp: call_method_def)

lemma setup_refused: "\<not> needs_setup (cfg_auth (sv_config s)) \<Longrightarrow> setup_account ax hs creds s = fail_with (BadRequest ''already set up'') s"
  by (simp add: setup_account_def setup_check_def)

lemma public_keeps_state:
  assumes "is_public c" "dispatch ax hs c s = Some (r, s')" "s' \<noteq> s"
  shows "\<exists>creds. c = Setup creds \<and> needs_setup (cfg_auth (sv_config s))"
proof (cases c)
  case (Setup creds)
  then show ?thesis using assms(2,3) setup_refused [of s ax hs creds] by (cases "needs_setup (cfg_auth (sv_config s))") auto
qed (use assms in \<open>auto simp: is_public_def login_def logout_def Let_def split: if_splits\<close>)

lemma request_changes:
  assumes "handle_request ax hs head c s = Some (rsp, s')" "s' \<noteq> s"
  shows "request_method head c \<notin> {GET, HEAD, OPTIONS}" "cross_origin_protection (request_method head c) hs = None"
    "(\<exists>token. cookie_token hs = Some token \<and> signed_token (ax_auth ax) (app_sessions (sv_app s)) (ax_now ax) token)
     \<or> (\<exists>creds. c = Setup creds \<and> needs_setup (cfg_auth (sv_config s)))"
proof -
  show co: "cross_origin_protection (request_method head c) hs = None"
    using assms by (auto simp: handle_request_def split: option.splits)
  obtain r where d: "dispatch ax hs c s = Some (r, s')"
    using assms co by (auto simp: handle_request_def split: option.splits if_splits)
  then have "call_method c \<noteq> GET" using get_keeps_state assms(2) by blast
  then show "request_method head c \<notin> {GET, HEAD, OPTIONS}" by (cases c) (simp_all add: request_method_def call_method_def)
  show "(\<exists>token. cookie_token hs = Some token \<and> signed_token (ax_auth ax) (app_sessions (sv_app s)) (ax_now ax) token)
     \<or> (\<exists>creds. c = Setup creds \<and> needs_setup (cfg_auth (sv_config s)))"
  proof (cases "is_public c")
    case True
    then show ?thesis using public_keeps_state [OF True d assms(2)] by blast
  next
    case False
    then have "require_auth (ax_auth ax) (app_sessions (sv_app s)) (ax_now ax) (ax_later ax) hs \<noteq> None"
      using assms co by (auto simp: handle_request_def split: option.splits)
    then show ?thesis using passed_signed by blast
  qed
qed

subsection \<open>Every request keeps the configuration live, valid and on disk\<close>

definition paths_apart :: "paths \<Rightarrow> bool" where
  "paths_apart pt \<longleftrightarrow> (\<forall>lid. list_file pt lid \<noteq> pt_config pt)"

lemma new_paths_apart: "paths_apart (new_paths dir)"
  by (simp add: paths_apart_def list_file_def new_paths_def)

lemma env_of_fields:
  assumes "env_of ap ax"
  shows "ap_engine (ax_app ax) = ap_engine ap" "ap_yaml (ax_app ax) = ap_yaml ap" "ap_paths (ax_app ax) = ap_paths ap"
  by (subst assms [unfolded env_of_def], simp)+

abbreviation sv_inv :: "('c, 'ch) app_env \<Rightarrow> config \<times> (string \<times> nat) option \<Rightarrow> ('c, 'ch, 'pch, 'db) server \<Rightarrow> bool" where
  "sv_inv ap start s \<equiv> app_inv ap start (sv_app s)"

lemma apply_update_inv:
  assumes "env_of ap ax" "sv_inv ap start s" "apply_update ax err cfg rsp s = Some (r, s')"
  shows "sv_inv ap start s'"
proof -
  obtain q app where q: "apply_config (ax_app ax) cfg (sv_app s) = Some (q, app)" "s' = s\<lparr>sv_app := app\<rparr>"
    using assms(3) by (auto simp: apply_update_def split: option.splits prod.splits sum.splits)
  from apply_config_inv [OF assms(2) q(1) assms(1) [unfolded env_of_def]] q(2) show ?thesis by simp
qed

lemma write_list_inv:
  assumes "env_of ap ax" "paths_apart (ap_paths ap)" "sv_inv ap start s"
  shows "sv_inv ap start (snd (write_list ax lid tx s))"
proof -
  have "pt_config (ap_paths ap) \<noteq> list_file (ap_paths ap) lid" using assms(2) unfolding paths_apart_def by metis
  then have "app_inv ap start ((sv_app s)\<lparr>app_fs := write_list_text (ap_paths (ax_app ax)) lid t (app_fs (sv_app s))\<rparr>)" for t
    using assms(3) env_of_fields(3) [OF assms(1)] by (simp add: app_inv_def write_list_text_def)
  then show ?thesis using assms(3) by (simp add: write_list_def Let_def split: option.split)
qed

lemma reset_stats_inv: "sv_inv ap start s \<Longrightarrow> sv_inv ap start (reset_stats s)"
  by (simp add: app_inv_def runs_config_def reset_stats_def stats_reset_def reset_counters_def seed_counters_def Let_def)

lemma test_upstream_inv:
  assumes "sv_inv ap start s" "test_upstream ax spec s = Some (r, s')"
  shows "sv_inv ap start s'"
proof -
  have "s' = s \<or> (\<exists>bs. s' = s\<lparr>sv_app := (sv_app s)\<lparr>app_engine := (sv_engine s)\<lparr>eng_state := (eng_state (sv_engine s))
      \<lparr>es_pool := (es_pool (eng_state (sv_engine s)))\<lparr>p_bootstrap := bs\<rparr>\<rparr>\<rparr>\<rparr>\<rparr>)"
    using assms(2) unfolding test_upstream_def by (auto simp: Let_def split: sum.splits prod.splits)
  then show ?thesis
  proof
    assume "\<exists>bs. s' = s\<lparr>sv_app := (sv_app s)\<lparr>app_engine := (sv_engine s)\<lparr>eng_state := (eng_state (sv_engine s))
      \<lparr>es_pool := (es_pool (eng_state (sv_engine s)))\<lparr>p_bootstrap := bs\<rparr>\<rparr>\<rparr>\<rparr>\<rparr>"
    then show ?thesis using assms(1) by (elim exE) (simp add: app_inv_def runs_config_def)
  qed (use assms(1) in simp)
qed

lemma setup_commit_inv:
  "env_of ap ax \<Longrightarrow> sv_inv ap start s \<Longrightarrow> setup_commit ax hs name h s = Some (r, s') \<Longrightarrow> sv_inv ap start s'"
  by (simp add: setup_commit_def Let_def apply_update_inv)

lemma add_list_commit_inv:
  assumes "env_of ap ax" "paths_apart (ap_paths ap)" "sv_inv ap start s" "add_list_commit ax b tx s = Some (r, s')"
  shows "sv_inv ap start s'"
proof -
  obtain q s1 where w: "write_list ax (next_list_id (sv_config s)) tx s = (q, s1)" by fastforce
  have "sv_inv ap start s1" using write_list_inv [OF assms(1-3), of "next_list_id (sv_config s)" tx] w by simp
  then show ?thesis using assms(4) w apply_update_inv [OF assms(1), where start = start]
    by (cases q) (auto simp: add_list_commit_def Let_def)
qed

lemma refresh_commit_inv:
  "env_of ap ax \<Longrightarrow> sv_inv ap start s \<Longrightarrow> refresh_commit ax lid s = Some (r, s') \<Longrightarrow> sv_inv ap start s'"
  by (simp add: refresh_commit_def Let_def apply_update_inv)

lemma delete_list_inv:
  assumes "env_of ap ax" "paths_apart (ap_paths ap)" "sv_inv ap start s" "delete_list ax lid s = Some (r, s')"
  shows "sv_inv ap start s'"
proof -
  let ?s = "s\<lparr>sv_app := (sv_app s)\<lparr>app_fs := (app_fs (sv_app s))(list_file (ap_paths (ax_app ax)) lid := None)\<rparr>\<rparr>"
  have "pt_config (ap_paths ap) \<noteq> list_file (ap_paths ap) lid" using assms(2) unfolding paths_apart_def by metis
  then have "sv_inv ap start ?s" using assms(3) env_of_fields(3) [OF assms(1)] by (simp add: app_inv_def)
  from apply_update_inv [OF assms(1) this] show ?thesis using assms(3,4)
    by (auto simp: delete_list_def Let_def split: if_splits)
qed

lemma refresh_list_inv:
  assumes "env_of ap ax" "paths_apart (ap_paths ap)" "sv_inv ap start s" "refresh_list ax lid s = Some (r, s')"
  shows "sv_inv ap start s'"
proof -
  have "sv_inv ap start s1" if "write_list ax lid tx s = (q, s1)" for tx q s1
    using write_list_inv [OF assms(1-3), of lid tx] that by simp
  moreover from this have "sv_inv ap start s'" if "write_list ax lid tx s = (q, s1)" "refresh_commit ax lid s1 = Some (r, s')" for tx q s1
    using refresh_commit_inv [OF assms(1) _ that(2)] that(1) by blast
  ultimately show ?thesis using assms(3,4) by (auto simp: refresh_list_def split: sum.splits prod.splits)
qed

lemmas plain_updates = put_upstreams_def put_cache_def put_filtering_def put_server_def put_querylog_def put_upstream_log_def
  put_stats_cfg_def put_privacy_def put_custom_rules_def

lemma dispatch_inv:
  assumes "env_of ap ax" "paths_apart (ap_paths ap)" "sv_inv ap start s" "dispatch ax hs c s = Some (r, s')"
  shows "sv_inv ap start s'"
proof -
  note up = apply_update_inv [OF assms(1,3)]
  have "call_method c = GET \<Longrightarrow> ?thesis" using get_keeps_state [OF _ assms(4)] assms(3) by simp
  moreover have "call_method c \<noteq> GET \<Longrightarrow> ?thesis"
  proof (cases c)
    case (Setup creds)
    then show ?thesis using assms(3,4) setup_commit_inv [OF assms(1,3)] by (auto simp: setup_account_def split: sum.splits)
  next
    case (AddList b)
    then show ?thesis using assms(3,4) add_list_commit_inv [OF assms(1-3)] by (auto simp: add_list_request_def split: sum.splits)
  next
    case (DeleteList i)
    then show ?thesis using assms(4) delete_list_inv [OF assms(1-3)] by auto
  next
    case (RefreshList i)
    then show ?thesis using assms(4) refresh_list_inv [OF assms(1-3)] by auto
  next
    case (TestUpstream spec)
    then show ?thesis using assms(4) test_upstream_inv [OF assms(3)] by auto
  next
    case ResetStats
    then show ?thesis using assms(4) reset_stats_inv [OF assms(3)] by auto
  next
    case (PostClient b)
    then show ?thesis using assms(3,4) up by (auto simp: post_client_def Let_def split: if_splits option.splits)
  next
    case (PutClient i b)
    then show ?thesis using assms(3,4) up by (auto simp: put_client_def Let_def split: if_splits option.splits)
  next
    case (DeleteClient i)
    then show ?thesis using assms(3,4) up by (auto simp: delete_client_def Let_def split: if_splits)
  next
    case (UpdateList i b)
    then show ?thesis using assms(3,4) up by (auto simp: update_list_def Let_def split: option.splits)
  next
    case (AddCustomRule b)
    then show ?thesis using assms(3,4) up by (auto simp: add_custom_rule_def Let_def split: if_splits)
  qed (use assms(3,4) up in \<open>auto simp: plain_updates Let_def login_def logout_def clear_querylog_def clear_upstream_log_def call_method_def
         split: if_splits option.splits sum.splits prod.splits\<close>)
  ultimately show ?thesis by blast
qed

lemma handle_request_cases:
  assumes "handle_request ax hs head c s = Some (rsp, s')"
  obtains "s' = s" | r where "dispatch ax hs c s = Some (r, s')"
  using assms by (auto simp: handle_request_def split: option.splits if_splits)

subsection \<open>In every interleaving\<close>

lemma api_step_inv:
  assumes "api_step ap st st'" "paths_apart (ap_paths ap)" "sv_inv ap start (fst st)"
  shows "sv_inv ap start (fst st')"
  using assms(1,3)
proof (induction rule: api_step.induct)
  case (request ax hs head c s rsp s' js)
  then show ?case using dispatch_inv [OF request(1) assms(2), where start = start] by (auto elim!: handle_request_cases)
next
  case (refresh_write ax lid tx js s u s')
  then show ?case using write_list_inv [OF refresh_write(1) assms(2), of start s lid tx] by simp
next
  case (refresh_fail ax lid tx js s e s')
  then show ?case using write_list_inv [OF refresh_fail(1) assms(2), of start s lid tx] by simp
qed (auto intro: setup_commit_inv add_list_commit_inv [OF _ assms(2)] refresh_commit_inv)

interpretation api: step_invariant "\<lambda>st. paths_apart (ap_paths ap) \<and> sv_inv ap start (fst st)" "api_step ap"
    "\<lambda>st. paths_apart (ap_paths ap) \<and> sv_inv ap start (fst st)"
  using api_step_inv by unfold_locales blast+

subsection \<open>Identifiers and the account\<close>

definition config_ids :: "config \<Rightarrow> bool" where
  "config_ids cfg \<longleftrightarrow> distinct (map fl_id (filter_lists (cfg_filtering cfg))) \<and> 0 \<notin> fl_id ` set (filter_lists (cfg_filtering cfg))
     \<and> distinct (map cl_id (cfg_clients cfg))"

lemma set_rule_counts_ids: "config_ids (set_rule_counts counts cfg) = config_ids cfg"
proof -
  let ?f = "\<lambda>l. case find (\<lambda>(lid, _). lid = fl_id l) counts of Some (_, n) \<Rightarrow> l\<lparr>fl_rule_count := n\<rparr> | None \<Rightarrow> l"
  have f: "fl_id (?f l) = fl_id l" for l by (simp split: option.split prod.split)
  have "map fl_id (map ?f ls) = map fl_id ls" for ls by (induction ls) (simp_all only: list.map f)
  then have "map fl_id (filter_lists (cfg_filtering (set_rule_counts counts cfg))) = map fl_id (filter_lists (cfg_filtering cfg))"
    by (simp add: set_rule_counts_def del: map_map)
  then show ?thesis unfolding config_ids_def set_map [symmetric] by (simp only: set_rule_counts_keeps)
qed

lemma apply_update_config:
  assumes "apply_update ax err cfg rsp s = Some (r, s')"
  shows "sv_config s' = sv_config s
    \<or> (\<exists>counts. sv_config s' = set_rule_counts counts (cfg\<lparr>cfg_upstreams := normalize (cfg_upstreams cfg)\<rparr>))"
    "app_sessions (sv_app s') = app_sessions (sv_app s)" "isl r \<Longrightarrow> sv_config s' = sv_config s"
    "\<not> isl r \<Longrightarrow> r = Inr rsp \<and> (\<exists>counts. sv_config s' = set_rule_counts counts (cfg\<lparr>cfg_upstreams := normalize (cfg_upstreams cfg)\<rparr>))"
proof -
  obtain q app where q: "apply_config (ax_app ax) cfg (sv_app s) = Some (q, app)" "s' = s\<lparr>sv_app := app\<rparr>"
    "r = (case q of Inl e \<Rightarrow> Inl (err (show_app_error e)) | Inr _ \<Rightarrow> Inr rsp)"
    using assms by (auto simp: apply_update_def split: option.splits prod.splits sum.splits)
  have "if isl q then app_config app = sv_config s else (\<exists>counts. app_config app = set_rule_counts counts (cfg\<lparr>cfg_upstreams := normalize (cfg_upstreams cfg)\<rparr>))"
    using apply_config_refused(2) q(1) apply_config_applied(4) by (cases q) (auto, blast+)
  moreover have "app_sessions app = app_sessions (sv_app s)"
    using apply_config_refused(4) q(1) apply_config_applied(6) by (cases q) auto
  moreover have "isl r = isl q" "\<not> isl r \<Longrightarrow> r = Inr rsp" using q(3) by (cases q; simp)+
  ultimately show "sv_config s' = sv_config s
    \<or> (\<exists>counts. sv_config s' = set_rule_counts counts (cfg\<lparr>cfg_upstreams := normalize (cfg_upstreams cfg)\<rparr>))"
    "app_sessions (sv_app s') = app_sessions (sv_app s)" "isl r \<Longrightarrow> sv_config s' = sv_config s"
    "\<not> isl r \<Longrightarrow> r = Inr rsp \<and> (\<exists>counts. sv_config s' = set_rule_counts counts (cfg\<lparr>cfg_upstreams := normalize (cfg_upstreams cfg)\<rparr>))"
    using q(2) by (cases "isl q"; simp)+
qed

lemma apply_update_ids:
  assumes "apply_update ax err cfg rsp s = Some (r, s')" "config_ids (sv_config s)" "config_ids cfg"
  shows "config_ids (sv_config s')"
proof (cases "sv_config s' = sv_config s")
  case False
  then have "\<exists>counts. sv_config s' = set_rule_counts counts (cfg\<lparr>cfg_upstreams := normalize (cfg_upstreams cfg)\<rparr>)"
    using apply_update_config(1) [OF assms(1)] by blast
  moreover have "config_ids (cfg\<lparr>cfg_upstreams := u\<rparr>)" for u using assms(3) by (simp add: config_ids_def)
  ultimately show ?thesis by (auto simp: set_rule_counts_ids)
qed (use assms(2) in simp)

lemma update_first_keeps: "update_first p f xs = Some ys \<Longrightarrow> (\<And>x. g (f x) = g x) \<Longrightarrow> map g ys = map g xs"
  by (induction xs arbitrary: ys) (auto split: if_splits)

lemma edit_list_id: "fl_id (edit_list b l) = fl_id l"
  by (simp add: edit_list_def Let_def split: option.split)

lemma next_list_id_fresh:
  assumes "next_list_id cfg \<noteq> 0"
  shows "next_list_id cfg \<notin> fl_id ` set (filter_lists (cfg_filtering cfg))"
proof (cases "\<forall>l \<in> set (filter_lists (cfg_filtering cfg)). fl_id l \<noteq> - 1")
  case True
  then show ?thesis using next_list_id_above by fastforce
next
  case False
  then obtain l where l: "l \<in> set (filter_lists (cfg_filtering cfg))" "fl_id l = - 1" by blast
  obtain i "is" where c: "map fl_id (filter_lists (cfg_filtering cfg)) = i # is"
    using l(1) by (cases "map fl_id (filter_lists (cfg_filtering cfg))") auto
  have "- 1 \<in> set (i # is)" using l unfolding c [symmetric] by force
  then have "- 1 \<le> foldl max i is" using foldl_max(2) by blast
  then have "foldl max i is = - 1" by (intro antisym) simp_all
  then show ?thesis using assms c by (simp add: next_list_id_def)
qed

lemma new_client_id_fresh: "new_client_id draws existing = Some cid \<Longrightarrow> cid \<notin> cl_id ` set existing"
  by (induction draws existing rule: new_client_id.induct) (auto simp: Let_def list_ex_iff split: if_splits)

text \<open>What every change but the setup keeps: the account, and identifiers that are in use once.\<close>

definition edit_ok :: "config \<Rightarrow> config \<Rightarrow> bool" where
  "edit_ok old new \<longleftrightarrow> cfg_auth new = cfg_auth old \<and> (config_ids old \<longrightarrow> next_list_id old \<noteq> 0 \<longrightarrow> config_ids new)"

definition server_ok :: "('c, 'ch, 'pch, 'db) server \<Rightarrow> ('c, 'ch, 'pch, 'db) server \<Rightarrow> bool" where
  "server_ok s s' \<longleftrightarrow> edit_ok (sv_config s) (sv_config s') \<and> app_sessions (sv_app s') = app_sessions (sv_app s)"

lemma edit_ok_refl [simp]: "edit_ok cfg cfg"
  by (simp add: edit_ok_def)

lemma server_ok_refl [simp]: "server_ok s s"
  by (simp add: server_ok_def)

lemma server_ok_cong: "sv_config s1 = sv_config s \<and> app_sessions (sv_app s1) = app_sessions (sv_app s) \<Longrightarrow> server_ok s1 s' = server_ok s s'"
  by (simp add: server_ok_def)

lemma edit_ok_fields [simp]:
  "edit_ok cfg (cfg\<lparr>cfg_upstreams := u\<rparr>)" "edit_ok cfg (cfg\<lparr>cfg_cache := c\<rparr>)" "edit_ok cfg (cfg\<lparr>cfg_server := v\<rparr>)"
  "edit_ok cfg (cfg\<lparr>cfg_query_log := q\<rparr>)" "edit_ok cfg (cfg\<lparr>cfg_upstream_log := p\<rparr>)" "edit_ok cfg (cfg\<lparr>cfg_stats := t\<rparr>)"
  "edit_ok cfg (cfg\<lparr>cfg_anonymize_client_ips := b\<rparr>)"
  "filter_lists f = filter_lists (cfg_filtering cfg) \<Longrightarrow> edit_ok cfg (cfg\<lparr>cfg_filtering := f\<rparr>)"
  by (simp_all add: edit_ok_def config_ids_def)

lemma edit_ok_lists:
  assumes "map fl_id (filter_lists f) = map fl_id (filter_lists (cfg_filtering cfg))"
  shows "edit_ok cfg (cfg\<lparr>cfg_filtering := f\<rparr>)"
  using assms unfolding edit_ok_def config_ids_def by (simp flip: set_map)

lemma edit_ok_filter:
  "edit_ok cfg (with_filtering (\<lambda>f. f\<lparr>filter_lists := filter p (filter_lists (cfg_filtering cfg))\<rparr>) cfg)"
  "edit_ok cfg (cfg\<lparr>cfg_clients := filter q (cfg_clients cfg)\<rparr>)"
  by (auto simp: edit_ok_def config_ids_def distinct_map_filter)

lemma edit_ok_add_list: "fl_id l = next_list_id cfg \<Longrightarrow>
    edit_ok cfg (with_filtering (\<lambda>f. f\<lparr>filter_lists := filter_lists f @ [l]\<rparr>) cfg)"
  using next_list_id_fresh [of cfg] by (auto simp: edit_ok_def config_ids_def)

lemma edit_ok_clients:
  "map cl_id cs = map cl_id (cfg_clients cfg) \<Longrightarrow> edit_ok cfg (cfg\<lparr>cfg_clients := cs\<rparr>)"
  "cl_id c \<notin> cl_id ` set (cfg_clients cfg) \<Longrightarrow> edit_ok cfg (cfg\<lparr>cfg_clients := cfg_clients cfg @ [c]\<rparr>)"
  by (auto simp: edit_ok_def config_ids_def)

lemma apply_update_ok:
  assumes "apply_update ax err cfg rsp s = Some (r, s')" "edit_ok (sv_config s) cfg"
  shows "server_ok s s'"
proof -
  have "edit_ok (sv_config s) (set_rule_counts counts (cfg\<lparr>cfg_upstreams := u\<rparr>))" for counts u
    using assms(2) by (auto simp: edit_ok_def set_rule_counts_keeps set_rule_counts_ids) (simp_all add: config_ids_def)
  then show ?thesis using apply_update_config(1,2) [OF assms(1)] by (auto simp: server_ok_def)
qed

lemma write_list_config:
  "write_list ax lid tx s = (q, s1) \<Longrightarrow> sv_config s1 = sv_config s \<and> app_sessions (sv_app s1) = app_sessions (sv_app s)"
  by (auto simp: write_list_def Let_def split: option.splits)

lemma add_list_commit_ok:
  assumes "add_list_commit ax b tx s = Some (r, s')"
  shows "server_ok s s'"
proof -
  obtain q s1 where w: "write_list ax (next_list_id (sv_config s)) tx s = (q, s1)" by fastforce
  note same = write_list_config [OF w]
  show ?thesis
  proof (cases q)
    case (Inl e)
    then show ?thesis using assms w same by (simp add: add_list_commit_def server_ok_def)
  next
    case (Inr u)
    have "server_ok s1 s'"
      using assms w Inr same edit_ok_add_list [of _ "sv_config s"] by (auto simp: add_list_commit_def Let_def elim!: apply_update_ok)
    then show ?thesis using server_ok_cong [OF same] by simp
  qed
qed

lemma refresh_commit_ok:
  assumes "refresh_commit ax lid s = Some (r, s')"
  shows "server_ok s s'"
proof -
  let ?ls = "filter_lists (cfg_filtering (sv_config s))"
  let ?up = "update_first (\<lambda>l. fl_id l = lid) (\<lambda>l. l\<lparr>fl_last_updated := Some (ax_now_ms ax)\<rparr>) ?ls"
  have "map fl_id (case ?up of Some ls \<Rightarrow> ls | None \<Rightarrow> ?ls) = map fl_id ?ls"
    using update_first_keeps [where g = fl_id and p = "\<lambda>l. fl_id l = lid" and xs = ?ls
        and f = "\<lambda>l. l\<lparr>fl_last_updated := Some (ax_now_ms ax)\<rparr>"] by (auto split: option.split)
  then show ?thesis using assms unfolding refresh_commit_def Let_def
    by (elim apply_update_ok) (rule edit_ok_lists, simp)
qed

lemma delete_list_ok:
  assumes "delete_list ax lid s = Some (r, s')"
  shows "server_ok s s'"
proof -
  let ?s = "s\<lparr>sv_app := (sv_app s)\<lparr>app_fs := (app_fs (sv_app s))(list_file (ap_paths (ax_app ax)) lid := None)\<rparr>\<rparr>"
  have "server_ok ?s s'" if "apply_update ax BadRequest (with_filtering (\<lambda>f. f\<lparr>filter_lists := filter (\<lambda>l. fl_id l \<noteq> lid) (filter_lists (cfg_filtering (sv_config s)))\<rparr>) (sv_config s))
      (ok_response OkBody) ?s = Some (r, s')"
    by (rule apply_update_ok [OF that]) (simp add: edit_ok_filter)
  then have "server_ok s s'" if "apply_update ax BadRequest (with_filtering (\<lambda>f. f\<lparr>filter_lists := filter (\<lambda>l. fl_id l \<noteq> lid) (filter_lists (cfg_filtering (sv_config s)))\<rparr>) (sv_config s))
      (ok_response OkBody) ?s = Some (r, s')" using that by (simp add: server_ok_def)
  then show ?thesis using assms by (auto simp: delete_list_def Let_def split: if_splits)
qed

lemma dispatch_ok:
  assumes "dispatch ax hs c s = Some (r, s')" "\<And>creds. c \<noteq> Setup creds"
  shows "server_ok s s'"
proof (cases "call_method c = GET")
  case True
  then show ?thesis using get_keeps_state [OF True assms(1)] by simp
next
  case False
  note up = apply_update_ok
  from False show ?thesis
  proof (cases c)
    case (AddList b)
    then show ?thesis using assms(1) add_list_commit_ok by (auto simp: add_list_request_def split: sum.splits)
  next
    case (RefreshList i)
    have "server_ok s s'" if "write_list ax i tx s = (q, s1)" "refresh_commit ax i s1 = Some (r, s')" for tx q s1
      using refresh_commit_ok [OF that(2)] server_ok_cong [OF write_list_config [OF that(1)]] by simp
    moreover have "server_ok s s1" if "write_list ax i tx s = (q, s1)" for tx q s1
      using write_list_config [OF that] by (simp add: server_ok_def)
    ultimately show ?thesis using assms(1) RefreshList
      by (auto simp: refresh_list_def split: sum.splits prod.splits)
  next
    case (DeleteList i)
    then show ?thesis using assms(1) delete_list_ok by auto
  next
    case (TestUpstream spec)
    then show ?thesis using assms(1) by (auto simp: test_upstream_def Let_def server_ok_def split: sum.splits prod.splits)
  next
    case ResetStats
    then show ?thesis using assms(1) by (auto simp: reset_stats_def Let_def server_ok_def)
  next
    case (PostClient b)
    then show ?thesis using assms(1)
      by (auto simp: post_client_def Let_def split: if_splits option.splits elim!: up intro!: edit_ok_clients(2) dest!: new_client_id_fresh)
  next
    case (PutClient i b)
    have e: "edit_ok (sv_config s) ((sv_config s)\<lparr>cfg_clients := cs\<rparr>)"
      if "update_first (\<lambda>c. cl_id c = i) (edit_client b) (cfg_clients (sv_config s)) = Some cs" for cs
      using update_first_keeps [OF that, of cl_id] by (intro edit_ok_clients) (simp add: edit_client_def)
    show ?thesis using assms(1) PutClient by (auto simp: put_client_def Let_def split: if_splits option.splits elim!: up intro: e)
  next
    case (DeleteClient i)
    then show ?thesis using assms(1) by (auto simp: delete_client_def Let_def split: if_splits elim!: up intro: edit_ok_filter(2))
  next
    case (UpdateList i b)
    have e: "edit_ok (sv_config s) (with_filtering (\<lambda>f. f\<lparr>filter_lists := ls\<rparr>) (sv_config s))"
      if "update_first (\<lambda>l. fl_id l = i) (edit_list b) (filter_lists (cfg_filtering (sv_config s))) = Some ls" for ls
      using update_first_keeps [OF that, of fl_id] by (intro edit_ok_lists) (simp add: edit_list_id)
    show ?thesis using assms(1) UpdateList by (auto simp: update_list_def Let_def split: option.splits elim!: up intro: e)
  next
    case (AddCustomRule b)
    then show ?thesis using assms(1) by (auto simp: add_custom_rule_def Let_def split: if_splits elim!: up)
  qed (use assms in \<open>auto simp: plain_updates Let_def login_def logout_def clear_querylog_def clear_upstream_log_def call_method_def server_ok_def
         split: if_splits option.splits sum.splits prod.splits elim!: up [unfolded server_ok_def]\<close>)
qed

text \<open>In every interleaving: an account that exists stays, and no two lists or clients get one identifier.\<close>

definition jobs_ok :: "job list \<Rightarrow> bool" where
  "jobs_ok js \<longleftrightarrow> list_all (\<lambda>j. case j of SetupJob name h \<Rightarrow> name \<noteq> [] | _ \<Rightarrow> True) js"

lemma jobs_ok_simps [simp]: "jobs_ok (j # js) \<longleftrightarrow> (case j of SetupJob name h \<Rightarrow> name \<noteq> [] | _ \<Rightarrow> True) \<and> jobs_ok js"
  by (simp add: jobs_ok_def)

lemma jobs_ok_remove1: "jobs_ok js \<Longrightarrow> jobs_ok (remove1 j js)"
  by (auto simp: jobs_ok_def list_all_iff dest: notin_set_remove1)

lemma trim_Nil [simp]: "trim [] = []"
  by (simp add: trim_def trim_start.simps [of "[]"] trim_end.simps [of "[]"] ws_len_def ws_end_len_def)

lemma setup_commit_config:
  assumes "setup_commit ax hs name h s = Some (r, s')"
  shows "config_ids (sv_config s) \<Longrightarrow> config_ids (sv_config s')" "app_sessions (sv_app s') = app_sessions (sv_app s)"
    "cfg_auth (sv_config s') = (if isl r then cfg_auth (sv_config s) else (cfg_auth (sv_config s))\<lparr>username := name, password_hash := Some h\<rparr>)"
    "\<not> isl r \<Longrightarrow> r = Inr (session_response ax hs s)"
proof -
  let ?cfg = "(sv_config s)\<lparr>cfg_auth := (cfg_auth (sv_config s))\<lparr>username := name, password_hash := Some h\<rparr>\<rparr>"
  have up: "apply_update ax Internal ?cfg (session_response ax hs s) s = Some (r, s')"
    using assms by (simp add: setup_commit_def Let_def)
  show "config_ids (sv_config s')" if "config_ids (sv_config s)"
    by (rule apply_update_ids [OF up that]) (use that in \<open>simp add: config_ids_def\<close>)
  show "app_sessions (sv_app s') = app_sessions (sv_app s)" by (rule apply_update_config(2) [OF up])
  show "cfg_auth (sv_config s') = (if isl r then cfg_auth (sv_config s) else (cfg_auth (sv_config s))\<lparr>username := name, password_hash := Some h\<rparr>)"
    using apply_update_config(3,4) [OF up] by (cases "isl r") (auto simp: set_rule_counts_keeps)
  show "\<not> isl r \<Longrightarrow> r = Inr (session_response ax hs s)" using apply_update_config(4) [OF up] by blast
qed

lemma setup_check_name: "setup_check ax creds cfg = Inr h \<Longrightarrow> cr_username creds \<noteq> [] \<and> needs_setup (cfg_auth cfg)
    \<and> hash_password (ax_auth ax) (ax_salt ax) (cr_password creds) = Inr h"
  by (auto simp: setup_check_def split: if_splits sum.splits)

definition account_kept :: "('c, 'ch, 'pch, 'db) server \<Rightarrow> ('c, 'ch, 'pch, 'db) server \<Rightarrow> bool" where
  "account_kept s s' \<longleftrightarrow> (\<not> needs_setup (cfg_auth (sv_config s)) \<longrightarrow> \<not> needs_setup (cfg_auth (sv_config s')))
     \<and> (config_ids (sv_config s) \<longrightarrow> next_list_id (sv_config s) \<noteq> 0 \<longrightarrow> config_ids (sv_config s'))
     \<and> app_sessions (sv_app s') = app_sessions (sv_app s)"

lemma account_kept_refl [simp]: "account_kept s s"
  by (simp add: account_kept_def)

lemma server_ok_account: "server_ok s s' \<Longrightarrow> account_kept s s'"
  by (simp add: server_ok_def account_kept_def edit_ok_def)

lemma setup_commit_account: "setup_commit ax hs name h s = Some (r, s') \<Longrightarrow> name \<noteq> [] \<Longrightarrow> account_kept s s'"
  using setup_commit_config(1-3) [of ax hs name h s r s'] by (auto simp: account_kept_def needs_setup_def)

lemma dispatch_account: "dispatch ax hs c s = Some (r, s') \<Longrightarrow> account_kept s s'"
proof (cases "\<exists>creds. c = Setup creds")
  case True
  assume "dispatch ax hs c s = Some (r, s')"
  with True show ?thesis using setup_commit_account setup_check_name
    by (fastforce simp: setup_account_def account_kept_def split: sum.splits)
next
  case False
  assume "dispatch ax hs c s = Some (r, s')"
  with False show ?thesis using dispatch_ok server_ok_account by blast
qed

lemma api_step_account:
  assumes "api_step ap st st'" "jobs_ok (snd st)"
  shows "account_kept (fst st) (fst st') \<and> jobs_ok (snd st')"
  using assms
proof (induction rule: api_step.induct)
  case (request ax hs head c s rsp s' js)
  then show ?case by (auto elim!: handle_request_cases dest: dispatch_account)
next
  case (setup_start ax hs creds s h js)
  then show ?case using setup_check_name by (auto simp: account_kept_def)
next
  case (setup_finish ax name h js hs s r s')
  then have "name \<noteq> []" by (auto simp: jobs_ok_def list_all_iff)
  then show ?case using setup_commit_account [OF setup_finish(3)] setup_finish(4) by (simp add: jobs_ok_remove1)
next
  case (add_finish ax b tx js s r s')
  then show ?case using server_ok_account [OF add_list_commit_ok [OF add_finish(3)]] by (simp add: jobs_ok_remove1)
next
  case (refresh_write ax lid tx js s u s')
  then show ?case using write_list_config [OF refresh_write(3)] by (simp add: jobs_ok_remove1 account_kept_def)
next
  case (refresh_fail ax lid tx js s e s')
  then show ?case using write_list_config [OF refresh_fail(3)] by (simp add: jobs_ok_remove1 account_kept_def)
next
  case (refresh_finish ax lid js s r s')
  then show ?case using server_ok_account [OF refresh_commit_ok [OF refresh_finish(3)]] by (simp add: jobs_ok_remove1)
qed (auto simp: account_kept_def)

text \<open>
  The check of \<open>setup\<close> is not repeated under the lock: two setups whose checks have both passed
  both succeed, and the later one replaces the account of the earlier.
\<close>

lemma setup_race:
  assumes "setup_check ax1 creds1 (sv_config s) = Inr h1" "setup_check ax2 creds2 (sv_config s) = Inr h2"
    and "setup_commit ax1 hs1 (cr_username creds1) h1 s = Some (Inr rsp1, s1)"
    and "setup_commit ax2 hs2 (cr_username creds2) h2 s1 = Some (Inr rsp2, s2)"
  shows "\<not> needs_setup (cfg_auth (sv_config s1))" "username (cfg_auth (sv_config s2)) = cr_username creds2"
    "password_hash (cfg_auth (sv_config s2)) = Some h2" "rs_status rsp2 = 200"
  using setup_commit_config(3) [OF assms(3)] setup_commit_config(3,4) [OF assms(4)] setup_check_name [OF assms(1)]
  by (simp_all add: needs_setup_def session_response_def ok_response_def)

text \<open>Who set the server up can log in, and the session of the login is good for its time.\<close>

lemma setup_then_login:
  assumes "setup_account ax hs creds s = Some (Inr rsp, s')" "ax_auth ax' = ax_auth ax"
    and "auth_laws (ax_auth ax)" "b64_graphic (ax_auth ax)" "hash_laws (ax_auth ax)"
    and "unat (ax_now ax') + unat (ss_ttl (app_sessions (sv_app s'))) < 2 ^ 64"
  shows "\<exists>rsp' token. login ax' hs' creds s' = Some (Inr rsp', s') \<and> rs_set_cookie rsp' = Some (session_cookie token (is_https hs'))
    \<and> session_of (ax_auth ax) (app_sessions (sv_app s')) now [(''cookie'', SESSION_COOKIE @ ''='' @ token)] =
        (if unat (ax_now ax') + unat (ss_ttl (app_sessions (sv_app s'))) \<le> unat now then Invalid
         else if unat (ax_now ax') + unat (ss_ttl (app_sessions (sv_app s'))) div 2 \<le> unat now then Refresh
         else Valid)"
proof -
  obtain h where h: "setup_check ax creds (sv_config s) = Inr h" "setup_commit ax hs (cr_username creds) h s = Some (Inr rsp, s')"
    using assms(1) by (auto simp: setup_account_def split: sum.splits)
  have auth: "cfg_auth (sv_config s') = (cfg_auth (sv_config s))\<lparr>username := cr_username creds, password_hash := Some h\<rparr>"
    using setup_commit_config(3) [OF h(2)] by simp
  have "verify_password (ax_auth ax) (cr_password creds) h"
    using password_roundtrip setup_check_name [OF h(1)] assms(5) by blast
  then have "login ax' hs' creds s' = Some (Inr (session_response ax' hs' s'), s')"
    using auth assms(2) by (simp add: login_def Let_def)
  then show ?thesis using issued_session [OF assms(3,4,6)] assms(2)
    by (intro exI [of _ "session_response ax' hs' s'"] exI [of _ "issue (ax_auth ax') (app_sessions (sv_app s')) (ax_now ax')"])
      (simp add: session_response_def)
qed

subsection \<open>Custom rules are added once\<close>

lemma split_char_ends:
  "split_char c (a @ c # b) = split_char c a @ split_char c b"
  "s \<noteq> [] \<Longrightarrow> last s \<noteq> c \<Longrightarrow> last (split_char c s) \<noteq> []"
proof -
  note ne = split_char_nonempty [of c]
  show "split_char c (a @ c # b) = split_char c a @ split_char c b"
    by (induction a) (use ne in \<open>auto simp: split_char.simps [of c "_ # _"] split_char.simps [of c "[]"] split: list.split\<close>)
  show "s \<noteq> [] \<Longrightarrow> last s \<noteq> c \<Longrightarrow> last (split_char c s) \<noteq> []"
  proof (induction s)
    case (Cons x s)
    obtain p ps where p: "split_char c s = p # ps" using ne [of s] by (cases "split_char c s") auto
    show ?case
    proof (cases "s = []")
      case False
      then have "last (p # ps) \<noteq> []" using Cons p by (auto split: if_splits)
      then show ?thesis using p by (auto simp: split_char.simps [of c "x # s"] split: if_splits)
    qed (use Cons.prems in \<open>simp add: split_char.simps\<close>)
  qed simp
qed

lemma lines_append_rule:
  assumes "NL \<notin> set rule" "rule \<noteq> []" "trim rule = rule"
  shows "lines (append_rule cur rule) =
    (if cur = [] \<or> last cur = NL then lines cur else butlast (lines cur) @ [strip_cr (last (lines cur))]) @ [rule]"
proof -
  note [simp del] = split_char.simps
  have P: "split_char NL rule = [rule]" "split_char NL [] = [[]]"
    using split_char_no_sep [OF assms(1)] by (simp_all add: split_char.simps)
  have cr: "strip_cr rule = rule" by (rule strip_cr_clean [OF assms(3)])
  consider (empty) "cur = []" | (ended) a where "cur = a @ [NL]" | (open_end) "cur \<noteq> []" "last cur \<noteq> NL"
    by (cases cur rule: rev_cases) auto
  then show ?thesis
  proof cases
    case empty
    then show ?thesis by (simp add: append_rule_def lines_def Let_def split_char_ends(1) P cr)
  next
    case (ended a)
    have "split_char NL (a @ NL # rule @ [NL]) = split_char NL a @ [rule, []]" "split_char NL (a @ [NL]) = split_char NL a @ [[]]"
      by (simp_all add: split_char_ends(1) P)
    then show ?thesis using ended cr split_char_nonempty [of NL a] by (simp add: append_rule_def lines_def Let_def butlast_append)
  next
    case open_end
    have "split_char NL (cur @ NL # rule @ [NL]) = split_char NL cur @ [rule, []]" by (simp add: split_char_ends(1) P)
    moreover have "map strip_cr (split_char NL cur) = map strip_cr (butlast (split_char NL cur)) @ [strip_cr (last (split_char NL cur))]"
      using split_char_nonempty [of NL cur] by (metis append_butlast_last_id list.simps(8,9) map_append)
    ultimately show ?thesis using open_end cr split_char_nonempty [of NL cur] split_char_ends(2) [OF open_end]
      by (simp add: append_rule_def lines_def Let_def butlast_append)
  qed
qed

lemma add_rule_once:
  assumes "add_custom_rule ax given s = Some (Inr rsp, s')" "NL \<notin> set (trim given)"
  shows "trim given \<in> set (map trim (lines (custom_rules (cfg_filtering (sv_config s')))))"
    "add_custom_rule ax' given s' = Some (Inr (ok_response (AddRuleBody (trim given) False)), s')"
proof -
  define cur where "cur = custom_rules (cfg_filtering (sv_config s))"
  have ne: "trim given \<noteq> []" using assms(1) by (auto simp: add_custom_rule_def Let_def)
  show mem: "trim given \<in> set (map trim (lines (custom_rules (cfg_filtering (sv_config s')))))"
  proof (cases "list_ex (\<lambda>l. trim l = trim given) (lines cur)")
    case True
    then have "s' = s" using assms(1) ne by (simp add: add_custom_rule_def Let_def cur_def)
    moreover obtain l where "l \<in> set (lines cur)" "trim l = trim given" using True by (auto simp: list_ex_iff)
    ultimately show ?thesis unfolding cur_def set_map by (metis image_eqI)
  next
    case False
    have up: "apply_update ax BadRequest (with_filtering (\<lambda>f. f\<lparr>custom_rules := append_rule cur (trim given)\<rparr>) (sv_config s))
        (ok_response (AddRuleBody (trim given) True)) s = Some (Inr rsp, s')"
      using assms(1) ne False by (simp add: add_custom_rule_def Let_def cur_def)
    have "custom_rules (cfg_filtering (sv_config s')) = append_rule cur (trim given)"
      using apply_update_config(4) [OF up] by (auto simp: set_rule_counts_def)
    then show ?thesis using lines_append_rule [OF assms(2) ne trim_idem, of cur] by (simp add: trim_idem)
  qed
  then show "add_custom_rule ax' given s' = Some (Inr (ok_response (AddRuleBody (trim given) False)), s')"
    using ne by (auto simp: add_custom_rule_def Let_def list_ex_iff)
qed

subsection \<open>Client identifiers\<close>

lemma hex_digit_inj: "m < 16 \<Longrightarrow> n < 16 \<Longrightarrow> hex_digit m = hex_digit n \<Longrightarrow> m = n"
  by (auto simp: hex_digit_def char_of_eq_iff take_bit_eq_mod split: if_splits)

lemma hex_id_inj: "hex_id a = hex_id b \<Longrightarrow> a = b"
proof (induction a arbitrary: b)
  case Nil
  then show ?case by (cases b) (simp_all add: hex_id_def Let_def)
next
  case (Cons x a)
  then obtain y b' where b: "b = y # b'" by (cases b) (simp_all add: hex_id_def Let_def)
  have lt: "unat w < 256" for w :: u8 using unsigned_less [of w] by simp
  have "unat x div 16 = unat y div 16" "unat x mod 16 = unat y mod 16"
    using Cons.prems lt [of x] lt [of y] by (auto simp: b hex_id_def Let_def intro!: hex_digit_inj)
  then have "x = y" by (metis div_mult_mod_eq word_unat_eq_iff)
  then show ?case using Cons b by (simp add: hex_id_def Let_def)
qed

text \<open>The loop that draws an identifier ends as soon as more values have been drawn than there are clients.\<close>

lemma new_client_id_found:
  assumes "distinct draws" "length existing < length draws"
  shows "\<exists>cid. new_client_id draws existing = Some cid"
proof (rule ccontr)
  assume "\<not> ?thesis"
  then have "new_client_id draws existing = None" by simp
  then have "set (map hex_id draws) \<subseteq> set (map cl_id existing)"
    by (induction draws) (force simp: Let_def list_ex_iff split: if_splits)+
  moreover have "distinct (map hex_id draws)" using assms(1) hex_id_inj by (auto simp: distinct_map inj_on_def)
  ultimately have "length draws \<le> length existing"
    by (metis card_length card_mono distinct_card finite_set le_trans length_map)
  then show False using assms(2) by simp
qed

subsection \<open>A list that could not be deleted has lost its text\<close>

lemma apply_config_pool_error:
  assumes "apply_config ap cfg s = Some (Inl (BuildingPool e), s')"
  shows "s' = s"
  using assms unfolding apply_config_def by (auto simp: Let_def split: sum.splits option.splits prod.splits)

lemma delete_list_loses_text:
  assumes "delete_list ax lid s = Some (Inl (BadRequest ''building upstream pool''), s')"
  shows "sv_config s' = sv_config s" "lid \<in> fl_id ` set (filter_lists (cfg_filtering (sv_config s')))"
    "read_list_text (ap_paths (ax_app ax)) (app_fs (sv_app s')) lid = []"
proof -
  let ?ls = "filter_lists (cfg_filtering (sv_config s))" and ?p = "list_file (ap_paths (ax_app ax)) lid"
  let ?app = "(sv_app s)\<lparr>app_fs := (app_fs (sv_app s))(?p := None)\<rparr>"
  have some: "length (filter (\<lambda>l. fl_id l \<noteq> lid) ?ls) \<noteq> length ?ls" using assms by (auto simp: delete_list_def Let_def)
  obtain e app where ap: "apply_config (ax_app ax) (with_filtering (\<lambda>f. f\<lparr>filter_lists := filter (\<lambda>l. fl_id l \<noteq> lid) ?ls\<rparr>) (sv_config s)) ?app
      = Some (Inl e, app)" "show_app_error e = ''building upstream pool''" "sv_app s' = app"
    using assms some by (auto simp: delete_list_def apply_update_def Let_def split: option.splits prod.splits sum.splits)
  from ap(2) obtain u where "e = BuildingPool u" by (cases e) auto
  then have same: "sv_app s' = ?app" using apply_config_pool_error ap(1,3) by blast
  show "sv_config s' = sv_config s" "read_list_text (ap_paths (ax_app ax)) (app_fs (sv_app s')) lid = []"
    using same by (simp_all add: read_list_text_def)
  have "\<not> (\<forall>l \<in> set ?ls. fl_id l \<noteq> lid)"
  proof
    assume "\<forall>l \<in> set ?ls. fl_id l \<noteq> lid"
    then have "filter (\<lambda>l. fl_id l \<noteq> lid) ?ls = ?ls" by (simp add: filter_True)
    then show False using some by simp
  qed
  then show "lid \<in> fl_id ` set (filter_lists (cfg_filtering (sv_config s')))" using same by force
qed

end
