(* ===== verification/Persist.thy ===== *)
theory Persist
  imports App_State Log_Store Probe_Store
begin

text \<open>
  The background tasks of \<open>server/src/persist.rs\<close>: the writers that move log entries from a channel
  to a store in batches, the pruners, and the snapshots of the statistics and of the cache. A
  channel is the list of the entries in it; a task's loop is the sequence of its rounds.
\<close>

subsection \<open>Writers\<close>

definition QUERYLOG_CHANNEL_CAP :: nat where "QUERYLOG_CHANNEL_CAP = 512"
definition PROBE_CHANNEL_CAP :: nat where "PROBE_CHANNEL_CAP = 256"
definition PROBE_DRAIN_BATCH :: nat where "PROBE_DRAIN_BATCH = 256"

text \<open>The inner loop takes what is in the channel until it is empty or the batch is full.\<close>

fun drain :: "nat \<Rightarrow> 'e list \<Rightarrow> 'e list \<Rightarrow> 'e list \<times> 'e list" where
  "drain cap batch [] = (batch, [])"
| "drain cap batch (e # q) =
     (let batch = batch @ [e] in if cap \<le> length batch then (batch, q) else drain cap batch q)"

definition writer_round ::
  "nat \<Rightarrow> ('e list \<Rightarrow> 'db \<Rightarrow> (string + unit) \<times> 'db) \<Rightarrow> 'e list \<times> 'db \<Rightarrow> ('e list \<times> 'db) option" where
  "writer_round cap ins s =
     (case s of
        ([], db) \<Rightarrow> None
      | (first # q, db) \<Rightarrow> (let (batch, q) = drain cap [first] q in Some (q, snd (ins batch db))))"

definition querylog_round :: "'db sql_env \<Rightarrow> json_env \<Rightarrow> query_log_entry list \<times> 'db \<Rightarrow> (query_log_entry list \<times> 'db) option" where
  "querylog_round sq js = writer_round 512 (log_insert_batch sq js)"

definition probe_round :: "'db sql_env \<Rightarrow> probe_event list \<times> 'db \<Rightarrow> (probe_event list \<times> 'db) option" where
  "probe_round sq = writer_round PROBE_DRAIN_BATCH (probe_insert_batch sq)"

lemma drain_parts: "drain cap batch q = (b, r) \<Longrightarrow> b @ r = batch @ q \<and> length r \<le> length q \<and> (\<exists>t. b = batch @ t)
    \<and> (length batch < cap \<longrightarrow> length b \<le> cap)"
proof (induction cap batch q rule: drain.induct)
  case (2 cap batch e q)
  show ?case
  proof (cases "cap \<le> length (batch @ [e])")
    case True
    then show ?thesis using 2(2) by auto
  next
    case False
    then have d: "drain cap (batch @ [e]) q = (b, r)" using 2(2) by simp
    have "b @ r = (batch @ [e]) @ q \<and> length r \<le> length q \<and> (\<exists>t. b = (batch @ [e]) @ t)
      \<and> (length (batch @ [e]) < cap \<longrightarrow> length b \<le> cap)"
      by (rule "2.IH" [OF refl False d])
    then show ?thesis using False by auto
  qed
qed simp

text \<open>The rounds that follow when nothing more is sent: they end, each taking at least one entry.\<close>

function writer_run :: "nat \<Rightarrow> ('e list \<Rightarrow> 'db \<Rightarrow> (string + unit) \<times> 'db) \<Rightarrow> 'e list \<times> 'db \<Rightarrow> 'db" where
  "writer_run cap ins s = (case writer_round cap ins s of None \<Rightarrow> snd s | Some s' \<Rightarrow> writer_run cap ins s')"
  by pat_completeness auto
termination
proof (relation "measure (\<lambda>(cap, ins, s). length (fst s))", goal_cases)
  case (2 cap ins s s')
  then show ?case using drain_parts
    by (fastforce simp: writer_round_def le_imp_less_Suc split: prod.splits list.splits)
qed simp

declare writer_run.simps [simp del]

subsection \<open>Pruners\<close>

definition prune_cutoff :: "u32 \<Rightarrow> int \<Rightarrow> int option" where
  "prune_cutoff retention now_ms = (if retention = 0 then None else Some (now_ms - uint retention * 86400000))"

definition querylog_prune :: "'db sql_env \<Rightarrow> config \<Rightarrow> int \<Rightarrow> 'db \<Rightarrow> 'db" where
  "querylog_prune sq cfg now_ms db =
     (case prune_cutoff (ql_retention_days (cfg_query_log cfg)) now_ms of
        None \<Rightarrow> db
      | Some cutoff \<Rightarrow> snd (log_delete_older_than sq cutoff db))"

definition probe_prune :: "'db sql_env \<Rightarrow> config \<Rightarrow> int \<Rightarrow> 'db \<Rightarrow> 'db" where
  "probe_prune sq cfg now_ms db =
     (case prune_cutoff (ul_retention_days (cfg_upstream_log cfg)) now_ms of
        None \<Rightarrow> db
      | Some cutoff \<Rightarrow> snd (probe_delete_older_than sq cutoff db))"

subsection \<open>Snapshots\<close>

text \<open>
  A file that is replaced by way of a temporary one. \<open>fails\<close> is the step that fails, if any: a
  write may leave part of the bytes in the temporary file.
\<close>

datatype replace_failure = WriteFails "string option" | RenameFails

definition replace_file :: "replace_failure option \<Rightarrow> string \<Rightarrow> path \<Rightarrow> string \<Rightarrow> fs \<Rightarrow> fs" where
  "replace_file fails ext p tx fs =
     (let tmp = with_extension p ext in
      case fails of
        Some (WriteFails left) \<Rightarrow> (case left of Some t \<Rightarrow> fs_run [WriteFile tmp t] fs | None \<Rightarrow> fs)
      | Some RenameFails \<Rightarrow> fs_run [WriteFile tmp tx] fs
      | None \<Rightarrow> fs_run [WriteFile tmp tx, Rename tmp p] fs)"

definition bytes_text :: "u8 list \<Rightarrow> string" where
  "bytes_text bs = map (\<lambda>b. char_of (unat b)) bs"

definition text_bytes :: "string \<Rightarrow> u8 list" where
  "text_bytes s = map (\<lambda>c. word_of_nat (of_char c)) s"

definition snapshot_stats_now :: "('c, 'ch) engine_env \<Rightarrow> replace_failure option \<Rightarrow> ('c, 'ch) engine \<Rightarrow> path \<Rightarrow> fs \<Rightarrow> fs" where
  "snapshot_stats_now ev fails eng p fs =
     replace_file fails ''json.tmp'' p (stats_export (ev_stats ev) (counters (eng_cache eng)) (eng_stats eng)) fs"

definition stats_snapshot_tick ::
  "('c, 'ch) engine_env \<Rightarrow> replace_failure option \<Rightarrow> config \<Rightarrow> ('c, 'ch) engine \<Rightarrow> path \<Rightarrow> fs \<Rightarrow> fs" where
  "stats_snapshot_tick ev fails cfg eng p fs =
     (if sc_persist (cfg_stats cfg) then snapshot_stats_now ev fails eng p fs else fs)"

definition load_stats :: "('c, 'ch) engine_env \<Rightarrow> path \<Rightarrow> fs \<Rightarrow> ('c, 'ch) engine \<Rightarrow> ('c, 'ch) engine" where
  "load_stats ev p fs eng =
     (case fs p of
        None \<Rightarrow> eng
      | Some (tx, _) \<Rightarrow>
          let (st, cc) = stats_import (ev_stats ev) tx (eng_stats eng)
          in eng\<lparr>eng_stats := st, eng_cache := seed_counters cc (eng_cache eng)\<rparr>)"

definition snapshot_cache_to ::
  "('c, 'ch) engine_env \<Rightarrow> replace_failure option \<Rightarrow> int \<Rightarrow> u64 \<Rightarrow> ('c, 'ch) engine \<Rightarrow> path \<Rightarrow> fs \<Rightarrow> fs" where
  "snapshot_cache_to ev fails now unix eng p fs =
     (if \<not> c_enabled (eng_cache eng) then fs
      else replace_file fails ''snap.tmp'' p (bytes_text (export_snapshot (ev_cache ev) now unix (eng_cache eng))) fs)"

definition load_cache ::
  "('c, 'ch) engine_env \<Rightarrow> int \<Rightarrow> u64 \<Rightarrow> path \<Rightarrow> fs \<Rightarrow> ('c, 'ch) engine \<Rightarrow> ('c, 'ch) engine option" where
  "load_cache ev now unix p fs eng =
     (case fs p of
        None \<Rightarrow> Some eng
      | Some (tx, _) \<Rightarrow>
          map_option (\<lambda>(c, n). eng\<lparr>eng_cache := c\<rparr>)
            (import_snapshot (ev_dns ev) (ev_cache ev) now unix (text_bytes tx) (eng_cache eng)))"

subsection \<open>The writers store what they acknowledge, in order\<close>

text \<open>The entries of the batches whose insert succeeded.\<close>

fun acknowledged :: "('e list \<Rightarrow> 'db \<Rightarrow> (string + unit) \<times> 'db) \<Rightarrow> 'e list list \<Rightarrow> 'db \<Rightarrow> 'e list" where
  "acknowledged ins [] db = []"
| "acknowledged ins (b # bs) db =
     (case ins b db of (Inr _, db) \<Rightarrow> b @ acknowledged ins bs db | (Inl _, db) \<Rightarrow> acknowledged ins bs db)"

lemma writer_run_batches:
  assumes "1 < cap"
  shows "\<exists>bs. concat bs = q \<and> list_all (\<lambda>b. b \<noteq> [] \<and> length b \<le> cap) bs
    \<and> writer_run cap ins (q, db) = foldl (\<lambda>db b. snd (ins b db)) db bs"
proof (induction "length q" arbitrary: q db rule: less_induct)
  case less
  show ?case
  proof (cases q)
    case Nil
    then show ?thesis by (intro exI [of _ "[]"]) (simp add: writer_run.simps writer_round_def)
  next
    case (Cons first q')
    obtain b r where d: "drain cap [first] q' = (b, r)" by fastforce
    note p = drain_parts [OF d]
    then have "length r < length q" using Cons by auto
    from less [OF this, of "snd (ins b db)"] obtain bs where bs: "concat bs = r"
      "list_all (\<lambda>b. b \<noteq> [] \<and> length b \<le> cap) bs"
      "writer_run cap ins (r, snd (ins b db)) = foldl (\<lambda>db b. snd (ins b db)) (snd (ins b db)) bs" by blast
    show ?thesis
    proof (intro exI [of _ "b # bs"] conjI)
      show "concat (b # bs) = q" using p Cons bs(1) by simp
      show "list_all (\<lambda>b. b \<noteq> [] \<and> length b \<le> cap) (b # bs)" using p bs(2) assms by auto
      show "writer_run cap ins (q, db) = foldl (\<lambda>db b. snd (ins b db)) db (b # bs)"
        using bs(3) d by (subst writer_run.simps) (simp add: Cons writer_round_def)
    qed
  qed
qed

text \<open>A transaction cannot be begun inside another; the attempt changes nothing.\<close>

definition begin_nested :: "'db sql_env \<Rightarrow> ('db \<Rightarrow> sql_table \<times> sql_table option) \<Rightarrow> bool" where
  "begin_nested sq view \<longleftrightarrow> (\<forall>db tbl old. view db = (tbl, Some old) \<longrightarrow>
     isl (fst (sq_exec sq db ''BEGIN IMMEDIATE'' [])) \<and> view (snd (sq_exec sq db ''BEGIN IMMEDIATE'' [])) = (tbl, Some old))"

text \<open>While a transaction is left open, every batch is refused: nothing is committed any more.\<close>

lemma open_refuses:
  assumes "begin_nested sq view" "view db = (tbl, Some old)" "es \<noteq> []"
  shows "\<exists>e. fst (insert_batch sq sql params es db) = Inl e" "view (snd (insert_batch sq sql params es db)) = (tbl, Some old)"
proof -
  obtain e where "fst (sq_exec sq db ''BEGIN IMMEDIATE'' []) = Inl e" "view (snd (sq_exec sq db ''BEGIN IMMEDIATE'' [])) = (tbl, Some old)"
    using assms(1,2) unfolding begin_nested_def by (metis sum.collapse(1))
  then show "\<exists>e. fst (insert_batch sq sql params es db) = Inl e" "view (snd (insert_batch sq sql params es db)) = (tbl, Some old)"
    using assms(3) by (simp_all add: insert_batch_def prod.case_eq_if)
qed

definition settled :: "('db \<Rightarrow> sql_table \<times> sql_table option) \<Rightarrow> 'db \<Rightarrow> sql_table \<Rightarrow> bool" where
  "settled view db tbl \<longleftrightarrow> (view db = (tbl, None) \<and> ids_ascend tbl) \<or> (\<exists>t. view db = (t, Some tbl))"

lemma settled_committed: "settled view db tbl \<Longrightarrow> committed (view db) = tbl"
  by (auto simp: settled_def)

lemma insert_batch_settled:
  assumes "txn_laws sq sql view" "begin_nested sq view" "settled view db tbl" "es \<noteq> []"
    and "insert_batch sq sql params es db = (r, db')"
  shows "\<exists>added. settled view db' (tbl @ added) \<and> map snd added = (if isl r then [] else map params es)"
proof (cases "snd (view db)")
  case None
  then have v: "view db = (tbl, None)" "ids_ascend tbl" using assms(3) by (auto simp: settled_def)
  note at = insert_batch_atomic [OF assms(1) v assms(5)]
  show ?thesis
  proof (cases r)
    case (Inl e)
    then have "committed (view db') = tbl" using at by simp
    then have "settled view db' tbl" using v(2) by (cases "view db'"; cases "snd (view db')") (auto simp: settled_def)
    then show ?thesis using Inl by (intro exI [of _ "[]"]) simp
  next
    case (Inr u)
    then show ?thesis using at by (auto simp: settled_def)
  qed
next
  case (Some old)
  then obtain t where v: "view db = (t, Some tbl)" using assms(3) by (auto simp: settled_def)
  note ref = open_refuses [OF assms(2) v assms(4), of sql params]
  then have "settled view db' tbl" "isl r" using assms(5) by (auto simp: settled_def)
  then show ?thesis by (intro exI [of _ "[]"]) simp
qed

text \<open>
  What a writer relies on from its store: a batch is stored whole, after what is committed, when it
  is acknowledged, and not at all otherwise. \<open>holds\<close> relates the database to the committed rows.
\<close>

locale batch_store =
  fixes ins :: "'e list \<Rightarrow> 'db \<Rightarrow> (string + unit) \<times> 'db"
    and holds :: "'db \<Rightarrow> (int \<times> 'r) list \<Rightarrow> bool"
    and row :: "'e \<Rightarrow> 'r"
  assumes batch: "holds db tbl \<Longrightarrow> es \<noteq> [] \<Longrightarrow> ins es db = (r, db') \<Longrightarrow>
    \<exists>added. holds db' (tbl @ added) \<and> map snd added = (if isl r then [] else map row es)"
begin

lemma batches:
  assumes "holds db tbl" "list_all (\<lambda>b. b \<noteq> []) bs"
  shows "\<exists>added. holds (foldl (\<lambda>db b. snd (ins b db)) db bs) (tbl @ added)
    \<and> map snd added = map row (acknowledged ins bs db)"
  using assms
proof (induction bs arbitrary: db tbl)
  case (Cons b bs)
  obtain r db' where i: "ins b db = (r, db')" by fastforce
  obtain a1 where a1: "holds db' (tbl @ a1)" "map snd a1 = (if isl r then [] else map row b)"
    using batch [OF Cons.prems(1) _ i] Cons.prems(2) by auto
  obtain a2 where a2: "holds (foldl (\<lambda>db b. snd (ins b db)) db' bs) ((tbl @ a1) @ a2)"
    "map snd a2 = map row (acknowledged ins bs db')"
    using Cons.IH [OF a1(1)] Cons.prems(2) by auto
  show ?case using i a1(2) a2 by (intro exI [of _ "a1 @ a2"]) (cases r; simp)
qed (intro exI [of _ "[]"], simp)

text \<open>
  The channel is cut into batches of at most \<open>cap\<close> entries, and what is committed grows by exactly
  the batches that were acknowledged, in the order of the channel.
\<close>

lemma writer_stores:
  assumes "holds db tbl" "1 < cap"
  shows "\<exists>bs added. concat bs = q \<and> list_all (\<lambda>b. b \<noteq> [] \<and> length b \<le> cap) bs
    \<and> holds (writer_run cap ins (q, db)) (tbl @ added) \<and> map snd added = map row (acknowledged ins bs db)"
proof -
  obtain bs where bs: "concat bs = q" "list_all (\<lambda>b. b \<noteq> [] \<and> length b \<le> cap) bs"
    "writer_run cap ins (q, db) = foldl (\<lambda>db b. snd (ins b db)) db bs"
    using writer_run_batches [OF assms(2), of q ins db] by (elim exE conjE)
  have "list_all (\<lambda>b. b \<noteq> []) bs" using bs(2) by (rule list.pred_mono_strong) simp
  from batches [OF assms(1) this] bs show ?thesis by auto
qed

end

text \<open>Both logs are such stores, over a database whose transactions are.\<close>

definition log_holds ::
  "'db sql_env \<Rightarrow> string \<Rightarrow> ('db \<Rightarrow> sql_table \<times> sql_table option) \<Rightarrow> 'db \<Rightarrow> sql_table \<Rightarrow> bool" where
  "log_holds sq sql view db tbl \<longleftrightarrow> txn_laws sq sql view \<and> begin_nested sq view \<and> settled view db tbl"

lemma log_holds_batch:
  assumes "log_holds sq sql view db tbl" "es \<noteq> []" "insert_batch sq sql params es db = (r, db')"
  shows "\<exists>added. log_holds sq sql view db' (tbl @ added) \<and> map snd added = (if isl r then [] else map params es)"
  using assms insert_batch_settled [of sq sql view db tbl es params r db'] by (auto simp: log_holds_def)

interpretation querylog: batch_store "log_insert_batch sq js" "log_holds sq LOG_INSERT_SQL view" "log_insert_params js"
  by unfold_locales (rule log_holds_batch, simp_all add: log_insert_batch_def)

interpretation probelog: batch_store "probe_insert_batch sq" "log_holds sq PROBE_INSERT_SQL view" probe_insert_params
  by unfold_locales (rule log_holds_batch, simp_all add: probe_insert_batch_def)

text \<open>The probe writer keeps the order of its channel as the query log does.\<close>

lemma probe_writer_stores:
  assumes "txn_laws sq PROBE_INSERT_SQL view" "begin_nested sq view" "settled view db tbl"
  shows "\<exists>bs added. concat bs = q \<and> list_all (\<lambda>b. b \<noteq> [] \<and> length b \<le> PROBE_DRAIN_BATCH) bs
    \<and> committed (view (writer_run PROBE_DRAIN_BATCH (probe_insert_batch sq) (q, db))) = tbl @ added
    \<and> map snd added = map probe_insert_params (acknowledged (probe_insert_batch sq) bs db)"
  using probelog.writer_stores [of sq view db tbl PROBE_DRAIN_BATCH q] assms settled_committed
  by (fastforce simp: log_holds_def PROBE_DRAIN_BATCH_def)

subsection \<open>Snapshots replace a file as a whole\<close>

lemma replace_file_outcome:
  assumes "CHR ''.'' \<in> set ext"
  shows "fails \<noteq> None \<Longrightarrow> replace_file fails ext p tx fs p = fs p"
    "\<exists>m. replace_file None ext p tx fs p = Some (tx, m)"
proof -
  have neq: "with_extension p ext \<noteq> p" by (rule ext_differs [OF assms])
  show "fails \<noteq> None \<Longrightarrow> replace_file fails ext p tx fs p = fs p"
    using neq by (auto simp: replace_file_def Let_def split: option.splits replace_failure.splits)
  show "\<exists>m. replace_file None ext p tx fs p = Some (tx, m)" using neq by (simp add: replace_file_def Let_def)
qed

lemma text_bytes_back: "text_bytes (bytes_text bs) = bs"
proof -
  have "word_of_nat (of_char (char_of (unat b) :: char)) = b" for b :: u8
  proof -
    have "unat b < 2 ^ LENGTH(8)" by (rule unsigned_less)
    then show ?thesis by (simp add: of_char_of)
  qed
  then show ?thesis by (simp add: text_bytes_def bytes_text_def comp_def)
qed

text \<open>
  A restart warms the cache with the entries of the last snapshot that are still alive, as old
  as they would have become.
\<close>

lemma restart_restores:
  assumes "fs' = snapshot_cache_to ev None now unix eng p fs" "c_enabled (eng_cache eng)"
    and "list_all (entry_fits (ev_dns ev)) (snapshot_entries (ev_cache ev) now (eng_cache eng))" "cache_wf (eng_cache eng0)"
    and "uint unix' - uint unix < 9223372036854775808" "0 \<le> now'"
    and "int (length (snapshot_entries (ev_cache ev) now (eng_cache eng))) < 4294967296"
  shows "load_cache ev now' unix' p fs' eng0 =
    (let el = max 0 (uint unix' - uint unix);
         es = filter (still_live now el (stale_max_age (eng_cache eng0))) (snapshot_entries (ev_cache ev) now (eng_cache eng))
     in Some (eng0\<lparr>eng_cache := foldl (restore_entry (ev_cache ev) now now' el) (eng_cache eng0) es\<rparr>))"
proof -
  obtain m where "fs' p = Some (bytes_text (export_snapshot (ev_cache ev) now unix (eng_cache eng)), m)"
    using replace_file_outcome(2) [of "''snap.tmp''" p] assms(1,2) by (auto simp: snapshot_cache_to_def)
  then show ?thesis
    using import_export [OF assms(3-7)] by (simp add: load_cache_def text_bytes_back Let_def)
qed

text \<open>The counters of the cache come back with the statistics.\<close>

lemma stats_restored:
  assumes "fs' = snapshot_stats_now ev None eng p fs"
    and "inner_to_json (ev_stats ev) ((merged (ev_stats ev) (eng_stats eng))\<lparr>s_cache := counters (eng_cache eng)\<rparr>) = Some j"
    and "inner_from_json (ev_stats ev) j = Some ((merged (ev_stats ev) (eng_stats eng))\<lparr>s_cache := counters (eng_cache eng)\<rparr>)"
    and "st_shards (eng_stats eng0) \<noteq> []"
  shows "hd (st_shards (eng_stats (load_stats ev p fs' eng0))) = (merged (ev_stats ev) (eng_stats eng))\<lparr>s_cache := counters (eng_cache eng)\<rparr>"
    "list_all (\<lambda>s. s = default_inner) (tl (st_shards (eng_stats (load_stats ev p fs' eng0))))"
    "counters (eng_cache (load_stats ev p fs' eng0)) = counters (eng_cache eng)"
proof -
  obtain m where f: "fs' p = Some (j, m)"
    using replace_file_outcome(2) [of "''json.tmp''" p j fs] assms(1,2) by (auto simp: snapshot_stats_now_def stats_export_def)
  have "[0..<length (st_shards (eng_stats eng0))] = 0 # [1..<length (st_shards (eng_stats eng0))]"
    using assms(4) by (simp add: upt_conv_Cons)
  note ld = this f assms(3)
  show "hd (st_shards (eng_stats (load_stats ev p fs' eng0))) = (merged (ev_stats ev) (eng_stats eng))\<lparr>s_cache := counters (eng_cache eng)\<rparr>"
    "list_all (\<lambda>s. s = default_inner) (tl (st_shards (eng_stats (load_stats ev p fs' eng0))))"
    "counters (eng_cache (load_stats ev p fs' eng0)) = counters (eng_cache eng)"
    using ld by (simp_all add: load_stats_def stats_import_def seed_counters_def list_all_iff)
qed

subsection \<open>Pruning spares what is recent\<close>

text \<open>A retention of zero days keeps everything; otherwise the entries of the last days stay.\<close>

definition deletes_older :: "'db sql_env \<Rightarrow> string \<Rightarrow> nat \<Rightarrow> ('db \<Rightarrow> sql_table \<times> sql_table option) \<Rightarrow> bool" where
  "deletes_older sq sql col view \<longleftrightarrow> (\<forall>db tbl c. view db = (tbl, None) \<longrightarrow>
     view (snd (sq_exec sq db sql [SInteger c])) =
       (case fst (sq_exec sq db sql [SInteger c]) of
          Inl _ \<Rightarrow> tbl
        | Inr _ \<Rightarrow> filter (\<lambda>(_, r). case nth_opt r col of Some (SInteger t) \<Rightarrow> c \<le> t | _ \<Rightarrow> True) tbl, None))"

lemma prune_spares:
  assumes "deletes_older sq ''DELETE FROM queries WHERE time_ms < ?1'' 0 view" "view db = (log_rows js qlog, None)"
    and "(i, e) \<in> set qlog" "now_ms - uint (ql_retention_days (cfg_query_log cfg)) * 86400000 \<le> e_time_ms e"
  shows "(i, log_insert_params js e) \<in> set (fst (view (querylog_prune sq cfg now_ms db)))"
proof -
  have mem: "(i, log_insert_params js e) \<in> set (log_rows js qlog)" using assms(3) by (force simp: log_rows_def)
  have "nth_opt (log_insert_params js e) 0 = Some (SInteger (e_time_ms e))" by (simp add: log_insert_params_def nth_opt_def Let_def case_prod_beta)
  then show ?thesis
    using assms(1,2,4) mem
    by (auto simp: querylog_prune_def prune_cutoff_def log_delete_older_than_def deletes_older_def split: sum.split)
qed

end
