(* ===== verification/Startup.thy ===== *)
theory Startup
  imports Persist
begin

text \<open>
  The start and the end of the server, \<open>server/src/main.rs\<close>, with the overrides of \<open>app.rs\<close>: the
  configuration is loaded, overridden, given a signing secret and saved when it is new; the engine is
  built and warmed with the snapshots; at the end the snapshots are written.
\<close>

subsection \<open>Model\<close>

text \<open>An override is the value of its environment variable, when that parses as an address.\<close>

definition apply_env_overrides :: "socket_addr option \<Rightarrow> socket_addr option \<Rightarrow> config \<Rightarrow> config" where
  "apply_env_overrides dns http cfg =
     (let cfg = (case dns of Some a \<Rightarrow> cfg\<lparr>cfg_server := (cfg_server cfg)\<lparr>dns_bind := [a]\<rparr>\<rparr> | None \<Rightarrow> cfg)
      in (case http of Some a \<Rightarrow> cfg\<lparr>cfg_server := (cfg_server cfg)\<lparr>http_bind := a\<rparr>\<rparr> | None \<Rightarrow> cfg))"

record ('c, 'ch) start_env =
  sx_app :: "('c, 'ch) app_env"
  sx_auth :: auth_env
  sx_parse :: "string \<Rightarrow> string + config"
  sx_dns_bind :: "socket_addr option"
  sx_http_bind :: "socket_addr option"
  sx_secret :: "u8 list"
  sx_now :: int
  sx_unix :: u64

datatype start_error = LoadingConfig config_error | WritingConfig config_error | StartEngine app_error

definition read_config :: "('c, 'ch) start_env \<Rightarrow> fs \<Rightarrow> file_read" where
  "read_config sx fs = (case fs (pt_config (ap_paths (sx_app sx))) of None \<Rightarrow> Absent | Some (tx, _) \<Rightarrow> Content tx)"

text \<open>The configuration that is run, and whether it has to be saved.\<close>

definition prepare_config :: "('c, 'ch) start_env \<Rightarrow> fs \<Rightarrow> config \<Rightarrow> config \<times> bool" where
  "prepare_config sx fs loaded =
     (let cfg = apply_env_overrides (sx_dns_bind sx) (sx_http_bind sx) loaded;
          needs_save = (fs (pt_config (ap_paths (sx_app sx))) = None)
      in case session_secret (cfg_auth cfg) of
           None \<Rightarrow> (cfg\<lparr>cfg_auth := (cfg_auth cfg)\<lparr>session_secret := Some (generate_secret (sx_auth sx) (sx_secret sx))\<rparr>\<rparr>, True)
         | Some _ \<Rightarrow> (cfg, needs_save))"

definition warm_engine :: "('c, 'ch) start_env \<Rightarrow> config \<Rightarrow> fs \<Rightarrow> ('c, 'ch) engine \<Rightarrow> ('c, 'ch) engine option" where
  "warm_engine sx cfg fs eng =
     (let ev = ap_engine (sx_app sx); pt = ap_paths (sx_app sx);
          eng = (if sc_persist (cfg_stats cfg) then load_stats ev (pt_stats pt) fs eng else eng)
      in load_cache ev (sx_now sx) (sx_unix sx) (pt_cache_snapshot pt) fs eng)"

text \<open>\<open>sinks\<close> are the channels that the writers of the two logs read.\<close>

definition start_server ::
  "('c, 'ch) start_env \<Rightarrow> 'ch \<times> 'pch \<Rightarrow> fs \<Rightarrow> (start_error + ('c, 'ch, 'pch) app_state) option" where
  "start_server sx sinks fs =
     (let ap = sx_app sx in
      case load_or_default (sx_parse sx) (read_config sx fs) of
        Inl e \<Rightarrow> Some (Inl (LoadingConfig e))
      | Inr loaded \<Rightarrow>
          let (cfg, needs_save) = prepare_config sx fs loaded;
              (fs, err) = (if needs_save then save_config ap cfg fs else (fs, None))
          in (case err of
                Some e \<Rightarrow> Some (Inl (WritingConfig e))
              | None \<Rightarrow>
                  let sessions = new_signer (sx_auth sx) (the (session_secret (cfg_auth cfg))) SESSION_TTL_SECS in
                  (case build_engine ap cfg fs of
                     None \<Rightarrow> None
                   | Some (Inl e) \<Rightarrow> Some (Inl (StartEngine e))
                   | Some (Inr eng) \<Rightarrow>
                       (case warm_engine sx cfg fs eng of
                          None \<Rightarrow> None
                        | Some eng \<Rightarrow>
                            Some (Inr \<lparr>app_engine = eng\<lparr>eng_log := set_sink (fst sinks) (eng_log eng)\<rparr>, app_config = cfg,
                                      app_fs = fs,
                                      app_probe_log = probe_set_sink (snd sinks) (new_probe_log (ul_enabled (cfg_upstream_log cfg))),
                                      app_sessions = sessions\<rparr>)))))"

text \<open>What the graceful shutdown writes.\<close>

definition shutdown_server ::
  "('c, 'ch) app_env \<Rightarrow> replace_failure option \<Rightarrow> replace_failure option \<Rightarrow> int \<Rightarrow> u64 \<Rightarrow> ('c, 'ch, 'pch) app_state \<Rightarrow> fs" where
  "shutdown_server ap stats_fails cache_fails now unix s =
     (let ev = ap_engine ap; pt = ap_paths ap;
          fs = (if sc_persist (cfg_stats (app_config s)) then snapshot_stats_now ev stats_fails (app_engine s) (pt_stats pt) (app_fs s)
                else app_fs s)
      in snapshot_cache_to ev cache_fails now unix (app_engine s) (pt_cache_snapshot pt) fs)"

subsection \<open>Properties\<close>

lemma overrides_valid: "validate cfg = Inr () \<Longrightarrow> validate (apply_env_overrides dns http cfg) = Inr ()"
  by (auto simp: apply_env_overrides_def validate_def Let_def split: option.splits if_splits)

lemma prepare_config_parts:
  assumes "prepare_config sx fs loaded = (cfg, needs)" "validate loaded = Inr ()"
  shows "validate cfg = Inr ()" "session_secret (cfg_auth cfg) \<noteq> None"
    "cfg_server cfg = cfg_server (apply_env_overrides (sx_dns_bind sx) (sx_http_bind sx) loaded)"
proof -
  have v: "validate (apply_env_overrides (sx_dns_bind sx) (sx_http_bind sx) loaded) = Inr ()" by (rule overrides_valid [OF assms(2)])
  then have "validate ((apply_env_overrides (sx_dns_bind sx) (sx_http_bind sx) loaded)\<lparr>cfg_auth := a\<rparr>) = Inr ()" for a
    by (simp add: validate_def split: if_splits)
  then show "validate cfg = Inr ()" using assms(1) v by (auto simp: prepare_config_def Let_def split: option.splits)
  show "session_secret (cfg_auth cfg) \<noteq> None" "cfg_server cfg = cfg_server (apply_env_overrides (sx_dns_bind sx) (sx_http_bind sx) loaded)"
    using assms(1) by (auto simp: prepare_config_def Let_def split: option.splits)
qed

lemma load_stats_runs: "runs_config ap cfg (load_stats ev p fs eng) = runs_config ap cfg eng"
  by (simp add: load_stats_def stats_import_def runs_config_def seed_counters_def Let_def split: option.split prod.split)

lemma import_loop_settings:
  "import_loop dx cx now el n r k c = Some (c', m) \<Longrightarrow>
     c_enabled c' = c_enabled c \<and> max_ttl c' = max_ttl c \<and> min_ttl c' = min_ttl c"
proof (induction n arbitrary: r k c)
  case (Suc n)
  from Suc.prems show ?case
    by (auto simp: Let_def split: option.splits if_splits dest!: Suc.IH)
qed auto

lemma load_cache_runs:
  assumes "load_cache ev now unix p fs eng = Some eng'"
  shows "runs_config ap cfg eng' = runs_config ap cfg eng"
proof -
  have "c_enabled c' = c_enabled c \<and> max_ttl c' = max_ttl c \<and> min_ttl c' = min_ttl c"
    if "import_snapshot dx cx now unix data c = Some (c', m)" for dx cx data m and c c' :: "'a dns_cache"
    using that by (auto simp: import_snapshot_def Let_def split: option.splits if_splits dest!: import_loop_settings)
  then have "eng_state eng' = eng_state eng \<and> eng_log eng' = eng_log eng \<and> eng_stats eng' = eng_stats eng
      \<and> c_enabled (eng_cache eng') = c_enabled (eng_cache eng) \<and> max_ttl (eng_cache eng') = max_ttl (eng_cache eng)
      \<and> min_ttl (eng_cache eng') = min_ttl (eng_cache eng)"
    using assms by (auto simp: load_cache_def split: option.splits)
  then show ?thesis by (simp add: runs_config_def)
qed

lemma build_engine_runs:
  assumes "build_engine ap cfg fs = Some (Inr eng)"
  shows "runs_config ap cfg eng"
proof -
  obtain st where st: "build_engine_state ap cfg fs None = Some (Inr st)" using assms by (auto simp: build_engine_def split: option.splits sum.splits)
  let ?cx = "ev_cache (ap_engine ap)"
  have "eng_state eng = st" "\<exists>c. eng_cache eng = tune_cache ?cx cfg c" "ql_enabled_flag (eng_log eng) = ql_enabled (cfg_query_log cfg)"
    "ql_anonymize (eng_log eng) = cfg_anonymize_client_ips cfg" "st_enabled (eng_stats eng) = sc_enabled (cfg_stats cfg)"
    "st_anonymize (eng_stats eng) = cfg_anonymize_client_ips cfg"
    using assms st by (auto simp: build_engine_def Let_def new_query_log_def new_stats_def)
  then show ?thesis using runs_config_built [OF st] by blast
qed

text \<open>
  A server that starts runs its configuration, which is valid and has a signing secret, with the
  invariant of the application in place.
\<close>

lemma start_server_inv:
  assumes "start_server sx sinks fs = Some (Inr s)"
  shows "app_inv (sx_app sx) (app_config s, app_fs s (pt_config (ap_paths (sx_app sx)))) s"
    "session_secret (cfg_auth (app_config s)) \<noteq> None"
    "app_sessions s = new_signer (sx_auth sx) (the (session_secret (cfg_auth (app_config s)))) SESSION_TTL_SECS"
proof -
  obtain loaded cfg needs fs' eng0 eng where h: "load_or_default (sx_parse sx) (read_config sx fs) = Inr loaded"
    "prepare_config sx fs loaded = (cfg, needs)" "build_engine (sx_app sx) cfg fs' = Some (Inr eng0)"
    "warm_engine sx cfg fs' eng0 = Some eng" "app_config s = cfg" "app_fs s = fs'"
    "app_engine s = eng\<lparr>eng_log := set_sink (fst sinks) (eng_log eng)\<rparr>"
    "app_sessions s = new_signer (sx_auth sx) (the (session_secret (cfg_auth cfg))) SESSION_TTL_SECS"
    using assms unfolding start_server_def by (auto simp: Let_def split: sum.splits option.splits prod.splits)
  note v = prepare_config_parts [OF h(2) load_or_default_valid(1) [OF h(1)]]
  have "runs_config (sx_app sx) cfg eng"
    using build_engine_runs [OF h(3)] h(4) unfolding warm_engine_def Let_def
    by (auto dest!: load_cache_runs simp: load_stats_runs split: if_splits)
  then have "runs_config (sx_app sx) cfg (app_engine s)" unfolding h(7) by (simp add: runs_config_def set_sink_def)
  then show "app_inv (sx_app sx) (app_config s, app_fs s (pt_config (ap_paths (sx_app sx)))) s"
    using v(1) h(5,6) by (simp add: app_inv_def)
  show "session_secret (cfg_auth (app_config s)) \<noteq> None"
    "app_sessions s = new_signer (sx_auth sx) (the (session_secret (cfg_auth (app_config s)))) SESSION_TTL_SECS"
    using v(2) h(5,8) by simp_all
qed

text \<open>An address from the environment is written to a new configuration file, and stays there.\<close>

lemma override_saved:
  assumes "start_server sx sinks fs = Some (Inr s)" "fs (pt_config (ap_paths (sx_app sx))) = None" "sx_dns_bind sx = Some a"
  shows "dns_bind (cfg_server (app_config s)) = [a]"
    "\<exists>tx. ap_yaml (sx_app sx) (app_config s) = Inr tx \<and> app_fs s (pt_config (ap_paths (sx_app sx))) = Some (tx, 384)"
proof -
  obtain loaded cfg needs fs' where h: "load_or_default (sx_parse sx) (read_config sx fs) = Inr loaded"
    "prepare_config sx fs loaded = (cfg, needs)" "(if needs then save_config (sx_app sx) cfg fs else (fs, None)) = (fs', None)"
    "app_config s = cfg" "app_fs s = fs'"
    using assms(1) unfolding start_server_def by (auto simp: Let_def split: sum.splits option.splits prod.splits)
  have "needs" using h(2) assms(2) by (auto simp: prepare_config_def Let_def split: option.splits)
  then show "\<exists>tx. ap_yaml (sx_app sx) (app_config s) = Inr tx \<and> app_fs s (pt_config (ap_paths (sx_app sx))) = Some (tx, 384)"
    using h(3-5) save_config_outcome(2) by fastforce
  show "dns_bind (cfg_server (app_config s)) = [a]"
    using prepare_config_parts(3) [OF h(2) load_or_default_valid(1) [OF h(1)]] assms(3) h(4)
    by (simp add: apply_env_overrides_def Let_def split: option.split)
qed

end
