(* ===== verification/Pipelined_Conn.thy ===== *)
theory Pipelined_Conn
  imports Dns_Message Upstream_Spec Transition_System
begin

text \<open>
  Connections that carry many queries at once: \<open>UdpConn\<close> of \<open>crates/bulwark-upstream/src/plain.rs\<close>
  and \<open>Conn\<close> of \<open>dot.rs\<close>, with the pending map of \<open>transport.rs\<close>. Each exchange draws a
  connection-local id, registers the sender of a oneshot channel under it, sends its query and
  waits; one reader task hands each response to the sender registered under the response's id.
  The two connections differ in the texts of their errors and in what an idle reader does.

  A step of the relation is what one task does between two points where another may run. A
  oneshot channel is the state of its receiver: open, holding a message, or closed because its
  sender was dropped.
\<close>

subsection \<open>Model\<close>

datatype conn_kind = UdpConn | DotConn

fun closed_text :: "conn_kind \<Rightarrow> string" where
  "closed_text UdpConn = ''UDP socket closed''"
| "closed_text DotConn = ''DoT connection closed''"

fun mismatch_text :: "conn_kind \<Rightarrow> string" where
  "mismatch_text UdpConn = ''UDP response does not match query''"
| "mismatch_text DotConn = ''DoT response does not match query''"

datatype oneshot = Open | Holds message | Closed

text \<open>
  An exchange: with its id and encoded buffer, registered and writing, waiting for its channel,
  and done. An exchange that panicked is done without a result.
\<close>

datatype exchange =
    Drawn message u16 "u8 list"
  | Sending message u16 "u8 list"
  | Awaiting message u16
  | Done message u16 "(upstream_error + message) option"

record conn =
  cn_map :: "u16 \<Rightarrow> nat option"
  cn_dead :: bool
  cn_next_id :: u16
  cn_rx :: "nat \<Rightarrow> oneshot"
  cn_calls :: "nat \<Rightarrow> exchange option"
  cn_sent :: "u8 list list"
  cn_received :: "message list"

definition new_conn :: conn where
  "new_conn =
     \<lparr>cn_map = Map.empty, cn_dead = False, cn_next_id = 0, cn_rx = (\<lambda>_. Open), cn_calls = Map.empty,
      cn_sent = [], cn_received = []\<rparr>"

text \<open>The codec with its error texts.\<close>

record conn_env =
  cx_dns :: dns_ext
  cx_encode :: "message \<Rightarrow> string + u8 list"
  cx_decode :: "u8 list \<Rightarrow> string + message"

definition encode :: "conn_env \<Rightarrow> message \<Rightarrow> upstream_error + u8 list" where
  "encode cx msg = map_sum Proto (\<lambda>b. b) (cx_encode cx msg)"

definition decode :: "conn_env \<Rightarrow> u8 list \<Rightarrow> upstream_error + message" where
  "decode cx bytes = map_sum Proto (\<lambda>m. m) (cx_decode cx bytes)"

text \<open>\<open>buf[..2].copy_from_slice\<close>: a panic on a shorter buffer.\<close>

definition set_wire_id :: "u16 \<Rightarrow> u8 list \<Rightarrow> u8 list option" where
  "set_wire_id ident buf = (if length buf < 2 then None else Some (to_be16 ident @ drop 2 buf))"

definition set_call :: "nat \<Rightarrow> exchange option \<Rightarrow> conn \<Rightarrow> conn" where
  "set_call c x s = s\<lparr>cn_calls := (cn_calls s)(c := x)\<rparr>"

text \<open>Removing a key drops the sender under it.\<close>

definition remove_sender :: "u16 \<Rightarrow> conn \<Rightarrow> conn" where
  "remove_sender ident s =
     (case cn_map s ident of
        None \<Rightarrow> s
      | Some c \<Rightarrow> s\<lparr>cn_map := (cn_map s)(ident := None), cn_rx := (cn_rx s)(c := Closed)\<rparr>)"

definition draw_id :: "conn_env \<Rightarrow> nat \<Rightarrow> message \<Rightarrow> conn \<Rightarrow> conn" where
  "draw_id cx c query s =
     (let ident = cn_next_id s;
          s = s\<lparr>cn_next_id := cn_next_id s + 1, cn_rx := (cn_rx s)(c := Open)\<rparr>
      in case encode cx query of
           Inl e \<Rightarrow> set_call c (Some (Done query ident (Some (Inl e)))) s
         | Inr buf \<Rightarrow>
             (case set_wire_id ident buf of
                None \<Rightarrow> set_call c (Some (Done query ident None)) s
              | Some buf \<Rightarrow> set_call c (Some (Drawn query ident buf)) s))"

definition register :: "conn_kind \<Rightarrow> nat \<Rightarrow> message \<Rightarrow> u16 \<Rightarrow> u8 list \<Rightarrow> conn \<Rightarrow> conn" where
  "register kind c query ident buf s =
     (if cn_dead s then set_call c (Some (Done query ident (Some (Inl (Io (closed_text kind)))))) s
      else
        let s = remove_sender ident s
        in set_call c (Some (Sending query ident buf)) (s\<lparr>cn_map := (cn_map s)(ident \<mapsto> c)\<rparr>))"

text \<open>The result of an exchange, and the drop of its guard.\<close>

definition finish :: "nat \<Rightarrow> message \<Rightarrow> u16 \<Rightarrow> upstream_error + message \<Rightarrow> conn \<Rightarrow> conn" where
  "finish c query ident r s = remove_sender ident (set_call c (Some (Done query ident (Some r))) s)"

definition send_done :: "nat \<Rightarrow> message \<Rightarrow> u16 \<Rightarrow> u8 list \<Rightarrow> conn \<Rightarrow> conn" where
  "send_done c query ident buf s = set_call c (Some (Awaiting query ident)) (s\<lparr>cn_sent := cn_sent s @ [buf]\<rparr>)"

definition exchange_result :: "conn_env \<Rightarrow> conn_kind \<Rightarrow> message \<Rightarrow> message \<Rightarrow> upstream_error + message" where
  "exchange_result cx kind query msg =
     (let resp = msg\<lparr>m_id := m_id query\<rparr> in
      if \<not> matches_query (cx_dns cx) query resp then Inl (Proto (mismatch_text kind)) else Inr resp)"

definition receive_done :: "conn_env \<Rightarrow> conn_kind \<Rightarrow> nat \<Rightarrow> message \<Rightarrow> u16 \<Rightarrow> conn \<Rightarrow> conn" where
  "receive_done cx kind c query ident s =
     (case cn_rx s c of
        Open \<Rightarrow> s
      | Closed \<Rightarrow> finish c query ident (Inl (Io (closed_text kind))) s
      | Holds msg \<Rightarrow> finish c query ident (exchange_result cx kind query msg) s)"

text \<open>A cancelled exchange is dropped with its guard, if it has one yet.\<close>

definition cancel :: "nat \<Rightarrow> conn \<Rightarrow> conn" where
  "cancel c s =
     (case cn_calls s c of
        Some (Sending _ ident _) \<Rightarrow> remove_sender ident (set_call c None s)
      | Some (Awaiting _ ident) \<Rightarrow> remove_sender ident (set_call c None s)
      | _ \<Rightarrow> set_call c None s)"

text \<open>The reader: a decoded message, and the end of the loop.\<close>

definition deliver :: "message \<Rightarrow> conn \<Rightarrow> conn" where
  "deliver msg s =
     (let s = s\<lparr>cn_received := cn_received s @ [msg]\<rparr>
      in case cn_map s (m_id msg) of
           None \<Rightarrow> s
         | Some c \<Rightarrow> s\<lparr>cn_map := (cn_map s)(m_id msg := None), cn_rx := (cn_rx s)(c := Holds msg)\<rparr>)"

definition udp_recv :: "conn_env \<Rightarrow> u8 list \<Rightarrow> conn \<Rightarrow> conn" where
  "udp_recv cx bytes s = (case decode cx (take (unat MAX_UDP_PAYLOAD) bytes) of Inr msg \<Rightarrow> deliver msg s | Inl _ \<Rightarrow> s)"

definition close_reader :: "conn \<Rightarrow> conn" where
  "close_reader s =
     s\<lparr>cn_dead := True, cn_map := Map.empty,
       cn_rx := (\<lambda>c. if c \<in> ran (cn_map s) then Closed else cn_rx s c)\<rparr>"

text \<open>An idle UDP reader stops only without waiters; an idle DoT reader always.\<close>

fun idle_stops :: "conn_kind \<Rightarrow> conn \<Rightarrow> bool" where
  "idle_stops UdpConn s \<longleftrightarrow> cn_map s = Map.empty"
| "idle_stops DotConn s \<longleftrightarrow> True"

definition reader_idle :: "conn_kind \<Rightarrow> conn \<Rightarrow> conn" where
  "reader_idle kind s = (if idle_stops kind s then close_reader s else s)"

inductive conn_step :: "conn_env \<Rightarrow> conn_kind \<Rightarrow> conn \<Rightarrow> conn \<Rightarrow> bool" for cx kind where
  draw: "cn_calls s c = None \<Longrightarrow> conn_step cx kind s (draw_id cx c query s)"
| registered: "cn_calls s c = Some (Drawn query ident buf) \<Longrightarrow> conn_step cx kind s (register kind c query ident buf s)"
| sent: "cn_calls s c = Some (Sending query ident buf) \<Longrightarrow> conn_step cx kind s (send_done c query ident buf s)"
| send_failed: "cn_calls s c = Some (Sending query ident buf) \<Longrightarrow> conn_step cx kind s (finish c query ident (Inl e) s)"
| received: "cn_calls s c = Some (Awaiting query ident) \<Longrightarrow> cn_rx s c \<noteq> Open
    \<Longrightarrow> conn_step cx kind s (receive_done cx kind c query ident s)"
| cancelled: "conn_step cx kind s (cancel c s)"
| datagram: "kind = UdpConn \<Longrightarrow> \<not> cn_dead s \<Longrightarrow> conn_step cx kind s (udp_recv cx bytes s)"
| frame: "kind = DotConn \<Longrightarrow> \<not> cn_dead s \<Longrightarrow> conn_step cx kind s (deliver msg s)"
| idle: "\<not> cn_dead s \<Longrightarrow> conn_step cx kind s (reader_idle kind s)"
| failed: "\<not> cn_dead s \<Longrightarrow> conn_step cx kind s (close_reader s)"

inductive_cases conn_stepE: "conn_step cx kind s t"

subsection \<open>Invariant\<close>

text \<open>The id under which an exchange holds a guard.\<close>

fun guard_id :: "exchange \<Rightarrow> u16 option" where
  "guard_id (Sending _ ident _) = Some ident"
| "guard_id (Awaiting _ ident) = Some ident"
| "guard_id _ = None"

definition waits :: "conn \<Rightarrow> nat \<Rightarrow> u16 \<Rightarrow> bool" where
  "waits s c ident \<longleftrightarrow> (case cn_calls s c of Some x \<Rightarrow> guard_id x = Some ident | None \<Rightarrow> False)"

text \<open>
  The map holds exactly the senders of the exchanges whose channel is still open, and none once
  the connection is dead.
\<close>

definition map_inv :: "conn \<Rightarrow> bool" where
  "map_inv s \<longleftrightarrow> (\<forall>c ident. cn_map s ident = Some c \<longleftrightarrow> waits s c ident \<and> cn_rx s c = Open)
     \<and> (cn_dead s \<longrightarrow> cn_map s = Map.empty)"

text \<open>What a channel holds came in under the id of its exchange; an answer is such a message.\<close>

fun call_ok :: "conn_env \<Rightarrow> conn_kind \<Rightarrow> message list \<Rightarrow> oneshot \<Rightarrow> exchange \<Rightarrow> bool" where
  "call_ok cx kind ms (Holds m) (Sending _ ident _) \<longleftrightarrow> m \<in> set ms \<and> m_id m = ident"
| "call_ok cx kind ms (Holds m) (Awaiting _ ident) \<longleftrightarrow> m \<in> set ms \<and> m_id m = ident"
| "call_ok cx kind ms r (Done q ident (Some (Inr resp))) \<longleftrightarrow>
     (\<exists>m. m \<in> set ms \<and> m_id m = ident \<and> resp = m\<lparr>m_id := m_id q\<rparr> \<and> matches_query (cx_dns cx) q resp)"
| "call_ok cx kind ms r (Drawn _ _ _) \<longleftrightarrow> r = Open"
| "call_ok cx kind ms r x \<longleftrightarrow> True"

lemma call_ok_done [simp]:
  "call_ok cx kind ms r (Done q ident (Some (Inl e)))" "call_ok cx kind ms r (Done q ident None)"
  by (cases r; simp)+

definition calls_ok :: "conn_env \<Rightarrow> conn_kind \<Rightarrow> conn \<Rightarrow> bool" where
  "calls_ok cx kind s \<longleftrightarrow> (\<forall>c x. cn_calls s c = Some x \<longrightarrow> call_ok cx kind (cn_received s) (cn_rx s c) x)"

definition conn_inv :: "conn_env \<Rightarrow> conn_kind \<Rightarrow> conn \<Rightarrow> bool" where
  "conn_inv cx kind s \<longleftrightarrow> map_inv s \<and> calls_ok cx kind s"

fun unguarded :: "exchange option \<Rightarrow> bool" where
  "unguarded None \<longleftrightarrow> True"
| "unguarded (Some x) \<longleftrightarrow> guard_id x = None"

lemma unguarded_guard: "unguarded x \<Longrightarrow> x \<noteq> None \<Longrightarrow> guard_id (the x) \<noteq> Some i"
  by (cases x) simp_all

lemma waits_set_call:
  "waits (set_call c x s) c' ident = (if c' = c then x \<noteq> None \<and> guard_id (the x) = Some ident else waits s c' ident)"
  by (auto simp: waits_def set_call_def split: option.split)

lemma set_call_fields [simp]:
  "cn_map (set_call c x s) = cn_map s" "cn_dead (set_call c x s) = cn_dead s" "cn_rx (set_call c x s) = cn_rx s"
  "cn_received (set_call c x s) = cn_received s" "cn_calls (set_call c x s) = (cn_calls s)(c := x)"
  "cn_next_id (set_call c x s) = cn_next_id s"
  by (simp_all add: set_call_def)

lemma remove_sender_fields [simp]:
  "cn_dead (remove_sender ident s) = cn_dead s" "cn_received (remove_sender ident s) = cn_received s"
  "cn_calls (remove_sender ident s) = cn_calls s" "cn_map (remove_sender ident s) = (cn_map s)(ident := None)"
  "waits (remove_sender ident s) = waits s" "cn_next_id (remove_sender ident s) = cn_next_id s"
  by (auto simp: remove_sender_def waits_def fun_eq_iff split: option.split)

lemma remove_sender_rx:
  "cn_rx (remove_sender ident s) c = (if cn_map s ident = Some c then Closed else cn_rx s c)"
  by (simp add: remove_sender_def split: option.split)

lemma waits_unique: "waits s c i \<Longrightarrow> waits s c j \<Longrightarrow> i = j"
  by (simp add: waits_def split: option.splits)

lemma map_inv_idle:
  assumes "map_inv s" "\<And>i. \<not> waits s c i" "unguarded x"
  shows "map_inv (set_call c x s)"
  using assms unguarded_guard [OF assms(3)] unfolding map_inv_def by (auto simp: waits_set_call)

text \<open>An exchange that ends, with the drop of its guard.\<close>

lemma map_inv_release:
  assumes "map_inv s" "waits s c ident" "unguarded x"
  shows "map_inv (remove_sender ident (set_call c x s))"
proof -
  have m: "cn_map s i = Some d \<longleftrightarrow> waits s d i \<and> cn_rx s d = Open" for i d
    using assms(1) by (simp add: map_inv_def)
  have "((cn_map s)(ident := None)) i = Some d \<longleftrightarrow>
      waits (set_call c x s) d i \<and> cn_rx (remove_sender ident (set_call c x s)) d = Open" for d i
  proof (cases "d = c")
    case True
    then have "\<not> waits (set_call c x s) d i" using unguarded_guard [OF assms(3)] by (auto simp: waits_set_call)
    moreover have "((cn_map s)(ident := None)) i \<noteq> Some d" using True m waits_unique [OF assms(2), of i] by auto
    ultimately show ?thesis by simp
  next
    case False
    then show ?thesis using waits_unique [of s d i ident] by (auto simp: waits_set_call remove_sender_rx m)
  qed
  then show ?thesis using assms(1) unfolding map_inv_def by simp
qed

lemma calls_ok_set:
  assumes "calls_ok cx kind s" "\<And>y. x = Some y \<Longrightarrow> call_ok cx kind (cn_received s) (cn_rx s c) y"
  shows "calls_ok cx kind (set_call c x s)"
  using assms unfolding calls_ok_def by simp

lemma call_ok_closed: "call_ok cx kind ms r x \<Longrightarrow> guard_id x \<noteq> None \<Longrightarrow> call_ok cx kind ms Closed x"
  by (cases x) simp_all

text \<open>Only an exchange with a guard has its channel closed.\<close>

lemma calls_ok_remove:
  assumes "calls_ok cx kind s" "\<And>c x. cn_map s ident = Some c \<Longrightarrow> cn_calls s c = Some x \<Longrightarrow> call_ok cx kind (cn_received s) Closed x"
  shows "calls_ok cx kind (remove_sender ident s)"
  using assms unfolding calls_ok_def by (auto simp: remove_sender_rx)

lemma map_inv_guard:
  "map_inv s \<Longrightarrow> cn_map s ident = Some c \<Longrightarrow> cn_calls s c = Some x \<Longrightarrow> guard_id x = Some ident"
  unfolding map_inv_def waits_def by fastforce

lemma calls_ok_release:
  assumes "map_inv s" "calls_ok cx kind s"
    and "\<And>y r. x = Some y \<Longrightarrow> call_ok cx kind (cn_received s) r y"
  shows "calls_ok cx kind (remove_sender ident (set_call c x s))"
proof (rule calls_ok_remove)
  show "calls_ok cx kind (set_call c x s)" using assms(2,3) by (rule calls_ok_set)
  fix c' y
  assume "cn_map (set_call c x s) ident = Some c'" "cn_calls (set_call c x s) c' = Some y"
  then show "call_ok cx kind (cn_received (set_call c x s)) Closed y"
    using map_inv_guard [OF assms(1)] assms(2,3) unfolding calls_ok_def
    by (auto split: if_splits) (metis call_ok_closed option.distinct(1))
qed

lemma conn_release_inv:
  assumes "conn_inv cx kind s" "waits s c ident"
    and "unguarded x" "\<And>y r. x = Some y \<Longrightarrow> call_ok cx kind (cn_received s) r y"
  shows "conn_inv cx kind (remove_sender ident (set_call c x s))"
  using assms map_inv_release [of s c ident x] calls_ok_release [of s cx kind x ident c] unfolding conn_inv_def by blast

lemma draw_id_inv:
  assumes "conn_inv cx kind s" "cn_calls s c = None"
  shows "conn_inv cx kind (draw_id cx c query s)"
proof -
  define s' where "s' = s\<lparr>cn_next_id := cn_next_id s + 1, cn_rx := (cn_rx s)(c := Open)\<rparr>"
  have s': "map_inv s'" "calls_ok cx kind s'" "\<not> waits s' c i" "cn_rx s' c = Open" for i
    using assms by (auto simp: s'_def conn_inv_def map_inv_def calls_ok_def waits_def)
  have keep: "conn_inv cx kind (set_call c (Some y) s')" if "unguarded (Some y)" "call_ok cx kind (cn_received s') Open y" for y
    using that map_inv_idle [OF s'(1,3)] calls_ok_set [OF s'(2), of "Some y" c] s'(4) unfolding conn_inv_def by simp
  show ?thesis
    unfolding draw_id_def s'_def [symmetric] Let_def
    by (auto split: sum.split option.split intro!: keep)
qed

lemma register_inv:
  assumes "conn_inv cx kind s" "cn_calls s c = Some (Drawn query ident buf)"
  shows "conn_inv cx kind (register kind c query ident buf s)"
proof (cases "cn_dead s")
  case True
  have "\<not> waits s c i" for i using assms(2) by (simp add: waits_def)
  then show ?thesis using True assms(1)
    by (auto simp: register_def conn_inv_def intro!: map_inv_idle calls_ok_set)
next
  case False
  let ?r = "remove_sender ident s"
  let ?t = "set_call c (Some (Sending query ident buf)) (?r\<lparr>cn_map := (cn_map ?r)(ident \<mapsto> c)\<rparr>)"
  have w: "\<not> waits s c i" for i using assms(2) by (simp add: waits_def)
  have o: "cn_rx s c = Open" using assms unfolding conn_inv_def calls_ok_def by fastforce
  have c: "cn_map s i \<noteq> Some c" for i using w assms(1) unfolding conn_inv_def map_inv_def by blast
  have t: "cn_map ?t = (cn_map s)(ident \<mapsto> c)" "cn_dead ?t = cn_dead s" "cn_rx ?t = cn_rx ?r"
    "waits ?t c' i = (if c' = c then i = ident else waits s c' i)" for c' i
    by (auto simp: waits_set_call) (simp_all add: waits_def)
  have "(cn_map ?t i = Some c') = (waits ?t c' i \<and> cn_rx ?t c' = Open)" for c' i
    unfolding t using assms(1) w o c waits_unique [of s c' i ident] unfolding conn_inv_def map_inv_def
    by (auto simp: remove_sender_rx)
  then have "map_inv ?t" using False unfolding map_inv_def t(2) by blast
  moreover have "calls_ok cx kind ?r" using assms(1) map_inv_guard call_ok_closed unfolding conn_inv_def
    by (intro calls_ok_remove) (fastforce simp: calls_ok_def)+
  then have "calls_ok cx kind (?r\<lparr>cn_map := (cn_map ?r)(ident \<mapsto> c)\<rparr>)" by (simp add: calls_ok_def)
  then have "calls_ok cx kind ?t" by (rule calls_ok_set) (simp add: remove_sender_rx o c)
  ultimately show ?thesis using False by (simp add: register_def conn_inv_def Let_def)
qed

lemma send_done_inv:
  assumes "conn_inv cx kind s" "cn_calls s c = Some (Sending query ident buf)"
  shows "conn_inv cx kind (send_done c query ident buf s)"
proof -
  have w: "waits (send_done c query ident buf s) d i = waits s d i" for d i
    using assms(2) unfolding send_done_def by (auto simp: waits_set_call) (auto simp: waits_def)
  have "call_ok cx kind (cn_received s) (cn_rx s c) (Awaiting query ident)"
    using assms unfolding conn_inv_def calls_ok_def by (cases "cn_rx s c") fastforce+
  then show ?thesis
    using assms(1) w unfolding conn_inv_def map_inv_def calls_ok_def by (simp add: send_done_def)
qed

lemma exchange_result_ok:
  "m \<in> set ms \<Longrightarrow> m_id m = ident \<Longrightarrow> call_ok cx kind ms r (Done query ident (Some (exchange_result cx kind query m)))"
  by (cases r) (auto simp: exchange_result_def Let_def)

lemma finish_inv:
  assumes "conn_inv cx kind s" "waits s c ident" "\<And>r'. call_ok cx kind (cn_received s) r' (Done query ident (Some r))"
  shows "conn_inv cx kind (finish c query ident r s)"
  unfolding finish_def using assms by (intro conn_release_inv) simp_all

lemma receive_done_inv:
  assumes "conn_inv cx kind s" "cn_calls s c = Some (Awaiting query ident)"
  shows "conn_inv cx kind (receive_done cx kind c query ident s)"
proof -
  have w: "waits s c ident" using assms(2) by (simp add: waits_def)
  have "m \<in> set (cn_received s) \<and> m_id m = ident" if "cn_rx s c = Holds m" for m
    using assms that unfolding conn_inv_def calls_ok_def by fastforce
  then show ?thesis using assms(1) finish_inv [OF assms(1) w] exchange_result_ok
    by (auto simp: receive_done_def split: oneshot.split)
qed

lemma cancel_inv:
  assumes "conn_inv cx kind s"
  shows "conn_inv cx kind (cancel c s)"
proof (cases "\<exists>ident. waits s c ident")
  case True
  then obtain ident where w: "waits s c ident" by blast
  then have "cancel c s = remove_sender ident (set_call c None s)"
    by (auto simp: cancel_def waits_def split: option.splits exchange.splits)
  then show ?thesis using conn_release_inv [OF assms w, of None] by simp
next
  case False
  then have "cancel c s = set_call c None s"
    by (auto simp: cancel_def waits_def split: option.splits exchange.splits)
  then show ?thesis using False assms map_inv_idle [of s c None] calls_ok_set [of cx kind s None c] by (simp add: conn_inv_def)
qed

lemma call_ok_more: "call_ok cx kind ms r x \<Longrightarrow> call_ok cx kind (ms @ ns) r x"
  by (cases "(cx, kind, ms, r, x)" rule: call_ok.cases) auto

lemma deliver_inv:
  assumes "conn_inv cx kind s"
  shows "conn_inv cx kind (deliver msg s)"
proof (cases "cn_map s (m_id msg)")
  case None
  then show ?thesis using assms call_ok_more unfolding conn_inv_def map_inv_def calls_ok_def waits_def
    by (simp add: deliver_def)
next
  case (Some c)
  let ?t = "deliver msg s"
  have t: "cn_map ?t = (cn_map s)(m_id msg := None)" "cn_rx ?t = (cn_rx s)(c := Holds msg)" "cn_calls ?t = cn_calls s"
    "cn_received ?t = cn_received s @ [msg]" "waits ?t = waits s" "cn_dead ?t = cn_dead s"
    using Some by (simp_all add: deliver_def waits_def fun_eq_iff)
  have m: "cn_map s i = Some d \<longleftrightarrow> waits s d i \<and> cn_rx s d = Open" for i d
    using assms by (simp add: conn_inv_def map_inv_def)
  have "(((cn_map s)(m_id msg := None)) i = Some d) = (waits s d i \<and> ((cn_rx s)(c := Holds msg)) d = Open)" for i d
    using m [of i d] m [of "m_id msg" c] Some waits_unique [of s c i "m_id msg"] by (cases "d = c"; cases "i = m_id msg") auto
  then have "map_inv ?t" using assms unfolding map_inv_def t conn_inv_def by simp
  moreover have "call_ok cx kind (cn_received ?t) (Holds msg) x" if "cn_calls s c = Some x" for x
    using map_inv_guard [of s, OF _ Some that] assms by (cases x) (auto simp: conn_inv_def t)
  then have "calls_ok cx kind ?t" using assms call_ok_more unfolding calls_ok_def conn_inv_def t by auto
  ultimately show ?thesis by (simp add: conn_inv_def)
qed

lemma close_reader_inv:
  assumes "conn_inv cx kind s"
  shows "conn_inv cx kind (close_reader s)"
proof -
  let ?t = "close_reader s"
  have t: "cn_map ?t = Map.empty" "cn_calls ?t = cn_calls s" "cn_received ?t = cn_received s" "waits ?t = waits s"
    "cn_rx ?t d = (if d \<in> ran (cn_map s) then Closed else cn_rx s d)" for d
    by (simp_all add: close_reader_def waits_def fun_eq_iff)
  have "\<not> (waits s d i \<and> cn_rx ?t d = Open)" for d i
    using assms unfolding t conn_inv_def map_inv_def by (auto simp: ran_def)
  then have "map_inv ?t" unfolding map_inv_def t(1,4) by simp
  moreover have "call_ok cx kind (cn_received s) (cn_rx ?t d) x" if "cn_calls s d = Some x" for d x
  proof (cases "d \<in> ran (cn_map s)")
    case True
    then obtain i where "cn_map s i = Some d" by (auto simp: ran_def)
    then have "guard_id x \<noteq> None" using map_inv_guard [of s i d x] assms that by (simp add: conn_inv_def)
    then show ?thesis using True that assms call_ok_closed unfolding t conn_inv_def calls_ok_def by force
  next
    case False
    then show ?thesis using that assms unfolding t conn_inv_def calls_ok_def by simp
  qed
  ultimately show ?thesis by (simp add: conn_inv_def calls_ok_def t(2,3))
qed

lemma new_conn_inv: "conn_inv cx kind new_conn"
  by (simp add: new_conn_def conn_inv_def map_inv_def calls_ok_def waits_def)

lemma conn_step_inv:
  assumes "conn_inv cx kind s" "conn_step cx kind s t"
  shows "conn_inv cx kind t"
  using assms(2)
proof (cases rule: conn_step.cases)
  case (send_failed c query ident buf e)
  then have "waits s c ident" by (simp add: waits_def)
  then show ?thesis using send_failed finish_inv [OF assms(1)] by simp
qed (use assms(1) in \<open>auto simp: udp_recv_def reader_idle_def split: sum.split
       intro: draw_id_inv register_inv send_done_inv receive_done_inv cancel_inv deliver_inv close_reader_inv\<close>)

interpretation conn: step_invariant "\<lambda>s. s = new_conn" "conn_step cx kind" "conn_inv cx kind"
  using new_conn_inv conn_step_inv by unfold_locales blast+

subsection \<open>Consequences\<close>

lemma conn_answer:
  assumes "conn_inv cx kind s" "cn_calls s c = Some (Done q ident (Some (Inr resp)))"
  shows "\<exists>m. m \<in> set (cn_received s) \<and> m_id m = ident \<and> resp = m\<lparr>m_id := m_id q\<rparr>
    \<and> matches_query (cx_dns cx) q resp \<and> m_id resp = m_id q"
  using assms unfolding conn_inv_def calls_ok_def by fastforce

lemma dead_not_open:
  "conn_inv cx kind s \<Longrightarrow> cn_dead s \<Longrightarrow> waits s c ident \<Longrightarrow> cn_rx s c \<noteq> Open"
  unfolding conn_inv_def map_inv_def by (metis option.distinct(1))

text \<open>On a dead connection every waiting exchange has its result with its next step.\<close>

lemma dead_wakes:
  assumes "conn_inv cx kind s" "cn_dead s" "cn_calls s c = Some (Awaiting q ident)"
  shows "\<exists>t r. conn_step cx kind s t \<and> cn_calls t c = Some (Done q ident (Some r))"
proof -
  have "cn_rx s c \<noteq> Open" using dead_not_open [OF assms(1,2), of c ident] assms(3) by (simp add: waits_def)
  moreover from this have "\<exists>r. cn_calls (receive_done cx kind c q ident s) c = Some (Done q ident (Some r))"
    by (cases "cn_rx s c") (simp_all add: receive_done_def finish_def)
  ultimately show ?thesis using conn_step.received [OF assms(3)] by blast
qed

lemma dead_stays: "conn_step cx kind s t \<Longrightarrow> cn_dead s \<Longrightarrow> cn_dead t"
  by (erule conn_stepE)
    (auto simp: draw_id_def register_def send_done_def finish_def receive_done_def cancel_def Let_def
      split: sum.split option.split oneshot.split exchange.split)

text \<open>
  Ids are drawn from a 16-bit counter. An exchange that draws the id of one still waiting
  closes the other's channel, and the guard of the closed one then closes the new channel.
\<close>

lemma id_reuse_closes_both:
  assumes "conn_inv cx kind s" "cn_map s ident = Some c" "cn_calls s c = Some (Awaiting q ident)"
    and "cn_calls s d = Some (Drawn q' ident buf)" "\<not> cn_dead s"
  defines "t \<equiv> register kind d q' ident buf s"
  shows "cn_rx t c = Closed" "cn_rx (receive_done cx kind c q ident t) d = Closed"
proof -
  have "c \<noteq> d" using assms(3,4) by auto
  show t: "cn_rx t c = Closed" using assms(2,5) by (simp add: t_def register_def Let_def remove_sender_rx)
  have "cn_map t ident = Some d" using assms(5) by (simp add: t_def register_def Let_def)
  then show "cn_rx (receive_done cx kind c q ident t) d = Closed" using t
    by (simp add: receive_done_def finish_def remove_sender_rx)
qed

end
