(* ===== verification/Transports.thy ===== *)
theory Transports
  imports Bootstrap Pipelined_Conn
begin

text \<open>
  The transports of \<open>crates/bulwark-upstream/src\<close> above their sockets: the framing and query loop
  of \<open>plain.rs\<close>, the shared connection with its one retry in \<open>plain.rs\<close> and \<open>dot.rs\<close>, \<open>doq.rs\<close>, and
  \<open>doh.rs\<close> with its choice between HTTP/3 and HTTP/1.1 or 2. What sockets, TLS, QUIC and HTTP
  clients do is a parameter: the outcome of a dial, of a write, of an exchange, the bytes of a
  stream, the response of a request. An \<open>Instant\<close> is a real number of seconds.
\<close>

subsection \<open>Framing\<close>

definition read_exact :: "nat \<Rightarrow> u8 list \<Rightarrow> (u8 list \<times> u8 list) option" where
  "read_exact n stream = (if length stream < n then None else Some (take n stream, drop n stream))"

text \<open>\<open>eof\<close> is the text of the error of a stream that ends early.\<close>

definition read_tcp_message :: "conn_env \<Rightarrow> string \<Rightarrow> u8 list \<Rightarrow> upstream_error + message \<times> u8 list" where
  "read_tcp_message cx eof stream =
     (case read_exact 2 stream of
        None \<Rightarrow> Inl (Io eof)
      | Some (len_buf, stream) \<Rightarrow>
          (case read_exact (unat (field16 len_buf 0)) stream of
             None \<Rightarrow> Inl (Io eof)
           | Some (buf, stream) \<Rightarrow> map_sum (\<lambda>e. e) (\<lambda>m. (m, stream)) (decode cx buf)))"

text \<open>The writes of one message: what goes to the stream, or the error of the first failed write.\<close>

definition write_tcp_bytes :: "string option \<Rightarrow> u8 list \<Rightarrow> upstream_error + u8 list" where
  "write_tcp_bytes werr bytes =
     (if 65535 < length bytes then Inl (Proto ''message too large for TCP'')
      else case werr of
        Some e \<Rightarrow> Inl (Io e)
      | None \<Rightarrow> Inr (to_be16 (word_of_nat (length bytes)) @ bytes))"

definition write_tcp_message :: "conn_env \<Rightarrow> string option \<Rightarrow> message \<Rightarrow> upstream_error + u8 list" where
  "write_tcp_message cx werr msg =
     (case encode cx msg of Inl e \<Rightarrow> Inl e | Inr bytes \<Rightarrow> write_tcp_bytes werr bytes)"

lemma read_exact_length: "read_exact n s = Some (a, b) \<Longrightarrow> length a = n \<and> length b = length s - n \<and> n \<le> length s"
  by (auto simp: read_exact_def split: if_splits)

lemma read_tcp_message_shrinks: "read_tcp_message cx eof s = Inr (m, s') \<Longrightarrow> length s' < length s"
  by (auto simp: read_tcp_message_def map_sum_def split: option.splits sum.splits dest!: read_exact_length)

subsection \<open>Plain TCP\<close>

function tcp_read_loop :: "conn_env \<Rightarrow> string \<Rightarrow> message \<Rightarrow> u8 list \<Rightarrow> upstream_error + message" where
  "tcp_read_loop cx eof query stream =
     (case read_tcp_message cx eof stream of
        Inl e \<Rightarrow> Inl e
      | Inr (msg, stream') \<Rightarrow>
          if matches_query (cx_dns cx) query msg then Inr msg else tcp_read_loop cx eof query stream')"
  by auto
termination
  by (relation "measure (\<lambda>(_, _, _, s). length s)") (auto dest: read_tcp_message_shrinks)

declare tcp_read_loop.simps [simp del]

text \<open>A dialled stream: the error of its writes, and the bytes that the peer sends on it.\<close>

record tcp_stream =
  ts_write_error :: "string option"
  ts_eof :: string
  ts_bytes :: "u8 list"

definition tcp_query_once :: "conn_env \<Rightarrow> string + tcp_stream \<Rightarrow> message \<Rightarrow> upstream_error + message" where
  "tcp_query_once cx dial query =
     (case dial of
        Inl e \<Rightarrow> Inl (Io e)
      | Inr ts \<Rightarrow>
          (case write_tcp_message cx (ts_write_error ts) query of
             Inl e \<Rightarrow> Inl e
           | Inr _ \<Rightarrow> tcp_read_loop cx (ts_eof ts) query (ts_bytes ts)))"

subsection \<open>The shared connection\<close>

text \<open>
  \<open>UdpTransport\<close> and \<open>DotTransport\<close> keep the current connection in a slot; a connection is named
  by a number, so that \<open>Arc::ptr_eq\<close> is equality. For each of the two attempts of a query,
  \<open>rd_dead\<close> says which connections are dead when it looks, \<open>rd_dial\<close> what a dial gives,
  \<open>rd_exchange\<close> what the exchange on a connection gives; \<open>rd_others\<close> is what other queries make
  of the slot in between.
\<close>

definition connection :: "(nat \<Rightarrow> bool) \<Rightarrow> upstream_error + nat \<Rightarrow> nat option \<Rightarrow> (upstream_error + nat) \<times> nat option" where
  "connection is_dead dial slot =
     (let fresh = (case dial of Inl e \<Rightarrow> (Inl e, slot) | Inr c \<Rightarrow> (Inr c, Some c))
      in case slot of
           Some c \<Rightarrow> if \<not> is_dead c then (Inr c, slot) else fresh
         | None \<Rightarrow> fresh)"

definition invalidate :: "nat \<Rightarrow> nat option \<Rightarrow> nat option" where
  "invalidate dead slot = (if slot = Some dead then None else slot)"

record retry_env =
  rd_dead :: "nat \<Rightarrow> nat \<Rightarrow> bool"
  rd_dial :: "nat \<Rightarrow> upstream_error + nat"
  rd_exchange :: "nat \<Rightarrow> nat \<Rightarrow> message \<Rightarrow> upstream_error + message"
  rd_others :: "nat \<Rightarrow> nat option \<Rightarrow> nat option"

definition dot_query :: "retry_env \<Rightarrow> message \<Rightarrow> nat option \<Rightarrow> (upstream_error + message) \<times> nat option" where
  "dot_query rd query slot =
     (case connection (rd_dead rd 0) (rd_dial rd 0) slot of
        (Inl e, slot) \<Rightarrow> (Inl e, slot)
      | (Inr conn, slot) \<Rightarrow>
          (case rd_exchange rd 0 conn query of
             Inr resp \<Rightarrow> (Inr resp, slot)
           | Inl e \<Rightarrow>
               let slot = invalidate conn (rd_others rd 0 slot)
               in case connection (rd_dead rd 1) (rd_dial rd 1) (rd_others rd 1 slot) of
                    (Inl e, slot) \<Rightarrow> (Inl e, slot)
                  | (Inr fresh, slot) \<Rightarrow> (rd_exchange rd 1 fresh query, slot)))"

text \<open>The UDP transport retries in the same way, and turns to TCP on truncation.\<close>

definition udp_query ::
  "conn_env \<Rightarrow> retry_env \<Rightarrow> string + tcp_stream \<Rightarrow> message \<Rightarrow> nat option \<Rightarrow> (upstream_error + message) \<times> nat option" where
  "udp_query cx rd tcp_dial query slot =
     (case dot_query rd query slot of
        (Inl e, slot) \<Rightarrow> (Inl e, slot)
      | (Inr msg, slot) \<Rightarrow>
          if m_truncation msg then (tcp_query_once cx tcp_dial query, slot) else (Inr msg, slot))"

text \<open>Dialling in \<open>DotTransport::connect\<close> and \<open>DoqTransport::connection\<close>: the addresses in turn.\<close>

fun dial_loop :: "(socket_addr \<Rightarrow> upstream_error + 'c) \<Rightarrow> u16 \<Rightarrow> upstream_error \<Rightarrow> ip_addr list \<Rightarrow> upstream_error + 'c" where
  "dial_loop try port last_err [] = Inl last_err"
| "dial_loop try port last_err (ip # ips) =
     (case try \<lparr>sa_ip = ip, sa_port = port\<rparr> of Inr c \<Rightarrow> Inr c | Inl e \<Rightarrow> dial_loop try port e ips)"

definition dot_try :: "(socket_addr \<Rightarrow> string + 't) \<Rightarrow> ('t \<Rightarrow> string + 'c) \<Rightarrow> socket_addr \<Rightarrow> upstream_error + 'c" where
  "dot_try tcp tls addr =
     (case tcp addr of
        Inl e \<Rightarrow> Inl (Io e)
      | Inr stream \<Rightarrow> (case tls stream of Inr c \<Rightarrow> Inr c | Inl e \<Rightarrow> Inl (TlsError e)))"

definition dial_spec ::
  "(socket_addr \<Rightarrow> upstream_error + 'c) \<Rightarrow> upstream_spec \<Rightarrow> upstream_error + ip_addr list \<Rightarrow> upstream_error + 'c" where
  "dial_spec try spec resolved =
     (case resolved of
        Inl e \<Rightarrow> Inl e
      | Inr ips \<Rightarrow> dial_loop try (sp_port spec) (BootstrapError (show_host (sp_host spec))) ips)"

subsection \<open>QUIC\<close>

text \<open>\<open>conn\<close> is the outcome of \<open>connection\<close>, \<open>stream\<close> what the request on its own stream gives.\<close>

definition doq_query_inner ::
  "conn_env \<Rightarrow> upstream_error + 'c \<Rightarrow> ('c \<Rightarrow> u8 list \<Rightarrow> string + u8 list) \<Rightarrow> message \<Rightarrow> (upstream_error + message) option" where
  "doq_query_inner cx conn stream query =
     (case encode cx query of
        Inl e \<Rightarrow> Some (Inl e)
      | Inr body \<Rightarrow>
          if 65535 < length body then Some (Inl (Proto ''message too large''))
          else case set_wire_id 0 body of
            None \<Rightarrow> None
          | Some body \<Rightarrow>
              Some (case conn of
                Inl e \<Rightarrow> Inl e
              | Inr c \<Rightarrow>
                  (case stream c (to_be16 (word_of_nat (length body)) @ body) of
                     Inl e \<Rightarrow> Inl (QuicError e)
                   | Inr data \<Rightarrow>
                       if length data < 2 then Inl (Proto ''short DoQ response'')
                       else case decode cx (drop 2 data) of
                         Inl e \<Rightarrow> Inl e
                       | Inr msg \<Rightarrow>
                           let msg = msg\<lparr>m_id := m_id query\<rparr> in
                           if \<not> matches_query (cx_dns cx) query msg
                           then Inl (Proto ''DoQ response does not match query'') else Inr msg)))"

text \<open>The cached connection: kept while it is not closed, dropped after a failed query.\<close>

definition doq_connection ::
  "('c \<Rightarrow> bool) \<Rightarrow> upstream_error + 'c \<Rightarrow> 'c option \<Rightarrow> (upstream_error + 'c) \<times> 'c option" where
  "doq_connection is_closed dial slot =
     (let fresh = (case dial of Inl e \<Rightarrow> (Inl e, slot) | Inr c \<Rightarrow> (Inr c, Some c))
      in case slot of Some c \<Rightarrow> if \<not> is_closed c then (Inr c, slot) else fresh | None \<Rightarrow> fresh)"

definition doq_query ::
  "conn_env \<Rightarrow> ('c \<Rightarrow> bool) \<Rightarrow> upstream_error + 'c \<Rightarrow> ('c \<Rightarrow> u8 list \<Rightarrow> string + u8 list) \<Rightarrow> message \<Rightarrow> 'c option
   \<Rightarrow> ((upstream_error + message) \<times> 'c option) option" where
  "doq_query cx is_closed dial stream query slot =
     (let (conn, slot) = doq_connection is_closed dial slot
      in map_option (\<lambda>r. (r, case r of Inr _ \<Rightarrow> slot | Inl _ \<Rightarrow> None)) (doq_query_inner cx conn stream query))"

subsection \<open>HTTPS\<close>

text \<open>\<open>str::parse::<u64>\<close>.\<close>

definition parse_u64 :: "string \<Rightarrow> u64 option" where
  "parse_u64 s =
     (let ds = (case s of x # xs \<Rightarrow> if x = CHR ''+'' then xs else s | [] \<Rightarrow> s) in
      if ds = [] then None
      else case parse_digits 0 ds of None \<Rightarrow> None
        | Some v \<Rightarrow> if v < 2 ^ 64 then Some (word_of_int v) else None)"

datatype alt_svc_h3 = AltFound u64 | AltClear | AltAbsent

definition DEFAULT_ALT_SVC_MA :: u64 where "DEFAULT_ALT_SVC_MA = 86400"
definition DOH_PIN_TTL :: real where "DOH_PIN_TTL = 300"
definition MAX_DOH_BODY :: nat where "MAX_DOH_BODY = 64 * 1024"

definition alt_svc_entry :: "string \<Rightarrow> alt_svc_h3 option" where
  "alt_svc_entry entry =
     (let params = map trim (split_char CHR '';'' entry);
          proto = hd params;
          ident = trim (hd (split_char CHR ''='' proto))
      in if ident = ''h3'' \<or> starts_with ident ''h3-''
         then Some (AltFound (case Option.bind (find_map (\<lambda>p. strip_prefix p ''ma='') (tl params)) (\<lambda>s. parse_u64 (trim s)) of
                Some ma \<Rightarrow> ma | None \<Rightarrow> DEFAULT_ALT_SVC_MA))
         else None)"

definition parse_alt_svc_h3 :: "string \<Rightarrow> alt_svc_h3" where
  "parse_alt_svc_h3 v =
     (let v = trim v in
      if eq_ignore_ascii_case v ''clear'' then AltClear
      else case find_map alt_svc_entry (split_char CHR '','' v) of Some a \<Rightarrow> a | None \<Rightarrow> AltAbsent)"

text \<open>
  The state of \<open>DohTransport\<close>: the pinned addresses and the two clients with the instants at
  which they were made, and until when an advertised HTTP/3 alternative is trusted. A forced
  HTTP/3 transport never uses the last.
\<close>

record 'cl doh_state =
  dh_ips :: "(real \<times> ip_addr list) option"
  dh_h12 :: "(real \<times> 'cl) option"
  dh_h3 :: "(real \<times> 'cl) option"
  dh_until :: "real option"

definition new_doh :: "'cl doh_state" where
  "new_doh = \<lparr>dh_ips = None, dh_h12 = None, dh_h3 = None, dh_until = None\<rparr>"

definition doh_url :: "upstream_spec \<Rightarrow> string" where
  "doh_url spec = ''https://'' @ server_name spec @ '':'' @ show_nat (uint (sp_port spec)) @ sp_path spec"

text \<open>What a request gives: an error, or a response with its status, headers and body chunks.\<close>

record http_response =
  hr_success :: bool
  hr_status :: string
  hr_alt_svc :: "string option"
  hr_content_length :: "nat option"
  hr_chunks :: "(string + u8 list) list"

text \<open>
  The environment of one query: the clock with its last representable instant, the bootstrap
  resolution, the client builder and the requests.
\<close>

record 'cl doh_env =
  de_now :: real
  de_last_instant :: real
  de_resolve :: "upstream_error + ip_addr list"
  de_build :: "ip_addr list \<Rightarrow> bool \<Rightarrow> string + 'cl"
  de_send :: "'cl \<Rightarrow> bool \<Rightarrow> u8 list \<Rightarrow> string + http_response"

definition pinned :: "'cl doh_env \<Rightarrow> (real \<times> 'a) option \<Rightarrow> 'a option" where
  "pinned de slot = (case slot of Some (t, x) \<Rightarrow> if de_now de - t < DOH_PIN_TTL then Some x else None | None \<Rightarrow> None)"

definition doh_ips :: "'cl doh_env \<Rightarrow> 'cl doh_state \<Rightarrow> (upstream_error + ip_addr list) \<times> 'cl doh_state" where
  "doh_ips de s =
     (case pinned de (dh_ips s) of
        Some ips \<Rightarrow> (Inr ips, s)
      | None \<Rightarrow>
          (case de_resolve de of
             Inl e \<Rightarrow> (Inl e, s)
           | Inr ips \<Rightarrow> (Inr ips, s\<lparr>dh_ips := Some (de_now de, ips)\<rparr>)))"

definition doh_client :: "'cl doh_env \<Rightarrow> bool \<Rightarrow> 'cl doh_state \<Rightarrow> (upstream_error + 'cl) \<times> 'cl doh_state" where
  "doh_client de force_h3 s =
     (case pinned de (if force_h3 then dh_h3 s else dh_h12 s) of
        Some cl \<Rightarrow> (Inr cl, s)
      | None \<Rightarrow>
          (case doh_ips de s of
             (Inl e, s) \<Rightarrow> (Inl e, s)
           | (Inr ips, s) \<Rightarrow>
               (case de_build de ips force_h3 of
                  Inl e \<Rightarrow> (Inl (Http e), s)
                | Inr cl \<Rightarrow>
                    (Inr cl, if force_h3 then s\<lparr>dh_h3 := Some (de_now de, cl)\<rparr>
                             else s\<lparr>dh_h12 := Some (de_now de, cl)\<rparr>))))"

definition h3_fresh :: "bool \<Rightarrow> real \<Rightarrow> 'cl doh_state \<Rightarrow> bool" where
  "h3_fresh forced now s = (\<not> forced \<and> (case dh_until s of Some t \<Rightarrow> now < t | None \<Rightarrow> False))"

text \<open>\<open>Instant + Duration\<close> panics past the last instant.\<close>

definition learn_alt_svc :: "'cl doh_env \<Rightarrow> bool \<Rightarrow> alt_svc_h3 \<Rightarrow> 'cl doh_state \<Rightarrow> 'cl doh_state option" where
  "learn_alt_svc de forced decision s =
     (if forced then Some s
      else case decision of
        AltFound ma \<Rightarrow>
          let t = de_now de + real_of_int (uint ma)
          in if de_last_instant de < t then None else Some (s\<lparr>dh_until := Some t\<rparr>)
      | AltClear \<Rightarrow> Some (s\<lparr>dh_until := None\<rparr>)
      | AltAbsent \<Rightarrow> Some s)"

fun read_chunks :: "u8 list \<Rightarrow> (string + u8 list) list \<Rightarrow> upstream_error + u8 list" where
  "read_chunks body [] = Inr body"
| "read_chunks body (Inl e # cs) = Inl (Http e)"
| "read_chunks body (Inr chunk # cs) =
     (if MAX_DOH_BODY < length body + length chunk then Inl (Http ''DoH response exceeded size cap'')
      else read_chunks (body @ chunk) cs)"

definition doh_body :: "http_response \<Rightarrow> upstream_error + u8 list" where
  "doh_body resp =
     (if (case hr_content_length resp of Some n \<Rightarrow> MAX_DOH_BODY < n | None \<Rightarrow> False)
      then Inl (Http ''DoH response too large'') else read_chunks [] (hr_chunks resp))"

definition doh_answer :: "conn_env \<Rightarrow> message \<Rightarrow> http_response \<Rightarrow> upstream_error + message" where
  "doh_answer cx query resp =
     (case doh_body resp of
        Inl e \<Rightarrow> Inl e
      | Inr bytes \<Rightarrow>
          (case decode cx bytes of
             Inl e \<Rightarrow> Inl e
           | Inr msg \<Rightarrow>
               let msg = msg\<lparr>m_id := m_id query\<rparr> in
               if \<not> matches_query (cx_dns cx) query msg
               then Inl (Http ''DoH response does not match query'') else Inr msg))"

definition doh_exchange ::
  "conn_env \<Rightarrow> 'cl doh_env \<Rightarrow> bool \<Rightarrow> 'cl \<Rightarrow> u8 list \<Rightarrow> message \<Rightarrow> bool \<Rightarrow> bool \<Rightarrow> 'cl doh_state
   \<Rightarrow> ((upstream_error + message) \<times> 'cl doh_state) option" where
  "doh_exchange cx de forced cl body query learn http3 s =
     (case de_send de cl http3 body of
        Inl e \<Rightarrow> Some (Inl (Http e), s)
      | Inr resp \<Rightarrow>
          if \<not> hr_success resp then Some (Inl (Http (''status '' @ hr_status resp)), s)
          else
            map_option (Pair (doh_answer cx query resp))
              (case hr_alt_svc resp of
                 Some v \<Rightarrow> if learn then learn_alt_svc de forced (parse_alt_svc_h3 v) s else Some s
               | None \<Rightarrow> Some s))"

text \<open>
  \<open>query_inner\<close>. A failed HTTP/3 exchange is repeated over HTTP/1.1 or 2; a client that cannot
  be made ends the query.
\<close>

definition doh_via_h3 ::
  "conn_env \<Rightarrow> 'cl doh_env \<Rightarrow> bool \<Rightarrow> u8 list \<Rightarrow> message
   \<Rightarrow> ('cl doh_state \<Rightarrow> upstream_error \<Rightarrow> ((upstream_error + message) \<times> 'cl doh_state) option)
   \<Rightarrow> 'cl doh_state \<Rightarrow> ((upstream_error + message) \<times> 'cl doh_state) option" where
  "doh_via_h3 cx de forced body query on_error s =
     (case doh_client de True s of
        (Inl e, s) \<Rightarrow> Some (Inl e, s)
      | (Inr cl, s) \<Rightarrow>
          (case doh_exchange cx de forced cl body query False True s of
             None \<Rightarrow> None
           | Some (Inr msg, s) \<Rightarrow> Some (Inr msg, s)
           | Some (Inl e, s) \<Rightarrow> on_error s e))"

definition doh_via_h12 ::
  "conn_env \<Rightarrow> 'cl doh_env \<Rightarrow> bool \<Rightarrow> u8 list \<Rightarrow> message \<Rightarrow> 'cl doh_state
   \<Rightarrow> ((upstream_error + message) \<times> 'cl doh_state) option" where
  "doh_via_h12 cx de forced body query s =
     (case doh_client de False s of
        (Inl e, s) \<Rightarrow> Some (Inl e, s)
      | (Inr cl, s) \<Rightarrow> doh_exchange cx de forced cl body query True False s)"

definition doh_query ::
  "conn_env \<Rightarrow> 'cl doh_env \<Rightarrow> bool \<Rightarrow> message \<Rightarrow> 'cl doh_state \<Rightarrow> ((upstream_error + message) \<times> 'cl doh_state) option" where
  "doh_query cx de forced query s =
     (case encode cx query of
        Inl e \<Rightarrow> Some (Inl e, s)
      | Inr buf \<Rightarrow>
          (case set_wire_id 0 buf of
             None \<Rightarrow> None
           | Some body \<Rightarrow>
               if forced then doh_via_h3 cx de forced body query (\<lambda>s e. Some (Inl e, s)) s
               else if h3_fresh forced (de_now de) s
               then doh_via_h3 cx de forced body query
                      (\<lambda>s e. Option.bind (learn_alt_svc de forced AltClear s) (doh_via_h12 cx de forced body query)) s
               else doh_via_h12 cx de forced body query s))"

subsection \<open>Properties\<close>

text \<open>What was written is read back: one message, and the rest of the stream.\<close>

lemma tcp_roundtrip:
  assumes "write_tcp_bytes None bytes = Inr out" "cx_decode cx bytes = Inr m"
  shows "read_tcp_message cx eof (out @ rest) = Inr (m, rest)"
proof -
  have len: "length bytes \<le> 65535" and out: "out = to_be16 (word_of_nat (length bytes)) @ bytes"
    using assms(1) by (auto simp: write_tcp_bytes_def split: if_splits)
  have "unat (word_of_nat (length bytes) :: u16) = length bytes" using len by (simp add: unat_of_nat)
  moreover have "field16 (to_be16 w) 0 = w" for w using field16_at [of "[]" 0 w "[]"] by simp
  ultimately show ?thesis using assms(2)
    by (simp add: out read_tcp_message_def read_exact_def decode_def)
qed

lemma tcp_read_loop_matches: "tcp_read_loop cx eof query s = Inr m \<Longrightarrow> matches_query (cx_dns cx) query m"
proof (induction cx eof query s rule: tcp_read_loop.induct)
  case (1 cx eof query s)
  then show ?case by (subst (asm) tcp_read_loop.simps) (auto split: sum.splits if_splits)
qed

lemma tcp_query_matches: "tcp_query_once cx dial query = Inr m \<Longrightarrow> matches_query (cx_dns cx) query m"
  by (auto simp: tcp_query_once_def dest: tcp_read_loop_matches split: sum.splits)

lemma dot_query_outcome:
  assumes "dot_query rd query slot = (Inr m, slot')"
  shows "\<exists>k c. rd_exchange rd k c query = Inr m \<and> k < 2"
  using assms by (auto simp: dot_query_def Let_def split: prod.splits sum.splits)

text \<open>The retry is not made on the connection that failed, unless it is dead no more.\<close>

lemma retry_fresh:
  assumes "connection d (Inr c') (invalidate c slot) = (Inr x, slot')" "c' \<noteq> c"
  shows "x \<noteq> c"
  using assms by (auto simp: connection_def invalidate_def Let_def split: option.splits if_splits)

lemma doq_matches:
  "doq_query cx cl dial stream query slot = Some (Inr m, slot') \<Longrightarrow> matches_query (cx_dns cx) query m"
  by (auto simp: doq_query_def doq_query_inner_def Let_def split: prod.splits sum.splits if_splits option.splits)

lemma doh_answer_matches: "doh_answer cx query resp = Inr m \<Longrightarrow> matches_query (cx_dns cx) query m"
  by (auto simp: doh_answer_def Let_def split: sum.splits if_splits)

lemma doh_exchange_matches:
  "doh_exchange cx de forced cl body query learn http3 s = Some (Inr m, s') \<Longrightarrow> matches_query (cx_dns cx) query m"
  by (auto simp: doh_exchange_def doh_answer_matches split: sum.splits if_splits option.splits)

lemma doh_h12_matches: "doh_via_h12 cx de forced body query s = Some (Inr m, s') \<Longrightarrow> matches_query (cx_dns cx) query m"
  by (auto simp: doh_via_h12_def doh_exchange_matches split: sum.splits prod.splits)

lemma doh_h3_matches:
  assumes "doh_via_h3 cx de forced body query on_error s = Some (Inr m, s')"
    and "\<And>t e t'. on_error t e = Some (Inr m, t') \<Longrightarrow> matches_query (cx_dns cx) query m"
  shows "matches_query (cx_dns cx) query m"
  using assms by (auto simp: doh_via_h3_def doh_exchange_matches split: sum.splits prod.splits option.splits)

lemma doh_matches:
  assumes "doh_query cx de forced query s = Some (Inr m, s')"
  shows "matches_query (cx_dns cx) query m"
  using assms unfolding doh_query_def
  by (auto split: sum.splits option.splits if_splits simp: bind_eq_Some_conv intro: doh_h12_matches elim!: doh_h3_matches)

text \<open>The body that is decoded is within the cap, whatever length was declared.\<close>

lemma read_chunks_cap: "read_chunks body cs = Inr bytes \<Longrightarrow> length body \<le> MAX_DOH_BODY \<Longrightarrow> length bytes \<le> MAX_DOH_BODY"
  by (induction body cs rule: read_chunks.induct) (auto split: if_splits)

lemma doh_body_cap: "doh_body resp = Inr bytes \<Longrightarrow> length bytes \<le> MAX_DOH_BODY"
  by (auto simp: doh_body_def split: if_splits dest: read_chunks_cap)

text \<open>A transport that is forced to HTTP/3 never sends over another version.\<close>

lemma forced_h3_only:
  assumes "\<And>cl body. de_send de' cl True body = de_send de cl True body" "de' = de\<lparr>de_send := de_send de'\<rparr>"
  shows "doh_query cx de' True query s = doh_query cx de True query s"
proof -
  have f: "de_now de' = de_now de" "de_last_instant de' = de_last_instant de" "de_resolve de' = de_resolve de" "de_build de' = de_build de"
    by (subst assms(2), simp)+
  have "doh_client de' True s = doh_client de True s"
    unfolding doh_client_def doh_ips_def pinned_def f ..
  moreover have "doh_exchange cx de' True cl body query False True t = doh_exchange cx de True cl body query False True t" for cl body t
    by (simp add: doh_exchange_def assms(1) split: sum.split option.split)
  ultimately have "doh_via_h3 cx de' True body query (\<lambda>s e. Some (Inl e, s)) s
      = doh_via_h3 cx de True body query (\<lambda>s e. Some (Inl e, s)) s" for body
    by (simp add: doh_via_h3_def split: prod.split sum.split)
  then show ?thesis by (simp add: doh_query_def split: sum.split option.split)
qed

text \<open>
  A server that advertises an alternative for longer than the clock can count makes the query
  panic.
\<close>

lemma alt_svc_overflow:
  assumes "de_last_instant de < de_now de + real_of_int (uint ma)" "parse_alt_svc_h3 v = AltFound ma"
    and "de_send de cl http3 body = Inr resp" "hr_success resp" "hr_alt_svc resp = Some v"
  shows "doh_exchange cx de False cl body query True http3 s = None"
  using assms by (simp add: doh_exchange_def learn_alt_svc_def Let_def)

lemma alt_svc_samples:
  "parse_alt_svc_h3 ''h2=\":443\"; ma=3600, h3-29=\":443\"; ma=600'' = AltFound 600"
  "parse_alt_svc_h3 ''h3=\":443\"'' = AltFound 86400" "parse_alt_svc_h3 '' Clear '' = AltClear"
  "parse_alt_svc_h3 ''h2=\":443\"; ma=3600'' = AltAbsent"
  by code_simp+

end
