(* ===== verification/Dns_Listener.thy ===== *)
theory Dns_Listener
  imports Query_Pipeline Transports
begin

text \<open>
  The DNS listeners, \<open>bulwark-engine/src/server.rs\<close>: the reply to a datagram, the loop that serves a
  TCP connection, and the semaphores that bound the queries and connections in flight. The
  engine is a function from a query and its number to the response, so that each query may
  meet another state of the engine; \<open>None\<close> stands for a panic of the task.
\<close>

subsection \<open>Datagrams\<close>

type_synonym 'eng run = "nat \<Rightarrow> ingress \<Rightarrow> 'eng \<Rightarrow> (engine_response \<times> 'eng) option"

definition udp_reply :: "dns_ext \<Rightarrow> int \<Rightarrow> engine_response \<Rightarrow> u8 list" where
  "udp_reply dx mx resp =
     (case resp of
        EWire b \<Rightarrow> if int (length b) \<le> mx then b else encode_udp dx (response_message dx resp) mx
      | EMessage _ \<Rightarrow> encode_udp dx (response_message dx resp) mx)"

text \<open>What is sent back for a datagram, if anything.\<close>

definition udp_datagram :: "dns_ext \<Rightarrow> 'eng run \<Rightarrow> nat \<Rightarrow> u8 list \<Rightarrow> 'eng \<Rightarrow> (u8 list option \<times> 'eng) option" where
  "udp_datagram dx run n bytes eng =
     (case parse_ingress dx bytes of
        None \<Rightarrow> Some (None, eng)
      | Some ing \<Rightarrow>
          (case run n ing eng of
             None \<Rightarrow> None
           | Some (resp, eng) \<Rightarrow>
               let out = udp_reply dx (udp_max_payload ing) resp
               in Some (if out = [] then None else Some out, eng)))"

subsection \<open>A TCP connection\<close>

datatype tcp_write = WroteAll | WriteError string | WriteStall

record tcp_conn_env =
  tc_len_ok :: "nat \<Rightarrow> bool"
  tc_body_ok :: "nat \<Rightarrow> bool"
  tc_write :: "nat \<Rightarrow> tcp_write"

definition frame :: "u8 list \<Rightarrow> u8 list" where
  "frame bytes = to_be16 (word_of_nat (length bytes)) @ bytes"

text \<open>
  \<open>serve_tcp_conn\<close>: the bytes written, the error of the connection, and the engine. The loop ends with
  the bytes that the peer sends, or at the first round that times out.
\<close>

function serve_tcp ::
  "dns_ext \<Rightarrow> tcp_conn_env \<Rightarrow> 'eng run \<Rightarrow> nat \<Rightarrow> u8 list \<Rightarrow> 'eng \<Rightarrow> (u8 list \<times> string option \<times> 'eng) option" where
  "serve_tcp dx tc run n stream eng =
     (case (if tc_len_ok tc n then read_exact 2 stream else None) of
        None \<Rightarrow> Some ([], None, eng)
      | Some (len_buf, stream1) \<Rightarrow>
          (case (if tc_body_ok tc n then read_exact (unat (field16 len_buf 0)) stream1 else None) of
             None \<Rightarrow> Some ([], None, eng)
           | Some (msg_buf, stream2) \<Rightarrow>
               (case parse_ingress dx msg_buf of
                  None \<Rightarrow> Some ([], None, eng)
                | Some ing \<Rightarrow>
                    (case run n ing eng of
                       None \<Rightarrow> None
                     | Some (resp, eng1) \<Rightarrow>
                         (case response_wire dx resp of
                            None \<Rightarrow> Some ([], None, eng1)
                          | Some bytes \<Rightarrow>
                              if 65535 < length bytes then Some ([], None, eng1)
                              else (case tc_write tc n of
                                      WriteError e \<Rightarrow> Some ([], Some e, eng1)
                                    | WriteStall \<Rightarrow> Some ([], None, eng1)
                                    | WroteAll \<Rightarrow>
                                        map_option (\<lambda>(out, r). (frame bytes @ out, r)) (serve_tcp dx tc run (Suc n) stream2 eng1)))))))"
  by pat_completeness auto
termination
  by (relation "measure (\<lambda>(dx, tc, run, n, stream, eng). length stream)")
    (auto split: if_splits dest!: read_exact_length)

declare serve_tcp.simps [simp del]

subsection \<open>Queries in flight\<close>

definition MAX_UDP_INFLIGHT :: nat where "MAX_UDP_INFLIGHT = 1024"
definition MAX_TCP_CONNS :: nat where "MAX_TCP_CONNS = 512"

text \<open>
  A listener: the free permits, the tasks that hold one, and whether the accepting loop holds one.
  The UDP loop takes a permit once a query has been parsed and gives it to the query's task at once;
  the TCP loop takes it before it accepts, and drops it when accepting fails.
\<close>

record listener =
  ln_permits :: nat
  ln_tasks :: nat
  ln_held :: bool

definition new_listener :: "nat \<Rightarrow> listener" where
  "new_listener cap = \<lparr>ln_permits = cap, ln_tasks = 0, ln_held = False\<rparr>"

inductive udp_step :: "listener \<Rightarrow> listener \<Rightarrow> bool" where
  udp_ignored: "udp_step l l"
| udp_spawn: "0 < ln_permits l \<Longrightarrow> udp_step l (l\<lparr>ln_permits := ln_permits l - 1, ln_tasks := Suc (ln_tasks l)\<rparr>)"
| udp_done: "0 < ln_tasks l \<Longrightarrow> udp_step l (l\<lparr>ln_permits := Suc (ln_permits l), ln_tasks := ln_tasks l - 1\<rparr>)"

inductive tcp_step :: "listener \<Rightarrow> listener \<Rightarrow> bool" where
  tcp_acquire: "\<not> ln_held l \<Longrightarrow> 0 < ln_permits l \<Longrightarrow> tcp_step l (l\<lparr>ln_permits := ln_permits l - 1, ln_held := True\<rparr>)"
| tcp_accept: "ln_held l \<Longrightarrow> tcp_step l (l\<lparr>ln_tasks := Suc (ln_tasks l), ln_held := False\<rparr>)"
| tcp_accept_error: "ln_held l \<Longrightarrow> tcp_step l (l\<lparr>ln_permits := Suc (ln_permits l), ln_held := False\<rparr>)"
| tcp_done: "0 < ln_tasks l \<Longrightarrow> tcp_step l (l\<lparr>ln_permits := Suc (ln_permits l), ln_tasks := ln_tasks l - 1\<rparr>)"

subsection \<open>Properties\<close>

definition permits_ok :: "nat \<Rightarrow> listener \<Rightarrow> bool" where
  "permits_ok cap l \<longleftrightarrow> ln_permits l + ln_tasks l + (if ln_held l then 1 else 0) = cap"

lemma udp_permits: "udp_step l l' \<Longrightarrow> permits_ok cap l \<Longrightarrow> permits_ok cap l'"
  by (induction rule: udp_step.induct) (auto simp: permits_ok_def)

lemma tcp_permits: "tcp_step l l' \<Longrightarrow> permits_ok cap l \<Longrightarrow> permits_ok cap l'"
  by (induction rule: tcp_step.induct) (auto simp: permits_ok_def)

interpretation udp_listener: step_invariant "\<lambda>l. l = new_listener MAX_UDP_INFLIGHT" udp_step "permits_ok MAX_UDP_INFLIGHT"
  using udp_permits by unfold_locales (auto simp: permits_ok_def new_listener_def)

interpretation tcp_listener: step_invariant "\<lambda>l. l = new_listener MAX_TCP_CONNS" tcp_step "permits_ok MAX_TCP_CONNS"
  using tcp_permits by unfold_locales (auto simp: permits_ok_def new_listener_def)

text \<open>A reply fits the size that the query allows, or is cut down to header and question.\<close>

lemma udp_reply_fits:
  assumes "to_vec dx (truncated (response_message dx resp)) = Some tc" "int (length tc) \<le> mx"
    and "to_vec dx (response_message dx resp) = Some full"
  shows "int (length (udp_reply dx mx resp)) \<le> mx"
    "udp_reply dx mx resp \<in> {full, tc} \<or> resp = EWire (udp_reply dx mx resp)"
  using encode_udp_fits [OF assms(3,1,2)] by (auto simp: udp_reply_def split: engine_response.split)

text \<open>Framed queries are answered one by one, in order, each with a frame of its own.\<close>

fun answers_all :: "dns_ext \<Rightarrow> 'eng run \<Rightarrow> nat \<Rightarrow> u8 list list \<Rightarrow> 'eng \<Rightarrow> u8 list list \<Rightarrow> 'eng \<Rightarrow> bool" where
  "answers_all dx run n [] eng outs eng' \<longleftrightarrow> outs = [] \<and> eng' = eng"
| "answers_all dx run n (q # qs) eng outs eng' \<longleftrightarrow>
     (case outs of
        [] \<Rightarrow> False
      | out # outs \<Rightarrow>
          (case parse_ingress dx q of
             None \<Rightarrow> False
           | Some ing \<Rightarrow>
               (case run n ing eng of
                  None \<Rightarrow> False
                | Some (resp, eng1) \<Rightarrow> response_wire dx resp = Some out \<and> answers_all dx run (Suc n) qs eng1 outs eng')))"

lemma frame_read:
  assumes "length q \<le> 65535"
  shows "read_exact 2 (frame q @ rest) = Some (to_be16 (word_of_nat (length q)), q @ rest)"
    "unat (field16 (to_be16 (word_of_nat (length q))) 0) = length q"
    "read_exact (length q) (q @ rest) = Some (q, rest)"
proof -
  have "length (to_be16 w) = 2" for w by (simp add: to_be16_def)
  then show "read_exact 2 (frame q @ rest) = Some (to_be16 (word_of_nat (length q)), q @ rest)" by (simp add: read_exact_def frame_def)
  have "field16 (to_be16 w) 0 = w" for w using field16_at [of "[]" 0 w "[]"] by simp
  moreover have "unat (word_of_nat (length q) :: u16) = length q" using assms by (simp add: unat_of_nat)
  ultimately show "unat (field16 (to_be16 (word_of_nat (length q))) 0) = length q" by simp
  show "read_exact (length q) (q @ rest) = Some (q, rest)" by (simp add: read_exact_def)
qed

lemma serve_tcp_in_order:
  assumes "answers_all dx run n qs eng outs eng'" "list_all (\<lambda>q. length q \<le> 65535) qs" "list_all (\<lambda>o'. length o' \<le> 65535) outs"
    and "\<And>k. tc_len_ok tc k \<and> tc_body_ok tc k \<and> tc_write tc k = WroteAll"
  shows "serve_tcp dx tc run n (concat (map frame qs)) eng = Some (concat (map frame outs), None, eng')"
  using assms(1-3)
proof (induction qs arbitrary: n eng outs)
  case Nil
  then show ?case by (subst serve_tcp.simps) (simp add: read_exact_def)
next
  case (Cons q qs)
  from Cons.prems(1) obtain out outs' ing resp eng1 where p: "outs = out # outs'" "parse_ingress dx q = Some ing"
    "run n ing eng = Some (resp, eng1)" "response_wire dx resp = Some out" "answers_all dx run (Suc n) qs eng1 outs' eng'"
    by (auto split: list.splits option.splits)
  have "serve_tcp dx tc run (Suc n) (concat (map frame qs)) eng1 = Some (concat (map frame outs'), None, eng')"
    by (rule Cons.IH [OF p(5)]) (use Cons.prems(2,3) p(1) in simp_all)
  moreover have "length q \<le> 65535" "\<not> 65535 < length out" using Cons.prems(2,3) p(1) by simp_all
  ultimately show ?case using p frame_read [of q] assms(4) by (subst serve_tcp.simps) simp
qed

end
