(* ===== verification/Server_Properties.thy ===== *)
theory Server_Properties
  imports Api_Safety Startup Dns_Listener
begin

text \<open>
  The properties of the server around the resolver: the HTTP API and the configuration it
  manages, sessions, the persistent logs, the connections to upstreams and the DNS listeners,
  with the concrete inputs of their witnesses.
\<close>

section \<open>A concrete server\<close>

fun unhex_digit :: "char \<Rightarrow> nat option" where
  "unhex_digit c = (let n = of_char c in if 48 \<le> n \<and> n < 58 then Some (n - 48) else if 97 \<le> n \<and> n < 103 then Some (n - 87) else None)"

fun unhex :: "string \<Rightarrow> u8 list option" where
  "unhex [] = Some []"
| "unhex [_] = None"
| "unhex (a # b # s) =
     (case (unhex_digit a, unhex_digit b, unhex s) of
        (Some m, Some n, Some bs) \<Rightarrow> Some (word_of_nat (16 * m + n) # bs)
      | _ \<Rightarrow> None)"

definition srv_auth :: auth_env where
  "srv_auth =
     \<lparr>ae_salt = (\<lambda>_. Inr ''salt''), ae_hash = (\<lambda>p s. Inr p), ae_verify = (\<lambda>h p. Some (h = p)),
      ae_b64 = hex_id, ae_unb64 = unhex, ae_mac = (\<lambda>k s. k @ [word_of_nat (length s)]),
      ae_claims_json = (\<lambda>c. le64 (cl_iat c) @ le64 (cl_exp c)),
      ae_json_claims = (\<lambda>b. case rd_u64 b of Some (i, r) \<Rightarrow> (case rd_u64 r of Some (e, []) \<Rightarrow> Some \<lparr>cl_iat = i, cl_exp = e\<rparr> | _ \<Rightarrow> None) | None \<Rightarrow> None),
      ae_bytes = text_bytes\<rparr>"

lemma unhex_hex_digit: "n < 16 \<Longrightarrow> unhex_digit (hex_digit n) = Some n"
  by (auto simp: hex_digit_def Let_def of_char_of)

lemma unhex_hex: "unhex (hex_id bs) = Some bs"
proof (induction bs)
  case (Cons b bs)
  have "unat b < 2 ^ LENGTH(8)" by (rule unsigned_less)
  then have "unat b div 16 < 16" "unat b mod 16 < 16" by simp_all
  then show ?case using Cons by (simp add: hex_id_def Let_def unhex_hex_digit del: unhex_digit.simps)
qed (simp add: hex_id_def)

lemma hex_digit_graphic: "n < 16 \<Longrightarrow> graphic [hex_digit n] \<and> hex_digit n \<noteq> CHR ''.''"
proof -
  have "list_all (\<lambda>n. graphic [hex_digit n] \<and> hex_digit n \<noteq> CHR ''.'') [0..<16]" by code_simp
  then show "n < 16 \<Longrightarrow> ?thesis" by (simp add: list_all_iff)
qed

lemma srv_auth_laws: "auth_laws srv_auth" "b64_graphic srv_auth" "hash_laws srv_auth"
proof -
  have g: "graphic (hex_id bs) \<and> CHR ''.'' \<notin> set (hex_id bs)" for bs
  proof (induction bs)
    case (Cons b bs)
    have "unat b < 2 ^ LENGTH(8)" by (rule unsigned_less)
    then have "unat b div 16 < 16" "unat b mod 16 < 16" by simp_all
    from this [THEN hex_digit_graphic] Cons show ?case by (simp add: hex_id_def Let_def) auto
  qed (simp add: hex_id_def graphic_def)
  have "rd_u64 (le64 w) = Some (w, [])" for w using rd_le_append(3) [of w "[]"] by simp
  then show "auth_laws srv_auth" using g by (simp add: auth_laws_def srv_auth_def unhex_hex)
  show "b64_graphic srv_auth" using g by (simp add: b64_graphic_def srv_auth_def)
  show "hash_laws srv_auth" by (simp add: hash_laws_def srv_auth_def)
qed

text \<open>A resolver with no rules and the default configuration; files and responses are kept as they are given.\<close>

definition srv_engine_env :: "(nat \<times> (query_key \<times> entry) list, unit) engine_env" where
  "srv_engine_env =
     \<lparr>ev_filter = ref_ext,
      ev_dns = \<lparr>to_vec = (\<lambda>m. Some [ucast (m_id m)]), from_vec = (\<lambda>b. Some (new_message (ucast (hd b)) MtQuery 0)),
        name_from_str = Some, name_eq_ignore_root = (=),
        edns_default = \<lparr>ed_version = 0, ed_max_payload = 512, ed_dnssec_ok = False, ed_options = []\<rparr>,
        edns_payload_set = max 512, rdata_display = (\<lambda>_. []), rtype_display = (\<lambda>_. ''A''), rcode_debug_upper = (\<lambda>_. [])\<rparr>,
      ev_cache = lru_ref,
      ev_stats = \<lparr>ord_counts = id, ord_sums = id, ord_hists = id, inner_to_json = (\<lambda>_. None),
        inner_from_json = (\<lambda>_. None), stats_parallelism = None\<rparr>,
      ev_send = (\<lambda>_ _. None)\<rparr>"

definition srv_draw :: boot_draw where
  "srv_draw = \<lparr>bd_a = 1, bd_aaaa = 2, bd_now = 0, bd_stored = 0\<rparr>"

definition srv_pool_env :: pool_env where
  "srv_pool_env =
     \<lparr>px_rcode_debug = (\<lambda>_. []), px_lowercase = id, px_server_name = (\<lambda>_. None),
      px_boot = \<lparr>bx_name = Inr, bx_set_fqdn = id, bx_udp = (\<lambda>_ _. ATimeout)\<rparr>\<rparr>"

definition srv_ap :: "(nat \<times> (query_key \<times> entry) list, unit) app_env" where
  "srv_ap =
     \<lparr>ap_engine = srv_engine_env, ap_pool = srv_pool_env, ap_boot_draw = (\<lambda>_. srv_draw), ap_yaml = (\<lambda>_. Inr ''config''),
      ap_save_fails = None, ap_paths = new_paths ''data''\<rparr>"

definition srv_sx :: "(nat \<times> (query_key \<times> entry) list, unit) start_env" where
  "srv_sx =
     \<lparr>sx_app = srv_ap, sx_auth = srv_auth, sx_parse = (\<lambda>_. Inl ''bad''), sx_dns_bind = None, sx_http_bind = None,
      sx_secret = [1, 2, 3], sx_now = 0, sx_unix = 0\<rparr>"

lemma srv_sx_app [simp]: "sx_app srv_sx = srv_ap"
  by (simp add: srv_sx_def)

lemma srv_specs: "active_specs default_upstreams_config = [''https://dns.quad9.net/dns-query'', ''https://cloudflare-dns.com/dns-query'']"
  by code_simp

lemma srv_parse_specs:
  "\<exists>sp. parse_spec ''https://dns.quad9.net/dns-query'' = Inr sp \<and> sp_kind sp = Https"
  "\<exists>sp. parse_spec ''https://cloudflare-dns.com/dns-query'' = Inr sp \<and> sp_kind sp = Https"
proof -
  have "case parse_spec ''https://dns.quad9.net/dns-query'' of Inr sp \<Rightarrow> sp_kind sp = Https | _ \<Rightarrow> False"
    "case parse_spec ''https://cloudflare-dns.com/dns-query'' of Inr sp \<Rightarrow> sp_kind sp = Https | _ \<Rightarrow> False" by code_simp+
  then show "\<exists>sp. parse_spec ''https://dns.quad9.net/dns-query'' = Inr sp \<and> sp_kind sp = Https"
    "\<exists>sp. parse_spec ''https://cloudflare-dns.com/dns-query'' = Inr sp \<and> sp_kind sp = Https"
    by (auto split: sum.splits)
qed

definition plain_config :: "config \<Rightarrow> bool" where
  "plain_config cfg \<longleftrightarrow> custom_rules (cfg_filtering cfg) = [] \<and> filter_lists (cfg_filtering cfg) = []
     \<and> active_specs (cfg_upstreams cfg) = active_specs default_upstreams_config"

lemma srv_compiles:
  assumes "plain_config cfg"
  shows "\<exists>flt. compile_filters ref_ext cfg pt fs = Some (flt, [(0, 0)])"
proof -
  have src: "filter_sources cfg pt fs = [(0, ''Custom rules'', [])]" using assms by (simp add: filter_sources_def plain_config_def)
  have "list_all (\<lambda>(lid, name, tx). text_ok tx) [(0, ''Custom rules'', [])]" by code_simp
  moreover have "total_size [(0, ''Custom rules'', [])] \<le> 2 ^ 23" by (simp add: total_size_def)
  moreover have "ascii ''a''" by code_simp
  ultimately obtain e where "build ref_ext (compile_lists ref_ext [(0, ''Custom rules'', [])])
      = Some (e, c_stats (compile_lists ref_ext [(0, ''Custom rules'', [])]))"
    using compiled_verdict [OF ref_regex_laws ref_sort_laws] by blast
  moreover have "map (\<lambda>s. (ls_list_id s, ls_rules s)) (c_stats (compile_lists ref_ext [(0, ''Custom rules'', [])])) = [(0, 0)]"
    by code_simp
  ultimately show ?thesis by (simp add: compile_filters_def src)
qed

lemma srv_pool:
  assumes "plain_config cfg"
  shows "\<exists>pool. app_build_pool srv_pool_env draw cfg prev = Inr pool"
proof -
  obtain s1 s2 where sp: "parse_spec ''https://dns.quad9.net/dns-query'' = Inr s1" "sp_kind s1 = Https"
    "parse_spec ''https://cloudflare-dns.com/dns-query'' = Inr s2" "sp_kind s2 = Https" using srv_parse_specs by blast
  have "pool_entries draw cfg = [(\<lparr>ent_spec = ''https://dns.quad9.net/dns-query'', ent_name = None\<rparr>, draw 0),
      (\<lparr>ent_spec = ''https://cloudflare-dns.com/dns-query'', ent_name = None\<rparr>, draw 1)]"
    using assms srv_specs by (simp add: pool_entries_def plain_config_def Let_def upt_rec)
  then show ?thesis using sp by (simp add: app_build_pool_def build_pool_def make_transport_def)
qed

lemma srv_builds:
  assumes "plain_config cfg" "ap_engine ap = srv_engine_env" "ap_pool ap = srv_pool_env"
  shows "\<exists>st. build_engine_state ap cfg fs prev = Some (Inr st)"
  using srv_compiles [OF assms(1), of "ap_paths ap" fs] srv_pool [OF assms(1), of "ap_boot_draw ap" prev] assms(2,3)
  by (auto simp: build_engine_state_def srv_engine_env_def Let_def)

lemma srv_applies:
  assumes "plain_config cfg" "validate cfg = Inr ()"
  shows "\<exists>s'. apply_config srv_ap cfg s = Some (Inr (), s')"
proof -
  define cfg1 where "cfg1 = cfg\<lparr>cfg_upstreams := normalize (cfg_upstreams cfg)\<rparr>"
  have p1: "plain_config cfg1" using assms(1) by (simp add: plain_config_def cfg1_def active_specs_normalize)
  obtain flt where c: "compile_filters ref_ext cfg1 (ap_paths srv_ap) (app_fs s) = Some (flt, [(0, 0)])" using srv_compiles [OF p1] by blast
  let ?cfg = "set_rule_counts [(0, 0)] cfg1"
  have "plain_config ?cfg" using p1 by (simp add: plain_config_def set_rule_counts_def)
  then obtain st where st: "build_engine_state srv_ap ?cfg (app_fs s) (Some (es_pool (eng_state (app_engine s)))) = Some (Inr st)"
    using srv_builds [of ?cfg srv_ap] by (auto simp: srv_ap_def)
  obtain fs' where "save_config srv_ap ?cfg (app_fs s) = (fs', None)"
    by (simp add: save_config_def save_steps_def srv_ap_def Let_def)
  then show ?thesis using c st validate_normalize [of cfg] assms(2) unfolding apply_config_def cfg1_def [symmetric]
    by (simp add: srv_ap_def srv_engine_env_def Let_def)
qed

lemma srv_prepare: "prepare_config srv_sx Map.empty default_config
    = (default_config\<lparr>cfg_auth := default_auth\<lparr>session_secret := Some (generate_secret srv_auth [1, 2, 3])\<rparr>\<rparr>, True)"
  by (simp add: prepare_config_def apply_env_overrides_def srv_sx_def default_config_def default_auth_def Let_def)

lemma srv_starts: "\<exists>s. start_server srv_sx ((), ()) Map.empty = Some (Inr s)"
proof -
  define cfg where "cfg = default_config\<lparr>cfg_auth := default_auth\<lparr>session_secret := Some (generate_secret srv_auth [1, 2, 3])\<rparr>\<rparr>"
  note prep = srv_prepare [folded cfg_def]
  have ext: "with_extension (''data'', ''config.yaml'') ''yaml.tmp'' = (''data'', ''config.yaml.tmp'')" by code_simp
  define fs' where "fs' = fst (save_config srv_ap cfg Map.empty)"
  have sv: "save_config srv_ap cfg Map.empty = (fs', None)" "fs' (''data'', ''stats.json'') = None" "fs' (''data'', ''cache.snap'') = None"
    unfolding fs'_def by (simp_all add: save_config_def save_steps_def srv_ap_def new_paths_def ext Let_def)
  have "plain_config cfg" by (simp add: plain_config_def cfg_def default_config_def default_filtering_def)
  then obtain st where st: "build_engine_state srv_ap cfg fs' None = Some (Inr st)"
    using srv_builds [of cfg srv_ap] by (auto simp: srv_ap_def)
  then obtain eng where "build_engine srv_ap cfg fs' = Some (Inr eng)" by (simp add: build_engine_def Let_def)
  moreover have "warm_engine srv_sx cfg fs' eng = Some eng"
    using sv(2,3) by (simp add: warm_engine_def load_stats_def load_cache_def srv_sx_def srv_ap_def new_paths_def Let_def)
  ultimately show ?thesis using prep sv(1)
    by (simp add: start_server_def read_config_def load_or_default_def Let_def)
qed

definition srv_app :: "(nat \<times> (query_key \<times> entry) list, unit, unit) app_state" where
  "srv_app = projr (the (start_server srv_sx ((), ()) Map.empty))"

lemma srv_app_started: "start_server srv_sx ((), ()) Map.empty = Some (Inr srv_app)"
  using srv_starts by (auto simp: srv_app_def)

lemma started_config:
  assumes "start_server sx sinks fs = Some (Inr s)"
  shows "\<exists>loaded needs. load_or_default (sx_parse sx) (read_config sx fs) = Inr loaded \<and> prepare_config sx fs loaded = (app_config s, needs)"
  using assms unfolding start_server_def by (auto simp: Let_def split: sum.splits option.splits prod.splits)

lemma srv_app_config: "app_config srv_app
    = default_config\<lparr>cfg_auth := default_auth\<lparr>session_secret := Some (generate_secret srv_auth [1, 2, 3])\<rparr>\<rparr>"
proof -
  obtain loaded needs where h: "load_or_default (sx_parse srv_sx) (read_config srv_sx Map.empty) = Inr loaded"
    "prepare_config srv_sx Map.empty loaded = (app_config srv_app, needs)"
    using started_config [OF srv_app_started] by blast
  then have "loaded = default_config" by (simp add: load_or_default_def read_config_def)
  then show ?thesis using h(2) by (simp add: srv_prepare)
qed

text \<open>A database of one table with transactions.\<close>

type_synonym srv_db = "sql_table \<times> sql_table option"

definition next_row_id :: "sql_table \<Rightarrow> int" where
  "next_row_id tbl = foldl max 0 (map fst tbl) + 1"

definition srv_exec :: "srv_db \<Rightarrow> string \<Rightarrow> sql_value list \<Rightarrow> (string + u64) \<times> srv_db" where
  "srv_exec db sql params =
     (case db of (tbl, txn) \<Rightarrow>
        if sql = ''BEGIN IMMEDIATE'' then (case txn of None \<Rightarrow> (Inr 0, (tbl, Some tbl)) | Some _ \<Rightarrow> (Inl ''nested'', db))
        else if sql = ''COMMIT'' then (Inr 0, (tbl, None))
        else if sql = ''ROLLBACK'' then (Inr 0, (case txn of Some old \<Rightarrow> old | None \<Rightarrow> tbl, None))
        else if sql = ''DELETE FROM queries'' then (Inr (word_of_nat (length tbl)), ([], txn))
        else (Inr 1, (tbl @ [(next_row_id tbl, params)], txn)))"

text \<open>The two statements of a page without conditions.\<close>

definition srv_query :: "srv_db \<Rightarrow> string \<Rightarrow> sql_value list \<Rightarrow> string + sql_value list list" where
  "srv_query db sql params =
     (if sql = ''SELECT DISTINCT client_ip FROM queries'' then Inr (map (\<lambda>r. [column (snd r) 1]) (fst db))
      else if sql = count_sql [] then Inr [[SInteger (int (length (fst db)))]]
      else case params of
        [SInteger limit, SInteger offset] \<Rightarrow> Inr (map project (take (nat limit) (drop (nat offset) (rev (fst db)))))
      | _ \<Rightarrow> Inl ''unknown'')"

definition srv_sql :: "srv_db sql_env" where
  "srv_sql =
     \<lparr>sq_exec = srv_exec, sq_prepare = (\<lambda>_ _. None), sq_query = srv_query,
      sq_text = (\<lambda>v. case v of SText s \<Rightarrow> Inr s | _ \<Rightarrow> Inl ''text''), sq_int = (\<lambda>v. case v of SInteger i \<Rightarrow> Inr i | _ \<Rightarrow> Inl ''int''),
      sq_real = (\<lambda>v. case v of SReal r \<Rightarrow> Inr r | _ \<Rightarrow> Inl ''real'')\<rparr>"

text \<open>Lists of texts as a text: each character is marked, and a line feed ends an element.\<close>

definition mark :: "string \<Rightarrow> string" where
  "mark t = concat (map (\<lambda>c. [CHR ''x'', c]) t)"

fun unmark :: "string \<Rightarrow> string \<Rightarrow> string list option" where
  "unmark acc [] = (if acc = [] then Some [] else None)"
| "unmark acc [x] = (if x = CHR 0x0A then Some [acc] else None)"
| "unmark acc (x # c # r) = (if x = CHR ''x'' then unmark (acc @ [c]) r else map_option (\<lambda>l. acc # l) (unmark [] (c # r)))"

definition srv_json :: json_env where
  "srv_json = \<lparr>js_answers = (\<lambda>ts. Some (concat (map (\<lambda>t. mark t @ [CHR 0x0A]) ts))), js_parse = unmark []\<rparr>"

lemma unmark_mark: "unmark acc (mark t @ CHR 0x0A # r) = (if r = [] then Some [acc @ t] else map_option (\<lambda>l. (acc @ t) # l) (unmark [] r))"
  by (induction t arbitrary: acc) (auto simp: mark_def neq_Nil_conv)

lemma srv_json_laws: "json_laws srv_json"
proof -
  have "unmark [] (concat (map (\<lambda>t. mark t @ [CHR 0x0A]) ts)) = Some ts" for ts
    by (induction ts) (auto simp: unmark_mark)
  then show ?thesis by (simp add: json_laws_def srv_json_def)
qed

definition srv_ax :: "(nat \<times> (query_key \<times> entry) list, unit, srv_db) api_env" where
  "srv_ax =
     \<lparr>ax_app = srv_ap, ax_auth = srv_auth, ax_now = 100, ax_later = 100, ax_now_ms = 100000, ax_salt = [7],
      ax_draws = [[1, 2], [3, 4]], ax_get = (\<lambda>_. SendFails ''offline''), ax_write_fails = None, ax_sql = srv_sql,
      ax_json = srv_json, ax_probe_json = (\<lambda>_. None), ax_ask = (\<lambda>_ _. ATimeout), ax_boot_draw = srv_draw, ax_rnd_id = 9,
      ax_version = ''0''\<rparr>"

definition srv_server :: "(nat \<times> (query_key \<times> entry) list, unit, unit, srv_db) server" where
  "srv_server = \<lparr>sv_app = srv_app, sv_store = ([(1, [])], None), sv_probe_store = ([], None)\<rparr>"

text \<open>A browser with a session that was issued at time 50.\<close>

definition srv_headers :: headers where
  "srv_headers = [(''cookie'', SESSION_COOKIE @ ''='' @ issue srv_auth (app_sessions srv_app) 50)]"

lemma srv_sessions: "app_sessions srv_app = \<lparr>ss_secret = [1, 2, 3], ss_ttl = SESSION_TTL_SECS\<rparr>"
  using start_server_inv(3) [OF srv_app_started]
  by (simp add: srv_app_config new_signer_def generate_secret_def srv_sx_def srv_auth_def unhex_hex)

lemma srv_env: "env_of srv_ap srv_ax" "paths_apart (ap_paths srv_ap)"
  by (simp_all add: env_of_def srv_ax_def srv_ap_def new_paths_apart)

lemma srv_session: "session_of srv_auth (app_sessions srv_app) 100 srv_headers = Valid"
  using issued_session [OF srv_auth_laws(1,2), of 50 "app_sessions srv_app" 100]
  by (simp add: srv_headers_def srv_sessions SESSION_TTL_SECS_def)

lemma srv_clear: "handle_request srv_ax srv_headers False ClearQuerylog srv_server
    = Some (ok_response OkBody, srv_server\<lparr>sv_store := ([], None)\<rparr>)"
proof -
  have "header_str srv_headers name = None" if "name \<noteq> ''cookie''" for name using that by (simp add: srv_headers_def header_str_def)
  then have "cross_origin_protection DELETE srv_headers = None"
    by (simp add: cross_origin_protection_def origin_matches_host_def)
  moreover have "require_auth srv_auth (app_sessions srv_app) 100 100 srv_headers = Some None"
    using srv_session by (simp add: require_auth_def)
  ultimately show ?thesis
    by (simp add: handle_request_def request_method_def call_method_def is_public_def srv_server_def srv_ax_def
        clear_querylog_def log_clear_def srv_sql_def srv_exec_def render_def)
qed

section \<open>The API\<close>

text \<open>
  C8. A request changes the state of the server only when its method is not one of the safe ones,
  cross-origin protection lets it pass, and it either carries a session token that has not run out and
  is signed with the server's secret, or is the setup of a server that still has no account.
\<close>

theorem state_change_authorized:
  assumes "handle_request ax hs head c s = Some (rsp, s')" "s' \<noteq> s"
  shows "request_method head c \<notin> {GET, HEAD, OPTIONS} \<and> cross_origin_protection (request_method head c) hs = None
    \<and> ((\<exists>token. cookie_token hs = Some token \<and> signed_token (ax_auth ax) (app_sessions (sv_app s)) (ax_now ax) token)
       \<or> (\<exists>creds. c = Setup creds \<and> needs_setup (cfg_auth (sv_config s))))"
  using request_changes [OF assms] by blast

theorem state_change_authorized_witness:
  "handle_request srv_ax srv_headers False ClearQuerylog srv_server = Some (ok_response OkBody, srv_server\<lparr>sv_store := ([], None)\<rparr>)
   \<and> srv_server\<lparr>sv_store := ([], None)\<rparr> \<noteq> srv_server
   \<and> (\<exists>token. cookie_token srv_headers = Some token \<and> signed_token srv_auth (app_sessions srv_app) 100 token)"
proof -
  have ne: "srv_server\<lparr>sv_store := ([], None)\<rparr> \<noteq> srv_server" by (simp add: srv_server_def)
  from state_change_authorized [OF srv_clear ne] show ?thesis using srv_clear ne by (simp add: srv_ax_def srv_server_def)
qed


lemma srv_clear_step: "api_step srv_ap (srv_server, []) (srv_server\<lparr>sv_store := ([], None)\<rparr>, [])"
  by (rule api_step.request [OF srv_env(1) srv_clear])


text \<open>
  C20. In every interleaving of requests, as long as the list numbers are not exhausted, filter lists and
  clients never share an identifier and no list has that of the custom rules; an account that exists
  is never lost, and the signing key of the sessions stays.
\<close>

theorem identifiers_unique:
  assumes "(\<lambda>a b. api_step ap a b \<and> next_list_id (sv_config (fst a)) \<noteq> 0)\<^sup>*\<^sup>* (s0, []) (s, js)" "config_ids (sv_config s0)"
  shows "config_ids (sv_config s) \<and> app_sessions (sv_app s) = app_sessions (sv_app s0)
    \<and> (needs_setup (cfg_auth (sv_config s)) \<longrightarrow> needs_setup (cfg_auth (sv_config s0)))"
proof -
  let ?step = "\<lambda>a b. api_step ap a b \<and> next_list_id (sv_config (fst a)) \<noteq> 0"
  have "jobs_ok (snd st) \<and> config_ids (sv_config (fst st)) \<and> app_sessions (sv_app (fst st)) = app_sessions (sv_app s0)
    \<and> (needs_setup (cfg_auth (sv_config (fst st))) \<longrightarrow> needs_setup (cfg_auth (sv_config s0)))" if "?step\<^sup>*\<^sup>* (s0, []) st" for st
    using that
  proof (induction rule: rtranclp_induct)
    case base
    then show ?case using assms(2) by (simp add: jobs_ok_def)
  next
    case (step a b)
    then show ?case using api_step_account [of ap a b] unfolding account_kept_def by metis
  qed
  from this [OF assms(1)] show ?thesis by simp
qed

theorem identifiers_unique_witness:
  "(\<lambda>a b. api_step srv_ap a b \<and> next_list_id (sv_config (fst a)) \<noteq> 0)\<^sup>*\<^sup>* (srv_server, []) (srv_server\<lparr>sv_store := ([], None)\<rparr>, [])
   \<and> config_ids (sv_config (srv_server\<lparr>sv_store := ([], None)\<rparr>))"
proof -
  have "next_list_id (sv_config srv_server) \<noteq> 0" "config_ids (sv_config srv_server)"
    by (simp_all add: srv_server_def srv_app_config next_list_id_def config_ids_def default_config_def default_filtering_def)
  then have "(\<lambda>a b. api_step srv_ap a b \<and> next_list_id (sv_config (fst a)) \<noteq> 0)\<^sup>*\<^sup>* (srv_server, []) (srv_server\<lparr>sv_store := ([], None)\<rparr>, [])"
    using srv_clear_step by (intro r_into_rtranclp) simp
  then show ?thesis using identifiers_unique \<open>config_ids (sv_config srv_server)\<close> by blast
qed

text \<open>
  C10. A configuration that is invalid, whose upstreams cannot be built, or that cannot be saved is
  refused without a trace: the engine, the live configuration, the logs, the sessions and the
  file stay as they were.
\<close>

theorem refused_config_harmless:
  assumes "apply_config ap cfg s = Some (Inl e, s')"
  shows "app_engine s' = app_engine s \<and> app_config s' = app_config s \<and> app_probe_log s' = app_probe_log s
    \<and> app_sessions s' = app_sessions s \<and> app_fs s' (pt_config (ap_paths ap)) = app_fs s (pt_config (ap_paths ap))"
  using apply_config_refused [OF assms] by blast

theorem refused_config_harmless_witness:
  "apply_config srv_ap (default_config\<lparr>cfg_server := default_server\<lparr>dns_bind := []\<rparr>\<rparr>) srv_app
     = Some (Inl (ConfigValidation (CInvalid ''server.dns_bind must not be empty'')), srv_app)
   \<and> app_config srv_app = app_config srv_app"
proof -
  have "apply_config srv_ap (default_config\<lparr>cfg_server := default_server\<lparr>dns_bind := []\<rparr>\<rparr>) srv_app
      = Some (Inl (ConfigValidation (CInvalid ''server.dns_bind must not be empty'')), srv_app)"
    by (simp add: apply_config_def validate_def)
  from this refused_config_harmless [OF this] show ?thesis by blast
qed

text \<open>
  C21. Whoever set the server up can log in with the same credentials, and the cookie of that login is a
  session that is valid for half its life, then renewed, and refused once its life is over.
\<close>

theorem setup_login_session:
  assumes "setup_account ax hs creds s = Some (Inr rsp, s')" "ax_auth ax' = ax_auth ax"
    and "auth_laws (ax_auth ax)" "b64_graphic (ax_auth ax)" "hash_laws (ax_auth ax)"
    and "unat (ax_now ax') + unat (ss_ttl (app_sessions (sv_app s'))) < 2 ^ 64"
  shows "\<exists>rsp' token. login ax' hs' creds s' = Some (Inr rsp', s') \<and> rs_set_cookie rsp' = Some (session_cookie token (is_https hs'))
    \<and> session_of (ax_auth ax) (app_sessions (sv_app s')) now [(''cookie'', SESSION_COOKIE @ ''='' @ token)] =
        (if unat (ax_now ax') + unat (ss_ttl (app_sessions (sv_app s'))) \<le> unat now then Invalid
         else if unat (ax_now ax') + unat (ss_ttl (app_sessions (sv_app s'))) div 2 \<le> unat now then Refresh
         else Valid)"
  using assms by (rule setup_then_login)

definition srv_creds :: credentials where
  "srv_creds = \<lparr>cr_username = ''admin'', cr_password = ''secret''\<rparr>"

lemma srv_setup: "\<exists>rsp s'. setup_account srv_ax [] srv_creds srv_server = Some (Inr rsp, s') \<and> app_sessions (sv_app s') = app_sessions srv_app"
proof -
  let ?cfg = "app_config srv_app" and ?auth = "cfg_auth (app_config srv_app)"
  let ?new = "?cfg\<lparr>cfg_auth := ?auth\<lparr>username := ''admin'', password_hash := Some ''secret''\<rparr>\<rparr>"
  have "trim ''admin'' = ''admin''" by (rule graphic_trim) (simp add: graphic_def)
  then have chk: "setup_check srv_ax srv_creds ?cfg = Inr ''secret''"
    by (simp add: setup_check_def srv_app_config needs_setup_def default_auth_def default_config_def srv_creds_def srv_ax_def
        hash_password_def srv_auth_def)
  have "plain_config ?new" by (simp add: srv_app_config plain_config_def default_config_def default_filtering_def)
  moreover have "validate (default_config\<lparr>cfg_auth := a\<rparr>) = Inr ()" for a
    using default_config_valid by (simp add: validate_ok_iff)
  then have "validate ?new = Inr ()" by (simp add: srv_app_config)
  ultimately obtain app where ap: "apply_config srv_ap ?new srv_app = Some (Inr (), app)" using srv_applies by blast
  then have "setup_account srv_ax [] srv_creds srv_server
      = Some (Inr (session_response srv_ax [] srv_server), srv_server\<lparr>sv_app := app\<rparr>)"
    using chk by (simp add: setup_account_def setup_commit_def apply_update_def srv_server_def srv_creds_def srv_ax_def Let_def)
  then show ?thesis using apply_config_applied(6) [OF ap] by auto
qed

theorem setup_login_session_witness:
  "\<exists>rsp s' rsp' token. setup_account srv_ax [] srv_creds srv_server = Some (Inr rsp, s')
     \<and> login srv_ax [] srv_creds s' = Some (Inr rsp', s')
     \<and> session_of srv_auth (app_sessions (sv_app s')) 200 [(''cookie'', SESSION_COOKIE @ ''='' @ token)] = Valid"
proof -
  obtain rsp s' where h: "setup_account srv_ax [] srv_creds srv_server = Some (Inr rsp, s')" "app_sessions (sv_app s') = app_sessions srv_app"
    using srv_setup by blast
  have ax: "ax_auth srv_ax = srv_auth" "ax_now srv_ax = 100" by (simp_all add: srv_ax_def)
  have "unat (ax_now srv_ax) + unat (ss_ttl (app_sessions (sv_app s'))) < 2 ^ 64"
    by (simp add: ax h(2) srv_sessions SESSION_TTL_SECS_def)
  from setup_login_session [OF h(1) refl _ _ _ this, unfolded ax, OF srv_auth_laws, of "[]" 200] h(1) show ?thesis
    by (auto simp: h(2) srv_sessions SESSION_TTL_SECS_def)
qed

text \<open>
  C37. The loop that draws the identifier of a new client ends once more distinct values were drawn than
  there are clients, with one that no client has.
\<close>

theorem client_id_drawn:
  assumes "distinct draws" "length existing < length draws"
  shows "\<exists>cid. new_client_id draws existing = Some cid \<and> cid \<notin> cl_id ` set existing"
  using new_client_id_found [OF assms] new_client_id_fresh by blast

definition srv_client :: client_config where
  "srv_client = \<lparr>cl_id = ''0102'', cl_name = ''tv'', cl_ids = [], cl_tags = [], cl_filtering_enabled = True\<rparr>"

theorem client_id_drawn_witness:
  "\<exists>cid. new_client_id [[1, 2], [3, 4]] [srv_client] = Some cid \<and> cid \<notin> cl_id ` set [srv_client]"
  by (rule client_id_drawn) simp_all

section \<open>The logs on disk\<close>

lemma next_row_id_above: "(i, p) \<in> set tbl \<Longrightarrow> i < next_row_id tbl"
proof -
  have "x \<le> foldl max a xs" if "x \<le> a \<or> x \<in> set xs" for a x :: int and xs
    using that by (induction xs arbitrary: a) (auto simp: le_max_iff_disj)
  then have "i \<in> set (map fst tbl) \<Longrightarrow> i \<le> foldl max 0 (map fst tbl)" by blast
  then show "(i, p) \<in> set tbl \<Longrightarrow> ?thesis" by (force simp: next_row_id_def)
qed

lemma srv_sql_laws: "txn_laws srv_sql LOG_INSERT_SQL id" "begin_nested srv_sql id" "conv_laws srv_sql"
proof -
  have ins: "LOG_INSERT_SQL \<notin> {''BEGIN IMMEDIATE'', ''COMMIT'', ''ROLLBACK'', ''DELETE FROM queries''}" by (simp add: LOG_INSERT_SQL_def)
  then have "srv_exec (tbl, txn) LOG_INSERT_SQL p = (Inr 1, (tbl @ [(next_row_id tbl, p)], txn))" for tbl txn p
    by (simp add: srv_exec_def)
  then show "txn_laws srv_sql LOG_INSERT_SQL id"
    unfolding txn_laws_def by (simp add: srv_sql_def) (auto simp: srv_exec_def intro: next_row_id_above)
  show "begin_nested srv_sql id" by (simp add: begin_nested_def srv_sql_def srv_exec_def)
  show "conv_laws srv_sql" by (simp add: conv_laws_def srv_sql_def)
qed

text \<open>
  C30. The writer of the query log cuts what is in its channel into batches of at most 512 entries. What
  is committed to the database grows by exactly the batches that were acknowledged, in the order of
  the channel and with nothing twice, whatever statement fails.
\<close>

theorem log_writer_order:
  assumes "txn_laws sq LOG_INSERT_SQL view" "begin_nested sq view" "view db = (tbl, None)" "ids_ascend tbl"
  shows "\<exists>bs added. concat bs = q \<and> list_all (\<lambda>b. b \<noteq> [] \<and> length b \<le> 512) bs
    \<and> committed (view (writer_run 512 (log_insert_batch sq js) (q, db))) = tbl @ added
    \<and> map snd added = map (log_insert_params js) (acknowledged (log_insert_batch sq js) bs db)"
proof -
  have "log_holds sq LOG_INSERT_SQL view db tbl" using assms by (simp add: log_holds_def settled_def)
  from querylog.writer_stores [OF this, of 512 q] show ?thesis
    using settled_committed by (fastforce simp: log_holds_def)
qed

theorem log_writer_order_witness:
  "\<exists>bs added. concat bs = [empty_entry, empty_entry] \<and> list_all (\<lambda>b. b \<noteq> [] \<and> length b \<le> 512) bs
    \<and> committed (id (writer_run 512 (log_insert_batch srv_sql srv_json) ([empty_entry, empty_entry], ([], None)))) = [] @ added
    \<and> map snd added = map (log_insert_params srv_json) (acknowledged (log_insert_batch srv_sql srv_json) bs ([], None))"
  by (rule log_writer_order [OF srv_sql_laws(1,2)]) simp_all


definition srv_log :: "(int \<times> query_log_entry) list" where
  "srv_log = [(1, empty_entry\<lparr>e_question := ''a.org''\<rparr>), (2, empty_entry\<lparr>e_question := ''b.org''\<rparr>)]"

abbreviation srv_no_filter :: log_filter where
  "srv_no_filter \<equiv> \<lparr>lf_search = None, lf_client = None, lf_blocked_only = False\<rparr>"

abbreviation srv_no_clients :: client_matcher where
  "srv_no_clients \<equiv> \<lparr>cm_hosts = Map.empty, cm_entries = []\<rparr>"


section \<open>Connections\<close>

text \<open>
  C22. On a connection shared by many exchanges, over UDP and over TLS, in every reachable state: an
  exchange that ended with a response got a message that the server sent on this connection under the
  exchange's own local id, and it answers the query of that exchange, with the query's id.
\<close>

theorem pipelined_answers_match:
  assumes "(conn_step cx ck)\<^sup>*\<^sup>* new_conn s" "cn_calls s c = Some (Done q ident (Some (Inr resp)))"
  shows "\<exists>m. m \<in> set (cn_received s) \<and> m_id m = ident \<and> resp = m\<lparr>m_id := m_id q\<rparr>
    \<and> matches_query (cx_dns cx) q resp \<and> m_id resp = m_id q"
  using conn_answer [OF conn.reachable_inv [OF refl assms(1)] assms(2)] .

definition srv_q :: message where
  "srv_q = (new_message 7 MtQuery 0)\<lparr>m_queries := [\<lparr>qry_name = ''a.org.'', qry_type = 1, qry_class = 1\<rparr>]\<rparr>"

definition srv_cx :: conn_env where
  "srv_cx = \<lparr>cx_dns = ev_dns srv_engine_env, cx_encode = (\<lambda>m. Inr [0, 7, 0]), cx_decode = (\<lambda>_. Inl ''bad'')\<rparr>"

abbreviation srv_run :: conn where
  "srv_run \<equiv> receive_done srv_cx DotConn 0 srv_q 0 (deliver (srv_q\<lparr>m_id := 0\<rparr>)
     (send_done 0 srv_q 0 (to_be16 0 @ [0]) (register DotConn 0 srv_q 0 (to_be16 0 @ [0]) (draw_id srv_cx 0 srv_q new_conn))))"

theorem pipelined_answers_match_witness:
  "(conn_step srv_cx DotConn)\<^sup>*\<^sup>* new_conn srv_run
   \<and> cn_calls srv_run 0 = Some (Done srv_q 0 (Some (Inr srv_q)))
   \<and> (\<exists>m. m \<in> set (cn_received srv_run) \<and> m_id m = 0 \<and> srv_q = m\<lparr>m_id := m_id srv_q\<rparr>)"
proof -
  let ?s1 = "draw_id srv_cx 0 srv_q new_conn"
  let ?s2 = "register DotConn 0 srv_q 0 (to_be16 0 @ [0]) ?s1"
  let ?s3 = "send_done 0 srv_q 0 (to_be16 0 @ [0]) ?s2"
  let ?s4 = "deliver (srv_q\<lparr>m_id := 0\<rparr>) ?s3"
  note defs = draw_id_def new_conn_def encode_def set_wire_id_def srv_cx_def set_call_def register_def remove_sender_def send_done_def
    deliver_def Let_def
  have c1: "cn_calls ?s1 0 = Some (Drawn srv_q 0 (to_be16 0 @ [0]))" by (simp add: defs)
  have c2: "cn_calls ?s2 0 = Some (Sending srv_q 0 (to_be16 0 @ [0]))" by (simp add: defs)
  have c3: "cn_calls ?s3 0 = Some (Awaiting srv_q 0)" "\<not> cn_dead ?s3" by (simp_all add: defs)
  have c4: "cn_calls ?s4 0 = Some (Awaiting srv_q 0)" "cn_rx ?s4 0 = Holds (srv_q\<lparr>m_id := 0\<rparr>)" by (simp_all add: defs)
  note one = rtranclp.rtrancl_into_rtrancl
  have "(conn_step srv_cx DotConn)\<^sup>*\<^sup>* new_conn ?s1" by (rule r_into_rtranclp) (rule conn_step.draw, simp add: new_conn_def)
  then have "(conn_step srv_cx DotConn)\<^sup>*\<^sup>* new_conn ?s2" by (rule one) (rule conn_step.registered [OF c1])
  then have "(conn_step srv_cx DotConn)\<^sup>*\<^sup>* new_conn ?s3" by (rule one) (rule conn_step.sent [OF c2])
  then have "(conn_step srv_cx DotConn)\<^sup>*\<^sup>* new_conn ?s4" by (rule one) (rule conn_step.frame, simp_all add: c3)
  then have steps: "(conn_step srv_cx DotConn)\<^sup>*\<^sup>* new_conn srv_run" by (rule one) (rule conn_step.received [OF c4(1)], simp add: c4(2))
  have "matches_query (cx_dns srv_cx) srv_q srv_q" by (simp add: matches_query_def srv_q_def srv_cx_def srv_engine_env_def)
  then have "cn_calls srv_run 0 = Some (Done srv_q 0 (Some (Inr srv_q)))"
    unfolding receive_done_def c4(2)
    by (simp add: finish_def remove_sender_def set_call_def exchange_result_def Let_def split: option.split)
  with steps pipelined_answers_match [OF steps this] show ?thesis by blast
qed

text \<open>
  C32. The framed queries of a TCP connection are answered one by one and in order, each response in a
  frame of its own, until the peer closes; the loop ends by itself.
\<close>

theorem tcp_serves_in_order:
  assumes "answers_all dx run n qs eng outs eng'" "list_all (\<lambda>q. length q \<le> 65535) qs" "list_all (\<lambda>o'. length o' \<le> 65535) outs"
    and "\<And>k. tc_len_ok tc k \<and> tc_body_ok tc k \<and> tc_write tc k = WroteAll"
  shows "serve_tcp dx tc run n (concat (map frame qs)) eng = Some (concat (map frame outs), None, eng')"
  using assms by (rule serve_tcp_in_order)

theorem tcp_serves_in_order_witness:
  "serve_tcp (ev_dns srv_engine_env) \<lparr>tc_len_ok = (\<lambda>_. True), tc_body_ok = (\<lambda>_. True), tc_write = (\<lambda>_. WroteAll)\<rparr>
     (\<lambda>n ing eng. Some (EWire [word_of_nat n], eng @ [n])) 3 (concat (map frame [[1], [2]])) []
   = Some (concat (map frame [[3], [4]]), None, [3, 4])"
proof (rule tcp_serves_in_order)
  have "parse_query [1] = None" "parse_query [2] = None" by code_simp+
  then show "answers_all (ev_dns srv_engine_env) (\<lambda>n ing eng. Some (EWire [word_of_nat n], eng @ [n])) 3 [[1], [2]] [] [[3], [4]] [3, 4]"
    by (simp add: parse_ingress_def srv_engine_env_def)
qed simp_all

end
