(* ===== verification/Spec2Isabelle.thy ===== *)
theory Spec2Isabelle
  imports Filter_List Config Service_Properties Upstream_Properties Telemetry_Properties Server_Properties
begin

text \<open>
  Verification of bulwark, a DNS resolver that filters: queries are judged by rule lists, answered
  from a cache, or forwarded to encrypted upstreams, and an HTTP API manages the configuration,
  the lists, the clients and the logs. The sources are the four crates under \<open>src/crates\<close> and
  the server under \<open>src/server/src\<close>.

  \<^bold>\<open>How the program is put together.\<close> A listener (\<open>bulwark-engine/src/server.rs\<close>) parses a query
  and gives it to \<open>Engine::handle\<close> (\<open>lib.rs\<close>). The engine finds the client (\<open>clients.rs\<close>), asks the
  filter (\<open>bulwark-filter\<close>), looks into the cache (\<open>cache.rs\<close>, with \<open>wire.rs\<close> for the bytes), and
  otherwise asks the upstream pool (\<open>bulwark-upstream\<close>: \<open>pool.rs\<close> over the transports); it filters the
  answer, stores it, and records the outcome in the statistics and the query log. The server
  (\<open>main.rs\<close>, \<open>app.rs\<close>, \<open>api.rs\<close>) builds the engine from the configuration (\<open>bulwark-config\<close>) and
  replaces its parts when a request changes it; \<open>persist.rs\<close> moves the logs to the stores
  (\<open>store.rs\<close>, \<open>probe_store.rs\<close>) and keeps the snapshots.

  \<^bold>\<open>Conventions.\<close> A struct is a record, an enum a datatype; a machine integer is a word of its
  width; a \<open>&str\<close> is the list of its UTF-8 bytes. A panic (an index, a slice, an overflowing
  \<open>Instant\<close>) is \<open>None\<close>, an error a left value of a sum. A \<open>f64\<close>, an \<open>Instant\<close> and a \<open>Duration\<close> are
  real numbers where the code only compares and adds them. A third-party crate is a field of an
  environment record, passed to the definitions that call it: \<open>filter_ext\<close> (\<open>regex\<close>, \<open>ipnet\<close>,
  \<open>ahash\<close>), \<open>dns_ext\<close> (\<open>hickory-proto\<close>), \<open>cache_ext\<close> (\<open>lru\<close>), \<open>pool_env\<close>, \<open>conn_env\<close> and \<open>doh_env\<close> (sockets,
  TLS, HTTP), \<open>auth_env\<close> (Argon2, HMAC, base64), \<open>sql_env\<close> (\<open>turso\<close>). What a theorem needs of one is a
  named predicate (\<open>regex_laws\<close>, \<open>lru_laws\<close>, \<open>channel_laws\<close>, \<open>auth_laws\<close>, \<open>txn_laws\<close>, ...), and the witness of
  the theorem has a concrete environment that satisfies it. The iteration order of a hash map,
  a random draw and the clock are arguments too. Code that awaits is cut where another
  task may run, and the pieces are the steps of a relation; locks are the steps' atomicity.

  \<^bold>\<open>Shared theories.\<close>
  \<^item> \<open>Bulwark_Prelude\<close>: integer types, the string and slice operations of Rust's standard library, the
    lemmas on them, the collection \<open>panic_free\<close>. \<open>Net_Addr\<close>: the addresses of \<open>std::net\<close>.
  \<^item> \<open>Transition_System\<close>: the locale \<open>step_invariant\<close>, interpreted by every step relation below.
  \<^item> \<open>Send_Gate\<close>: the locale \<open>send_gate\<close> of a bounded channel behind a flag, interpreted by the query
    log and the probe log. \<open>Cache_Contract\<close>: the locale \<open>response_cache\<close>, what the pipeline relies on
    from the cache, interpreted by \<open>Dns_Cache\<close>. The locale \<open>hash_index\<close> of \<open>Filter_Engine\<close> is the
    contract of the domain index, the locale \<open>batch_store\<close> of \<open>Persist\<close> that of a store for its writer,
    interpreted by both logs.

  \<^bold>\<open>Filtering\<close> (\<open>crates/bulwark-filter/src\<close>).
  \<^item> \<open>Filter_Rule\<close> (\<open>rule.rs\<close>), \<open>Filter_Token\<close> (\<open>token.rs\<close>), \<open>Regex_Fragment\<close> (what the parser emits for
    the \<open>regex\<close> crate), \<open>Filter_Parser\<close> (\<open>parser.rs\<close>), \<open>Filter_Engine\<close> and \<open>Filter_Verdict\<close> (\<open>engine.rs\<close>),
    \<open>Filter_List\<close> (\<open>list.rs\<close>).
  \<^item> Shown: the compiled engine, with its arenas, hash index and token index, answers every query
    without a panic with the verdict of an eligible rule of highest priority; the token index
    misses no rule; verdicts do not depend on the client unless a rule says so; compilation
    drops duplicates, cancelled and covered rules only.

  \<^bold>\<open>The resolver\<close> (\<open>crates/bulwark-engine/src\<close>).
  \<^item> \<open>Dns_Wire\<close> (\<open>wire.rs\<close>), \<open>Dns_Message\<close> (the message type and the helpers of \<open>transport.rs\<close>), \<open>Dns_Cache\<close>
    (\<open>cache.rs\<close>), \<open>Block_Response\<close> (\<open>block.rs\<close>), \<open>Client_Matcher\<close> (\<open>clients.rs\<close>), \<open>Query_Log\<close> (\<open>querylog.rs\<close>),
    \<open>Heavy_Hitters\<close> and \<open>Stats\<close> (\<open>stats.rs\<close>), \<open>Query_Pipeline\<close> (\<open>lib.rs\<close>), \<open>Dns_Listener\<close> (\<open>server.rs\<close>).
  \<^item> Shown: scanning stays inside any buffer and patching equals encoding the changed message; a
    lookup serves what was inserted with the remaining TTL, within the configured bounds; a
    snapshot restores the live entries, and any bytes import; in every interleaving of
    queries, refreshes and reloads no answer from the cache shows a filtered client what the
    live filter blocks, and the memoized verdicts are those of the live filter; a TCP
    connection is answered in order; statistics count what was recorded.

  \<^bold>\<open>Upstreams\<close> (\<open>crates/bulwark-upstream/src\<close>).
  \<^item> \<open>Upstream_Spec\<close> (\<open>spec.rs\<close>, \<open>error.rs\<close>), \<open>Bootstrap\<close> (\<open>bootstrap.rs\<close>), \<open>Probe_Log\<close> (\<open>probe_log.rs\<close>),
    \<open>Upstream_Pool\<close> and \<open>Single_Flight\<close> (\<open>pool.rs\<close>), \<open>Pipelined_Conn\<close> and \<open>Transports\<close> (\<open>plain.rs\<close>, \<open>dot.rs\<close>, \<open>doq.rs\<close>,
    \<open>doh.rs\<close>, with the pending map of \<open>transport.rs\<close>).
  \<^item> Shown: failover refines "first answer, else first response, else last error"; health is a
    function of the history; every upstream is tried once in the order of health; concurrent
    calls for one key share a flight whose registration has exactly one owner, and every
    waiting call can return; on a shared connection every exchange gets a response to its own
    query; written specifications parse back.

  \<^bold>\<open>The server\<close> (\<open>src/server/src\<close>, with \<open>crates/bulwark-config/src\<close>).
  \<^item> \<open>Config\<close> (\<open>lib.rs\<close>, \<open>defaults.rs\<close> of the configuration), \<open>App_State\<close> (\<open>app.rs\<close>), \<open>Session\<close> (\<open>auth.rs\<close>), \<open>Http_Guard\<close>,
    \<open>Api\<close> and \<open>Api_Safety\<close> (\<open>api.rs\<close>, \<open>dto.rs\<close>), \<open>Sql_Store\<close>, \<open>Log_Store\<close> and \<open>Probe_Store\<close> (\<open>store.rs\<close>, \<open>probe_store.rs\<close>),
    \<open>Persist\<close> (\<open>persist.rs\<close>), \<open>Startup\<close> (\<open>main.rs\<close>).
  \<^item> Shown: only requests with a signed session, or the first setup, change the state, and none
    from another origin; from the start on and in every interleaving of requests the live
    configuration is valid, is the one on disk and runs in the engine; a refused one leaves no
    trace; identifiers are unique; the account of a setup logs in; a save interrupted at any
    point leaves the old or the new file; the log writer loses nothing it acknowledged; a
    page of the log is the right slice of the entries that match.

  The properties are stated in this theory, in \<open>Service_Properties\<close>, \<open>Upstream_Properties\<close>,
  \<open>Telemetry_Properties\<close> and \<open>Server_Properties\<close>, each beside a witness at a concrete input.

  \<^bold>\<open>Loops and bounds.\<close> Every loop over data is structural or has a measure: the walk over a message
  shrinks the rest of the buffer, a connection's loop the bytes the peer sends, the writer its
  channel. Loops that wait for the outside (listeners, probes, timers) are step relations or
  single rounds. The draw of a client id takes the list of its draws and is shown to end once
  more distinct values were drawn than there are clients. Bounds that theorems assume are
  those of the encodings: 64-bit counters below \<open>2 ^ 64\<close>, list numbers not exhausted, rules that
  fit the 8- and 16-bit fields of the compiled engine, offsets of a page below \<open>2 ^ 63\<close>.

  \<^bold>\<open>What modelling showed.\<close> Lemmas that state surprising behaviour: \<open>failed_commit_stays_open\<close> in
  \<open>Sql_Store\<close>, \<open>setup_race\<close> and \<open>delete_list_loses_text\<close> in \<open>Api_Safety\<close>, \<open>id_reuse_closes_both\<close> in
  \<open>Pipelined_Conn\<close>, \<open>alt_svc_overflow\<close> in \<open>Transports\<close>, \<open>retention_wraps\<close> in \<open>Stats\<close>,
  \<open>identity_h3_collision\<close> in \<open>Upstream_Spec\<close>, \<open>override_saved\<close> in \<open>Startup\<close>.

  \<^bold>\<open>Not modelled.\<close> Binding and reading sockets, TLS and HTTP client construction (\<open>tlsconf.rs\<close>,
  \<open>build_client\<close>, \<open>endpoint\<close>), the database's own behaviour and schema text, directory creation and
  file modes, tracing and the allocator: they only call third-party code. The embedded web
  interface and the generated API description (\<open>assets.rs\<close>, \<open>openapi.rs\<close>) have no logic. Memory
  reports of the filter engine, the benchmarks under \<open>benches\<close> and \<open>examples\<close>, and the tests are
  left out. Floating-point rounding is not modelled, and of Unicode only what acts on UTF-8 bytes.
\<close>

section \<open>Filtering\<close>

definition demo_list :: string where
  "demo_list =
     ''||ads.com^'' @ [CHR 0x0A] @ ''@@||good.ads.com^$important'' @ [CHR 0x0A]
     @ ''||x*.net^'' @ [CHR 0x0A]"

definition demo_client :: client_info where
  "demo_client = \<lparr>ci_ip = None, ci_name = None, ci_tags = []\<rparr>"

lemma demo_list_ok:
  "list_all (\<lambda>(lid, name, tx). text_ok tx) [(1, ''demo'', demo_list)]"
  "total_size [(1, ''demo'', demo_list)] \<le> 2 ^ 23" "ascii ''t.ads.com''"
proof -
  show "list_all (\<lambda>(lid, name, tx). text_ok tx) [(1, ''demo'', demo_list)]" by code_simp
  show "total_size [(1, ''demo'', demo_list)] \<le> 2 ^ 23" by (simp add: total_size_def demo_list_def)
  show "ascii ''t.ads.com''" by code_simp
qed

text \<open>
  C1. An engine compiled from filter lists answers every query without a panic, and its
  verdict is that of an eligible rule that no eligible rule of the lists beats in
  priority; with no eligible rule it is the default. The rules of the lists are those that
  \<open>$badfilter\<close> leaves, one per signature, before pruning. The lists are ASCII with lines of
  at most 255 bytes and of at most 8 MiB in all, so that the record fields do not wrap.
\<close>

theorem compiled_engine_correct:
  assumes "regex_laws fx" "sort_laws fx"
    and "list_all (\<lambda>(lid, name, tx). text_ok tx) ls" "total_size ls \<le> 2 ^ 23" "ascii domain"
  shows "\<exists>e v. build fx (compile_lists fx ls) = Some (e, c_stats (compile_lists fx ls))
           \<and> check fx e domain rtype ci = Some v
           \<and> verdict_ok fx (deduped (compile_lists fx ls)) (prune_redundant (deduped (compile_lists fx ls)))
               (query_name domain) rtype ci v"
  using assms by (rule compiled_verdict)

theorem compiled_engine_correct_witness:
  "\<exists>e v. build ref_ext (compile_lists ref_ext [(1, ''demo'', demo_list)])
             = Some (e, c_stats (compile_lists ref_ext [(1, ''demo'', demo_list)]))
           \<and> check ref_ext e ''t.ads.com'' ''A'' demo_client = Some v
           \<and> verdict_ok ref_ext (deduped (compile_lists ref_ext [(1, ''demo'', demo_list)]))
               (prune_redundant (deduped (compile_lists ref_ext [(1, ''demo'', demo_list)])))
               (query_name ''t.ads.com'') ''A'' demo_client v"
  by (rule compiled_engine_correct [OF ref_regex_laws ref_sort_laws demo_list_ok])

text \<open>
  C6. A wildcard rule is found through its index tokens: whenever the compiled pattern of a
  parsed line matches a name, every index token of the rule is a token of that name.
\<close>

theorem index_tokens_complete:
  assumes "regex_laws fx" "ascii line" "ascii d"
    and "parse_line fx line = Inr (Rules rs)" "br \<in> set rs"
  shows "tokens_sound fx (pat (br_rule br)) (index_tokens br) d"
  using assms by (rule parse_line_tokens_sound)

theorem index_tokens_complete_witness:
  "\<exists>rs br. parse_line ref_ext ''||ads*track.net^'' = Inr (Rules rs) \<and> br \<in> set rs
     \<and> tokens_sound ref_ext (pat (br_rule br)) (index_tokens br) ''x.adstrack.net''"
proof -
  obtain rs where rs: "parse_line ref_ext ''||ads*track.net^'' = Inr (Rules rs)" "rs \<noteq> []"
  proof -
    have "case parse_line ref_ext ''||ads*track.net^'' of Inr (Rules rs) \<Rightarrow> rs \<noteq> [] | _ \<Rightarrow> False" by code_simp
    then show thesis using that by (auto split: sum.splits parsed.splits)
  qed
  have a: "ascii ''||ads*track.net^''" "ascii ''x.adstrack.net''" by code_simp+
  have "hd rs \<in> set rs" using rs(2) by simp
  then show ?thesis using rs index_tokens_complete [OF ref_regex_laws a rs(1)] by blast
qed

text \<open>
  C7. When no rule has a \<open>$client\<close> or \<open>$ctag\<close> modifier, the verdict of a query does not depend on
  the client, which is what lets the engine memoize response verdicts across clients.
\<close>

theorem verdict_client_independent:
  assumes "from_rules fx rs = Some e" "\<not> has_client_dependent_rules e"
  shows "check fx e domain rtype ci1 = check fx e domain rtype ci2"
  using assms by (rule check_client_independent)

definition demo_rule :: build_rule where
  "demo_rule =
     \<lparr>br_rule = \<lparr>rid = 0, raw = ''||ads.com^'', act = Block, pat = Subdomain ''ads.com'', mods = None,
                  list_id = 1\<rparr>,
      badfilter = False, signature = ''||ads.com^'', index_tokens = []\<rparr>"

lemma demo_rule_buildable: "buildable [demo_rule]" "\<not> client_dependent demo_rule"
  by (simp_all add: buildable_def demo_rule_def raws_def doms_def raw_of_def dom_text_def rule_fits_def
      starts_char_def char_boundary_def client_dependent_def continuation_byte_def)

theorem verdict_client_independent_witness:
  "\<exists>e. from_rules ref_ext [demo_rule] = Some e \<and> \<not> has_client_dependent_rules e
     \<and> check ref_ext e ''t.ads.com'' ''A'' demo_client
       = check ref_ext e ''t.ads.com'' ''A'' (demo_client\<lparr>ci_name := Some ''tv''\<rparr>)"
proof -
  obtain e where e: "from_rules ref_ext [demo_rule] = Some e"
    using from_rules_engine [OF demo_rule_buildable(1) ref_regex_laws] by blast
  moreover have "\<not> has_client_dependent_rules e"
    using from_rules_fields(1) [OF e] demo_rule_buildable(2) by simp
  ultimately show ?thesis using verdict_client_independent by blast
qed

text \<open>
  Deduplication keeps exactly one rule per signature, and drops the signatures that a
  \<open>$badfilter\<close> rule names.
\<close>

theorem dedup_by_signature:
  "distinct (map signature (deduped c))
   \<and> signature ` set (deduped c) = signature ` set (c_rules c) - badfilter_sigs c"
  using deduped_signatures by blast


section \<open>The wire and the cache\<close>

definition demo_name :: wire_name where
  "demo_name = \<lparr>wn_labels = [[97, 100, 115], [99, 111, 109]], wn_pointer = None\<rparr>"

definition demo_wire :: wire_msg where
  "demo_wire =
     \<lparr>wm_id = 7, wm_flags = (1, 0),
      wm_questions = [\<lparr>wq_name = demo_name, wq_type = 1, wq_class = 1\<rparr>],
      wm_answers = [\<lparr>wr_name = \<lparr>wn_labels = [], wn_pointer = Some (192, 12)\<rparr>, wr_type = 1,
                     wr_class = 1, wr_ttl = 300, wr_rdata = [1, 2, 3, 4]\<rparr>],
      wm_authorities = [],
      wm_additionals = [\<lparr>wr_name = \<lparr>wn_labels = [], wn_pointer = None\<rparr>, wr_type = 41,
                         wr_class = 1232, wr_ttl = 32768, wr_rdata = []\<rparr>]\<rparr>"

lemma demo_wire_ok: "wire_msg_ok demo_wire" by code_simp

text \<open>
  C11. Serving a stored response from its bytes: patching the id and the TTLs at the scanned
  offsets of an encoded message gives the encoding of that message with the id and every TTL
  replaced, the EDNS pseudo-record apart.
\<close>

theorem patch_retargets_message:
  assumes "wire_msg_ok m"
  shows "\<exists>offs. scan_ttl_offsets (enc_msg m) = Some offs
     \<and> patch (enc_msg m) ident t offs = enc_msg (with_id_ttl ident t m)"
  using scan_ttl_offsets_enc [OF assms] patch_enc [OF assms] by blast

theorem patch_retargets_message_witness:
  "wire_msg_ok demo_wire
   \<and> (\<exists>offs. scan_ttl_offsets (enc_msg demo_wire) = Some offs
       \<and> patch (enc_msg demo_wire) 9 60 offs = enc_msg (with_id_ttl 9 60 demo_wire))"
  using demo_wire_ok patch_retargets_message by blast

text \<open>
  C12. The offsets scanned from any buffer below 4 GiB, encoded by this program or not, lie
  with their four bytes inside it, so that patching never writes past the end and keeps the
  length.
\<close>

theorem ttl_offsets_in_bounds:
  assumes "scan_ttl_offsets buf = Some offs" "length buf < 2 ^ 32"
  shows "(\<forall>off \<in> set offs. unat off + 4 \<le> length buf) \<and> length (patch buf ident t offs) = length buf"
  using scan_ttl_offsets_bounds [OF assms] length_patch by blast

theorem ttl_offsets_in_bounds_witness:
  "\<exists>offs. scan_ttl_offsets (enc_msg demo_wire) = Some offs
     \<and> list_all (\<lambda>off. unat off + 4 \<le> length (enc_msg demo_wire)) offs
     \<and> length (patch (enc_msg demo_wire) 9 60 offs) = length (enc_msg demo_wire)"
proof -
  obtain offs where offs: "scan_ttl_offsets (enc_msg demo_wire) = Some offs"
    using scan_ttl_offsets_enc [OF demo_wire_ok] by blast
  have "int (length (enc_msg demo_wire)) < 4294967296" using demo_wire_ok by (simp add: wire_msg_ok_def)
  then have "length (enc_msg demo_wire) < 2 ^ 32" by simp
  then show ?thesis using offs ttl_offsets_in_bounds [OF offs] by (auto simp: list_all_iff)
qed

text \<open>
  C13. The fast query parser reads an encoded one-question query back: id, flags, the dotted
  name, type, class and the EDNS payload size and DO bit; it declines the message exactly when
  its additional section has EDNS data outside the fast path.
\<close>

theorem parse_query_reads_message:
  assumes "wire_msg_ok m" "wm_questions m = [q]" "wn_pointer (wq_name q) = None"
    and "list_all safe_label (wn_labels (wq_name q))" "length (enc_name (wq_name q)) \<le> 255"
  shows "parse_query (enc_msg m) =
    map_option (\<lambda>(payload, dok).
      \<lparr>pq_id = wm_id m,
       pq_recursion_desired = (fst (wm_flags m) AND 0x01 \<noteq> 0),
       pq_checking_disabled = (snd (wm_flags m) AND 0x10 \<noteq> 0),
       pq_opcode = (drop_bit 3 (fst (wm_flags m)) AND 0x0F),
       pq_qname = dotted (wn_labels (wq_name q)),
       pq_qtype = wq_type q, pq_qclass = wq_class q,
       pq_edns_payload = payload, pq_dnssec_ok = dok\<rparr>) (edns_of m)"
  using assms by (rule parse_query_enc)

theorem parse_query_reads_message_witness:
  "\<exists>p. parse_query (enc_msg (demo_wire\<lparr>wm_answers := []\<rparr>)) = Some p
     \<and> pq_qname p = ''ads.com.'' \<and> pq_edns_payload p = Some 1232 \<and> pq_dnssec_ok p"
proof -
  let ?m = "demo_wire\<lparr>wm_answers := []\<rparr>"
  have ok: "wire_msg_ok ?m" by code_simp
  have q: "wm_questions ?m = [\<lparr>wq_name = demo_name, wq_type = 1, wq_class = 1\<rparr>]" by (simp add: demo_wire_def)
  have n: "wn_pointer (wq_name \<lparr>wq_name = demo_name, wq_type = 1, wq_class = 1\<rparr>) = None"
    "list_all safe_label (wn_labels (wq_name \<lparr>wq_name = demo_name, wq_type = 1, wq_class = 1\<rparr>))"
    by code_simp+
  have len: "length (enc_name (wq_name \<lparr>wq_name = demo_name, wq_type = 1, wq_class = 1\<rparr>)) \<le> 255"
    by (simp add: demo_name_def enc_name_def enc_label_def)
  have "edns_of ?m = Some (Some 1232, True)" "dotted (wn_labels demo_name) = ''ads.com.''" by code_simp+
  then show ?thesis using parse_query_reads_message [OF ok q n(1) n(2) len] by simp
qed

text \<open>
  C14. A lookup in an enabled cache finds the entry of the key and nothing else: fresh entries
  are served with their remaining TTL, entries past it within the stale window with the stale
  TTL and marked for a refresh, older ones are evicted. The entry is looked up under the
  invariant that keeps shard indices in range, which the lookup preserves.
\<close>

theorem cache_lookup_correct:
  assumes "cache_wf c" "lru_laws cx" "c_enabled c"
  shows "\<exists>c'. cache_get cx now c key ident =
      Some (c', Option.bind (cache_find cx c key)
                  (\<lambda>e. hit_of e ident (classify (stale_max_age c) now (cache_find cx c key))))
    \<and> cache_wf c'
    \<and> counters c' = counters_after (classify (stale_max_age c) now (cache_find cx c key)) (counters c)
    \<and> cache_find cx c' =
        (if classify (stale_max_age c) now (cache_find cx c key) = LExpired
         then (cache_find cx c)(key := None) else cache_find cx c)"
  using assms by (rule cache_get_spec)

definition demo_cache :: "(nat \<times> (query_key \<times> entry) list) dns_cache" where
  "demo_cache = new_cache lru_ref 10 0 86400 60"

definition demo_key :: query_key where
  "demo_key = \<lparr>k_name = ''ads.com.'', k_rtype = 1, k_class = 1, k_dnssec_ok = False,
               k_checking_disabled = False\<rparr>"

lemma demo_cache_ok: "cache_wf demo_cache" "c_enabled demo_cache"
  by (simp_all add: demo_cache_def new_cache_wf) (simp add: new_cache_def Let_def)

theorem cache_lookup_correct_witness:
  "\<exists>c'. cache_get lru_ref 0 demo_cache demo_key 7 =
      Some (c', Option.bind (cache_find lru_ref demo_cache demo_key)
                  (\<lambda>e. hit_of e 7 (classify (stale_max_age demo_cache) 0 (cache_find lru_ref demo_cache demo_key))))
    \<and> cache_wf c'
    \<and> counters c' = counters_after
        (classify (stale_max_age demo_cache) 0 (cache_find lru_ref demo_cache demo_key)) (counters demo_cache)
    \<and> cache_find lru_ref c' =
        (if classify (stale_max_age demo_cache) 0 (cache_find lru_ref demo_cache demo_key) = LExpired
         then (cache_find lru_ref demo_cache)(demo_key := None) else cache_find lru_ref demo_cache)"
  by (rule cache_lookup_correct [OF demo_cache_ok(1) lru_ref_laws demo_cache_ok(2)])

definition demo_message :: message where
  "demo_message = (new_message 7 MtResponse 0)
     \<lparr>m_queries := [\<lparr>qry_name = ''ads.com.'', qry_type = 1, qry_class = 1\<rparr>],
      m_answers := [from_rdata ''ads.com.'' 300 (RD_A 0x01020304)]\<rparr>"

definition demo_dns :: dns_ext where
  "demo_dns =
     \<lparr>to_vec = (\<lambda>_. Some (enc_msg demo_wire)), from_vec = (\<lambda>_. Some demo_message),
      name_from_str = Some, name_eq_ignore_root = (=),
      edns_default = \<lparr>ed_version = 0, ed_max_payload = 512, ed_dnssec_ok = False, ed_options = []\<rparr>,
      edns_payload_set = max 512, rdata_display = (\<lambda>_. []), rtype_display = (\<lambda>_. ''A''),
      rcode_debug_upper = (\<lambda>_. [])\<rparr>"

text \<open>
  C15. Storing and serving: a cacheable response inserted under a key and looked up within its
  TTL comes back as its own bytes, with the asker's id and the TTL counted down by the seconds
  that passed; the response verdict stored with it comes back too.
\<close>

theorem cache_insert_then_get:
  assumes "cache_wf c" "lru_laws cx" "c_enabled c" "cacheable_ttl c m = Some t"
    and "to_vec dx m = Some (enc_msg wm)" "wire_msg_ok wm"
    and "elapsed_secs now' now < uint t"
  shows "\<exists>c' sv c''. insert_inner dx cx now c key m v = Some (c', sv)
    \<and> cache_get cx now' c' key ident = Some (c'', Some
        \<lparr>hit_response = CWire (enc_msg (with_id_ttl ident (t - word_of_int (elapsed_secs now' now)) wm))
            (m_response_code m) (if store_summaries c then map (summarize dx) (m_answers m) else []),
         hit_freshness = Fresh, hit_verdict = v\<rparr>)"
proof -
  obtain c' where ins: "insert_inner dx cx now c key m v = Some (c', snd (stored_form dx c m))"
    using insert_inner_spec [OF assms(1-4)] by blast
  show ?thesis
    using ins get_after_insert [OF assms(1-4) ins assms(7), of ident]
    unfolding serve_stored_wire [OF assms(5,6)] by blast
qed

theorem cache_insert_then_get_witness:
  "\<exists>c' sv c''. insert_inner demo_dns lru_ref 0 demo_cache demo_key demo_message None = Some (c', sv)
    \<and> cache_get lru_ref 2000000000 c' demo_key 9 = Some (c'', Some
        \<lparr>hit_response = CWire (enc_msg (with_id_ttl 9 (300 - word_of_int (elapsed_secs 2000000000 0)) demo_wire))
            (m_response_code demo_message)
            (if store_summaries demo_cache then map (summarize demo_dns) (m_answers demo_message) else []),
         hit_freshness = Fresh, hit_verdict = None\<rparr>)"
proof -
  have t: "cacheable_ttl demo_cache demo_message = Some 300" by code_simp
  have v: "to_vec demo_dns demo_message = Some (enc_msg demo_wire)" by (simp add: demo_dns_def)
  have e: "elapsed_secs 2000000000 0 < uint (300 :: u32)" by code_simp
  show ?thesis
    by (rule cache_insert_then_get [OF demo_cache_ok(1) lru_ref_laws demo_cache_ok(2) t v demo_wire_ok e])
qed

text \<open>
  C26. Only NOERROR and NXDOMAIN responses that are not truncated are cached, with a positive
  TTL between the configured bounds.
\<close>

theorem cached_ttl_bounds:
  assumes "cacheable_ttl c m = Some t" "max_ttl c = 0 \<or> min_ttl c \<le> max_ttl c"
  shows "0 < t \<and> min_ttl c \<le> t \<and> (max_ttl c = 0 \<or> t \<le> max_ttl c)
    \<and> (m_response_code m = RC_NoError \<or> m_response_code m = RC_NXDomain) \<and> \<not> m_truncation m"
  using cacheable_ttl_bounds [OF assms(1)] assms(2) by blast

theorem cached_ttl_bounds_witness:
  "(0 :: u32) < 300 \<and> min_ttl demo_cache \<le> 300 \<and> (max_ttl demo_cache = 0 \<or> 300 \<le> max_ttl demo_cache)
    \<and> (m_response_code demo_message = RC_NoError \<or> m_response_code demo_message = RC_NXDomain)
    \<and> \<not> m_truncation demo_message"
proof -
  have "cacheable_ttl demo_cache demo_message = Some 300" by code_simp
  moreover have "max_ttl demo_cache = 0 \<or> min_ttl demo_cache \<le> max_ttl demo_cache" by code_simp
  ultimately show ?thesis by (rule cached_ttl_bounds)
qed


definition demo_entry :: entry where
  "demo_entry = \<lparr>stored = StWire (enc_msg demo_wire) [31] 0 [''A 1.2.3.4''], stored_at = 0, ttl = 300,
                 verdict = None\<rparr>"

definition demo_filled :: "(nat \<times> (query_key \<times> entry) list) dns_cache" where
  "demo_filled = demo_cache\<lparr>shards := (shards demo_cache)[0 := (2, [(demo_key, demo_entry)])]\<rparr>"

lemma demo_filled_entries: "snapshot_entries lru_ref 0 demo_filled = [(demo_key, demo_entry)]"
  by code_simp




text \<open>
  The query that goes upstream carries no EDNS options and asks for at most 4096 bytes,
  keeps the DO bit and the cache key, and normalizing it again changes nothing.
\<close>

theorem upstream_query_normalized:
  assumes "edns_laws dx"
  shows "key_from_message (normalize_upstream_edns dx m) = key_from_message m
    \<and> (case m_edns (normalize_upstream_edns dx m) of None \<Rightarrow> m_edns m = None
       | Some e \<Rightarrow> ed_options e = [] \<and> ed_max_payload e \<le> MAX_UDP_PAYLOAD \<and> ed_dnssec_ok e = dnssec_ok m)
    \<and> normalize_upstream_edns dx (normalize_upstream_edns dx m) = normalize_upstream_edns dx m"
  using normalize_key normalize_clean [OF assms] normalize_idempotent [OF assms] by blast

theorem upstream_query_normalized_witness:
  "key_from_message (normalize_upstream_edns demo_dns demo_message) = key_from_message demo_message
    \<and> (case m_edns (normalize_upstream_edns demo_dns demo_message) of None \<Rightarrow> m_edns demo_message = None
       | Some e \<Rightarrow> ed_options e = [] \<and> ed_max_payload e \<le> MAX_UDP_PAYLOAD \<and> ed_dnssec_ok e = dnssec_ok demo_message)
    \<and> normalize_upstream_edns demo_dns (normalize_upstream_edns demo_dns demo_message)
      = normalize_upstream_edns demo_dns demo_message"
proof (rule upstream_query_normalized)
  show "edns_laws demo_dns" by (simp add: edns_laws_def demo_dns_def MAX_UDP_PAYLOAD_def)
qed

section \<open>Configuration\<close>

definition demo_yaml :: "config \<Rightarrow> string + string" where
  "demo_yaml _ = Inr ''version: 1''"

text \<open>
  C29. Saving the configuration is atomic: if the process stops after any number of the
  save's file-system steps, the file holds what it held before or the complete new text with
  mode 0600; after all of them it holds the new text.
\<close>

theorem config_save_atomic:
  assumes "yaml cfg = Inr body"
  shows "fs_run (take n (fst (save_steps yaml p cfg))) fs p \<in> {fs p, Some (body, 384)}
    \<and> fs_run (fst (save_steps yaml p cfg)) fs p = Some (body, 384)"
  using save_atomic [of yaml cfg body] assms by blast

theorem config_save_atomic_witness:
  "fs_run (take 2 (fst (save_steps demo_yaml (''/etc'', ''bulwark.yaml'') default_config)))
       Map.empty (''/etc'', ''bulwark.yaml'') \<in> {Map.empty (''/etc'', ''bulwark.yaml''), Some (''version: 1'', 384)}
    \<and> fs_run (fst (save_steps demo_yaml (''/etc'', ''bulwark.yaml'') default_config))
        Map.empty (''/etc'', ''bulwark.yaml'') = Some (''version: 1'', 384)"
  by (rule config_save_atomic) (simp add: demo_yaml_def)

text \<open>
  A configuration that loads is valid: there is an address to bind, the cache TTL bounds
  are ordered, at least one upstream is active, and no client has an empty id. With no file
  the default configuration loads.
\<close>

theorem loaded_config_valid:
  assumes "load_or_default yaml f = Inr cfg"
  shows "dns_bind (cfg_server cfg) \<noteq> []
    \<and> (max_ttl_secs (cfg_cache cfg) = 0 \<or> min_ttl_secs (cfg_cache cfg) \<le> max_ttl_secs (cfg_cache cfg))
    \<and> active_specs (cfg_upstreams cfg) \<noteq> [] \<and> (\<forall>c \<in> set (cfg_clients cfg). cl_id c \<noteq> [])"
  using load_or_default_valid [OF assms] by (simp add: validate_ok_iff)

theorem loaded_config_valid_witness:
  "load_or_default (\<lambda>_. Inl ''no parser'') Absent = Inr default_config
    \<and> dns_bind (cfg_server default_config) \<noteq> []
    \<and> active_specs (cfg_upstreams default_config) \<noteq> []"
proof -
  have "load_or_default (\<lambda>_. Inl ''no parser'') Absent = Inr default_config" by (simp add: load_or_default_def)
  then show ?thesis using loaded_config_valid by blast
qed

text \<open>
  Normalizing the upstream text keeps the active upstreams, in order, keeps the
  configuration's validity, and is idempotent.
\<close>

theorem upstream_text_normalized:
  "active_specs (normalize u) = active_specs u \<and> normalize (normalize u) = normalize u
   \<and> validate (cfg\<lparr>cfg_upstreams := normalize (cfg_upstreams cfg)\<rparr>) = validate cfg"
  using active_specs_normalize normalize_idem validate_normalize by blast

text \<open>
  The id allocated for a new filter list is above every id in use, as long as the
  largest 32-bit value is not one of them.
\<close>

theorem list_id_fresh:
  assumes "\<forall>l \<in> set (filter_lists (cfg_filtering cfg)). fl_id l \<noteq> - 1"
  shows "\<forall>l \<in> set (filter_lists (cfg_filtering cfg)). fl_id l < next_list_id cfg"
  using next_list_id_above assms by blast

definition demo_lists :: config where
  "demo_lists = default_config\<lparr>cfg_filtering := default_filtering\<lparr>filter_lists :=
     [\<lparr>fl_id = 3, fl_name = ''a'', fl_url = None, fl_enabled = True, fl_rule_count = 0, fl_last_updated = None\<rparr>]\<rparr>\<rparr>"

theorem list_id_fresh_witness: "(3 :: u32) < next_list_id demo_lists"
proof -
  have "\<forall>l \<in> set (filter_lists (cfg_filtering demo_lists)). fl_id l \<noteq> - 1" by code_simp
  from list_id_fresh [OF this] show ?thesis by (simp add: demo_lists_def)
qed

section \<open>Responses and clients\<close>


text \<open>
  The timers of the negative-caching record are signed 32-bit numbers: they saturate
  instead of wrapping, for every configured TTL, and the minimum is that TTL.
\<close>

theorem negative_soa_saturates:
  "\<exists>s. r_data (negative_soa dx name t) = RD_SOA s \<and> soa_minimum s = t
     \<and> sint (soa_refresh s) = min (uint t) (2 ^ 31 - 1) \<and> soa_retry s = soa_refresh s
     \<and> sint (soa_expire s) = min (2 ^ 31 - 1) (10 * sint (soa_refresh s))"
  by (rule negative_soa_timers [of dx name t]) blast



end
